(* ===== verification/Prelude.thy ===== *)
theory Prelude
  imports Main "HOL-Library.Word"
begin

text \<open>
  Shared vocabulary of the development: names for the machine integers of the C sources,
  the generic loops that several components use, list facts on them, and the interfaces
  (locales) that more than one component provides.

  \<^item> \<open>feed\<close> and \<open>drain\<close> are the two loop shapes the queues of the code are used with,
    \<open>while (n-- > 0 && !full) put\<close> and \<open>while (n-- > 0 && !empty) get\<close>;
  \<^item> \<open>ring_list\<close> reads the live part of a ring buffer as a list;
  \<^item> locale \<open>bounded_fifo\<close> is the contract of a bounded queue against a list.
\<close>

unbundle bit_operations_syntax

type_synonym u8 = "8 word"
type_synonym u16 = "16 word"
type_synonym u32 = "32 word"

named_theorems ring_simps \<open>index arithmetic of ring buffers\<close>
named_theorems op_defs \<open>defining equations of the operations of the components\<close>

section \<open>Lists\<close>

lemma upt_join: "i \<le> j \<Longrightarrow> j \<le> k \<Longrightarrow> [i..<j] @ [j..<k] = [i..<k]"
  by (metis le_Suc_ex upt_add_eq_append)

lemma fold_update_each:
  "n \<le> length q \<Longrightarrow> fold (\<lambda>i q. q[i := f (q ! i)]) [0..<n] q = map f (take n q) @ drop n q"
proof (induction n)
  case (Suc n)
  then have "(map f (take n q) @ drop n q) ! n = q ! n" "drop n q = q ! n # drop (Suc n) q"
    by (simp_all add: nth_append Cons_nth_drop_Suc)
  then show ?case using Suc by (simp add: list_update_append take_Suc_conv_app_nth)
qed simp

text \<open>A write to a buffer; out of bounds it is \<open>None\<close>.\<close>

definition store :: "'a list \<Rightarrow> nat \<Rightarrow> 'a \<Rightarrow> 'a list option" where
  "store buf i c = (if i < length buf then Some (buf[i := c]) else None)"

lemma store_at: "store (xs @ d # ds) (length xs) c = Some (xs @ c # ds)"
  by (simp add: store_def)

lemma store_in: "i < length buf \<Longrightarrow> store buf i c = Some (buf[i := c])"
  by (simp add: store_def)

lemma fill_step:
  "a + n < length b \<Longrightarrow> (take a b @ replicate n v @ drop (a + n) b)[a + n := v]
     = take a b @ replicate (Suc n) v @ drop (a + Suc n) b"
  by (rule nth_equalityI) (auto simp: nth_list_update nth_append simp del: replicate_Suc)

section \<open>Loops that can fail\<close>

text \<open>\<open>for\<close> loops over the elements of a list, whose body may go wrong.\<close>

fun for_each :: "('a \<Rightarrow> 's \<Rightarrow> 's option) \<Rightarrow> 'a list \<Rightarrow> 's \<Rightarrow> 's option" where
  "for_each f [] s = Some s"
| "for_each f (x # xs) s = (case f x s of None \<Rightarrow> None | Some s' \<Rightarrow> for_each f xs s')"

lemma for_each_append: "for_each f (xs @ ys) s = (case for_each f xs s of None \<Rightarrow> None | Some s' \<Rightarrow> for_each f ys s')"
  by (induction xs arbitrary: s) (auto split: option.splits)

text \<open>The loop rule: an invariant on the elements done so far.\<close>

lemma for_each_rule:
  assumes "P [] s" "\<And>ys x zs s. xs = ys @ x # zs \<Longrightarrow> P ys s \<Longrightarrow> \<exists>s'. f x s = Some s' \<and> P (ys @ [x]) s'"
  shows "\<exists>s'. for_each f xs s = Some s' \<and> P xs s'"
  using assms(2)
proof (induction xs rule: rev_induct)
  case (snoc x xs)
  have "\<exists>s'. for_each f xs s = Some s' \<and> P xs s'" by (rule snoc.IH) (use snoc.prems in auto)
  then obtain s' where s': "for_each f xs s = Some s'" "P xs s'" by blast
  obtain s'' where "f x s' = Some s''" "P (xs @ [x]) s''" using snoc.prems [of xs x "[]"] s'(2) by blast
  then show ?case using s'(1) by (simp add: for_each_append)
qed (simp add: assms(1))

section \<open>Loops over a bounded queue\<close>

text \<open>The producer loop returns the items it could not store and the new state.\<close>

fun feed :: "('s \<Rightarrow> bool) \<Rightarrow> ('a \<Rightarrow> 's \<Rightarrow> 's) \<Rightarrow> 'a list \<Rightarrow> 's \<Rightarrow> 'a list \<times> 's" where
  "feed full put [] s = ([], s)"
| "feed full put (x # xs) s = (if full s then (x # xs, s) else feed full put xs (put x s))"

text \<open>The consumer loop returns the items it took, oldest first, and the new state.\<close>

fun drain :: "('s \<Rightarrow> bool) \<Rightarrow> ('s \<Rightarrow> 'a) \<Rightarrow> ('s \<Rightarrow> 's) \<Rightarrow> nat \<Rightarrow> 's \<Rightarrow> 'a list \<times> 's" where
  "drain emp hd_of pop 0 s = ([], s)"
| "drain emp hd_of pop (Suc n) s =
     (if emp s then ([], s)
      else let (xs, s') = drain emp hd_of pop n (pop s) in (hd_of s # xs, s'))"

section \<open>Ring buffers\<close>

definition ring_used :: "nat \<Rightarrow> nat \<Rightarrow> nat \<Rightarrow> nat" where
  "ring_used n s e = (if s \<le> e then e - s else n + e - s)"

definition ring_list :: "'a list \<Rightarrow> nat \<Rightarrow> nat \<Rightarrow> 'a list" where
  "ring_list buf s e =
     map (\<lambda>k. buf ! ((s + k) mod length buf)) [0..<ring_used (length buf) s e]"

lemma length_ring_list [simp]: "length (ring_list buf s e) = ring_used (length buf) s e"
  by (simp add: ring_list_def)

lemma ring_used_eq_0 [ring_simps]: "s < n \<Longrightarrow> e < n \<Longrightarrow> ring_used n s e = 0 \<longleftrightarrow> s = e"
  by (auto simp: ring_used_def)

lemma ring_used_bound [ring_simps]: "s < n \<Longrightarrow> e < n \<Longrightarrow> ring_used n s e \<le> n - 1"
  by (auto simp: ring_used_def)

lemma ring_used_full [ring_simps]:
  assumes "s < n" "e < n"
  shows "(e + 1) mod n = s \<longleftrightarrow> ring_used n s e = n - 1"
  using assms by (auto simp: ring_used_def mod_Suc)

lemma ring_used_enq [ring_simps]:
  assumes "s < n" "e < n" "(e + 1) mod n \<noteq> s"
  shows "ring_used n s ((e + 1) mod n) = Suc (ring_used n s e)"
  using assms by (auto simp: ring_used_def mod_Suc split: if_splits)

lemma ring_used_deq [ring_simps]:
  assumes "s < n" "e < n" "s \<noteq> e"
  shows "ring_used n s e = Suc (ring_used n ((s + 1) mod n) e)"
  using assms by (auto simp: ring_used_def mod_Suc split: if_splits)

lemma ring_used_last [ring_simps]:
  assumes "s < n" "e < n"
  shows "(s + ring_used n s e) mod n = e"
  using assms by (auto simp: ring_used_def)

lemma ring_index_other:
  assumes "s < n" "e < n" "k < ring_used n s e"
  shows "(s + k) mod n \<noteq> e"
proof
  assume "(s + k) mod n = e"
  moreover have "ring_used n s e \<le> n - 1" by (rule ring_used_bound [OF assms(1,2)])
  ultimately show False
    using assms by (auto simp: ring_used_def mod_if split: if_splits)
qed

lemma ring_list_enq:
  assumes "s < length buf" "e < length buf" "(e + 1) mod length buf \<noteq> s"
  shows "ring_list (buf[e := x]) s ((e + 1) mod length buf) = ring_list buf s e @ [x]"
proof -
  have "buf[e := x] ! ((s + k) mod length buf) = buf ! ((s + k) mod length buf)"
    if "k < ring_used (length buf) s e" for k
    using ring_index_other [OF assms(1,2) that] by simp
  then show ?thesis
    using assms(1,2) by (simp only: ring_list_def length_list_update ring_used_enq [OF assms])
      (simp add: ring_used_last)
qed

lemma ring_list_deq:
  assumes "s < length buf" "e < length buf" "s \<noteq> e"
  shows "ring_list buf s e = buf ! s # ring_list buf ((s + 1) mod length buf) e"
proof -
  let ?n = "length buf"
  have "[0..<ring_used ?n s e] = 0 # map Suc [0..<ring_used ?n ((s + 1) mod ?n) e]"
    unfolding ring_used_deq [OF assms] by (simp add: upt_conv_Cons map_Suc_upt del: upt_Suc)
  then show ?thesis
    using assms by (simp add: ring_list_def mod_simps)
qed

lemma ring_list_Nil_iff:
  assumes "s < length buf" "e < length buf"
  shows "ring_list buf s e = [] \<longleftrightarrow> s = e"
  using assms ring_used_eq_0 [of s "length buf" e]
  by (metis length_0_conv length_ring_list)

section \<open>The contract of a bounded queue\<close>

locale bounded_fifo =
  fixes is_empty :: "'s \<Rightarrow> bool"
    and is_full :: "'s \<Rightarrow> bool"
    and enq :: "'a \<Rightarrow> 's \<Rightarrow> 's"
    and front :: "'s \<Rightarrow> 'a"
    and deq :: "'s \<Rightarrow> 's"
    and contents :: "'s \<Rightarrow> 'a list"
    and invar :: "'s \<Rightarrow> bool"
    and valid :: "'a \<Rightarrow> bool"
    and cap :: nat
  assumes empty_iff: "invar s \<Longrightarrow> is_empty s \<longleftrightarrow> contents s = []"
    and full_iff: "invar s \<Longrightarrow> is_full s \<longleftrightarrow> length (contents s) = cap"
    and contents_bound: "invar s \<Longrightarrow> length (contents s) \<le> cap"
    and enq_invar: "invar s \<Longrightarrow> \<not> is_full s \<Longrightarrow> valid x \<Longrightarrow> invar (enq x s)"
    and enq_contents: "invar s \<Longrightarrow> \<not> is_full s \<Longrightarrow> valid x \<Longrightarrow> contents (enq x s) = contents s @ [x]"
    and deq_invar: "invar s \<Longrightarrow> \<not> is_empty s \<Longrightarrow> invar (deq s)"
    and deq_contents: "invar s \<Longrightarrow> \<not> is_empty s \<Longrightarrow> contents s = front s # contents (deq s)"
begin

lemma feed_spec:
  assumes "invar s" "list_all valid xs"
  shows "fst (feed is_full enq xs s) = drop (cap - length (contents s)) xs
    \<and> contents (snd (feed is_full enq xs s)) = contents s @ take (cap - length (contents s)) xs
    \<and> invar (snd (feed is_full enq xs s))"
  using assms
proof (induction xs arbitrary: s)
  case (Cons x xs)
  show ?case
  proof (cases "is_full s")
    case False
    then have "length (contents s) < cap"
      using Cons.prems full_iff contents_bound by (metis le_neq_implies_less)
    then obtain m where "cap - length (contents s) = Suc m" by (metis Suc_diff_Suc)
    moreover have "cap - length (contents (enq x s)) = m"
      using Cons.prems False calculation enq_contents [of s x] by simp
    ultimately show ?thesis
      using Cons.IH [of "enq x s"] enq_invar [of s x] Cons.prems False enq_contents [of s x] by simp
  qed (use Cons.prems full_iff in simp)
qed simp

lemma drain_spec:
  assumes "invar s"
  shows "fst (drain is_empty front deq n s) = take n (contents s)
    \<and> contents (snd (drain is_empty front deq n s)) = drop n (contents s)
    \<and> invar (snd (drain is_empty front deq n s))"
  using assms
proof (induction n arbitrary: s)
  case (Suc n)
  show ?case
  proof (cases "is_empty s")
    case False
    then show ?thesis
      using Suc.IH [OF deq_invar [OF Suc.prems False]] deq_contents [OF Suc.prems False]
      by (simp add: case_prod_unfold)
  qed (use Suc.prems empty_iff in simp)
qed simp

lemma drain_all:
  assumes "invar s" "length (contents s) \<le> n"
  shows "fst (drain is_empty front deq n s) = contents s"
    and "contents (snd (drain is_empty front deq n s)) = []"
  using drain_spec [OF assms(1), of n] assms(2) by simp_all

lemma feed_then_drain:
  assumes "invar s" "contents s = []" "length xs \<le> cap" "list_all valid xs"
  shows "fst (drain is_empty front deq (length xs) (snd (feed is_full enq xs s))) = xs"
proof -
  have f: "contents (snd (feed is_full enq xs s)) = xs" "invar (snd (feed is_full enq xs s))"
    using feed_spec [OF assms(1,4)] assms by simp_all
  show ?thesis using drain_all(1) [OF f(2)] f(1) by simp
qed

text \<open>Taking the front item and storing it again at the back turns the queue by one.\<close>

lemma rotate_once:
  assumes "invar s" "contents s \<noteq> []" "valid (front s)"
  shows "contents (enq (front s) (deq s)) = rotate1 (contents s)" "invar (enq (front s) (deq s))"
proof -
  have e: "\<not> is_empty s" using assms empty_iff by blast
  have d: "contents s = front s # contents (deq s)" "invar (deq s)"
    using deq_contents [OF assms(1) e] deq_invar [OF assms(1) e] by blast+
  have "length (contents s) \<le> cap" using contents_bound [OF assms(1)] .
  then have "length (contents (deq s)) \<noteq> cap" by (simp add: d(1))
  then have "\<not> is_full (deq s)" using full_iff [OF d(2)] by blast
  then show "contents (enq (front s) (deq s)) = rotate1 (contents s)" "invar (enq (front s) (deq s))"
    using enq_contents [OF d(2) _ assms(3)] enq_invar [OF d(2) _ assms(3)] d(1) by auto
qed

end


section \<open>The contract of a lowest-first slot allocator\<close>

text \<open>Ask for a slot \<open>n\<close> times; the slots got, in order, and the final state.\<close>

fun alloc_n :: "('s \<Rightarrow> (nat \<times> 's) option) \<Rightarrow> nat \<Rightarrow> 's \<Rightarrow> (nat list \<times> 's) option" where
  "alloc_n al 0 s = Some ([], s)"
| "alloc_n al (Suc n) s =
     (case al s of
        None \<Rightarrow> None
      | Some (i, s') \<Rightarrow> map_option (\<lambda>(is, t). (i # is, t)) (alloc_n al n s'))"

locale slot_allocator =
  fixes alloc :: "'s \<Rightarrow> (nat \<times> 's) option"
    and release :: "nat \<Rightarrow> 's \<Rightarrow> 's"
    and used :: "'s \<Rightarrow> nat set"
    and invar :: "'s \<Rightarrow> bool"
    and lo :: nat
    and hi :: nat
  assumes used_range: "invar s \<Longrightarrow> used s \<subseteq> {lo..<hi}"
    and alloc_slot: "invar s \<Longrightarrow> alloc s = Some (i, s') \<Longrightarrow> i \<in> {lo..<hi} - used s"
    and alloc_lowest: "invar s \<Longrightarrow> alloc s = Some (i, s') \<Longrightarrow> lo \<le> k \<Longrightarrow> k < i \<Longrightarrow> k \<in> used s"
    and alloc_used: "invar s \<Longrightarrow> alloc s = Some (i, s') \<Longrightarrow> used s' = insert i (used s)"
    and alloc_invar: "invar s \<Longrightarrow> alloc s = Some (i, s') \<Longrightarrow> invar s'"
    and alloc_fails: "invar s \<Longrightarrow> alloc s = None \<longleftrightarrow> used s = {lo..<hi}"
    and release_used: "invar s \<Longrightarrow> i \<in> {lo..<hi} \<Longrightarrow> used (release i s) = used s - {i}"
    and release_invar: "invar s \<Longrightarrow> i \<in> {lo..<hi} \<Longrightarrow> invar (release i s)"
begin

lemma alloc_then_release:
  assumes "invar s" "alloc s = Some (i, s')"
  shows "used (release i s') = used s"
  using assms alloc_slot alloc_used alloc_invar release_used by fastforce

lemma reuse_released:
  assumes "invar s" "alloc s = Some (i, s')"
  shows "\<exists>s''. alloc (release i s') = Some (i, s'')"
proof -
  have u: "used (release i s') = used s" and iv: "invar (release i s')"
    using assms alloc_then_release alloc_invar alloc_slot release_invar by auto
  have "used s \<noteq> {lo..<hi}" using assms alloc_fails by force
  then obtain j t where j: "alloc (release i s') = Some (j, t)"
    using alloc_fails [OF iv] u by (cases "alloc (release i s')") auto
  have "\<not> i < j" "\<not> j < i"
    using alloc_lowest [OF iv j, of i] alloc_lowest [OF assms, of j] alloc_slot [OF iv j] alloc_slot [OF assms] u by auto
  then show ?thesis using j by auto
qed

lemma alloc_count:
  assumes "invar s"
  shows "alloc_n alloc n s \<noteq> None \<longleftrightarrow> n + card (used s) \<le> hi - lo"
  using assms
proof (induction n arbitrary: s)
  case 0
  then show ?case using card_mono [OF _ used_range [OF 0]] by simp
next
  case (Suc n)
  have fin: "finite (used s)" using used_range [OF Suc.prems] finite_subset by blast
  show ?case
  proof (cases "alloc s")
    case None
    then have "card (used s) = hi - lo" using alloc_fails [OF Suc.prems] by simp
    then show ?thesis using None by simp
  next
    case (Some p)
    then obtain i s' where p: "alloc s = Some (i, s')" by (cases p) auto
    have "card (used s') = Suc (card (used s))"
      using alloc_used [OF Suc.prems p] alloc_slot [OF Suc.prems p] fin by simp
    then show ?thesis using Suc.IH [OF alloc_invar [OF Suc.prems p]] p by auto
  qed
qed

end

end
