(* ===== verification/KLib.thy ===== *)
theory KLib
  imports Prelude
begin

text \<open>
  The kernel's C library, \<open>mp3/student-distrib/lib.c\<close>.

  String functions work on the byte array their pointer points into, a \<open>u8 list\<close>; an access
  past the end of the array is the value \<open>None\<close>, so a theorem that gives \<open>Some\<close> also says that
  the code stays in bounds. \<open>cstr\<close> is the string up to the first NUL. The memory functions,
  where alignment and overlap matter, work on a flat memory \<open>mem\<close> from addresses to bytes, one
  definition per loop of the assembly; addresses are natural numbers, as no object of the
  kernel wraps around the top of the address space.
\<close>

type_synonym mem = "nat \<Rightarrow> u8"

definition str_bytes :: "string \<Rightarrow> u8 list" where
  "str_bytes s = map of_char s"

definition cstr :: "u8 list \<Rightarrow> u8 list" where
  "cstr s = takeWhile (\<lambda>c. c \<noteq> 0) s"

definition terminated :: "u8 list \<Rightarrow> bool" where
  "terminated s \<longleftrightarrow> 0 \<in> set s"

section \<open>Strings\<close>

function strlen_from :: "u8 list \<Rightarrow> nat \<Rightarrow> nat option" where
  "strlen_from s len =
     (if len < length s then (if s ! len \<noteq> 0 then strlen_from s (len + 1) else Some len) else None)"
  by pat_completeness auto
termination by (relation "measure (\<lambda>(s, len). length s - len)") auto

definition strlen :: "u8 list \<Rightarrow> nat option" where
  "strlen s = strlen_from s 0"

text \<open>The exchange loop of \<open>strrev\<close>; \<open>end\<close> starts at \<open>-1\<close> for the empty string.\<close>

function strrev_loop :: "u8 list \<Rightarrow> int \<Rightarrow> int \<Rightarrow> u8 list" where
  "strrev_loop s b e =
     (if b < e
      then (let tmp = s ! nat e; s1 = s[nat e := s ! nat b]; s2 = s1[nat b := tmp]
            in strrev_loop s2 (b + 1) (e - 1))
      else s)"
  by pat_completeness auto
termination by (relation "measure (\<lambda>(s, b, e). nat (e - b))") auto

definition strrev :: "u8 list \<Rightarrow> u8 list option" where
  "strrev s = map_option (\<lambda>n. strrev_loop s 0 (int n - 1)) (strlen s)"

text \<open>The digit table of \<open>itoa\<close>, its terminating NUL included.\<close>

definition itoa_lookup :: "u8 list" where
  "itoa_lookup = str_bytes ''0123456789ABCDEFGHIJKLMNOPQRSTUVWXYZ'' @ [0]"

text \<open>
  \<open>None\<close> when the code divides by zero, reads past the digit table or writes past \<open>buf\<close>
  (a radix of 1 never makes \<open>newval\<close> 0 and runs off the end of the buffer).
\<close>

function itoa_loop :: "nat \<Rightarrow> nat \<Rightarrow> u8 list \<Rightarrow> nat \<Rightarrow> u8 list option" where
  "itoa_loop newval radix buf pos =
     (if pos \<ge> length buf then None
      else if newval > 0
      then (if radix = 0 \<or> newval mod radix \<ge> length itoa_lookup then None
            else itoa_loop (newval div radix) radix
                   (buf[pos := itoa_lookup ! (newval mod radix)]) (pos + 1))
      else Some (buf[pos := 0]))"
  by pat_completeness auto
termination by (relation "measure (\<lambda>(v, r, buf, pos). length buf - pos)") auto

definition itoa :: "u32 \<Rightarrow> u8 list \<Rightarrow> u32 \<Rightarrow> u8 list option" where
  "itoa val buf radix =
     (if val = 0
      then (if 1 < length buf then Some (buf[0 := 0x30, 1 := 0]) else None)
      else Option.bind (itoa_loop (unat val) (unat radix) buf 0) strrev)"

function strncmp_from :: "u8 list \<Rightarrow> u8 list \<Rightarrow> nat \<Rightarrow> nat \<Rightarrow> int option" where
  "strncmp_from s1 s2 n i =
     (if i < n
      then (if i < length s1 \<and> i < length s2
            then (if s1 ! i \<noteq> s2 ! i \<or> s1 ! i = 0
                  then Some (sint (s1 ! i) - sint (s2 ! i))
                  else strncmp_from s1 s2 n (i + 1))
            else None)
      else Some 0)"
  by pat_completeness auto
termination by (relation "measure (\<lambda>(s1, s2, n, i). n - i)") auto

definition strncmp :: "u8 list \<Rightarrow> u8 list \<Rightarrow> nat \<Rightarrow> int option" where
  "strncmp s1 s2 n = strncmp_from s1 s2 n 0"

function strcpy_from :: "u8 list \<Rightarrow> u8 list \<Rightarrow> nat \<Rightarrow> u8 list option" where
  "strcpy_from dest src i =
     (if i < length src \<and> i < length dest
      then (if src ! i \<noteq> 0 then strcpy_from (dest[i := src ! i]) src (i + 1)
            else Some (dest[i := 0]))
      else None)"
  by pat_completeness auto
termination by (relation "measure (\<lambda>(d, s, i). length s - i)") auto

definition strcpy :: "u8 list \<Rightarrow> u8 list \<Rightarrow> u8 list option" where
  "strcpy dest src = strcpy_from dest src 0"

text \<open>
  \<open>strncpy\<close> tests \<open>src[i]\<close> before \<open>i < n\<close>: it reads \<open>src[n]\<close>, one byte past the part it copies.
\<close>

function strncpy_copy :: "u8 list \<Rightarrow> u8 list \<Rightarrow> nat \<Rightarrow> nat \<Rightarrow> (u8 list \<times> nat) option" where
  "strncpy_copy dest src n i =
     (if i < length src
      then (if src ! i \<noteq> 0 \<and> i < n
            then (if i < length dest then strncpy_copy (dest[i := src ! i]) src n (i + 1) else None)
            else Some (dest, i))
      else None)"
  by pat_completeness auto
termination by (relation "measure (\<lambda>(d, s, n, i). length s - i)") auto

function strncpy_pad :: "u8 list \<Rightarrow> nat \<Rightarrow> nat \<Rightarrow> u8 list option" where
  "strncpy_pad dest n i =
     (if i < n then (if i < length dest then strncpy_pad (dest[i := 0]) n (i + 1) else None)
      else Some dest)"
  by pat_completeness auto
termination by (relation "measure (\<lambda>(d, n, i). n - i)") auto

definition strncpy :: "u8 list \<Rightarrow> u8 list \<Rightarrow> nat \<Rightarrow> u8 list option" where
  "strncpy dest src n =
     (case strncpy_copy dest src n 0 of
        None \<Rightarrow> None
      | Some (dest', i) \<Rightarrow> strncpy_pad dest' n i)"

declare strlen_from.simps [simp del] strrev_loop.simps [simp del] itoa_loop.simps [simp del]
  strncmp_from.simps [simp del] strcpy_from.simps [simp del] strncpy_copy.simps [simp del]
  strncpy_pad.simps [simp del]

section \<open>Memory\<close>

text \<open>The byte loop at the top of \<open>memset\<close>: until \<open>edi\<close> is a multiple of four or \<open>ecx\<close> is 0.\<close>

function memset_top :: "u8 \<Rightarrow> nat \<Rightarrow> nat \<Rightarrow> mem \<Rightarrow> nat \<times> nat \<times> mem" where
  "memset_top al edi ecx m =
     (if ecx = 0 \<or> edi mod 4 = 0 then (edi, ecx, m)
      else memset_top al (edi + 1) (ecx - 1) (m(edi := al)))"
  by pat_completeness auto
termination by (relation "measure (\<lambda>(al, edi, ecx, m). ecx)") auto

text \<open>\<open>rep stosl\<close>, \<open>rep stosw\<close> and the trailing byte loop; a long is stored little-endian.\<close>

fun rep_stosl :: "u32 \<Rightarrow> nat \<Rightarrow> nat \<Rightarrow> mem \<Rightarrow> nat \<times> mem" where
  "rep_stosl eax edi 0 m = (edi, m)"
| "rep_stosl eax edi (Suc ecx) m =
     rep_stosl eax (edi + 4) ecx
       (m(edi := ucast eax, edi + 1 := ucast (drop_bit 8 eax),
          edi + 2 := ucast (drop_bit 16 eax), edi + 3 := ucast (drop_bit 24 eax)))"

fun rep_stosw :: "u16 \<Rightarrow> nat \<Rightarrow> nat \<Rightarrow> mem \<Rightarrow> nat \<times> mem" where
  "rep_stosw ax edi 0 m = (edi, m)"
| "rep_stosw ax edi (Suc ecx) m =
     rep_stosw ax (edi + 2) ecx (m(edi := ucast ax, edi + 1 := ucast (drop_bit 8 ax)))"

fun memset_bottom :: "u8 \<Rightarrow> nat \<Rightarrow> nat \<Rightarrow> mem \<Rightarrow> mem" where
  "memset_bottom al edi 0 m = m"
| "memset_bottom al edi (Suc edx) m = memset_bottom al (edi + 1) edx (m(edi := al))"

definition memset_asm :: "u32 \<Rightarrow> nat \<Rightarrow> nat \<Rightarrow> mem \<Rightarrow> mem" where
  "memset_asm eax s n m =
     (let (edi, ecx, m1) = memset_top (ucast eax) s n m
      in if ecx = 0 then m1
         else (let (edi2, m2) = rep_stosl eax edi (ecx div 4) m1
               in memset_bottom (ucast eax) edi2 (ecx mod 4) m2))"

definition memset :: "nat \<Rightarrow> u32 \<Rightarrow> nat \<Rightarrow> mem \<Rightarrow> mem" where
  "memset s c0 n m =
     (let c = c0 AND 0xFF
      in memset_asm (push_bit 24 c OR push_bit 16 c OR push_bit 8 c OR c) s n m)"

definition memset_word :: "nat \<Rightarrow> u32 \<Rightarrow> nat \<Rightarrow> mem \<Rightarrow> mem" where
  "memset_word s c n m = snd (rep_stosw (ucast c) s n m)"

definition memset_dword :: "nat \<Rightarrow> u32 \<Rightarrow> nat \<Rightarrow> mem \<Rightarrow> mem" where
  "memset_dword s c n m = snd (rep_stosl c s n m)"

function memcpy_top :: "nat \<Rightarrow> nat \<Rightarrow> nat \<Rightarrow> mem \<Rightarrow> nat \<times> nat \<times> nat \<times> mem" where
  "memcpy_top edi esi ecx m =
     (if ecx = 0 \<or> edi mod 4 = 0 then (edi, esi, ecx, m)
      else memcpy_top (edi + 1) (esi + 1) (ecx - 1) (m(edi := m esi)))"
  by pat_completeness auto
termination by (relation "measure (\<lambda>(edi, esi, ecx, m). ecx)") auto

fun rep_movsl :: "nat \<Rightarrow> nat \<Rightarrow> nat \<Rightarrow> mem \<Rightarrow> nat \<times> nat \<times> mem" where
  "rep_movsl edi esi 0 m = (edi, esi, m)"
| "rep_movsl edi esi (Suc ecx) m =
     rep_movsl (edi + 4) (esi + 4) ecx
       (m(edi := m esi, edi + 1 := m (esi + 1), edi + 2 := m (esi + 2), edi + 3 := m (esi + 3)))"

fun memcpy_bottom :: "nat \<Rightarrow> nat \<Rightarrow> nat \<Rightarrow> mem \<Rightarrow> mem" where
  "memcpy_bottom edi esi 0 m = m"
| "memcpy_bottom edi esi (Suc edx) m = memcpy_bottom (edi + 1) (esi + 1) edx (m(edi := m esi))"

definition memcpy :: "nat \<Rightarrow> nat \<Rightarrow> nat \<Rightarrow> mem \<Rightarrow> mem" where
  "memcpy dest src n m =
     (let (edi, esi, ecx, m1) = memcpy_top dest src n m
      in if ecx = 0 then m1
         else (let (edi2, esi2, m2) = rep_movsl edi esi (ecx div 4) m1
               in memcpy_bottom edi2 esi2 (ecx mod 4) m2))"

text \<open>\<open>rep movsb\<close> going up or, with the direction flag set, down.\<close>

fun rep_movsb_up :: "nat \<Rightarrow> nat \<Rightarrow> nat \<Rightarrow> mem \<Rightarrow> mem" where
  "rep_movsb_up edi esi 0 m = m"
| "rep_movsb_up edi esi (Suc ecx) m = rep_movsb_up (edi + 1) (esi + 1) ecx (m(edi := m esi))"

fun rep_movsb_down :: "nat \<Rightarrow> nat \<Rightarrow> nat \<Rightarrow> mem \<Rightarrow> mem" where
  "rep_movsb_down edi esi 0 m = m"
| "rep_movsb_down edi esi (Suc ecx) m = rep_movsb_down (edi - 1) (esi - 1) ecx (m(edi := m esi))"

text \<open>
  \<open>memmove\<close> returns the memory and the direction flag it leaves behind: there is no \<open>cld\<close>
  after the copy.
\<close>

definition memmove :: "nat \<Rightarrow> nat \<Rightarrow> nat \<Rightarrow> mem \<Rightarrow> mem \<times> bool" where
  "memmove dest src n m =
     (if src \<ge> dest then (rep_movsb_up dest src n m, False)
      else (rep_movsb_down (dest + n - 1) (src + n - 1) n m, True))"

declare memset_top.simps [simp del] memcpy_top.simps [simp del]


section \<open>Early screen output and printf\<close>

definition VIDEO :: nat where "VIDEO = 0xB8000"
definition NUM_COLS :: nat where "NUM_COLS = 80"
definition NUM_ROWS :: nat where "NUM_ROWS = 25"
definition ATTRIB :: u8 where "ATTRIB = 7"

record screen =
  screen_x :: nat
  screen_y :: nat
  video :: mem

definition clear_cell :: "nat \<Rightarrow> mem \<Rightarrow> mem" where
  "clear_cell i m = m(VIDEO + 2 * i := 0x20, VIDEO + 2 * i + 1 := ATTRIB)"

definition clear :: "screen \<Rightarrow> screen" where
  "clear sc = sc\<lparr>video := fold clear_cell [0..<NUM_ROWS * NUM_COLS] (video sc)\<rparr>"

text \<open>\<open>putc\<close> before the console driver is initialised; afterwards it calls the console.\<close>

definition putc_early :: "u8 \<Rightarrow> screen \<Rightarrow> screen" where
  "putc_early c sc =
     (if c = 0x0A \<or> c = 0x0D
      then sc\<lparr>screen_y := screen_y sc + 1, screen_x := 0\<rparr>
      else (let p = VIDEO + 2 * (NUM_COLS * screen_y sc + screen_x sc);
                x = (screen_x sc + 1) mod NUM_COLS
            in sc\<lparr>video := (video sc)(p := c, p + 1 := ATTRIB), screen_x := x,
                  screen_y := (screen_y sc + x div NUM_COLS) mod NUM_ROWS\<rparr>))"

definition test_interrupts :: "screen \<Rightarrow> screen" where
  "test_interrupts sc =
     sc\<lparr>video := fold (\<lambda>i m. m(VIDEO + 2 * i := m (VIDEO + 2 * i) + 1)) [0..<NUM_ROWS * NUM_COLS] (video sc)\<rparr>"

text \<open>
  \<open>puts\<close> and \<open>printf\<close> are modelled by the bytes they pass to \<open>putc\<close>, in order. The arguments of
  \<open>printf\<close> are read from the stack: a number or a pointer to a string; \<open>None\<close> stands for an
  argument that is missing or of the wrong kind and for a string that runs off its array.
\<close>

datatype stack_arg = Num u32 | Str "u8 list"

definition puts :: "u8 list \<Rightarrow> u8 list option" where
  "puts s = map_option (\<lambda>n. take n s) (strlen s)"

text \<open>\<open>%#x\<close>: the digits are put at index 8 and the gap below is filled with zeros from \<open>strlen\<close>.\<close>

fun pad_zeros :: "u8 list \<Rightarrow> nat \<Rightarrow> u8 list" where
  "pad_zeros buf i = fold (\<lambda>k b. b[k := 0x30]) [i..<8] buf"

definition printf_hex_alt :: "u32 \<Rightarrow> u8 list \<Rightarrow> u8 list option" where
  "printf_hex_alt v conv_buf =
     (case itoa v (drop 8 conv_buf) 16 of
        None \<Rightarrow> None
      | Some digs \<Rightarrow>
          (case strlen digs of
             None \<Rightarrow> None
           | Some starting_index \<Rightarrow>
               puts (drop starting_index (pad_zeros (take 8 conv_buf @ digs) starting_index))))"

text \<open>\<open>%d\<close>: the minus sign goes to index 0 and the digits of the negated value after it.\<close>

definition printf_dec :: "u32 \<Rightarrow> u8 list \<Rightarrow> u8 list option" where
  "printf_dec v conv_buf =
     (if sint v < 0
      then Option.bind (itoa (- v) (drop 1 conv_buf) 10) (\<lambda>digs. puts (0x2D # digs))
      else Option.bind (itoa v conv_buf 10) puts)"

definition emit :: "u8 list option \<Rightarrow> u8 list option \<Rightarrow> u8 list option" where
  "emit out rest = Option.bind out (\<lambda>o1. map_option ((@) o1) rest)"

text \<open>
  The conversion switch; \<open>junk\<close> is what the uninitialised \<open>conv_buf[64]\<close> holds (the buffers of
  \<open>%u\<close> and \<open>%d\<close> are its first 36 bytes). A format that ends inside a conversion makes the code
  step over the NUL and is \<open>None\<close>.
\<close>

fun printf_out :: "u8 list \<Rightarrow> bool \<Rightarrow> bool \<Rightarrow> u8 list \<Rightarrow> stack_arg list \<Rightarrow> u8 list option" where
  "printf_out junk conv alt [] args = None"
| "printf_out junk False alt (c # fmt) args =
     (if c = 0 then Some []
      else if c = 0x25 then printf_out junk True False fmt args
      else emit (Some [c]) (printf_out junk False False fmt args))"
| "printf_out junk True alt (c # fmt) args =
     (if c = 0 then None
      else if c = 0x25 then emit (Some [0x25]) (printf_out junk False False fmt args)
      else if c = 0x23 then printf_out junk True True fmt args
      else if c = 0x78 then
        (case args of Num v # as \<Rightarrow>
           emit (if alt then printf_hex_alt v junk else Option.bind (itoa v junk 16) puts)
             (printf_out junk False False fmt as) | _ \<Rightarrow> None)
      else if c = 0x75 then
        (case args of Num v # as \<Rightarrow>
           emit (Option.bind (itoa v (take 36 junk) 10) puts) (printf_out junk False False fmt as)
         | _ \<Rightarrow> None)
      else if c = 0x64 then
        (case args of Num v # as \<Rightarrow>
           emit (printf_dec v (take 36 junk)) (printf_out junk False False fmt as) | _ \<Rightarrow> None)
      else if c = 0x63 then
        (case args of Num v # as \<Rightarrow>
           emit (Some [ucast v]) (printf_out junk False False fmt as) | _ \<Rightarrow> None)
      else if c = 0x73 then
        (case args of Str s # as \<Rightarrow>
           emit (puts s) (printf_out junk False False fmt as) | _ \<Rightarrow> None)
      else printf_out junk False False fmt args)"

definition printf :: "u8 list \<Rightarrow> u8 list \<Rightarrow> stack_arg list \<Rightarrow> (u8 list \<times> nat) option" where
  "printf junk fmt args =
     Option.bind (printf_out junk False False fmt args)
       (\<lambda>out. map_option (\<lambda>n. (out, n)) (strlen fmt))"

section \<open>Facts on C strings\<close>

lemma cstr_Nil [simp]: "cstr [] = []"
  by (simp add: cstr_def)

lemma cstr_Cons [simp]: "cstr (c # s) = (if c = 0 then [] else c # cstr s)"
  by (simp add: cstr_def)

lemma zero_notin_cstr [simp]: "0 \<notin> set (cstr s)"
  by (induction s) auto

lemma terminated_simps [simp]: "\<not> terminated []" "terminated (c # s) \<longleftrightarrow> c = 0 \<or> terminated s"
  by (auto simp: terminated_def)

lemma terminated_decomp:
  "terminated s \<Longrightarrow> s = cstr s @ 0 # drop (length (cstr s) + 1) s"
  by (induction s) auto

lemma terminated_length: "terminated s \<Longrightarrow> length (cstr s) < length s"
  by (induction s) auto

lemma cstr_append_zero [simp]: "0 \<notin> set xs \<Longrightarrow> cstr (xs @ 0 # ys) = xs"
  by (induction xs) auto

lemma strlen_from_eq:
  "i \<le> length s \<Longrightarrow> strlen_from s i =
     (if terminated (drop i s) then Some (i + length (cstr (drop i s))) else None)"
proof (induction s i rule: strlen_from.induct)
  case (1 s i)
  then show ?case
    by (cases "i < length s")
      (auto simp: strlen_from.simps [of s i] strlen_from.simps [of s "length s"]
        simp flip: Cons_nth_drop_Suc)
qed

lemma strlen_eq: "strlen s = (if terminated s then Some (length (cstr s)) else None)"
  by (simp add: strlen_def strlen_from_eq)

lemma strrev_loop_eq:
  "strrev_loop (xs @ ys @ zs) (int (length xs)) (int (length xs + length ys) - 1) = xs @ rev ys @ zs"
proof (induction ys arbitrary: xs zs rule: length_induct)
  case (1 ys)
  show ?case
  proof (cases "length ys < 2")
    case True
    then show ?thesis
      by (cases ys) (auto simp: strrev_loop.simps)
  next
    case False
    then obtain a ms b where ys: "ys = a # ms @ [b]"
      by (metis One_nat_def Suc_1 append_butlast_last_id length_0_conv length_Cons lessI less_2_cases_iff
          list.exhaust zero_less_Suc)
    have e: "nat (int (length xs + length ys) - 1) = length xs + Suc (length ms)"
      by (simp add: ys)
    have n: "(xs @ ys @ zs) ! (length xs + Suc (length ms)) = b" "(xs @ ys @ zs) ! length xs = a"
      by (simp_all add: ys nth_append)
    have u: "(xs @ ys @ zs)[length xs + Suc (length ms) := a, length xs := b]
      = (xs @ [b]) @ ms @ (a # zs)"
      by (simp add: ys list_update_append)
    have c: "int (length xs) < int (length xs + length ys) - 1"
      "int (length xs + length ys) - 1 - 1 = int (length (xs @ [b]) + length ms) - 1"
      "int (length xs) + 1 = int (length (xs @ [b]))"
      by (simp_all add: ys)
    have step: "strrev_loop (xs @ ys @ zs) (int (length xs)) (int (length xs + length ys) - 1)
      = strrev_loop ((xs @ [b]) @ ms @ (a # zs)) (int (length (xs @ [b])))
          (int (length (xs @ [b]) + length ms) - 1)"
      by (subst strrev_loop.simps) (simp only: c(1) e nat_int n u if_True Let_def, simp only: c)
    show ?thesis
      unfolding step using 1 [rule_format, of ms "xs @ [b]" "a # zs"] by (simp add: ys)
  qed
qed

lemma strrev_eq:
  assumes "terminated s"
  shows "strrev s = Some (rev (cstr s) @ 0 # drop (length (cstr s) + 1) s)"
  using strrev_loop_eq [of "[]" "cstr s" "0 # drop (length (cstr s) + 1) s"] assms
    terminated_decomp [OF assms]
  by (simp add: strrev_def strlen_eq)

section \<open>Numbers\<close>

text \<open>The digits of a number, least significant first, and the value of a digit string.\<close>

function digits :: "nat \<Rightarrow> nat \<Rightarrow> nat list" where
  "digits r n = (if n = 0 \<or> r < 2 then [] else n mod r # digits r (n div r))"
  by pat_completeness auto
termination by (relation "measure snd") auto

declare digits.simps [simp del]

definition digit_value :: "u8 \<Rightarrow> nat" where
  "digit_value c = (if c \<le> 0x39 then unat c - 0x30 else unat c - 0x37)"

definition num_value :: "nat \<Rightarrow> u8 list \<Rightarrow> nat" where
  "num_value r cs = foldl (\<lambda>a c. a * r + digit_value c) 0 cs"

lemma length_itoa_lookup [simp]: "length itoa_lookup = 37"
  by (simp add: itoa_lookup_def str_bytes_def)

lemma itoa_lookup_table:
  "list_all (\<lambda>i. itoa_lookup ! i \<noteq> 0 \<and> digit_value (itoa_lookup ! i) = i) [0..<36]"
  by (simp add: itoa_lookup_def str_bytes_def of_char_def digit_value_def upt_rec nth_Cons')


lemma itoa_lookup_digit:
  assumes "i < 36"
  shows "itoa_lookup ! i \<noteq> 0" "digit_value (itoa_lookup ! i) = i"
  using itoa_lookup_table assms by (simp_all add: list_all_iff)

lemma digits_less: "2 \<le> r \<Longrightarrow> d \<in> set (digits r n) \<Longrightarrow> d < r"
  by (induction r n rule: digits.induct) (subst (asm) (2) digits.simps, auto split: if_splits)

lemma length_digits: "2 \<le> r \<Longrightarrow> n < 2 ^ k \<Longrightarrow> length (digits r n) \<le> k"
proof (induction k arbitrary: n)
  case (Suc k)
  have "n div r \<le> n div 2" using Suc.prems(1) by (simp add: div_le_mono2)
  then have "n div r < 2 ^ k" using Suc.prems(2) by simp
  from Suc.IH [OF Suc.prems(1) this] show ?case
    by (subst digits.simps) simp
qed (simp add: digits.simps)

lemma foldr_digits: "2 \<le> r \<Longrightarrow> foldr (\<lambda>d a. a * r + d) (digits r n) 0 = n"
proof (induction r n rule: digits.induct)
  case (1 r n)
  then show ?case by (subst digits.simps) (auto simp: not_less)
qed

lemma digits_last: "2 \<le> r \<Longrightarrow> 0 < n \<Longrightarrow> digits r n \<noteq> [] \<and> last (digits r n) \<noteq> 0"
proof (induction r n rule: digits.induct)
  case (1 r n)
  show ?case
  proof (cases "n div r = 0")
    case True
    then show ?thesis using 1(2,3) by (simp add: digits.simps [of r n] digits.simps [of r 0] div_eq_0_iff)
  next
    case False
    then show ?thesis using 1 by (simp add: digits.simps [of r n])
  qed
qed

lemma itoa_loop_eq:
  assumes "2 \<le> r" "r \<le> 36" "length xs + length (digits r n) < length (xs @ ys)"
  shows "itoa_loop n r (xs @ ys) (length xs) =
    Some (xs @ map ((!) itoa_lookup) (digits r n) @ 0 # drop (length (digits r n) + 1) ys)"
  using assms
proof (induction r n arbitrary: xs ys rule: digits.induct)
  case (1 r n)
  obtain y ys' where ys: "ys = y # ys'" using 1(4) by (cases ys) auto
  show ?case
  proof (cases "n = 0")
    case True
    then show ?thesis by (simp add: itoa_loop.simps digits.simps ys)
  next
    case False
    then have d: "digits r n = n mod r # digits r (n div r)"
      using 1(2) by (simp add: digits.simps [of r n])
    have m: "n mod r < 36" using 1(2,3) by (meson le_trans mod_less_divisor not_less order_less_le_trans zero_less_numeral)
    then have "itoa_loop n r (xs @ ys) (length xs)
      = itoa_loop (n div r) r ((xs @ [itoa_lookup ! (n mod r)]) @ ys') (length (xs @ [itoa_lookup ! (n mod r)]))"
      using False 1(2) by (subst itoa_loop.simps) (simp add: ys)
    also have "\<dots> = Some ((xs @ [itoa_lookup ! (n mod r)]) @ map ((!) itoa_lookup) (digits r (n div r)) @
        0 # drop (length (digits r (n div r)) + 1) ys')"
      using False 1 d ys by (intro 1(1)) auto
    finally show ?thesis by (simp add: d ys)
  qed
qed

lemma num_value_digits:
  assumes "2 \<le> r" "r \<le> 36"
  shows "num_value r (rev (map ((!) itoa_lookup) (digits r n))) = n"
proof -
  have "foldr (\<lambda>c a. a * r + digit_value c) (map ((!) itoa_lookup) ds) 0 = foldr (\<lambda>d a. a * r + d) ds 0"
    if "\<forall>d \<in> set ds. d < 36" for ds
    using that by (induction ds) (auto simp: itoa_lookup_digit)
  moreover have "\<forall>d \<in> set (digits r n). d < 36" using digits_less [OF assms(1)] assms(2) by fastforce
  ultimately show ?thesis
    using foldr_digits [OF assms(1)] by (simp add: num_value_def foldl_conv_foldr)
qed

text \<open>What \<open>itoa\<close> leaves in the buffer, for any buffer with room for the digits and the NUL.\<close>

definition itoa_text :: "nat \<Rightarrow> nat \<Rightarrow> u8 list" where
  "itoa_text r n = (if n = 0 then [0x30] else rev (map ((!) itoa_lookup) (digits r n)))"

lemma zero_notin_itoa_digits: "2 \<le> r \<Longrightarrow> r \<le> 36 \<Longrightarrow> 0 \<notin> set (map ((!) itoa_lookup) (digits r n))"
proof
  assume r: "2 \<le> r" "r \<le> 36" and "0 \<in> set (map ((!) itoa_lookup) (digits r n))"
  then obtain d where d: "d \<in> set (digits r n)" "itoa_lookup ! d = 0" by auto
  then have "d < 36" using digits_less [OF r(1)] r(2) by (meson order_less_le_trans)
  then show False using itoa_lookup_digit(1) d(2) by blast
qed

lemma zero_notin_itoa_text: "2 \<le> r \<Longrightarrow> r \<le> 36 \<Longrightarrow> 0 \<notin> set (itoa_text r n)"
  using zero_notin_itoa_digits [of r n] by (simp add: itoa_text_def)

lemma itoa_eq:
  assumes "2 \<le> unat r" "unat r \<le> 36" "length (itoa_text (unat r) (unat v)) < length buf"
  shows "itoa v buf r = Some (itoa_text (unat r) (unat v) @ 0 # drop (length (itoa_text (unat r) (unat v)) + 1) buf)"
proof (cases "v = 0")
  case True
  then obtain a b bs where "buf = a # b # bs"
    using assms(3) by (auto simp: itoa_text_def Suc_less_eq2 length_Suc_conv) (metis length_greater_0_conv neq_Nil_conv)
  then show ?thesis using True by (simp add: itoa_def itoa_text_def)
next
  case False
  then have n: "unat v \<noteq> 0" by (simp add: unat_eq_zero)
  let ?ds = "map ((!) itoa_lookup) (digits (unat r) (unat v))"
  have z: "0 \<notin> set ?ds" using zero_notin_itoa_digits assms by blast
  have "itoa_loop (unat v) (unat r) buf 0 = Some (?ds @ 0 # drop (length ?ds + 1) buf)"
    using itoa_loop_eq [of "unat r" "[]" "unat v" buf] assms n by (simp add: itoa_text_def)
  moreover have "cstr (?ds @ 0 # drop (length ?ds + 1) buf) = ?ds"
    using z by (rule cstr_append_zero)
  ultimately show ?thesis
    using False n by (simp add: itoa_def strrev_eq terminated_def itoa_text_def)
qed

lemma itoa_text_bound: "2 \<le> r \<Longrightarrow> n < 2 ^ k \<Longrightarrow> 0 < k \<Longrightarrow> length (itoa_text r n) \<le> k"
  by (simp add: itoa_text_def length_digits)

section \<open>Copying and comparing strings\<close>

lemma strcpy_from_eq:
  assumes "terminated src" "length (cstr src) < length ds" "length xs' = length xs"
  shows "strcpy_from (xs @ ds) (xs' @ src) (length xs) =
    Some (xs @ cstr src @ 0 # drop (length (cstr src) + 1) ds)"
  using assms
proof (induction src arbitrary: xs xs' ds)
  case (Cons c src)
  obtain d ds' where ds: "ds = d # ds'" using Cons.prems(2) by (cases ds) auto
  show ?case
    using Cons.IH [of ds' "xs' @ [c]" "xs @ [c]"] Cons.prems
    by (subst strcpy_from.simps) (auto simp: ds nth_append list_update_append)
qed simp

lemma strcpy_eq:
  assumes "terminated src" "length (cstr src) < length dest"
  shows "strcpy dest src = Some (cstr src @ 0 # drop (length (cstr src) + 1) dest)"
  using strcpy_from_eq [of src dest "[]" "[]"] assms by (simp add: strcpy_def)

lemma strcpy_length: "strcpy dest src = Some d \<Longrightarrow> length d = length dest"
proof -
  have "strcpy_from e src i = Some d \<Longrightarrow> length d = length e" for e i
  proof (induction e src i rule: strcpy_from.induct)
    case (1 e src i)
    then show ?case by (subst (asm) (2) strcpy_from.simps) (auto split: if_splits)
  qed
  then show "strcpy dest src = Some d \<Longrightarrow> length d = length dest" by (simp add: strcpy_def)
qed

lemma strcpy_overflow:
  assumes "length dest \<le> length (cstr src)"
  shows "strcpy dest src = None"
proof -
  have "strcpy_from d src i = None" if "i \<le> length d" "length d \<le> length (cstr src)" for d i
    using that
  proof (induction d src i rule: strcpy_from.induct)
    case (1 d src i)
    have "src ! i \<noteq> 0" if "i < length d" "i < length src"
      using that 1(3) zero_notin_cstr [of src] nth_mem [of i "cstr src"]
      by (metis cstr_def order_less_le_trans takeWhile_nth)
    then show ?case using 1 by (subst strcpy_from.simps) auto
  qed
  then show ?thesis using assms by (simp add: strcpy_def)
qed

lemma strncpy_copy_eq:
  assumes "terminated src \<or> n < i + length src" "n \<le> i + length ds" "i \<le> n"
    and "length xs = i" "length xs' = i"
  shows "strncpy_copy (xs @ ds) (xs' @ src) n i =
    Some (xs @ take (n - i) (cstr src) @ drop (length (take (n - i) (cstr src))) ds,
          i + length (take (n - i) (cstr src)))"
  using assms
proof (induction src arbitrary: xs xs' ds i)
  case (Cons c src)
  show ?case
  proof (cases "c \<noteq> 0 \<and> i < n")
    case True
    then obtain d ds' where ds: "ds = d # ds'" using Cons.prems(2) by (cases ds) auto
    have "n - i = Suc (n - Suc i)" using True by (simp add: Suc_diff_Suc)
    moreover have "strncpy_copy (xs @ ds) (xs' @ c # src) n i
        = strncpy_copy ((xs @ [c]) @ ds') ((xs' @ [c]) @ src) n (Suc i)"
      using True Cons.prems ds by (subst strncpy_copy.simps) (auto simp: nth_append)
    ultimately show ?thesis
      using Cons.IH [of "Suc i" ds' "xs @ [c]" "xs' @ [c]"] Cons.prems True ds by simp
  next
    case False
    then show ?thesis
      using Cons.prems by (subst strncpy_copy.simps) (auto simp: nth_append)
  qed
qed simp

lemma strncpy_pad_eq:
  "n \<le> length xs + length ds \<Longrightarrow> length xs \<le> n \<Longrightarrow>
   strncpy_pad (xs @ ds) n (length xs) = Some (xs @ replicate (n - length xs) 0 @ drop (n - length xs) ds)"
proof (induction "n - length xs" arbitrary: xs ds)
  case (Suc k)
  then obtain d ds' where ds: "ds = d # ds'" by (cases ds) auto
  have "n - length xs = Suc (n - Suc (length xs))" using Suc.hyps(2) by simp
  then show ?case
    using Suc.hyps(1) [of "xs @ [0]" ds'] Suc.hyps(2) Suc.prems ds
    by (subst strncpy_pad.simps) auto
qed (simp add: strncpy_pad.simps)

text \<open>\<open>strncpy\<close>: the first \<open>n\<close> characters, padded with NULs to \<open>n\<close> bytes, in place.\<close>

lemma strncpy_eq:
  assumes "terminated src \<or> n < length src" "n \<le> length dest"
  shows "strncpy dest src n = Some (take n (cstr src) @ replicate (n - length (cstr src)) 0 @ drop n dest)"
proof -
  let ?t = "take n (cstr src)"
  have c: "strncpy_copy dest src n 0 = Some (?t @ drop (length ?t) dest, length ?t)"
    using strncpy_copy_eq [of src n 0 dest "[]" "[]"] assms by simp
  have "strncpy_pad (?t @ drop (length ?t) dest) n (length ?t)
      = Some (?t @ replicate (n - length ?t) 0 @ drop (n - length ?t) (drop (length ?t) dest))"
    using assms(2) by (intro strncpy_pad_eq) auto
  then show ?thesis
    by (cases "n \<le> length (cstr src)") (simp_all add: strncpy_def c)
qed

lemma sint_diff_0: "sint a - sint b = 0 \<longleftrightarrow> a = b" for a b :: "'a::len word"
proof
  assume "sint a - sint b = 0"
  then have "(of_int (sint a) :: 'a word) = of_int (sint b)" by simp
  then show "a = b" by simp
qed simp

lemma strncmp_from_eq0:
  assumes "n \<le> i + length s1 \<or> terminated s1" "n \<le> i + length s2 \<or> terminated s2"
    and "length xs = i" "length ys = i"
  shows "\<exists>v. strncmp_from (xs @ s1) (ys @ s2) n i = Some v
    \<and> (v = 0 \<longleftrightarrow> take (n - i) (cstr s1) = take (n - i) (cstr s2))"
  using assms
proof (induction s1 arbitrary: s2 i xs ys)
  case Nil
  then show ?case by (auto simp: strncmp_from.simps)
next
  case (Cons a s1)
  show ?case
  proof (cases s2)
    case Nil
    then show ?thesis using Cons.prems by (auto simp: strncmp_from.simps)
  next
    case s2: (Cons b s2')
    consider "n \<le> i" | "i < n" "a \<noteq> b \<or> a = 0" | "i < n" "a = b" "a \<noteq> 0" by linarith
    then show ?thesis
    proof cases
      case 1
      then show ?thesis by (simp add: strncmp_from.simps)
    next
      case 2
      then have "n - i = Suc (n - Suc i)" by simp
      moreover obtain v where "v = sint a - sint b" "v = 0 \<longleftrightarrow> a = b"
        using sint_diff_0 by blast
      moreover have "strncmp_from (xs @ a # s1) (ys @ s2) n i = Some (sint a - sint b)"
        using 2 Cons.prems(3,4) s2 by (subst strncmp_from.simps) (simp add: nth_append)
      ultimately show ?thesis
        using 2 s2 by (auto split: if_splits)
    next
      case 3
      then have "n - i = Suc (n - Suc i)" by simp
      moreover have "strncmp_from (xs @ a # s1) (ys @ s2) n i
          = strncmp_from ((xs @ [a]) @ s1) ((ys @ [b]) @ s2') n (Suc i)"
        using 3 Cons.prems(3,4) s2 by (subst strncmp_from.simps) (simp add: nth_append)
      ultimately show ?thesis
        using Cons.IH [of "Suc i" s2' "xs @ [a]" "ys @ [b]"] Cons.prems 3 s2 by auto
    qed
  qed
qed


section \<open>Filling and copying memory\<close>

text \<open>Reference definitions: fill or copy each byte of a range, whatever the order.\<close>

definition fill_ref :: "nat \<Rightarrow> u8 \<Rightarrow> nat \<Rightarrow> mem \<Rightarrow> mem" where
  "fill_ref s c n m = (\<lambda>a. if s \<le> a \<and> a < s + n then c else m a)"

definition copy_ref :: "nat \<Rightarrow> nat \<Rightarrow> nat \<Rightarrow> mem \<Rightarrow> mem" where
  "copy_ref dest src n m = (\<lambda>a. if dest \<le> a \<and> a < dest + n then m (src + (a - dest)) else m a)"

lemma fill_ref_0 [simp]: "fill_ref s c 0 m = m"
  by (auto simp: fill_ref_def fun_eq_iff)

lemma fill_ref_join: "fill_ref (s + k) c n (fill_ref s c k m) = fill_ref s c (k + n) m"
  by (auto simp: fill_ref_def)

lemma fill_ref_1: "fill_ref s c (Suc 0) m = m(s := c)"
  by (auto simp: fill_ref_def fun_eq_iff)

lemma fill_ref_Suc: "fill_ref (Suc s) c n (m(s := c)) = fill_ref s c (Suc n) m"
  by (auto simp: fill_ref_def fun_eq_iff)

lemma memset_top_eq:
  "\<exists>k. k \<le> ecx \<and> memset_top al edi ecx m = (edi + k, ecx - k, fill_ref edi al k m)"
proof (induction al edi ecx m rule: memset_top.induct)
  case (1 al edi ecx m)
  show ?case
  proof (cases "ecx = 0 \<or> edi mod 4 = 0")
    case True
    then show ?thesis by (intro exI [of _ 0]) (simp add: memset_top.simps)
  next
    case False
    with 1 obtain k where "k \<le> ecx - 1" "memset_top al (edi + 1) (ecx - 1) (m(edi := al))
        = (edi + 1 + k, ecx - 1 - k, fill_ref (edi + 1) al k (m(edi := al)))" by blast
    with False show ?thesis
      using fill_ref_join [of edi 1 al k m]
      by (intro exI [of _ "Suc k"]) (auto simp: memset_top.simps [of al edi ecx m] fill_ref_1)
  qed
qed

lemma memset_bottom_eq: "memset_bottom al edi n m = fill_ref edi al n m"
  by (induction n arbitrary: edi m) (simp_all add: fill_ref_Suc)

lemma rep_stosl_eq:
  assumes "ucast w = c" "ucast (drop_bit 8 w) = c" "ucast (drop_bit 16 w) = c" "ucast (drop_bit 24 w) = c"
  shows "rep_stosl w edi n m = (edi + 4 * n, fill_ref edi c (4 * n) m)"
proof (induction n arbitrary: edi m)
  case (Suc n)
  have "m(edi := c, edi + 1 := c, edi + 2 := c, edi + 3 := c) = fill_ref edi c 4 m"
    by (auto simp: fill_ref_def fun_eq_iff)
  then show ?case
    using Suc assms by (simp add: fill_ref_join add.commute)
qed simp

lemma memset_eax_bytes:
  fixes c0 :: u32
  defines "c \<equiv> c0 AND 0xFF"
  defines "eax \<equiv> push_bit 24 c OR push_bit 16 c OR push_bit 8 c OR c"
  shows "ucast eax = (ucast c0 :: u8)" "ucast (drop_bit 8 eax) = (ucast c0 :: u8)"
    "ucast (drop_bit 16 eax) = (ucast c0 :: u8)" "ucast (drop_bit 24 eax) = (ucast c0 :: u8)"
proof -
  have c: "c = take_bit 8 c0"
    by (simp add: c_def take_bit_eq_mask mask_eq_exp_minus_1)
  show "ucast eax = (ucast c0 :: u8)"
    by (rule bit_word_eqI) (auto simp: eax_def c bit_simps)
  show "ucast (drop_bit 8 eax) = (ucast c0 :: u8)"
    by (rule bit_word_eqI) (auto simp: eax_def c bit_simps)
  show "ucast (drop_bit 16 eax) = (ucast c0 :: u8)"
    by (rule bit_word_eqI) (auto simp: eax_def c bit_simps)
  show "ucast (drop_bit 24 eax) = (ucast c0 :: u8)"
    by (rule bit_word_eqI) (auto simp: eax_def c bit_simps)
qed

lemma memset_asm_eq:
  assumes "ucast w = c" "ucast (drop_bit 8 w) = c" "ucast (drop_bit 16 w) = c" "ucast (drop_bit 24 w) = c"
  shows "memset_asm w s n m = fill_ref s c n m"
proof -
  obtain k where k: "k \<le> n" "memset_top c s n m = (s + k, n - k, fill_ref s c k m)"
    using memset_top_eq by blast
  have n: "k + 4 * ((n - k) div 4) + (n - k) mod 4 = n" using k(1) by simp
  have "fill_ref (s + k + 4 * ((n - k) div 4)) c ((n - k) mod 4)
      (fill_ref (s + k) c (4 * ((n - k) div 4)) (fill_ref s c k m)) = fill_ref s c n m"
    by (simp only: fill_ref_join add.assoc) (simp only: fill_ref_join n flip: add.assoc)
  then show ?thesis
    using k by (auto simp: memset_asm_def assms(1) rep_stosl_eq [OF assms] memset_bottom_eq)
qed

lemma memset_eq: "memset s c n m = fill_ref s (ucast c) n m"
  unfolding memset_def Let_def by (rule memset_asm_eq) (rule memset_eax_bytes)+

lemma copy_ref_0 [simp]: "copy_ref d s 0 m = m"
  by (auto simp: copy_ref_def fun_eq_iff)

lemma copy_ref_join:
  assumes "d \<le> s \<or> s + k + n \<le> d"
  shows "copy_ref (d + k) (s + k) n (copy_ref d s k m) = copy_ref d s (k + n) m"
  using assms by (auto simp: copy_ref_def fun_eq_iff)

lemma copy_ref_1: "copy_ref d s (Suc 0) m = m(d := m s)"
  by (auto simp: copy_ref_def)

lemma rep_movsb_up_eq:
  "d \<le> s \<or> s + n \<le> d \<Longrightarrow> rep_movsb_up d s n m = copy_ref d s n m"
proof (induction n arbitrary: d s m)
  case (Suc n)
  then have "Suc d \<le> Suc s \<or> Suc s + n \<le> Suc d" by auto
  then show ?case using Suc copy_ref_join [of d s 1 n m] by (simp add: copy_ref_1 fun_upd_def)
qed simp

lemma rep_movsb_down_eq:
  "s < d \<Longrightarrow> rep_movsb_down (d + n - 1) (s + n - 1) n m = copy_ref d s n m"
proof (induction n arbitrary: m)
  case (Suc n)
  then have "rep_movsb_down (d + Suc n - 1) (s + Suc n - 1) (Suc n) m
      = copy_ref d s n (m(d + n := m (s + n)))" by simp
  also have "\<dots> = copy_ref d s (Suc n) m"
    using Suc.prems by (auto simp: copy_ref_def fun_eq_iff less_Suc_eq)
  finally show ?case .
qed simp


lemma memcpy_top_eq:
  "d \<le> s \<or> s + n \<le> d \<Longrightarrow>
   \<exists>k. k \<le> n \<and> memcpy_top d s n m = (d + k, s + k, n - k, copy_ref d s k m)"
proof (induction d s n m rule: memcpy_top.induct)
  case (1 d s n m)
  show ?case
  proof (cases "n = 0 \<or> d mod 4 = 0")
    case True
    then show ?thesis by (intro exI [of _ 0]) (simp add: memcpy_top.simps)
  next
    case False
    have "d + 1 \<le> s + 1 \<or> s + 1 + (n - 1) \<le> d + 1" using 1(2) by auto
    with 1(1) [OF False] obtain k where k: "k \<le> n - 1" "memcpy_top (d + 1) (s + 1) (n - 1) (m(d := m s))
        = (d + 1 + k, s + 1 + k, n - 1 - k, copy_ref (d + 1) (s + 1) k (m(d := m s)))" by blast
    have "d \<le> s \<or> s + 1 + k \<le> d" using 1(2) k(1) False by auto
    with k False show ?thesis
      using copy_ref_join [of d s 1 k m]
      by (intro exI [of _ "Suc k"]) (auto simp: memcpy_top.simps [of d s n m] copy_ref_1)
  qed
qed

lemma rep_movsl_eq:
  "d \<le> s \<or> s + 4 * n \<le> d \<Longrightarrow> rep_movsl d s n m = (d + 4 * n, s + 4 * n, copy_ref d s (4 * n) m)"
proof (induction n arbitrary: d s m)
  case (Suc n)
  have "m(d := m s, d + 1 := m (s + 1), d + 2 := m (s + 2), d + 3 := m (s + 3)) = copy_ref d s 4 m"
    by (auto simp: copy_ref_def fun_eq_iff)
  moreover have "copy_ref (d + 4) (s + 4) (4 * n) (copy_ref d s 4 m) = copy_ref d s (4 + 4 * n) m"
    using Suc.prems by (intro copy_ref_join) auto
  moreover have "d + 4 \<le> s + 4 \<or> s + 4 + 4 * n \<le> d + 4" using Suc.prems by auto
  ultimately show ?case
    using Suc.IH by simp
qed simp

lemma memcpy_bottom_eq: "memcpy_bottom d s n m = rep_movsb_up d s n m"
  by (induction n arbitrary: d s m) simp_all

lemma memcpy_eq:
  assumes "d \<le> s \<or> s + n \<le> d"
  shows "memcpy d s n m = copy_ref d s n m"
proof -
  obtain k where k: "k \<le> n" "memcpy_top d s n m = (d + k, s + k, n - k, copy_ref d s k m)"
    using memcpy_top_eq [OF assms] by blast
  define q where "q = (n - k) div 4"
  have n: "k + 4 * q + (n - k) mod 4 = n" using k(1) by (simp add: q_def)
  have 1: "rep_movsl (d + k) (s + k) q (copy_ref d s k m)
      = (d + k + 4 * q, s + k + 4 * q, copy_ref d s (k + 4 * q) m)"
    using assms n by (subst rep_movsl_eq) (auto simp: copy_ref_join)
  have "rep_movsb_up (d + k + 4 * q) (s + k + 4 * q) ((n - k) mod 4) (copy_ref d s (k + 4 * q) m)
      = copy_ref d s n m"
    using assms n copy_ref_join [of d s "k + 4 * q" "(n - k) mod 4" m]
    by (subst rep_movsb_up_eq) (auto simp: add.assoc)
  then show ?thesis
    using k 1 by (auto simp: memcpy_def memcpy_bottom_eq simp flip: q_def)
qed


lemma num_value_itoa_text:
  "2 \<le> r \<Longrightarrow> r \<le> 36 \<Longrightarrow> num_value r (itoa_text r n) = n"
  by (simp add: itoa_text_def num_value_digits) (simp add: num_value_def digit_value_def)

lemma hd_itoa_text:
  assumes "2 \<le> r" "r \<le> 36" "0 < n"
  shows "hd (itoa_text r n) \<noteq> 0x30"
proof -
  have l: "digits r n \<noteq> []" "last (digits r n) \<noteq> 0" using digits_last assms by blast+
  then have "last (digits r n) < 36" using digits_less [OF assms(1), of "last (digits r n)" n] assms(2) by simp
  from itoa_lookup_digit(2) [OF this] l(2) have "itoa_lookup ! last (digits r n) \<noteq> 0x30"
    by (auto simp: digit_value_def)
  then show ?thesis using assms(3) l(1) by (simp add: itoa_text_def hd_rev last_map)
qed

lemma itoa_text_ne [simp]: "2 \<le> r \<Longrightarrow> itoa_text r n \<noteq> []"
  using digits_last by (auto simp: itoa_text_def)

lemma puts_terminated: "0 \<notin> set xs \<Longrightarrow> puts (xs @ 0 # ys) = Some xs"
  by (simp add: puts_def strlen_eq terminated_def)

lemma unat32_less: "unat (v :: u32) < 2 ^ 32"
  using unsigned_less [of v] by simp

lemma itoa_puts:
  assumes "2 \<le> unat r" "unat r \<le> 36" "32 < length buf"
  shows "Option.bind (itoa v buf r) puts = Some (itoa_text (unat r) (unat v))"
proof -
  have "length (itoa_text (unat r) (unat v)) < length buf"
    using itoa_text_bound [OF assms(1) unat32_less, of v] assms(3) by linarith
  then show ?thesis
    using itoa_eq [OF assms(1,2)] puts_terminated zero_notin_itoa_text [OF assms(1,2)] by simp
qed

lemma length_hex_text: "length (itoa_text 16 (unat (v :: u32))) \<le> 8"
proof -
  have "length (digits 16 n) \<le> k" if "n < 16 ^ k" for n k
    using that by (induction k arbitrary: n) (subst digits.simps, simp add: less_mult_imp_div_less mult.commute)+
  then have "length (digits 16 (unat v)) \<le> 8" using unat32_less [of v] by simp
  then show ?thesis by (simp add: itoa_text_def)
qed

lemma pad_zeros_eq: "i \<le> 8 \<Longrightarrow> 8 \<le> length b \<Longrightarrow> pad_zeros b i = take i b @ replicate (8 - i) 0x30 @ drop 8 b"
proof (induction "8 - i" arbitrary: i b)
  case (Suc k)
  then have "[i..<8] = i # [Suc i..<8]" by (simp add: upt_conv_Cons)
  moreover have "8 - i = Suc (8 - Suc i)" using Suc by simp
  ultimately show ?case
    using Suc.hyps(1) [of "Suc i" "b[i := 0x30]"] Suc.hyps(2) Suc.prems
    by (simp add: take_Suc_conv_app_nth)
qed simp

lemma printf_hex_alt_eq:
  assumes "length junk = 64"
  shows "printf_hex_alt v junk = Some (replicate (8 - length (itoa_text 16 (unat v))) 0x30 @ itoa_text 16 (unat v))"
proof -
  let ?t = "itoa_text 16 (unat v)"
  define rest where "rest = drop (length ?t + 1) (drop 8 junk)"
  have t: "0 \<notin> set ?t" "length ?t \<le> 8" using zero_notin_itoa_text length_hex_text by auto
  have i: "itoa v (drop 8 junk) 16 = Some (?t @ 0 # rest)"
    using itoa_eq [of 16 v "drop 8 junk"] t(2) assms by (simp add: rest_def)
  have s: "strlen (?t @ 0 # rest) = Some (length ?t)"
    using t(1) by (simp add: strlen_eq terminated_def)
  have "drop (length ?t) (pad_zeros (take 8 junk @ ?t @ 0 # rest) (length ?t))
      = (replicate (8 - length ?t) 0x30 @ ?t) @ 0 # rest"
    using t(2) assms by (simp add: pad_zeros_eq del: pad_zeros.simps)
  then show ?thesis
    using puts_terminated [of "replicate (8 - length ?t) 0x30 @ ?t"] t(1)
    by (simp add: printf_hex_alt_def i s del: pad_zeros.simps)
qed

lemma unat_abs_sint:
  fixes v :: u32
  shows "int (unat (if sint v < 0 then - v else v)) = \<bar>sint v\<bar>"
proof -
  have b: "\<bar>sint v\<bar> < 2 ^ 32" using sint_lt [of v] sint_ge [of v] by auto
  have "(if sint v < 0 then - v else v) = word_of_int \<bar>sint v\<bar>"
    by (simp add: wi_hom_neg)
  also have "uint (word_of_int \<bar>sint v\<bar> :: u32) = \<bar>sint v\<bar>"
    using b by (simp add: uint_word_of_int)
  finally show ?thesis by (simp only: uint_nat) 
qed

lemma printf_dec_eq:
  assumes "length junk = 36"
  shows "printf_dec v junk = Some (let d = itoa_text 10 (unat (if sint v < 0 then - v else v))
    in if sint v < 0 then 0x2D # d else d)"
proof -
  have t: "0 \<notin> set (itoa_text 10 (unat w))" for w :: u32 using zero_notin_itoa_text by simp
  have "length (itoa_text 10 (unat (- v))) < length (drop 1 junk)"
    using itoa_text_bound [of 10 "unat (- v)" 32] unat32_less [of "- v"] assms by simp
  with itoa_eq [of 10 "- v" "drop 1 junk"] t
  have "Option.bind (itoa (- v) (drop 1 junk) 10) (\<lambda>digs. puts (0x2D # digs))
      = Some (0x2D # itoa_text 10 (unat (- v)))"
    using puts_terminated [of "0x2D # itoa_text 10 (unat (- v))"] by simp
  moreover have "Option.bind (itoa v junk 10) puts = Some (itoa_text 10 (unat v))"
    using itoa_puts [of 10 junk v] assms by simp
  ultimately show ?thesis by (simp add: printf_dec_def Let_def)
qed

lemma num_value_leading_zeros: "num_value r (replicate k 0x30 @ cs) = num_value r cs"
proof -
  have "foldl (\<lambda>a c. a * r + digit_value c) 0 (replicate k 0x30) = 0"
    by (induction k) (simp_all add: digit_value_def)
  then show ?thesis by (simp add: num_value_def)
qed

section \<open>Properties\<close>

text \<open>
  C24: for every radix from 2 to 36 and any buffer of at least 33 bytes, \<open>itoa\<close> stays in the
  buffer and leaves a NUL-terminated string of digits that reads back as the number, with no
  leading zero unless the number is zero.
\<close>

theorem itoa_roundtrip:
  assumes "2 \<le> unat radix" "unat radix \<le> 36" "33 \<le> length buf"
  shows "\<exists>out. itoa v buf radix = Some out \<and> terminated out \<and> length out = length buf
    \<and> num_value (unat radix) (cstr out) = unat v \<and> cstr out \<noteq> [] \<and> (v \<noteq> 0 \<longrightarrow> hd (cstr out) \<noteq> 0x30)"
proof -
  let ?t = "itoa_text (unat radix) (unat v)"
  have "length ?t < length buf"
    using itoa_text_bound [OF assms(1) unat32_less, of v] assms(3) by linarith
  moreover have "cstr (?t @ 0 # drop (length ?t + 1) buf) = ?t"
    using zero_notin_itoa_text [OF assms(1,2)] by (rule cstr_append_zero)
  moreover have "v \<noteq> 0 \<longrightarrow> hd ?t \<noteq> 0x30"
    using hd_itoa_text [OF assms(1,2)] by (simp add: unat_gt_0)
  ultimately show ?thesis
    using itoa_eq [OF assms(1,2)] num_value_itoa_text [OF assms(1,2)] assms(1) by (simp add: terminated_def)
qed

theorem itoa_roundtrip_witness:
  "\<exists>out. itoa 0x2BAD (replicate 40 0) 16 = Some out \<and> terminated out \<and> length out = 40
    \<and> num_value 16 (cstr out) = 0x2BAD \<and> cstr out \<noteq> [] \<and> hd (cstr out) \<noteq> 0x30"
  using itoa_roundtrip [of 16 "replicate 40 0" "0x2BAD"] by simp

text \<open>
  \<open>printf\<close> with \<open>%#x\<close> prints exactly eight hexadecimal digits, zero-padded on the left, that
  read back as the argument; with \<open>%d\<close> it prints the digits of the absolute value, after a minus
  sign exactly when the argument is negative, for the smallest integer too. \<open>junk\<close> is whatever
  the stack buffer held before.
\<close>

theorem printf_numbers:
  assumes "length junk = 64"
  shows "\<exists>h d. printf junk (str_bytes ''%#x'' @ [0]) [Num v] = Some (h, 3)
      \<and> length h = 8 \<and> num_value 16 h = unat v
    \<and> printf junk (str_bytes ''%d'' @ [0]) [Num v] = Some ((if sint v < 0 then 0x2D # d else d), 2)
      \<and> int (num_value 10 d) = \<bar>sint v\<bar>"
proof -
  let ?h = "replicate (8 - length (itoa_text 16 (unat v))) 0x30 @ itoa_text 16 (unat v)"
  let ?w = "if sint v < 0 then - v else v"
  let ?d = "itoa_text 10 (unat ?w)"
  have h: "printf junk (str_bytes ''%#x'' @ [0]) [Num v] = Some (?h, 3)"
    using printf_hex_alt_eq [OF assms]
    by (simp add: printf_def str_bytes_def of_char_def emit_def strlen_eq)
  have "printf_dec v (take 36 junk) = Some (if sint v < 0 then 0x2D # ?d else ?d)"
    using printf_dec_eq [of "take 36 junk" v] assms by (simp add: Let_def)
  then have "printf junk (str_bytes ''%d'' @ [0]) [Num v] = Some ((if sint v < 0 then 0x2D # ?d else ?d), 2)"
    by (simp add: printf_def str_bytes_def of_char_def emit_def strlen_eq)
  moreover have "int (num_value 10 ?d) = \<bar>sint v\<bar>"
    using num_value_itoa_text [of 10] unat_abs_sint [of v] by simp
  moreover have "length ?h = 8" "num_value 16 ?h = unat v"
    using length_hex_text [of v] num_value_itoa_text [of 16] by (simp_all add: num_value_leading_zeros)
  ultimately show ?thesis
    using h by blast
qed


theorem printf_numbers_witness:
  "\<exists>h d. printf (replicate 64 0) (str_bytes ''%#x'' @ [0]) [Num (- 5)] = Some (h, 3)
      \<and> length h = 8 \<and> num_value 16 h = 0xFFFFFFFB
    \<and> printf (replicate 64 0) (str_bytes ''%d'' @ [0]) [Num (- 5)] = Some (0x2D # d, 2)
      \<and> int (num_value 10 d) = 5"
  using printf_numbers [of "replicate 64 0" "- 5"]
  by (simp del: printf_out.simps)

text \<open>
  \<open>memset\<close>, with its byte prologue up to a four-byte boundary, its long stores and its byte
  epilogue, sets exactly the \<open>n\<close> bytes from \<open>s\<close> to the low byte of \<open>c\<close>, whatever the alignment
  and length.
\<close>

theorem memset_fills: "memset s c n m = (\<lambda>a. if s \<le> a \<and> a < s + n then ucast c else m a)"
  by (simp add: memset_eq fill_ref_def)

text \<open>
  C25: \<open>memmove\<close> copies correctly for every overlap of source and destination: each destination
  byte gets the source byte of the memory before the call and nothing else changes. It leaves the
  direction flag set exactly when it copied downwards.
\<close>

theorem memmove_copies:
  "fst (memmove dest src n m) = (\<lambda>a. if dest \<le> a \<and> a < dest + n then m (src + (a - dest)) else m a)
   \<and> (snd (memmove dest src n m) \<longleftrightarrow> src < dest)"
  using rep_movsb_up_eq [of dest src n m] rep_movsb_down_eq [of src dest n m]
  by (auto simp: memmove_def copy_ref_def fun_eq_iff)

text \<open>
  \<open>memcpy\<close> gives the same memory as \<open>memmove\<close> whenever the destination does not start inside
  the source range, for every alignment and length.
\<close>

theorem memcpy_is_memmove:
  assumes "dest \<le> src \<or> src + n \<le> dest"
  shows "memcpy dest src n m = fst (memmove dest src n m)"
  using rep_movsb_up_eq [of dest src n m] rep_movsb_down_eq [of src dest n m] memcpy_eq [OF assms]
  by (auto simp: memmove_def)

theorem memcpy_is_memmove_witness:
  "memcpy 1 10 7 (\<lambda>a. of_nat a) = fst (memmove 1 10 7 (\<lambda>a. of_nat a))"
  using memcpy_is_memmove [of 1 10 7 "\<lambda>a. of_nat a"] by simp

text \<open>
  on two arrays that are NUL-terminated or at least \<open>n\<close> bytes long, \<open>strncmp\<close> stays in
  bounds and returns zero exactly when the first \<open>n\<close> characters of the two strings agree.
\<close>

theorem strncmp_zero_iff:
  assumes "n \<le> length s1 \<or> terminated s1" "n \<le> length s2 \<or> terminated s2"
  shows "\<exists>v. strncmp s1 s2 n = Some v \<and> (v = 0 \<longleftrightarrow> take n (cstr s1) = take n (cstr s2))"
  using strncmp_from_eq0 [of n 0 s1 s2 "[]" "[]"] assms by (simp add: strncmp_def)

theorem strncmp_zero_iff_witness:
  "\<exists>v. strncmp (str_bytes ''shell'' @ [0]) (str_bytes ''shelf'' @ [0]) 4 = Some v \<and> v = 0"
  using strncmp_zero_iff [of 4 "str_bytes ''shell'' @ [0]" "str_bytes ''shelf'' @ [0]"]
  by (simp add: str_bytes_def of_char_def)

text \<open>
  the early \<open>putc\<close> never moves to the next row when a line is full: for a printable byte the
  row stays and the column wraps to the start of the same row, so long lines overwrite
  themselves. Only a newline changes the row, and it does so without a bound.
\<close>

theorem putc_early_row:
  "screen_y (putc_early c sc) =
     (if c = 0x0A \<or> c = 0x0D then screen_y sc + 1 else screen_y sc mod 25)
   \<and> (screen_x (putc_early c sc) < 80)"
  by (auto simp: putc_early_def Let_def NUM_COLS_def NUM_ROWS_def)

end
