(* ===== verification/FileSys.thy ===== *)
theory FileSys
  imports KLib
begin

text \<open>
  The read-only file system of the kernel, \<open>mp3/student-distrib/filesys.c\<close> (and the data types
  of \<open>types.h\<close>). The image is a flat memory \<open>m\<close> with the boot block at address \<open>fs\<close>
  (\<open>filesys_addr\<close>): three counters, then 64-byte directory entries from offset 64, then one
  4096-byte block per inode, then the data blocks. Address arithmetic is modulo \<open>2 ^ 32\<close> as in
  the C code.

  The descriptor operations act on the file array of the current process, a list of
  \<open>filedesc\<close> records. \<open>syscall_getfdptr\<close> takes the address of an array element without a bounds
  check: an index outside the array is the value \<open>None\<close>. Operations return \<open>-1\<close> as the code does.
\<close>

definition BLOCK_SIZE :: nat where "BLOCK_SIZE = 4096"
definition MAX_FNAME_SIZE :: nat where "MAX_FNAME_SIZE = 32"
definition DENTRY_SIZE :: nat where "DENTRY_SIZE = 64"
definition NUM_FDS :: nat where "NUM_FDS = 8"

text \<open>The four operation tables of \<open>syscall.c\<close> that a descriptor can point to.\<close>

datatype file_optbl = RegfileOptbl | DirOptbl | RtcOptbl | StdioOptbl

record filedesc =
  optbl :: "file_optbl option"
  fd_inode :: nat
  fd_pos :: nat
  in_use :: bool

record dentry =
  fname :: "u8 list"
  ftype :: nat
  inode_num :: nat

definition addr32 :: "nat \<Rightarrow> nat" where
  "addr32 a = a mod 2 ^ 32"

text \<open>A little-endian 32-bit load and the bytes of a range.\<close>

definition load32 :: "mem \<Rightarrow> nat \<Rightarrow> nat" where
  "load32 m a = unat (m a) + 256 * unat (m (a + 1)) + 65536 * unat (m (a + 2)) + 16777216 * unat (m (a + 3))"

definition bytes_at :: "mem \<Rightarrow> nat \<Rightarrow> nat \<Rightarrow> u8 list" where
  "bytes_at m a n = map m [a..<a + n]"

section \<open>The image\<close>

definition get_num_dir_entries :: "mem \<Rightarrow> nat \<Rightarrow> nat" where
  "get_num_dir_entries m fs = load32 m fs"

definition get_num_inodes :: "mem \<Rightarrow> nat \<Rightarrow> nat" where
  "get_num_inodes m fs = load32 m (addr32 (fs + 4))"

definition get_num_data_blocks :: "mem \<Rightarrow> nat \<Rightarrow> nat" where
  "get_num_data_blocks m fs = load32 m (addr32 (fs + 8))"

definition inode_addr :: "nat \<Rightarrow> nat \<Rightarrow> nat" where
  "inode_addr fs i = addr32 (fs + i * BLOCK_SIZE + BLOCK_SIZE)"

definition inode_length :: "mem \<Rightarrow> nat \<Rightarrow> nat" where
  "inode_length m ip = load32 m ip"

definition data_blocks :: "mem \<Rightarrow> nat \<Rightarrow> nat \<Rightarrow> nat" where
  "data_blocks m ip k = load32 m (addr32 (ip + 4 + 4 * k))"

definition get_data_block :: "mem \<Rightarrow> nat \<Rightarrow> nat \<Rightarrow> nat \<Rightarrow> nat" where
  "get_data_block m fs idxOffset ip =
     addr32 (fs + BLOCK_SIZE + get_num_inodes m fs * BLOCK_SIZE + data_blocks m ip idxOffset * BLOCK_SIZE)"

definition get_inode_len :: "mem \<Rightarrow> nat \<Rightarrow> nat \<Rightarrow> nat" where
  "get_inode_len m fs inodeidx = inode_length m (inode_addr fs inodeidx)"

text \<open>
  The loop of \<open>read_data\<close>. The result is the list of bytes stored to \<open>buf[0], buf[1], ...\<close>; the
  loop counter \<open>i\<close> is also \<open>bytes_read\<close>, as both are incremented together.
\<close>

function read_loop :: "mem \<Rightarrow> nat \<Rightarrow> nat \<Rightarrow> nat \<Rightarrow> nat \<Rightarrow> nat \<Rightarrow> nat \<Rightarrow> nat \<Rightarrow> bool \<Rightarrow> u8 list" where
  "read_loop m fs ip offset len i byte_offset index_offset start_flag =
     (if i < len
      then (if (i + offset) mod 2 ^ 32 > inode_length m ip then []
            else if data_blocks m ip index_offset > get_num_data_blocks m fs then []
            else (let step = addr32 (get_data_block m fs index_offset ip + byte_offset) mod BLOCK_SIZE = 0
                             \<and> start_flag;
                      bo = (if step then 0 else byte_offset);
                      io = (if step then index_offset + 1 else index_offset)
                  in m (addr32 (get_data_block m fs io ip + bo))
                     # read_loop m fs ip offset len (i + 1) (bo + 1) io True))
      else [])"
  by pat_completeness auto
termination by (relation "measure (\<lambda>(m, fs, ip, offset, len, i, bo, io, sf). len - i)") auto

declare read_loop.simps [simp del]

definition read_data :: "mem \<Rightarrow> nat \<Rightarrow> nat \<Rightarrow> nat \<Rightarrow> nat \<Rightarrow> u8 list" where
  "read_data m fs inode offset len =
     (if inode > get_num_inodes m fs then []
      else read_loop m fs (inode_addr fs inode) offset len 0 (offset mod BLOCK_SIZE) (offset div BLOCK_SIZE) False)"

section \<open>Directory entries\<close>

definition dentry_addr :: "nat \<Rightarrow> nat \<Rightarrow> nat" where
  "dentry_addr fs i = addr32 (fs + 64 + i * DENTRY_SIZE)"

text \<open>
  The search loop of \<open>read_dentry_by_name\<close>. \<open>strcpy\<close> writes the name and its NUL into the
  caller's structure; for a name of 32 characters the NUL falls into \<open>ftype\<close>, the field after
  \<open>fname\<close>, which the next statement overwrites, hence the 33 bytes of room. The outer \<open>None\<close>
  stands for an access out of bounds, \<open>Some None\<close> for the return value \<open>-1\<close>.
\<close>

function search_dentry :: "mem \<Rightarrow> nat \<Rightarrow> u8 list \<Rightarrow> nat \<Rightarrow> dentry option option" where
  "search_dentry m fs name i =
     (if i < get_num_dir_entries m fs
      then (case strncmp (bytes_at m (dentry_addr fs i) 32) name 32 of
              None \<Rightarrow> None
            | Some v \<Rightarrow>
                (if v = 0
                 then map_option (\<lambda>d. Some \<lparr>fname = take 32 d,
                          ftype = load32 m (addr32 (dentry_addr fs i + 32)),
                          inode_num = load32 m (addr32 (dentry_addr fs i + 36))\<rparr>)
                        (strcpy (replicate 33 0) name)
                 else search_dentry m fs name (i + 1)))
      else Some None)"
  by pat_completeness auto
termination by (relation "measure (\<lambda>(m, fs, name, i). get_num_dir_entries m fs - i)") auto

declare search_dentry.simps [simp del]

definition read_dentry_by_name :: "mem \<Rightarrow> nat \<Rightarrow> u8 list \<Rightarrow> dentry option option" where
  "read_dentry_by_name m fs name =
     (case strlen name of
        None \<Rightarrow> None
      | Some n \<Rightarrow> (if n > MAX_FNAME_SIZE then Some None else search_dentry m fs name 0))"

definition read_dentry_by_index :: "mem \<Rightarrow> nat \<Rightarrow> nat \<Rightarrow> dentry option option" where
  "read_dentry_by_index m fs idx =
     (if idx > get_num_dir_entries m fs then Some None
      else map_option (\<lambda>d. Some \<lparr>fname = d,
               ftype = load32 m (addr32 (dentry_addr fs idx + 32)),
               inode_num = load32 m (addr32 (dentry_addr fs idx + 36))\<rparr>)
             (strncpy (replicate 32 0) (bytes_at m (dentry_addr fs idx) 64) 32))"

section \<open>File descriptors\<close>

definition syscall_getfdptr :: "filedesc list \<Rightarrow> int \<Rightarrow> filedesc option" where
  "syscall_getfdptr fa fd = (if 0 \<le> fd \<and> nat fd < length fa then Some (fa ! nat fd) else None)"

function free_fd_from :: "filedesc list \<Rightarrow> nat \<Rightarrow> nat option" where
  "free_fd_from fa fd =
     (if fd < NUM_FDS then (if \<not> in_use (fa ! fd) then Some fd else free_fd_from fa (fd + 1)) else None)"
  by pat_completeness auto
termination by (relation "measure (\<lambda>(fa, fd). NUM_FDS - fd)") auto

declare free_fd_from.simps [simp del]

definition get_free_fd :: "filedesc list \<Rightarrow> nat option" where
  "get_free_fd fa = free_fd_from fa 2"

definition file_open :: "mem \<Rightarrow> nat \<Rightarrow> u8 list \<Rightarrow> filedesc list \<Rightarrow> (int \<times> filedesc list) option" where
  "file_open m fs name fa =
     (let fdnum = get_free_fd fa
      in case read_dentry_by_name m fs name of
           None \<Rightarrow> None
         | Some None \<Rightarrow> Some (-1, fa)
         | Some (Some d) \<Rightarrow>
             (case fdnum of
                None \<Rightarrow> Some (-1, fa)
              | Some n \<Rightarrow> Some (int n, fa[n := (fa ! n)\<lparr>in_use := True, optbl := Some RegfileOptbl,
                                            fd_inode := inode_num d, fd_pos := 0\<rparr>])))"

definition dir_open :: "mem \<Rightarrow> nat \<Rightarrow> u8 list \<Rightarrow> filedesc list \<Rightarrow> (int \<times> filedesc list) option" where
  "dir_open m fs name fa =
     (let fdnum = get_free_fd fa
      in case read_dentry_by_name m fs name of
           None \<Rightarrow> None
         | Some None \<Rightarrow> Some (-1, fa)
         | Some (Some d) \<Rightarrow>
             (case fdnum of
                None \<Rightarrow> Some (-1, fa)
              | Some n \<Rightarrow> Some (int n, fa[n := (fa ! n)\<lparr>in_use := True, optbl := Some DirOptbl\<rparr>])))"

definition bad_close_fd :: "int \<Rightarrow> bool" where
  "bad_close_fd fd \<longleftrightarrow> fd = 0 \<or> fd = 1 \<or> fd < 0 \<or> fd > 7"

definition file_close :: "int \<Rightarrow> filedesc list \<Rightarrow> int \<times> filedesc list" where
  "file_close fd fa =
     (if bad_close_fd fd then (-1, fa)
      else (0, fa[nat fd := (fa ! nat fd)\<lparr>in_use := False\<rparr>]))"

definition dir_close :: "int \<Rightarrow> filedesc list \<Rightarrow> int \<times> filedesc list" where
  "dir_close fd fa = (if bad_close_fd fd then (-1, fa) else (0, fa))"

definition file_write :: "int \<Rightarrow> u8 list \<Rightarrow> int \<Rightarrow> int" where
  "file_write fd buf nbytes = -1"

definition dir_write :: "int \<Rightarrow> u8 list \<Rightarrow> int \<Rightarrow> int" where
  "dir_write fd buf nbytes = -1"

text \<open>
  \<open>file_read\<close> returns the bytes it stored to the caller's buffer (their number is its result).
  A negative \<open>nbytes\<close> becomes a large unsigned length.
\<close>

definition file_read :: "mem \<Rightarrow> nat \<Rightarrow> int \<Rightarrow> int \<Rightarrow> filedesc list \<Rightarrow> (u8 list \<times> filedesc list) option" where
  "file_read m fs fd nbytes fa =
     (case syscall_getfdptr fa fd of
        None \<Rightarrow> None
      | Some f \<Rightarrow>
          (let bytes = read_data m fs (fd_inode f) (fd_pos f) (nat (nbytes mod 2 ^ 32))
           in Some (bytes, fa[nat fd := f\<lparr>fd_pos := addr32 (fd_pos f + length bytes)\<rparr>])))"

text \<open>
  \<open>dir_read\<close> on a user buffer: the name is copied, byte \<open>nbytes\<close> of the buffer is made NUL and
  the length of the string in the buffer is returned with the new buffer.
\<close>

definition dir_read :: "mem \<Rightarrow> nat \<Rightarrow> int \<Rightarrow> u8 list \<Rightarrow> int \<Rightarrow> filedesc list
    \<Rightarrow> (int \<times> u8 list \<times> filedesc list) option" where
  "dir_read m fs fd buf nbytes fa =
     (case syscall_getfdptr fa fd of
        None \<Rightarrow> None
      | Some f \<Rightarrow>
          (if get_num_dir_entries m fs < fd_pos f then Some (0, buf, fa)
           else case read_dentry_by_index m fs (fd_pos f) of
               None \<Rightarrow> None
             | Some None \<Rightarrow> Some (0, buf, fa)
             | Some (Some d) \<Rightarrow>
                 (case strncpy buf (fname d @ [of_nat (ftype d)]) 32 of
                    None \<Rightarrow> None
                  | Some b \<Rightarrow>
                      (let fa' = fa[nat fd := f\<lparr>fd_pos := addr32 (fd_pos f + 1)\<rparr>]
                       in if 0 \<le> nbytes \<and> nat nbytes < length b
                          then (let b' = b[nat nbytes := 0]
                                in map_option (\<lambda>n. (int n, b', fa')) (strlen b'))
                          else None))))"


section \<open>Reading data\<close>

text \<open>
  A well-formed image is block-aligned and lies below the top of the address space (one block more
  than the counters say, because the code also accepts the block number just past the last one).
\<close>

definition fs_image_ok :: "mem \<Rightarrow> nat \<Rightarrow> bool" where
  "fs_image_ok m fs \<longleftrightarrow> fs mod BLOCK_SIZE = 0
     \<and> fs + BLOCK_SIZE * (2 + get_num_inodes m fs + get_num_data_blocks m fs) \<le> 2 ^ 32"

text \<open>Byte \<open>k\<close> of the file with inode block at \<open>ip\<close>, through its block list.\<close>

definition file_byte :: "mem \<Rightarrow> nat \<Rightarrow> nat \<Rightarrow> nat \<Rightarrow> u8" where
  "file_byte m fs ip k =
     m (fs + BLOCK_SIZE * (1 + get_num_inodes m fs + data_blocks m ip (k div BLOCK_SIZE)) + k mod BLOCK_SIZE)"

definition blocks_ok :: "mem \<Rightarrow> nat \<Rightarrow> nat \<Rightarrow> nat \<Rightarrow> bool" where
  "blocks_ok m fs ip n \<longleftrightarrow> (\<forall>j\<le>n div BLOCK_SIZE. data_blocks m ip j \<le> get_num_data_blocks m fs)"

lemma get_data_block_eq:
  assumes "fs_image_ok m fs" "data_blocks m ip j \<le> get_num_data_blocks m fs"
  shows "get_data_block m fs j ip = fs + BLOCK_SIZE * (1 + get_num_inodes m fs + data_blocks m ip j)"
    and "b \<le> BLOCK_SIZE \<Longrightarrow> addr32 (get_data_block m fs j ip + b) mod BLOCK_SIZE = b mod BLOCK_SIZE"
    and "b < BLOCK_SIZE \<Longrightarrow> addr32 (get_data_block m fs j ip + b) = get_data_block m fs j ip + b"
proof -
  let ?a = "fs + BLOCK_SIZE * (1 + get_num_inodes m fs + data_blocks m ip j)"
  have b: "?a + BLOCK_SIZE \<le> 2 ^ 32" and al: "?a mod BLOCK_SIZE = 0"
    using assms by (auto simp: fs_image_ok_def BLOCK_SIZE_def)
  show e: "get_data_block m fs j ip = ?a"
    using b by (simp add: get_data_block_def addr32_def algebra_simps BLOCK_SIZE_def)
  show "addr32 (get_data_block m fs j ip + b) mod BLOCK_SIZE = b mod BLOCK_SIZE"
  proof -
    have "(?a + b) mod 2 ^ 32 mod BLOCK_SIZE = (?a + b) mod BLOCK_SIZE"
      by (rule mod_mod_cancel) (simp add: BLOCK_SIZE_def)
    also have "\<dots> = b mod BLOCK_SIZE" using al by (metis add_0 mod_add_left_eq)
    finally show ?thesis unfolding e addr32_def .
  qed
  show "b < BLOCK_SIZE \<Longrightarrow> addr32 (get_data_block m fs j ip + b) = get_data_block m fs j ip + b"
    using b unfolding e addr32_def by simp
qed

text \<open>The loop's position: block and byte of file offset \<open>k\<close>, one past the end of a block included.\<close>

definition pos_ok :: "nat \<Rightarrow> nat \<Rightarrow> nat \<Rightarrow> bool \<Rightarrow> bool" where
  "pos_ok k bo io sf \<longleftrightarrow>
     (if sf then 0 < k \<and> bo = (k - 1) mod BLOCK_SIZE + 1 \<and> io = (k - 1) div BLOCK_SIZE
      else bo = k mod BLOCK_SIZE \<and> io = k div BLOCK_SIZE)"

lemma pos_ok_step:
  assumes "pos_ok k bo io sf"
  defines "step \<equiv> bo mod BLOCK_SIZE = 0 \<and> sf"
  shows "bo \<le> BLOCK_SIZE" "io \<le> k div BLOCK_SIZE"
    and "(if step then 0 else bo) = k mod BLOCK_SIZE"
    and "(if step then io + 1 else io) = k div BLOCK_SIZE"
proof -
  have less: "n mod BLOCK_SIZE < BLOCK_SIZE" for n by (simp add: BLOCK_SIZE_def)
  have bo: "bo \<le> BLOCK_SIZE"
    using assms less [of k] less [of "k - 1"] by (auto simp: pos_ok_def split: if_splits)
  moreover have "io \<le> k div BLOCK_SIZE \<and> (if step then 0 else bo) = k mod BLOCK_SIZE
      \<and> (if step then io + 1 else io) = k div BLOCK_SIZE"
  proof (cases sf)
    case True
    then obtain k' where k: "k = Suc k'" "bo = Suc (k' mod BLOCK_SIZE)" "io = k' div BLOCK_SIZE"
      using assms by (cases k) (auto simp: pos_ok_def)
    then show ?thesis
      using True less [of k'] by (auto simp: step_def mod_Suc div_Suc split: if_splits)
  qed (use assms in \<open>auto simp: pos_ok_def\<close>)
  ultimately show "bo \<le> BLOCK_SIZE" "io \<le> k div BLOCK_SIZE"
    and "(if step then 0 else bo) = k mod BLOCK_SIZE"
    and "(if step then io + 1 else io) = k div BLOCK_SIZE" by blast+
qed

lemma read_loop_eq:
  assumes "fs_image_ok m fs" "blocks_ok m fs ip (offset + len)" "offset + len < 2 ^ 32"
    and "pos_ok (offset + i) bo io sf" "i \<le> len"
  shows "read_loop m fs ip offset len i bo io sf =
    map (file_byte m fs ip) [offset + i..<min (offset + len) (inode_length m ip + 1)]"
  using assms(4,5)
proof (induction "len - i" arbitrary: i bo io sf)
  case 0
  then show ?case by (simp add: read_loop.simps)
next
  case (Suc n)
  let ?k = "offset + i"
  have i: "i < len" and kb: "?k < 2 ^ 32" using Suc.hyps(2) assms(3) by auto
  note p = pos_ok_step [OF Suc.prems(1)]
  have div_le: "?k div BLOCK_SIZE \<le> (offset + len) div BLOCK_SIZE" using i by (simp add: div_le_mono)
  have v: "data_blocks m ip io \<le> get_num_data_blocks m fs"
    "data_blocks m ip (?k div BLOCK_SIZE) \<le> get_num_data_blocks m fs"
    using assms(2) p(2) div_le by (auto simp: blocks_ok_def)
  show ?case
  proof (cases "?k > inode_length m ip")
    case True
    then show ?thesis
      using kb i by (subst read_loop.simps) (simp add: add.commute)
  next
    case False
    have lt: "?k mod BLOCK_SIZE < BLOCK_SIZE" by (simp add: BLOCK_SIZE_def)
    have "read_loop m fs ip offset len i bo io sf
        = m (addr32 (get_data_block m fs (?k div BLOCK_SIZE) ip + ?k mod BLOCK_SIZE))
          # read_loop m fs ip offset len (i + 1) (?k mod BLOCK_SIZE + 1) (?k div BLOCK_SIZE) True"
      using False kb i v(1) p(3,4) get_data_block_eq(2) [OF assms(1) v(1) p(1)]
      by (subst read_loop.simps) (simp add: add.commute Let_def)
    also have "m (addr32 (get_data_block m fs (?k div BLOCK_SIZE) ip + ?k mod BLOCK_SIZE)) = file_byte m fs ip ?k"
      unfolding get_data_block_eq(3) [OF assms(1) v(2) lt]
      by (simp add: get_data_block_eq(1) [OF assms(1) v(2)] file_byte_def)
    also have "read_loop m fs ip offset len (i + 1) (?k mod BLOCK_SIZE + 1) (?k div BLOCK_SIZE) True
        = map (file_byte m fs ip) [offset + (i + 1)..<min (offset + len) (inode_length m ip + 1)]"
      using Suc.hyps(2) i by (intro Suc.hyps(1)) (auto simp: pos_ok_def)
    finally show ?thesis
      using False i by (simp add: upt_conv_Cons)
  qed
qed

lemma read_data_eq:
  assumes "fs_image_ok m fs" "inode \<le> get_num_inodes m fs"
    and "blocks_ok m fs (inode_addr fs inode) (offset + len)" "offset + len < 2 ^ 32"
  shows "read_data m fs inode offset len = map (file_byte m fs (inode_addr fs inode))
    [offset..<min (offset + len) (get_inode_len m fs inode + 1)]"
proof -
  have "pos_ok (offset + 0) (offset mod BLOCK_SIZE) (offset div BLOCK_SIZE) False"
    by (simp add: pos_ok_def)
  from read_loop_eq [OF assms(1,3,4) this] show ?thesis
    using assms(2) by (simp add: read_data_def get_inode_len_def)
qed


lemma continue_arith:
  fixes p n1 n2 L :: nat
  assumes "q = p + (min (p + n1) L - p)"
  shows "q + (min (q + n2) L - q) = p + (min (p + n1 + n2) L - p)" "q \<le> p + n1"
    "p + (min (p + n1 + n2) L - p) \<le> p + n1 + n2"
proof -
  consider "p + n1 \<le> L" | "p \<le> L" "L < p + n1" | "L < p" by linarith
  then show "q + (min (q + n2) L - q) = p + (min (p + n1 + n2) L - p)"
    by cases (simp_all add: assms)
qed (simp_all add: assms)

section \<open>Looking up names\<close>

definition dentry_name :: "mem \<Rightarrow> nat \<Rightarrow> nat \<Rightarrow> u8 list" where
  "dentry_name m fs i = cstr (bytes_at m (dentry_addr fs i) 32)"

definition dentry_matches :: "mem \<Rightarrow> nat \<Rightarrow> u8 list \<Rightarrow> nat \<Rightarrow> dentry \<Rightarrow> bool" where
  "dentry_matches m fs name i d \<longleftrightarrow> i < get_num_dir_entries m fs \<and> dentry_name m fs i = cstr name
     \<and> ftype d = load32 m (addr32 (dentry_addr fs i + 32))
     \<and> inode_num d = load32 m (addr32 (dentry_addr fs i + 36))"

lemma length_bytes_at [simp]: "length (bytes_at m a n) = n"
  by (simp add: bytes_at_def)

lemma length_cstr_le: "length (cstr s) \<le> length s"
  by (simp add: cstr_def length_takeWhile_le)

lemma strncmp_dentry:
  assumes "terminated name" "length (cstr name) \<le> 32"
  shows "\<exists>v. strncmp (bytes_at m (dentry_addr fs i) 32) name 32 = Some v
    \<and> (v = 0 \<longleftrightarrow> dentry_name m fs i = cstr name)"
  using strncmp_from_eq0 [of 32 0 "bytes_at m (dentry_addr fs i) 32" name "[]" "[]"] assms
    length_cstr_le [of "bytes_at m (dentry_addr fs i) 32"]
  by (simp add: strncmp_def dentry_name_def)

lemma search_dentry_eq:
  assumes "terminated name" "length (cstr name) \<le> 32"
  shows "(\<exists>j d. i \<le> j \<and> search_dentry m fs name i = Some (Some d) \<and> dentry_matches m fs name j d
            \<and> (\<forall>k. i \<le> k \<and> k < j \<longrightarrow> dentry_name m fs k \<noteq> cstr name))
       \<or> (search_dentry m fs name i = Some None
            \<and> (\<forall>k. i \<le> k \<and> k < get_num_dir_entries m fs \<longrightarrow> dentry_name m fs k \<noteq> cstr name))"
proof (induction "get_num_dir_entries m fs - i" arbitrary: i)
  case 0
  then show ?case by (subst search_dentry.simps) auto
next
  case (Suc n)
  then have lt: "i < get_num_dir_entries m fs" by simp
  obtain v where v: "strncmp (bytes_at m (dentry_addr fs i) 32) name 32 = Some v"
    "v = 0 \<longleftrightarrow> dentry_name m fs i = cstr name"
    using strncmp_dentry [OF assms] by blast
  show ?case
  proof (cases "v = 0")
    case True
    have "strcpy (replicate 33 0) name \<noteq> None"
      using strcpy_eq [OF assms(1), of "replicate 33 0"] assms(2) by simp
    then obtain d where "search_dentry m fs name i = Some (Some d)" "dentry_matches m fs name i d"
      using True v lt by (auto simp: dentry_matches_def search_dentry.simps [of m fs name i])
    then show ?thesis by (intro disjI1 exI [of _ i] exI [of _ d]) auto
  next
    case False
    then have s: "search_dentry m fs name i = search_dentry m fs name (i + 1)"
      using v lt by (subst search_dentry.simps) simp
    have ne: "dentry_name m fs k \<noteq> cstr name" if "i \<le> k" "i + 1 \<le> k \<longrightarrow> dentry_name m fs k \<noteq> cstr name" for k
      using that False v(2) by (metis Suc_eq_plus1 le_neq_implies_less not_less_eq_eq not_less)
    from Suc.hyps(1) [of "i + 1"] Suc.hyps(2) show ?thesis
      unfolding s using ne by (metis Suc_eq_plus1 Suc_leD diff_Suc_eq_diff_pred diff_Suc_1 diff_diff_left)
  qed
qed

lemma read_dentry_by_name_eq:
  assumes "terminated name" "length (cstr name) \<le> 32"
  shows "(\<exists>j d. read_dentry_by_name m fs name = Some (Some d) \<and> dentry_matches m fs name j d
            \<and> (\<forall>k<j. dentry_name m fs k \<noteq> cstr name))
       \<or> (read_dentry_by_name m fs name = Some None
            \<and> (\<forall>k<get_num_dir_entries m fs. dentry_name m fs k \<noteq> cstr name))"
  using search_dentry_eq [OF assms, of 0 m fs] assms
  by (simp add: read_dentry_by_name_def strlen_eq MAX_FNAME_SIZE_def)

lemma read_dentry_by_name_total: "terminated name \<Longrightarrow> read_dentry_by_name m fs name \<noteq> None"
  using read_dentry_by_name_eq [of name m fs]
  by (cases "length (cstr name) \<le> 32") (auto simp: read_dentry_by_name_def strlen_eq MAX_FNAME_SIZE_def)

section \<open>Descriptors\<close>

lemma free_fd_from_eq:
  "free_fd_from fa i = (if \<exists>k. i \<le> k \<and> k < NUM_FDS \<and> \<not> in_use (fa ! k)
     then Some (LEAST k. i \<le> k \<and> k < NUM_FDS \<and> \<not> in_use (fa ! k)) else None)"
proof (induction "NUM_FDS - i" arbitrary: i)
  case 0
  then show ?case by (subst free_fd_from.simps) auto
next
  case (Suc n)
  show ?case
  proof (cases "in_use (fa ! i)")
    case True
    then have "(i \<le> k \<and> k < NUM_FDS \<and> \<not> in_use (fa ! k)) \<longleftrightarrow> (i + 1 \<le> k \<and> k < NUM_FDS \<and> \<not> in_use (fa ! k))" for k
      by (metis Suc_eq_plus1 Suc_leD le_antisym not_less_eq_eq)
    moreover have "free_fd_from fa i = free_fd_from fa (i + 1)"
      using Suc.hyps(2) True by (subst free_fd_from.simps) auto
    moreover have "n = NUM_FDS - (i + 1)" using Suc.hyps(2) by simp
    ultimately show ?thesis
      using Suc.hyps(1) [of "i + 1"] by (simp only:)
  next
    case False
    then have "(LEAST k. i \<le> k \<and> k < NUM_FDS \<and> \<not> in_use (fa ! k)) = i"
      using Suc.hyps(2) by (intro Least_equality) auto
    then show ?thesis using False Suc.hyps(2) by (subst free_fd_from.simps) auto
  qed
qed

lemma get_free_fd_Some:
  assumes "get_free_fd fa = Some n"
  shows "2 \<le> n" "n < 8" "\<not> in_use (fa ! n)" "\<forall>k. 2 \<le> k \<and> k < n \<longrightarrow> in_use (fa ! k)"
proof -
  let ?P = "\<lambda>k. 2 \<le> k \<and> k < NUM_FDS \<and> \<not> in_use (fa ! k)"
  have "\<exists>k. ?P k" "n = (LEAST k. ?P k)"
    using assms by (auto simp: get_free_fd_def free_fd_from_eq split: if_splits)
  then have "?P n" "\<forall>k<n. \<not> ?P k" by (metis (mono_tags, lifting) LeastI_ex, metis (mono_tags, lifting) not_less_Least)
  then show "2 \<le> n" "n < 8" "\<not> in_use (fa ! n)" "\<forall>k. 2 \<le> k \<and> k < n \<longrightarrow> in_use (fa ! k)"
    by (auto simp: NUM_FDS_def)
qed

lemma get_free_fd_None: "get_free_fd fa = None \<longleftrightarrow> (\<forall>k. 2 \<le> k \<and> k < 8 \<longrightarrow> in_use (fa ! k))"
  by (auto simp: get_free_fd_def free_fd_from_eq NUM_FDS_def)


section \<open>A small image\<close>

text \<open>
  One directory entry \<open>a\<close> (a regular file with inode 0), one inode of length 3 and one data block
  with the bytes 7, 8, 9; the boot block is at address 4096.
\<close>

definition demo_image :: mem where
  "demo_image a =
     (if a = 4096 \<or> a = 4100 \<or> a = 4104 then 1
      else if a = 4160 then 0x61 else if a = 4192 then 2
      else if a = 8192 then 3
      else if a = 12288 then 7 else if a = 12289 then 8 else if a = 12290 then 9 else 0)"

definition demo_fd :: filedesc where
  "demo_fd = \<lparr>optbl = Some RegfileOptbl, fd_inode = 0, fd_pos = 0, in_use = True\<rparr>"

definition free_fds :: "filedesc list" where
  "free_fds = replicate 2 \<lparr>optbl = Some StdioOptbl, fd_inode = 0, fd_pos = 0, in_use = True\<rparr>
     @ replicate 6 \<lparr>optbl = None, fd_inode = 0, fd_pos = 0, in_use = False\<rparr>"

lemma demo_counts:
  "get_num_dir_entries demo_image 4096 = 1" "get_num_inodes demo_image 4096 = 1"
  "get_num_data_blocks demo_image 4096 = 1" "inode_addr 4096 0 = 8192"
  "get_inode_len demo_image 4096 0 = 3" "fs_image_ok demo_image 4096"
  by (simp_all add: get_num_dir_entries_def get_num_inodes_def get_num_data_blocks_def load32_def
      demo_image_def addr32_def inode_addr_def BLOCK_SIZE_def get_inode_len_def inode_length_def fs_image_ok_def)

lemma demo_block0: "data_blocks demo_image 8192 0 = 0"
  by (simp add: data_blocks_def load32_def demo_image_def addr32_def)

lemma demo_blocks: "n < 4096 \<Longrightarrow> blocks_ok demo_image 4096 8192 n"
  by (simp add: blocks_ok_def BLOCK_SIZE_def demo_block0)

section \<open>Properties\<close>

text \<open>
  C9: on a well-formed image, for a valid inode whose blocks are valid in the range read,
  \<open>read_data\<close> returns exactly the bytes of the file from the offset on, block boundaries
  included, up to the requested length or one byte past the end of the file: the end-of-file test
  is off by one, so a read at the end returns a byte that is not in the file.
\<close>

theorem read_data_contents:
  assumes "fs_image_ok m fs" "inode \<le> get_num_inodes m fs"
    and "blocks_ok m fs (inode_addr fs inode) (offset + len)" "offset + len < 2 ^ 32"
  shows "read_data m fs inode offset len =
      map (file_byte m fs (inode_addr fs inode)) [offset..<min (offset + len) (get_inode_len m fs inode + 1)]
    \<and> length (read_data m fs inode offset len) = min len (get_inode_len m fs inode + 1 - offset)"
  using read_data_eq [OF assms] by simp

theorem read_data_contents_witness:
  "read_data demo_image 4096 0 0 100 = map (file_byte demo_image 4096 8192) [0..<4]
    \<and> length (read_data demo_image 4096 0 0 100) = 4"
  using read_data_contents [of demo_image 4096 0 0 100] by (simp add: demo_counts demo_blocks)

text \<open>
  consecutive \<open>file_read\<close> calls on a descriptor continue each other: reading \<open>n1\<close> and then
  \<open>n2\<close> bytes stores the same bytes, and leaves the same position, as reading \<open>n1 + n2\<close> at once.
\<close>

theorem file_read_continues:
  assumes "fs_image_ok m fs" "0 \<le> fd" "nat fd < length fa"
    and "fd_inode (fa ! nat fd) \<le> get_num_inodes m fs"
    and "blocks_ok m fs (inode_addr fs (fd_inode (fa ! nat fd))) (fd_pos (fa ! nat fd) + n1 + n2)"
    and "fd_pos (fa ! nat fd) + n1 + n2 < 2 ^ 32"
  shows "\<exists>b1 fa1 b2 fa2. file_read m fs fd (int n1) fa = Some (b1, fa1)
    \<and> file_read m fs fd (int n2) fa1 = Some (b2, fa2)
    \<and> file_read m fs fd (int (n1 + n2)) fa = Some (b1 @ b2, fa2)"
proof -
  let ?f = "fa ! nat fd"
  let ?ip = "inode_addr fs (fd_inode ?f)" and ?L = "get_inode_len m fs (fd_inode ?f) + 1" and ?p = "fd_pos ?f"
  define q where "q = ?p + (min (?p + n1) ?L - ?p)"
  have w: "nat (int n mod 2 ^ 32) = n" if "n < 2 ^ 32" for n using that by (simp add: nat_mod_distrib)
  have bo: "blocks_ok m fs ?ip (?p + n)" if "n \<le> n1 + n2" for n
    using assms(5) div_le_mono [of "?p + n" "?p + n1 + n2" BLOCK_SIZE] that
    by (auto simp: blocks_ok_def intro: order_trans)
  have qb: "q \<le> ?p + n1" "?p \<le> q" by (auto simp: q_def)
  have r: "read_data m fs (fd_inode ?f) ?p n = map (file_byte m fs ?ip) [?p..<min (?p + n) ?L]"
    if "n \<le> n1 + n2" for n
    using that assms(6) by (intro read_data_eq [OF assms(1,4)] bo) auto
  have q: "read_data m fs (fd_inode ?f) q n2 = map (file_byte m fs ?ip) [q..<min (q + n2) ?L]"
    using qb assms(6) bo [of "q - ?p + n2"] by (intro read_data_eq [OF assms(1,4)]) auto
  have app: "[?p..<min (?p + n1) ?L] @ [q..<min (q + n2) ?L] = [?p..<min (?p + n1 + n2) ?L]"
  proof (cases "?p + n1 \<le> ?L")
    case True
    then have "q = ?p + n1" "min (?p + n1) ?L = q" "q \<le> min (q + n2) ?L" by (auto simp: q_def)
    then show ?thesis using upt_join [of ?p q "min (q + n2) ?L"] by simp
  next
    case False
    then show ?thesis by (cases "?p \<le> ?L") (auto simp: q_def min_def)
  qed
  define e where "e = ?p + (min (?p + n1 + n2) ?L - ?p)"
  have len: "q + (min (q + n2) ?L - q) = e" "q < 2 ^ 32" "e < 2 ^ 32"
    using assms(6) qb(1) continue_arith(1,3) [OF q_def, of n2] by (simp_all add: e_def)
  have "file_read m fs fd (int n1) fa = Some (map (file_byte m fs ?ip) [?p..<min (?p + n1) ?L], fa[nat fd := ?f\<lparr>fd_pos := q\<rparr>])"
    using assms(2,3,6) r [of n1] w [of n1] len(2)
    by (simp add: file_read_def syscall_getfdptr_def addr32_def q_def)
  moreover have "file_read m fs fd (int n2) (fa[nat fd := ?f\<lparr>fd_pos := q\<rparr>])
      = Some (map (file_byte m fs ?ip) [q..<min (q + n2) ?L], fa[nat fd := ?f\<lparr>fd_pos := e\<rparr>])"
    using assms(2,3,6) q w [of n2] len by (simp add: file_read_def syscall_getfdptr_def addr32_def)
  moreover have "file_read m fs fd (int (n1 + n2)) fa
      = Some (map (file_byte m fs ?ip) [?p..<min (?p + n1 + n2) ?L], fa[nat fd := ?f\<lparr>fd_pos := e\<rparr>])"
    using assms(2,3,6) r [of "n1 + n2"] w [of "n1 + n2"] len(3)
    by (simp add: file_read_def syscall_getfdptr_def addr32_def add.assoc e_def)
  moreover have "map (file_byte m fs ?ip) [?p..<min (?p + n1 + n2) ?L]
      = map (file_byte m fs ?ip) [?p..<min (?p + n1) ?L] @ map (file_byte m fs ?ip) [q..<min (q + n2) ?L]"
    by (simp only: app flip: map_append)
  ultimately show ?thesis by metis
qed

theorem file_read_continues_witness:
  "\<exists>b1 fa1 b2 fa2. file_read demo_image 4096 0 2 [demo_fd] = Some (b1, fa1)
    \<and> file_read demo_image 4096 0 5 fa1 = Some (b2, fa2)
    \<and> file_read demo_image 4096 0 7 [demo_fd] = Some (b1 @ b2, fa2)"
  using file_read_continues [of demo_image 4096 0 "[demo_fd]" 2 5]
  by (simp add: demo_counts demo_blocks demo_fd_def)


text \<open>
  C22: for a NUL-terminated name of at most 32 characters, \<open>read_dentry_by_name\<close> returns the type
  and inode of the first directory entry with that name, and \<open>-1\<close> exactly when no entry has it;
  it never leaves its buffers.
\<close>

theorem read_dentry_by_name_first:
  assumes "terminated name" "length (cstr name) \<le> 32"
  shows "case read_dentry_by_name m fs name of
      None \<Rightarrow> False
    | Some None \<Rightarrow> \<forall>k<get_num_dir_entries m fs. dentry_name m fs k \<noteq> cstr name
    | Some (Some d) \<Rightarrow> \<exists>j. dentry_matches m fs name j d \<and> (\<forall>k<j. dentry_name m fs k \<noteq> cstr name)"
  using read_dentry_by_name_eq [OF assms, of m fs] by auto

lemma demo_name: "dentry_name demo_image 4096 0 = [0x61]"
  by (simp add: dentry_name_def bytes_at_def dentry_addr_def addr32_def DENTRY_SIZE_def upt_rec demo_image_def)

theorem read_dentry_by_name_first_witness:
  "\<exists>d j. read_dentry_by_name demo_image 4096 [0x61, 0] = Some (Some d)
    \<and> dentry_matches demo_image 4096 [0x61, 0] j d"
  using read_dentry_by_name_first [of "[0x61, 0]" demo_image 4096] demo_name
  by (auto simp: demo_counts split: option.splits)

text \<open>
  \<open>file_open\<close> of an existing name in a process with a free descriptor returns the lowest free
  descriptor above the two standard ones, marks it in use for that file at position 0 and changes
  no other; with no free descriptor it returns \<open>-1\<close> and changes nothing; closing the descriptor
  makes the array free at that place again and keeps the rest.
\<close>

theorem file_open_close:
  assumes "length fa = 8" "read_dentry_by_name m fs name = Some (Some d)"
  shows "case get_free_fd fa of
      None \<Rightarrow> file_open m fs name fa = Some (-1, fa) \<and> (\<forall>k. 2 \<le> k \<and> k < 8 \<longrightarrow> in_use (fa ! k))
    | Some n \<Rightarrow> 2 \<le> n \<and> n < 8 \<and> \<not> in_use (fa ! n) \<and> (\<forall>k. 2 \<le> k \<and> k < n \<longrightarrow> in_use (fa ! k))
       \<and> (\<exists>fa'. file_open m fs name fa = Some (int n, fa') \<and> length fa' = 8
            \<and> in_use (fa' ! n) \<and> optbl (fa' ! n) = Some RegfileOptbl
            \<and> fd_inode (fa' ! n) = inode_num d \<and> fd_pos (fa' ! n) = 0
            \<and> (\<forall>k<8. k \<noteq> n \<longrightarrow> fa' ! k = fa ! k)
            \<and> fst (file_close (int n) fa') = 0
            \<and> map in_use (snd (file_close (int n) fa')) = map in_use fa)"
proof (cases "get_free_fd fa")
  case None
  then show ?thesis using assms get_free_fd_None [of fa] by (simp add: file_open_def)
next
  case (Some n)
  note f = get_free_fd_Some [OF Some]
  then have "map in_use fa = (map in_use fa)[n := False]" using assms(1)
    by (metis (mono_tags) length_map list_update_id nth_map)
  then show ?thesis
    using f Some assms by (simp add: file_open_def file_close_def bad_close_fd_def map_update)
qed

theorem file_open_close_witness:
  "\<exists>d fa'. read_dentry_by_name demo_image 4096 [0x61, 0] = Some (Some d)
    \<and> file_open demo_image 4096 [0x61, 0] free_fds = Some (2, fa')
    \<and> map in_use (snd (file_close 2 fa')) = map in_use free_fds"
proof -
  have "get_free_fd free_fds = Some 2"
    by (simp add: get_free_fd_def free_fd_from.simps NUM_FDS_def free_fds_def nth_append)
  moreover obtain d where "read_dentry_by_name demo_image 4096 [0x61, 0] = Some (Some d)"
    using read_dentry_by_name_eq [of "[0x61, 0]" demo_image 4096] demo_name by (auto simp: demo_counts)
  ultimately show ?thesis
    using file_open_close [of free_fds demo_image 4096 "[0x61, 0]" d] by (auto simp: free_fds_def)
qed

lemma cstr_take: "cstr (take n s) = take n (cstr s)"
  by (induction s arbitrary: n) (auto simp: take_Cons split: nat.splits)

lemma cstr_pad: "0 \<notin> set xs \<Longrightarrow> cstr (xs @ replicate k 0) = xs"
  by (induction xs) (cases k, auto)

lemma cstr_snoc_zero: "cstr (s @ [0]) = cstr s"
  by (induction s) auto

lemma take_bytes_at: "n \<le> k \<Longrightarrow> take n (bytes_at m a k) = bytes_at m a n"
  by (simp add: bytes_at_def take_map)

lemma by_index_Some:
  assumes "i \<le> get_num_dir_entries m fs"
  obtains d where "read_dentry_by_index m fs i = Some (Some d)" "cstr (fname d) = dentry_name m fs i"
    "length (fname d) = 32" "ftype d = load32 m (addr32 (dentry_addr fs i + 32))"
    "inode_num d = load32 m (addr32 (dentry_addr fs i + 36))"
proof -
  let ?src = "bytes_at m (dentry_addr fs i) 64"
  have "dentry_name m fs i = take 32 (cstr ?src)"
    using cstr_take [of 32 ?src] by (simp add: dentry_name_def take_bytes_at)
  moreover have "strncpy (replicate 32 0) ?src 32 = Some (take 32 (cstr ?src) @ replicate (32 - length (cstr ?src)) 0)"
    using strncpy_eq [of ?src 32 "replicate 32 0"] by simp
  moreover have "0 \<notin> set (take 32 (cstr ?src))" by (meson in_set_takeD zero_notin_cstr)
  ultimately show ?thesis
    using that assms cstr_pad by (auto simp: read_dentry_by_index_def)
qed

text \<open>
  reading a directory entry by index and looking its name up agree: for an index below the
  entry count whose name no earlier entry has, the lookup of the name that
  \<open>read_dentry_by_index\<close> returns gives an entry with the same type and inode. The index equal to
  the entry count, one past the last entry, is accepted too (the test is \<open>idx > dentry_tot\<close>).
\<close>

theorem by_index_by_name:
  assumes "i < get_num_dir_entries m fs" "\<forall>k<i. dentry_name m fs k \<noteq> dentry_name m fs i"
  shows "(\<exists>d d'. read_dentry_by_index m fs i = Some (Some d)
      \<and> read_dentry_by_name m fs (fname d @ [0]) = Some (Some d')
      \<and> ftype d' = ftype d \<and> inode_num d' = inode_num d)
    \<and> read_dentry_by_index m fs (get_num_dir_entries m fs) \<noteq> Some None"
proof -
  obtain d where d: "read_dentry_by_index m fs i = Some (Some d)" "cstr (fname d) = dentry_name m fs i"
    "length (fname d) = 32" "ftype d = load32 m (addr32 (dentry_addr fs i + 32))"
    "inode_num d = load32 m (addr32 (dentry_addr fs i + 36))"
    using by_index_Some [of i m fs] assms(1) by auto
  have n: "terminated (fname d @ [0])" "cstr (fname d @ [0]) = dentry_name m fs i"
    "length (cstr (fname d @ [0])) \<le> 32"
    using d length_cstr_le [of "fname d"] by (simp_all add: terminated_def cstr_snoc_zero)
  from read_dentry_by_name_eq [OF n(1,3), of m fs] n(2) assms
  obtain j d' where j: "read_dentry_by_name m fs (fname d @ [0]) = Some (Some d')"
    "dentry_matches m fs (fname d @ [0]) j d'" "\<forall>k<j. dentry_name m fs k \<noteq> dentry_name m fs i" by auto
  then have "j = i" using assms(2) n(2) by (metis dentry_matches_def linorder_neqE_nat)
  then show ?thesis using d j by (auto simp: dentry_matches_def read_dentry_by_index_def)
qed

theorem by_index_by_name_witness:
  "\<exists>d d'. read_dentry_by_index demo_image 4096 0 = Some (Some d)
      \<and> read_dentry_by_name demo_image 4096 (fname d @ [0]) = Some (Some d')
      \<and> inode_num d' = inode_num d"
  using by_index_by_name [of 0 demo_image 4096] by (auto simp: demo_counts)

end
