(* ===== verification/Paging.thy ===== *)
theory Paging
  imports Prelude
begin

text \<open>
  Paging, \<open>mp3/student-distrib/paging.c\<close>: the kernel page directory, the page table of the first
  four megabytes, the table for user video memory and one page directory per process slot. A
  directory or table is a list of 1024 words. Where the linker places the tables is a parameter
  (\<open>layout\<close>); \<open>cr0\<close>, \<open>cr3\<close> and \<open>cr4\<close> are the control registers the assembly loads. An access
  outside \<open>process_pdir_table\<close> is \<open>None\<close>; taking the address of an element only is not an access.
\<close>

definition ADDR_MASK :: u32 where "ADDR_MASK = 0xFFFFF000"
definition TBL_SIZE :: nat where "TBL_SIZE = 1024"
definition DIR_SIZE :: nat where "DIR_SIZE = 1024"
definition VIDEO_LOC :: u32 where "VIDEO_LOC = 0xB8000"
definition KENREL_LOC :: u32 where "KENREL_LOC = 0x00400000"
definition USER_LOC :: u32 where "USER_LOC = 0x08000000"
definition KERNEL_BITS :: u32 where "KERNEL_BITS = 0x0193"
definition VMEMPT_BITS :: u32 where "VMEMPT_BITS = 0x0107"
definition VMEMPD_BITS :: u32 where "VMEMPD_BITS = 0x7"
definition OFF_PG_BITS :: u32 where "OFF_PG_BITS = 0x6"
definition USER_BITS :: u32 where "USER_BITS = 0x96"
definition USER_IDX :: nat where "USER_IDX = 32"
definition MAX_PROCESS :: nat where "MAX_PROCESS = 6"
definition MB_8 :: u32 where "MB_8 = 0x800000"

record layout =
  page_dir_at :: u32
  vmem_table_at :: u32
  vmem_table2_at :: u32
  process_pdir_at :: u32

record paging =
  page_dir :: "u32 list"
  vmem_table :: "u32 list"
  vmem_table2 :: "u32 list"
  process_pdir_table :: "u32 list list"
  cr0 :: u32
  cr3 :: u32
  cr4 :: u32

text \<open>The address of the page directory of a process slot, and the reload of \<open>cr3\<close>.\<close>

definition pdir_addr :: "layout \<Rightarrow> int \<Rightarrow> u32" where
  "pdir_addr l j = process_pdir_at l + 4096 * of_int j"

definition load_cr3 :: "u32 \<Rightarrow> paging \<Rightarrow> paging" where
  "load_cr3 pd_addr p = p\<lparr>cr3 := (cr3 p AND 0xFFF) OR (pd_addr AND ADDR_MASK)\<rparr>"

section \<open>Initialisation\<close>

definition init_vmem_pte :: "nat \<Rightarrow> u32" where
  "init_vmem_pte i =
     (let addr = of_nat (i * 4 * TBL_SIZE)
      in if addr \<noteq> VIDEO_LOC then (addr AND ADDR_MASK) + OFF_PG_BITS else (addr AND ADDR_MASK) + VMEMPT_BITS)"

definition init_vmem2_step :: "nat \<Rightarrow> u32 list \<Rightarrow> u32 list" where
  "init_vmem2_step i t =
     (let addr = of_nat (i * 4 * TBL_SIZE)
      in if addr \<noteq> VIDEO_LOC then t else t[i := (addr AND ADDR_MASK) + OFF_PG_BITS])"

definition init_process_pde :: "layout \<Rightarrow> nat \<Rightarrow> nat \<Rightarrow> u32" where
  "init_process_pde l j i =
     (if i = 0 then (vmem_table_at l AND ADDR_MASK) + VMEMPD_BITS
      else if i = 1 then (KENREL_LOC AND ADDR_MASK) + KERNEL_BITS
      else if i = 30 then (vmem_table2_at l AND ADDR_MASK) + VMEMPD_BITS
      else if i = USER_IDX then ((MB_8 + of_nat (j * 0x400000)) AND ADDR_MASK) + USER_BITS
      else 0)"

definition init_page_dir :: "layout \<Rightarrow> u32 list" where
  "init_page_dir l =
     [(vmem_table_at l AND ADDR_MASK) + VMEMPD_BITS, KENREL_LOC + KERNEL_BITS] @ replicate (DIR_SIZE - 2) 0"

definition init_paging :: "layout \<Rightarrow> paging \<Rightarrow> paging" where
  "init_paging l p =
     (let p1 = p\<lparr>cr4 := cr4 p OR 0x10\<rparr>;
          p2 = p1\<lparr>vmem_table := 0 # map init_vmem_pte [1..<TBL_SIZE],
                  vmem_table2 := fold init_vmem2_step [1..<TBL_SIZE] (vmem_table2 p1)\<rparr>;
          p3 = p2\<lparr>process_pdir_table := map (\<lambda>j. map (init_process_pde l j) [0..<TBL_SIZE]) [0..<MAX_PROCESS]\<rparr>;
          p4 = load_cr3 (page_dir_at l) (p3\<lparr>page_dir := init_page_dir l\<rparr>)
      in p4\<lparr>cr0 := cr0 p4 OR 0x80000000\<rparr>)"

section \<open>Process slots\<close>

definition user_pde :: "paging \<Rightarrow> nat \<Rightarrow> u32" where
  "user_pde p i = process_pdir_table p ! i ! USER_IDX"

definition set_user_pde :: "nat \<Rightarrow> u32 \<Rightarrow> paging \<Rightarrow> paging" where
  "set_user_pde i w p =
     p\<lparr>process_pdir_table := (process_pdir_table p)[i := (process_pdir_table p ! i)[USER_IDX := w]]\<rparr>"

function new_process_from :: "layout \<Rightarrow> paging \<Rightarrow> nat \<Rightarrow> int \<times> paging" where
  "new_process_from l p i =
     (if i < MAX_PROCESS
      then (if user_pde p i AND 1 = 0
            then (int i, load_cr3 (pdir_addr l (int i)) (set_user_pde i (user_pde p i OR 1) p))
            else new_process_from l p (i + 1))
      else (-1, p))"
  by pat_completeness auto
termination by (relation "measure (\<lambda>(l, p, i). MAX_PROCESS - i)") auto

declare new_process_from.simps [simp del]

definition new_process_ptable :: "layout \<Rightarrow> paging \<Rightarrow> int \<times> paging" where
  "new_process_ptable l p = new_process_from l p 0"

definition return_parent_paging :: "layout \<Rightarrow> int \<Rightarrow> int \<Rightarrow> paging \<Rightarrow> paging option" where
  "return_parent_paging l parent_pid pid p =
     (let p1 = load_cr3 (pdir_addr l parent_pid) p
      in if 0 \<le> pid \<and> nat pid < MAX_PROCESS
         then Some (set_user_pde (nat pid) (user_pde p1 (nat pid) - 1) p1) else None)"

definition swap_task_paging :: "layout \<Rightarrow> int \<Rightarrow> paging \<Rightarrow> int \<times> paging" where
  "swap_task_paging l target_pid p =
     (if target_pid < 0 \<or> target_pid > int MAX_PROCESS then (-1, p)
      else (0, load_cr3 (pdir_addr l target_pid) p))"

text \<open>\<open>baby_malloc\<close> returns 0 for NULL.\<close>

fun baby_malloc_from :: "nat list \<Rightarrow> paging \<Rightarrow> u32 \<times> paging" where
  "baby_malloc_from [] p = (0, p)"
| "baby_malloc_from (i # is) p =
     (if vmem_table p ! i AND 1 \<noteq> 0
      then (VIDEO_LOC + 0x1000 * of_nat i,
            p\<lparr>vmem_table := (vmem_table p)[i := ((VIDEO_LOC + 0x1000 * of_nat i) + VMEMPT_BITS) OR 4]\<rparr>)
      else baby_malloc_from is p)"

definition baby_malloc :: "paging \<Rightarrow> u32 \<times> paging" where
  "baby_malloc p = baby_malloc_from [1..<4] p"

section \<open>Invariant and slots\<close>

definition user_frame :: "nat \<Rightarrow> u32" where
  "user_frame j = MB_8 + of_nat (j * 0x400000)"

text \<open>
  Every slot's user entry maps its own four-megabyte frame, with only the present bit varying.
\<close>

definition paging_invar :: "paging \<Rightarrow> bool" where
  "paging_invar p \<longleftrightarrow> length (process_pdir_table p) = MAX_PROCESS
     \<and> (\<forall>j<MAX_PROCESS. length (process_pdir_table p ! j) = DIR_SIZE
          \<and> (user_pde p j = user_frame j + USER_BITS \<or> user_pde p j = user_frame j + USER_BITS + 1))"

definition slots_used :: "paging \<Rightarrow> nat set" where
  "slots_used p = {j. j < MAX_PROCESS \<and> user_pde p j AND 1 \<noteq> 0}"

definition alloc_slot_of :: "layout \<Rightarrow> paging \<Rightarrow> (nat \<times> paging) option" where
  "alloc_slot_of l p = (case new_process_ptable l p of (n, p') \<Rightarrow> if n = -1 then None else Some (nat n, p'))"

definition release_slot :: "layout \<Rightarrow> int \<Rightarrow> nat \<Rightarrow> paging \<Rightarrow> paging" where
  "release_slot l parent j p =
     (if user_pde p j AND 1 = 0 then p else the (return_parent_paging l parent (int j) p))"

lemma less6: "j < MAX_PROCESS \<longleftrightarrow> j = 0 \<or> j = 1 \<or> j = 2 \<or> j = 3 \<or> j = 4 \<or> j = 5"
  by (auto simp: MAX_PROCESS_def)

lemma unat_user_frame: "j < MAX_PROCESS \<Longrightarrow> unat (user_frame j) = 0x800000 + j * 0x400000"
  by (auto simp: less6 user_frame_def MB_8_def)

lemma user_frame_bits:
  assumes "j < MAX_PROCESS"
  shows "(user_frame j + USER_BITS) AND 1 = 0" "(user_frame j + USER_BITS + 1) AND 1 = 1"
    "(user_frame j + USER_BITS) OR 1 = user_frame j + USER_BITS + 1"
    "(user_frame j + USER_BITS) AND 0xFFC00000 = user_frame j"
    "(user_frame j + USER_BITS + 1) AND 0xFFC00000 = user_frame j"
  using assms by (auto simp: less6 user_frame_def USER_BITS_def MB_8_def)


lemma load_cr3_simps [simp]:
  "process_pdir_table (load_cr3 a p) = process_pdir_table p" "user_pde (load_cr3 a p) = user_pde p"
  "vmem_table (load_cr3 a p) = vmem_table p" "vmem_table2 (load_cr3 a p) = vmem_table2 p"
  "page_dir (load_cr3 a p) = page_dir p"
  by (simp_all add: load_cr3_def user_pde_def fun_eq_iff)

lemma paging_invar_load_cr3 [simp]: "paging_invar (load_cr3 a p) = paging_invar p"
  by (simp add: paging_invar_def)

lemma slots_used_load_cr3 [simp]: "slots_used (load_cr3 a p) = slots_used p"
  by (simp add: slots_used_def)

lemma user_pde_set:
  "paging_invar p \<Longrightarrow> i < MAX_PROCESS \<Longrightarrow> j < MAX_PROCESS \<Longrightarrow>
   user_pde (set_user_pde i w p) j = (if j = i then w else user_pde p j)"
  by (auto simp: user_pde_def set_user_pde_def paging_invar_def USER_IDX_def DIR_SIZE_def nth_list_update)

lemma paging_invar_set:
  assumes "paging_invar p" "i < MAX_PROCESS" "w = user_frame i + USER_BITS \<or> w = user_frame i + USER_BITS + 1"
  shows "paging_invar (set_user_pde i w p)"
  using assms user_pde_set [OF assms(1,2)]
  by (auto simp: paging_invar_def set_user_pde_def nth_list_update)

lemma new_process_from_cases:
  "(\<exists>j. i \<le> j \<and> j < MAX_PROCESS \<and> user_pde p j AND 1 = 0
      \<and> (\<forall>k. i \<le> k \<and> k < j \<longrightarrow> user_pde p k AND 1 \<noteq> 0)
      \<and> new_process_from l p i =
          (int j, load_cr3 (pdir_addr l (int j)) (set_user_pde j (user_pde p j OR 1) p)))
   \<or> ((\<forall>k. i \<le> k \<and> k < MAX_PROCESS \<longrightarrow> user_pde p k AND 1 \<noteq> 0) \<and> new_process_from l p i = (-1, p))"
proof (induction "MAX_PROCESS - i" arbitrary: i)
  case 0
  then show ?case by (auto simp: new_process_from.simps)
next
  case (Suc n)
  then have i: "i < MAX_PROCESS" by simp
  show ?case
  proof (cases "user_pde p i AND 1 = 0")
    case True
    then show ?thesis
      using i by (intro disjI1 exI [of _ i]) (auto simp: new_process_from.simps [of l p i])
  next
    case False
    then have e: "new_process_from l p i = new_process_from l p (Suc i)"
      using i by (simp add: new_process_from.simps [of l p i])
    have k: "user_pde p k AND 1 \<noteq> 0" if "i \<le> k" "Suc i \<le> k \<longrightarrow> user_pde p k AND 1 \<noteq> 0" for k
      using that False by (metis le_neq_implies_less Suc_leI)
    have "n = MAX_PROCESS - Suc i" using Suc.hyps(2) by simp
    from Suc.hyps(1) [OF this] show ?thesis unfolding e using k by (meson Suc_leD Suc_leI)
  qed
qed

lemma new_process_ptable_cases:
  obtains (some) j where "j < MAX_PROCESS" "j \<notin> slots_used p" "\<forall>k<j. k \<in> slots_used p"
      "new_process_ptable l p =
         (int j, load_cr3 (pdir_addr l (int j)) (set_user_pde j (user_pde p j OR 1) p))"
  | (none) "slots_used p = {0..<MAX_PROCESS}" "new_process_ptable l p = (-1, p)"
proof -
  have "slots_used p = {0..<MAX_PROCESS}" if "\<forall>k. 0 \<le> k \<and> k < MAX_PROCESS \<longrightarrow> user_pde p k AND 1 \<noteq> 0"
    using that by (auto simp: slots_used_def)
  then show ?thesis
    using that new_process_from_cases [of 0 p l] by (auto simp: new_process_ptable_def slots_used_def)
qed

lemma free_pde:
  "paging_invar p \<Longrightarrow> j < MAX_PROCESS \<Longrightarrow> j \<notin> slots_used p \<longleftrightarrow> user_pde p j = user_frame j + USER_BITS"
  using user_frame_bits [of j] by (auto simp: slots_used_def paging_invar_def)

lemma used_pde:
  "paging_invar p \<Longrightarrow> j < MAX_PROCESS \<Longrightarrow> j \<in> slots_used p \<longleftrightarrow> user_pde p j = user_frame j + USER_BITS + 1"
  using user_frame_bits [of j] by (auto simp: slots_used_def paging_invar_def)

lemma slots_used_set:
  assumes "paging_invar p" "j < MAX_PROCESS"
  shows "slots_used (set_user_pde j (user_frame j + USER_BITS + 1) p) = insert j (slots_used p)"
    "slots_used (set_user_pde j (user_frame j + USER_BITS) p) = slots_used p - {j}"
  using user_pde_set [OF assms] user_frame_bits [OF assms(2)] assms(2) by (auto simp: slots_used_def split: if_splits)

lemma alloc_slot_cases:
  assumes "paging_invar p" "alloc_slot_of l p = Some (j, p')"
  shows "j < MAX_PROCESS" "j \<notin> slots_used p" "\<forall>k<j. k \<in> slots_used p"
    "p' = load_cr3 (pdir_addr l (int j)) (set_user_pde j (user_frame j + USER_BITS + 1) p)"
proof -
  have "j < MAX_PROCESS \<and> j \<notin> slots_used p \<and> (\<forall>k<j. k \<in> slots_used p)
    \<and> p' = load_cr3 (pdir_addr l (int j)) (set_user_pde j (user_frame j + USER_BITS + 1) p)"
  proof (cases rule: new_process_ptable_cases [of p l])
    case (some i)
    then show ?thesis
      using assms(2) free_pde [OF assms(1) some(1)] user_frame_bits(3) [OF some(1)]
      by (auto simp: alloc_slot_of_def)
  qed (use assms in \<open>auto simp: alloc_slot_of_def\<close>)
  then show "j < MAX_PROCESS" "j \<notin> slots_used p" "\<forall>k<j. k \<in> slots_used p"
    "p' = load_cr3 (pdir_addr l (int j)) (set_user_pde j (user_frame j + USER_BITS + 1) p)" by blast+
qed

lemma return_parent_paging_used:
  assumes "paging_invar p" "j < MAX_PROCESS" "j \<in> slots_used p"
  shows "return_parent_paging l parent (int j) p
    = Some (set_user_pde j (user_frame j + USER_BITS) (load_cr3 (pdir_addr l parent) p))"
  using assms used_pde [OF assms(1,2)] by (simp add: return_parent_paging_def Let_def)

lemma release_slot_eq:
  assumes "paging_invar p" "j < MAX_PROCESS"
  shows "slots_used (release_slot l parent j p) = slots_used p - {j}"
    "paging_invar (release_slot l parent j p)"
  using assms return_parent_paging_used [OF assms, of l parent] slots_used_set(2) [of "load_cr3 (pdir_addr l parent) p" j]
    paging_invar_set [of "load_cr3 (pdir_addr l parent) p" j]
  by (auto simp: release_slot_def slots_used_def)

interpretation slots: slot_allocator "alloc_slot_of l" "release_slot l parent" slots_used paging_invar 0 MAX_PROCESS
  for l parent
proof (unfold_locales, goal_cases)
  case (1 s) then show ?case by (auto simp: slots_used_def)
next
  case (2 s i s') then show ?case using alloc_slot_cases [OF 2] by simp
next
  case (3 s i s' k) then show ?case using alloc_slot_cases [OF 3(1,2)] by simp
next
  case (4 s i s') then show ?case using alloc_slot_cases [OF 4] slots_used_set(1) [OF 4(1)] by simp
next
  case (5 s i s') then show ?case using alloc_slot_cases [OF 5] paging_invar_set [OF 5(1)] by simp
next
  case (6 s)
  then show ?case
    by (cases rule: new_process_ptable_cases [of s l]) (auto simp: alloc_slot_of_def)
next
  case (7 s i) then show ?case using release_slot_eq(1) by simp
next
  case (8 s i) then show ?case using release_slot_eq(2) by simp
qed

section \<open>Initial state\<close>

lemma init_user_pde:
  assumes "j < MAX_PROCESS"
  shows "user_pde (init_paging l p) j = user_frame j + USER_BITS"
proof -
  have "process_pdir_table (init_paging l p) = map (\<lambda>j. map (init_process_pde l j) [0..<TBL_SIZE]) [0..<MAX_PROCESS]"
    by (simp add: init_paging_def Let_def)
  then have "user_pde (init_paging l p) j = init_process_pde l j USER_IDX"
    using assms by (simp add: user_pde_def USER_IDX_def TBL_SIZE_def)
  also have "\<dots> = user_frame j + USER_BITS"
    using assms by (auto simp: init_process_pde_def USER_IDX_def user_frame_def less6 ADDR_MASK_def MB_8_def)
  finally show ?thesis .
qed

lemma init_paging_invar: "paging_invar (init_paging l p)"
  using init_user_pde
  by (simp add: paging_invar_def) (simp add: init_paging_def Let_def MAX_PROCESS_def TBL_SIZE_def DIR_SIZE_def)

lemma init_slots: "slots_used (init_paging l p) = {}"
  using init_user_pde user_frame_bits by (auto simp: slots_used_def)


text \<open>
  The paging states the kernel can reach: initialisation, then allocation of a slot, return to a
  parent from a used slot, and task switches, in any order.
\<close>

inductive paging_reachable :: "layout \<Rightarrow> paging \<Rightarrow> bool" for l where
  init: "paging_reachable l (init_paging l p)"
| new: "paging_reachable l p \<Longrightarrow> paging_reachable l (snd (new_process_ptable l p))"
| return: "paging_reachable l p \<Longrightarrow> pid \<in> slots_used p \<Longrightarrow>
    return_parent_paging l parent (int pid) p = Some p' \<Longrightarrow> paging_reachable l p'"
| swap: "paging_reachable l p \<Longrightarrow> paging_reachable l (snd (swap_task_paging l t p))"
| malloc: "paging_reachable l p \<Longrightarrow> paging_reachable l (snd (baby_malloc p))"

lemma paging_invar_vmem [simp]: "paging_invar (p\<lparr>vmem_table := t\<rparr>) = paging_invar p"
  by (simp add: paging_invar_def user_pde_def)

lemma baby_malloc_invar [simp]: "paging_invar (snd (baby_malloc p)) = paging_invar p"
proof -
  have "paging_invar (snd (baby_malloc_from is p)) = paging_invar p" for "is"
    by (induction "is") auto
  then show ?thesis by (simp add: baby_malloc_def)
qed

lemma new_process_invar: "paging_invar p \<Longrightarrow> paging_invar (snd (new_process_ptable l p))"
  using paging_invar_set user_frame_bits(3) free_pde
  by (cases rule: new_process_ptable_cases [of p l]) auto

lemma slots_used_less: "j \<in> slots_used p \<Longrightarrow> j < MAX_PROCESS"
  by (simp add: slots_used_def)

lemma reachable_invar: "paging_reachable l p \<Longrightarrow> paging_invar p"
proof (induction rule: paging_reachable.induct)
  case (return p pid parent p')
  then have pid: "pid < MAX_PROCESS" by (simp add: slots_used_less)
  have "p' = set_user_pde pid (user_frame pid + USER_BITS) (load_cr3 (pdir_addr l parent) p)"
    using return_parent_paging_used [OF return.IH pid return.hyps(2), of l parent] return.hyps(3) by simp
  then show ?case using paging_invar_set [of "load_cr3 (pdir_addr l parent) p" pid] return.IH pid by simp
qed (simp_all add: init_paging_invar new_process_invar swap_task_paging_def)

section \<open>Properties\<close>

text \<open>
  C23: in every reachable paging state the user page of slot \<open>i\<close> maps the physical four megabytes
  that start at \<open>8 MB + i * 4 MB\<close>, whatever slots were allocated and freed before; so the frames of
  two slots are distinct and all lie above the kernel's first eight megabytes.
\<close>

theorem user_pages_isolated:
  assumes "paging_reachable l p" "i < MAX_PROCESS" "j < MAX_PROCESS" "i \<noteq> j"
  shows "user_pde p i AND 0xFFC00000 = MB_8 + of_nat (i * 0x400000)
    \<and> unat MB_8 \<le> unat (user_pde p i AND 0xFFC00000)
    \<and> (user_pde p i AND 0xFFC00000) \<noteq> (user_pde p j AND 0xFFC00000)"
proof -
  have f: "user_pde p k AND 0xFFC00000 = user_frame k" if "k < MAX_PROCESS" for k
    using reachable_invar [OF assms(1)] user_frame_bits [OF that] that by (auto simp: paging_invar_def)
  have "unat (user_frame i) \<noteq> unat (user_frame j)" "unat MB_8 \<le> unat (user_frame i)"
    using unat_user_frame [OF assms(2)] unat_user_frame [OF assms(3)] assms(4) by (simp_all add: MB_8_def)
  then show ?thesis
    using f [OF assms(2)] f [OF assms(3)] by (auto simp: user_frame_def)
qed

definition demo_paging :: paging where
  "demo_paging = \<lparr>page_dir = [], vmem_table = [], vmem_table2 = replicate 1024 0, process_pdir_table = [],
     cr0 = 0, cr3 = 0, cr4 = 0\<rparr>"

definition demo_layout :: layout where
  "demo_layout = \<lparr>page_dir_at = 0x410000, vmem_table_at = 0x411000, vmem_table2_at = 0x412000,
     process_pdir_at = 0x413000\<rparr>"

theorem user_pages_isolated_witness:
  "(user_pde (init_paging demo_layout demo_paging) 0 AND 0xFFC00000) = 0x800000
    \<and> (user_pde (init_paging demo_layout demo_paging) 0 AND 0xFFC00000)
       \<noteq> (user_pde (init_paging demo_layout demo_paging) 3 AND 0xFFC00000)"
  using user_pages_isolated [OF paging_reachable.init, of 0 3 demo_layout demo_paging]
  by (auto simp: MAX_PROCESS_def MB_8_def)

text \<open>
  process slots are handed out lowest first and are conserved: after initialisation a run of
  \<open>n\<close> calls of \<open>new_process_ptable\<close> succeeds exactly when \<open>n\<close> is at most six.
\<close>

theorem six_processes: "alloc_n (alloc_slot_of l) n (init_paging l p) \<noteq> None \<longleftrightarrow> n \<le> 6"
  using slots.alloc_count [OF init_paging_invar, of l n l p] by (simp add: init_slots MAX_PROCESS_def)

text \<open>
  allocating a slot and returning from it to the parent restores every page directory and loads
  the parent's directory into \<open>cr3\<close>; the next allocation then gets the same slot again.
\<close>

theorem alloc_return_roundtrip:
  assumes "paging_reachable l p" "new_process_ptable l p = (pid, p1)" "pid \<noteq> -1"
  shows "\<exists>p2. return_parent_paging l parent pid p1 = Some p2
    \<and> process_pdir_table p2 = process_pdir_table p
    \<and> cr3 p2 AND ADDR_MASK = pdir_addr l parent AND ADDR_MASK
    \<and> fst (new_process_ptable l p2) = pid"
proof -
  note iv = reachable_invar [OF assms(1)]
  obtain j where j: "pid = int j" "alloc_slot_of l p = Some (j, p1)"
    using assms(2,3) by (cases rule: new_process_ptable_cases [of p l]) (auto simp: alloc_slot_of_def)
  note c = alloc_slot_cases [OF iv j(2)]
  have iv1: "paging_invar p1" "j \<in> slots_used p1"
    using slots.alloc_invar [OF iv j(2)] slots.alloc_used [OF iv j(2)] by auto
  note r = return_parent_paging_used [OF iv1(1) c(1) iv1(2), of l parent]
  let ?p2 = "set_user_pde j (user_frame j + USER_BITS) (load_cr3 (pdir_addr l parent) p1)"
  have "process_pdir_table p ! j ! USER_IDX = user_frame j + USER_BITS"
    using free_pde [OF iv c(1)] c(2) by (simp add: user_pde_def)
  then have "(process_pdir_table p ! j)[USER_IDX := user_frame j + USER_BITS] = process_pdir_table p ! j"
    by (metis list_update_id)
  then have t: "process_pdir_table ?p2 = process_pdir_table p"
    using iv c(1,4) by (simp add: set_user_pde_def paging_invar_def)
  have "release_slot l parent j p1 = ?p2"
    using r iv1(2) by (simp add: release_slot_def slots_used_def)
  then have "\<exists>p3. alloc_slot_of l ?p2 = Some (j, p3)"
    using slots.reuse_released [OF iv j(2)] by metis
  then have "fst (new_process_ptable l ?p2) = pid"
    using j(1) by (cases rule: new_process_ptable_cases [of ?p2 l]) (auto simp: alloc_slot_of_def)
  moreover have "cr3 ?p2 AND ADDR_MASK = pdir_addr l parent AND ADDR_MASK"
    by (simp add: set_user_pde_def load_cr3_def ADDR_MASK_def bit.conj_disj_distrib2 and.assoc)
  ultimately show ?thesis using r j(1) t by simp
qed


theorem alloc_return_roundtrip_witness:
  "\<exists>p1 p2. new_process_ptable demo_layout (init_paging demo_layout demo_paging) = (0, p1)
    \<and> return_parent_paging demo_layout 0 0 p1 = Some p2
    \<and> fst (new_process_ptable demo_layout p2) = 0"
proof -
  let ?p = "init_paging demo_layout demo_paging"
  obtain p1 where p1: "new_process_ptable demo_layout ?p = (0, p1)"
    by (cases rule: new_process_ptable_cases [of ?p demo_layout]) (auto simp: init_slots MAX_PROCESS_def)
  from alloc_return_roundtrip [OF paging_reachable.init this, of 0] p1 show ?thesis by auto
qed

text \<open>
  after initialisation \<open>baby_malloc\<close> never finds a page for a console buffer and returns NULL:
  its occupancy test is inverted, it skips the absent entries that initialisation left at indices
  1 to 3 (and would reuse a present one).
\<close>

theorem baby_malloc_fails: "baby_malloc (init_paging l p) = (0, init_paging l p)"
proof -
  have t: "vmem_table (init_paging l p) = 0 # map init_vmem_pte [1..<TBL_SIZE]"
    by (simp add: init_paging_def Let_def load_cr3_def)
  have "vmem_table (init_paging l p) ! i AND 1 = 0" if "i \<in> {1, 2, 3}" for i
    using that by (auto simp: t TBL_SIZE_def nth_Cons' init_vmem_pte_def VIDEO_LOC_def OFF_PG_BITS_def ADDR_MASK_def)
  moreover have "[1..<4] = [1, 2, 3::nat]" by (simp add: upt_rec)
  ultimately show ?thesis by (simp add: baby_malloc_def)
qed

end
