(* ===== verification/Scheduling.thy ===== *)
theory Scheduling
  imports Paging
begin

text \<open>
  The task queue of the round-robin scheduler, \<open>mp3/student-distrib/scheduling.c\<close>. The queue is an
  array of 16 task structures of which the code uses the first six; an entry whose \<open>pcb\<close> is NULL is
  empty, and the live entries form a prefix. A PCB pointer is modelled by the number of its
  process slot. The timer interrupt handler itself also touches the PCBs, the paging structures
  and \<open>execute\<close> and is modelled with them in theory \<open>Process\<close>; here is its selection loop.
\<close>

definition QUEUE_SIZE :: nat where "QUEUE_SIZE = 16"

record task =
  task_esp :: u32
  task_ebp :: u32
  task_state :: int
  terminal_num :: nat
  enabled :: bool
  task_pcb :: "nat option"

definition init_task_queue :: "task list \<Rightarrow> task list" where
  "init_task_queue q = fold (\<lambda>i q. q[i := (q ! i)\<lparr>task_pcb := None, enabled := True\<rparr>]) [0..<MAX_PROCESS] q"

text \<open>The argument is the pointed-to structure; \<open>None\<close> is the NULL pointer.\<close>

definition task_push :: "task option \<Rightarrow> task list \<Rightarrow> int \<times> task list" where
  "task_push current_task q =
     (case current_task of
        None \<Rightarrow> (-1, q)
      | Some t \<Rightarrow>
          (case find (\<lambda>i. task_pcb (q ! i) = None) [0..<MAX_PROCESS] of
             None \<Rightarrow> (0, q)
           | Some i \<Rightarrow> (0, q[i := t])))"

definition shift_down :: "nat \<Rightarrow> task list \<Rightarrow> task list" where
  "shift_down i q = fold (\<lambda>k q. q[k := q ! (k + 1)]) [i..<MAX_PROCESS - 1] q"

definition task_pop :: "task option \<Rightarrow> task list \<Rightarrow> int \<times> task list" where
  "task_pop current_task q =
     (case current_task of
        None \<Rightarrow> (-1, q)
      | Some t \<Rightarrow>
          (case find (\<lambda>i. task_pcb (q ! i) = task_pcb t) [0..<MAX_PROCESS] of
             None \<Rightarrow> (-1, q)
           | Some i \<Rightarrow>
               (let q1 = shift_down i q
                in (0, q1[MAX_PROCESS - 1 := (q1 ! (MAX_PROCESS - 1))\<lparr>task_pcb := None\<rparr>]))))"

definition task_grab :: "task \<Rightarrow> task list \<Rightarrow> task" where
  "task_grab t q =
     (case find (\<lambda>i. task_pcb (q ! i) = task_pcb t) [0..<MAX_PROCESS] of
        None \<Rightarrow> t\<lparr>task_pcb := None\<rparr>
      | Some i \<Rightarrow> t\<lparr>task_ebp := task_ebp (q ! i), task_esp := task_esp (q ! i), task_state := 1\<rparr>)"

text \<open>
  One turn of the loop of \<open>pit_interrupt\<close> (\<open>temp\<close> is always a copy of entry 0), and the loop: it
  ends at the first enabled task and need not end when there is none.
\<close>

definition rotate_step :: "task list \<Rightarrow> task list" where
  "rotate_step q = snd (task_push (Some (q ! 0)) (snd (task_pop (Some (q ! 0)) q)))"

partial_function (option) rotate_loop :: "task list \<Rightarrow> task list option" where
  "rotate_loop q =
     (let q1 = rotate_step q in if enabled (q1 ! 0) then Some q1 else rotate_loop q1)"

section \<open>Abstraction\<close>

definition live :: "task list \<Rightarrow> task list" where
  "live q = takeWhile (\<lambda>t. task_pcb t \<noteq> None) (take MAX_PROCESS q)"

definition queue_wf :: "task list \<Rightarrow> bool" where
  "queue_wf q \<longleftrightarrow> length q = QUEUE_SIZE
     \<and> list_all (\<lambda>t. task_pcb t = None) (dropWhile (\<lambda>t. task_pcb t \<noteq> None) (take MAX_PROCESS q))"

definition queue_empty :: "task list \<Rightarrow> bool" where
  "queue_empty q \<longleftrightarrow> task_pcb (q ! 0) = None"

definition queue_full :: "task list \<Rightarrow> bool" where
  "queue_full q \<longleftrightarrow> list_all (\<lambda>i. task_pcb (q ! i) \<noteq> None) [0..<MAX_PROCESS]"

text \<open>A well-formed queue as its live part, its empty part and the unused tail of the array.\<close>

lemma queue_split:
  assumes "queue_wf q"
  obtains es r where "q = live q @ es @ r" "length (live q) + length es = 6" "length r = 10"
    "\<forall>t\<in>set es. task_pcb t = None" "\<forall>t\<in>set (live q). task_pcb t \<noteq> None"
proof (rule that)
  let ?es = "dropWhile (\<lambda>t. task_pcb t \<noteq> None) (take MAX_PROCESS q)"
  have e: "live q @ ?es = take 6 q" by (simp add: live_def MAX_PROCESS_def)
  then show "q = live q @ ?es @ drop 6 q" by (simp only: append.assoc [symmetric] e append_take_drop_id)
  have "length (live q @ ?es) = 6" unfolding e using assms by (simp add: queue_wf_def QUEUE_SIZE_def)
  then show "length (live q) + length ?es = 6" by simp
  show "length (drop 6 q) = 10" using assms by (simp add: queue_wf_def QUEUE_SIZE_def)
  show "\<forall>t\<in>set ?es. task_pcb t = None" using assms unfolding queue_wf_def list_all_iff by blast
  show "\<forall>t\<in>set (live q). task_pcb t \<noteq> None" by (auto simp: live_def dest: set_takeWhileD)
qed

lemma queue_join:
  assumes "length ls + length es = 6" "length r = 10" "\<forall>t\<in>set es. task_pcb t = None"
    "\<forall>t\<in>set ls. task_pcb t \<noteq> None"
  shows "live (ls @ es @ r) = ls" "queue_wf (ls @ es @ r)"
proof -
  have t: "take MAX_PROCESS (ls @ es @ r) = ls @ es" using assms(1) by (simp add: MAX_PROCESS_def)
  have "takeWhile (\<lambda>t. task_pcb t \<noteq> None) (ls @ es) = ls"
    using assms(3,4) by (cases es) (auto simp: takeWhile_append2)
  moreover have "dropWhile (\<lambda>t. task_pcb t \<noteq> None) (ls @ es) = es"
    using assms(3,4) by (cases es) (auto simp: dropWhile_append2)
  ultimately show "live (ls @ es @ r) = ls" "queue_wf (ls @ es @ r)"
    using assms(1-3) unfolding live_def queue_wf_def t by (auto simp: QUEUE_SIZE_def list_all_iff)
qed


section \<open>The queue operations\<close>

lemma find_upt_eq:
  assumes "i < n" "P i" "\<forall>k<i. \<not> P k"
  shows "find P [0..<n] = Some i"
  using assms by (auto simp: find_Some_iff intro!: exI [of _ i])

lemma task_push_live:
  assumes "queue_wf q" "length (live q) < 6" "task_pcb t \<noteq> None"
  shows "fst (task_push (Some t) q) = 0" "live (snd (task_push (Some t) q)) = live q @ [t]"
    "queue_wf (snd (task_push (Some t) q))"
proof -
  obtain es r where s: "q = live q @ es @ r" "length (live q) + length es = 6" "length r = 10"
    "\<forall>t\<in>set es. task_pcb t = None" "\<forall>t\<in>set (live q). task_pcb t \<noteq> None"
    using queue_split [OF assms(1)] .
  obtain e es' where es: "es = e # es'" using s(2) assms(2) by (cases es) auto
  have "task_pcb (q ! i) \<noteq> None" if "i < length (live q)" for i
    using s(1,5) that by (metis nth_append nth_mem)
  moreover have "q ! length (live q) = e" using s(1) es by (metis append_Cons nth_append_length)
  ultimately have "find (\<lambda>i. task_pcb (q ! i) = None) [0..<MAX_PROCESS] = Some (length (live q))"
    using assms(2) s(4) es by (intro find_upt_eq) (auto simp: MAX_PROCESS_def)
  moreover have "q[length (live q) := t] = (live q @ [t]) @ es' @ r"
    using s(1) es by (metis append.assoc append_Cons append_Nil list_update_length)
  ultimately have p: "task_push (Some t) q = (0, (live q @ [t]) @ es' @ r)"
    by (simp add: task_push_def)
  have "length (live q @ [t]) + length es' = 6" using s(2) es by simp
  from queue_join [OF this s(3)] s(4,5) assms(3) es
  show "fst (task_push (Some t) q) = 0" "live (snd (task_push (Some t) q)) = live q @ [t]"
    "queue_wf (snd (task_push (Some t) q))" by (auto simp: p)
qed

lemma task_push_full:
  assumes "queue_wf q" "length (live q) = 6"
  shows "task_push (Some t) q = (0, q)"
proof -
  obtain es r where s: "q = live q @ es @ r" "\<forall>t\<in>set (live q). task_pcb t \<noteq> None"
    using queue_split [OF assms(1)] by metis
  then have "task_pcb (q ! i) \<noteq> None" if "i < 6" for i
    using that assms(2) by (metis nth_append nth_mem)
  then have "find (\<lambda>i. task_pcb (q ! i) = None) [0..<MAX_PROCESS] = None"
    by (auto simp: find_None_iff MAX_PROCESS_def)
  then show ?thesis by (simp add: task_push_def)
qed

lemma fold_shift:
  "fold (\<lambda>k q. q[k := q ! (k + 1)]) [length as..<length as + length bs] (as @ x # bs @ c)
    = as @ bs @ last (x # bs) # c"
proof (induction bs arbitrary: as x)
  case (Cons b bs)
  have "[length as..<length as + length (b # bs)] = length as # [length (as @ [b])..<length (as @ [b]) + length bs]"
    by (simp add: upt_conv_Cons del: upt_Suc)
  moreover have "(as @ x # (b # bs) @ c)[length as := (as @ x # (b # bs) @ c) ! (length as + 1)] = (as @ [b]) @ b # bs @ c"
    by (simp add: nth_append)
  ultimately show ?case using Cons.IH [of "as @ [b]" b] by simp
qed simp

text \<open>Popping the entry at position \<open>length as\<close> of the first six.\<close>

lemma pop_at:
  assumes "length as + length bs = 5" "\<forall>t\<in>set as. task_pcb t \<noteq> task_pcb x" "task_pcb u = task_pcb x"
  shows "task_pop (Some u) (as @ x # bs @ r) = (0, as @ bs @ (last (x # bs))\<lparr>task_pcb := None\<rparr> # r)"
proof -
  let ?q = "as @ x # bs @ r"
  have "task_pcb (?q ! k) \<noteq> task_pcb u" if "k < length as" for k
    using that assms(2,3) by (auto simp: nth_append)
  then have "find (\<lambda>i. task_pcb (?q ! i) = task_pcb u) [0..<MAX_PROCESS] = Some (length as)"
    using assms(1,3) by (intro find_upt_eq) (auto simp: MAX_PROCESS_def)
  moreover have "shift_down (length as) ?q = as @ bs @ last (x # bs) # r"
    using fold_shift [of as bs x r] assms(1) by (simp add: shift_down_def MAX_PROCESS_def)
  moreover have "(as @ bs @ last (x # bs) # r) ! 5 = last (x # bs)"
    "(as @ bs @ last (x # bs) # r)[5 := y] = as @ bs @ y # r" for y
    using assms(1) nth_append_length [of "as @ bs"] list_update_length [of "as @ bs"]
    by (simp_all del: last.simps)
  ultimately show ?thesis
    by (simp add: task_pop_def MAX_PROCESS_def del: last.simps)
qed

lemma task_pop_live:
  assumes "queue_wf q" "live q = as @ x # bs" "\<forall>t\<in>set as. task_pcb t \<noteq> task_pcb x" "task_pcb u = task_pcb x"
  shows "fst (task_pop (Some u) q) = 0" "live (snd (task_pop (Some u) q)) = as @ bs"
    "queue_wf (snd (task_pop (Some u) q))"
proof -
  obtain es r where s: "q = live q @ es @ r" "length (live q) + length es = 6" "length r = 10"
    "\<forall>t\<in>set es. task_pcb t = None" "\<forall>t\<in>set (live q). task_pcb t \<noteq> None"
    using queue_split [OF assms(1)] .
  let ?l = "(last (x # bs @ es))\<lparr>task_pcb := None\<rparr>"
  have "q = as @ x # (bs @ es) @ r" using s(1) assms(2) by simp
  moreover have "length as + length (bs @ es) = 5" using s(2) assms(2) by simp
  ultimately have p: "task_pop (Some u) q = (0, (as @ bs) @ (es @ [?l]) @ r)"
    using pop_at [of as "bs @ es" x u r] assms(3,4) by simp
  have l: "length (as @ bs) + length (es @ [?l]) = 6" using s(2) assms(2) by simp
  have "\<forall>t\<in>set (es @ [?l]). task_pcb t = None" "\<forall>t\<in>set (as @ bs). task_pcb t \<noteq> None"
    using s(4,5) assms(2) by auto
  from queue_join [OF l s(3) this]
  show "fst (task_pop (Some u) q) = 0" "live (snd (task_pop (Some u) q)) = as @ bs"
    "queue_wf (snd (task_pop (Some u) q))" by (simp_all add: p)
qed

lemma live_nth: "queue_wf q \<Longrightarrow> i < length (live q) \<Longrightarrow> live q ! i = q ! i"
  using queue_split [of q] by (metis nth_append)

lemma live_Nil_iff:
  assumes "queue_wf q"
  shows "live q = [] \<longleftrightarrow> task_pcb (q ! 0) = None"
proof -
  have "take MAX_PROCESS q = q ! 0 # take 5 (drop 1 q)"
    using assms by (cases q) (simp_all add: queue_wf_def QUEUE_SIZE_def MAX_PROCESS_def)
  then show ?thesis by (simp add: live_def)
qed

lemma length_live: "queue_wf q \<Longrightarrow> length (live q) \<le> 6"
  using queue_split [of q] by (metis le_add1)

lemma live_full_iff:
  assumes "queue_wf q"
  shows "queue_full q \<longleftrightarrow> length (live q) = 6"
proof -
  obtain es r where s: "q = live q @ es @ r" "length (live q) + length es = 6"
    "\<forall>t\<in>set es. task_pcb t = None" "\<forall>t\<in>set (live q). task_pcb t \<noteq> None"
    using queue_split [OF assms] by metis
  have "length (live q) = 6" if "queue_full q"
  proof (rule ccontr)
    assume "length (live q) \<noteq> 6"
    then obtain e es' where "es = e # es'" "length (live q) < 6" using s(2) by (cases es) auto
    then have "q ! length (live q) = e" using s(1) by (metis append_Cons nth_append_length)
    moreover have "task_pcb (q ! length (live q)) \<noteq> None"
      using that \<open>length (live q) < 6\<close> by (simp add: queue_full_def list_all_iff MAX_PROCESS_def)
    ultimately show False using s(3) \<open>es = e # es'\<close> by simp
  qed
  moreover have "queue_full q" if "length (live q) = 6"
    using that s(4) live_nth [OF assms] by (auto simp: queue_full_def list_all_iff MAX_PROCESS_def) (metis nth_mem option.distinct(1))
  ultimately show ?thesis by blast
qed

lemma live_hd: "queue_wf q \<Longrightarrow> live q = t # ts \<Longrightarrow> q ! 0 = t"
  using live_nth [of q 0] by simp

lemma live_valid: "t \<in> set (live q) \<Longrightarrow> task_pcb t \<noteq> None"
  by (auto simp: live_def dest: set_takeWhileD)

interpretation tq: bounded_fifo queue_empty queue_full "\<lambda>t q. snd (task_push (Some t) q)" "\<lambda>q. q ! 0"
  "\<lambda>q. snd (task_pop (Some (q ! 0)) q)" live queue_wf "\<lambda>t. task_pcb t \<noteq> None" 6
proof (unfold_locales, goal_cases)
  case (1 q) then show ?case using live_Nil_iff by (simp add: queue_empty_def)
next
  case (2 q) then show ?case using live_full_iff by simp
next
  case (3 q) then show ?case by (rule length_live)
next
  case (4 q t) then show ?case
    using task_push_live(3) [OF 4(1) _ 4(3)] live_full_iff [OF 4(1)] length_live [OF 4(1)] by simp
next
  case (5 q t) then show ?case
    using task_push_live(2) [OF 5(1) _ 5(3)] live_full_iff [OF 5(1)] length_live [OF 5(1)] by simp
next
  case (6 q) then show ?case
    using live_Nil_iff [OF 6(1)] live_hd [OF 6(1)] task_pop_live(3) [OF 6(1), of "[]"]
    by (cases "live q") (auto simp: queue_empty_def)
next
  case (7 q) then show ?case
    using live_Nil_iff [OF 7(1)] live_hd [OF 7(1)] task_pop_live(2) [OF 7(1), of "[]"]
    by (cases "live q") (auto simp: queue_empty_def)
qed


section \<open>Choosing the next task\<close>

lemma rotate_step_live:
  assumes "queue_wf q" "live q \<noteq> []"
  shows "live (rotate_step q) = rotate1 (live q)" "queue_wf (rotate_step q)"
  using tq.rotate_once [OF assms] live_valid [of "q ! 0" q] live_hd [OF assms(1)] assms(2)
  by (cases "live q"; simp add: rotate_step_def)+

lemma rotate_loop_at:
  assumes "queue_wf q" "live q \<noteq> []" "0 < k"
    and "enabled (live q ! (k mod length (live q)))"
    and "\<forall>j. 0 < j \<and> j < k \<longrightarrow> \<not> enabled (live q ! (j mod length (live q)))"
  shows "\<exists>q'. rotate_loop q = Some q' \<and> queue_wf q' \<and> live q' = rotate k (live q)"
  using assms
proof (induction k arbitrary: q)
  case (Suc k)
  let ?n = "length (live q)" and ?q1 = "rotate_step q"
  note r = rotate_step_live [OF Suc.prems(1,2)]
  have nth: "live ?q1 ! (j mod ?n) = live q ! (Suc j mod ?n)" for j
    using Suc.prems(2) by (simp add: r(1) nth_rotate1 mod_Suc_eq)
  have h: "?q1 ! 0 = live q ! (1 mod ?n)"
    using live_nth [OF r(2), of 0] nth [of 0] Suc.prems(2) r(1) by simp
  show ?case
  proof (cases "k = 0")
    case True
    then have "enabled (?q1 ! 0)" using h Suc.prems(4) by simp
    then show ?thesis using r True by (subst rotate_loop.simps) simp
  next
    case False
    then have "\<not> enabled (live q ! (1 mod ?n))" using Suc.prems(5) by (simp only: Suc_less_eq One_nat_def) blast
    then have "\<not> enabled (?q1 ! 0)" by (simp only: h not_False_eq_True)
    then have "rotate_loop q = rotate_loop ?q1" by (subst rotate_loop.simps) simp
    moreover have "\<exists>q'. rotate_loop ?q1 = Some q' \<and> queue_wf q' \<and> live q' = rotate k (live ?q1)"
      using False Suc.prems r nth by (intro Suc.IH) auto
    ultimately show ?thesis by (simp add: r(1) rotate1_rotate_swap)
  qed
qed simp

lemma rotate_loop_next:
  assumes "queue_wf q" "\<exists>t \<in> set (live q). enabled t"
  shows "\<exists>k q'. 0 < k \<and> k \<le> length (live q) \<and> rotate_loop q = Some q' \<and> queue_wf q'
    \<and> live q' = rotate k (live q) \<and> enabled (q' ! 0)
    \<and> (\<forall>j. 0 < j \<and> j < k \<longrightarrow> \<not> enabled (live q ! j))"
proof -
  let ?n = "length (live q)"
  let ?P = "\<lambda>k. 0 < k \<and> enabled (live q ! (k mod ?n))"
  obtain i where i: "i < ?n" "enabled (live q ! i)" using assms(2) by (auto simp: in_set_conv_nth)
  have ex: "?P (if i = 0 then ?n else i)" using i by auto
  define k where "k = (LEAST k. ?P k)"
  have k: "?P k" unfolding k_def by (rule LeastI [where P = ?P, OF ex])
  have min: "\<forall>j<k. \<not> ?P j" unfolding k_def using not_less_Least by blast
  have le: "k \<le> ?n" using Least_le [of ?P, OF ex] i(1) by (auto simp: k_def split: if_splits)
  have ne: "live q \<noteq> []" using i(1) by auto
  obtain q' where q': "rotate_loop q = Some q'" "queue_wf q'" "live q' = rotate k (live q)"
    using rotate_loop_at [OF assms(1) ne, of k] k min by blast
  have "q' ! 0 = rotate k (live q) ! 0" using live_nth [OF q'(2), of 0] ne q'(3) by simp
  then have "enabled (q' ! 0)" using k ne by (simp add: nth_rotate)
  moreover have "\<forall>j. 0 < j \<and> j < k \<longrightarrow> \<not> enabled (live q ! j)"
    using min le by (metis mod_less order_less_le_trans)
  ultimately show ?thesis using q' k le by blast
qed

text \<open>
  C16: the selection loop of the timer interrupt is round robin and terminates: whenever some live
  task is enabled, it rotates the queue by the smallest positive number of places that brings an
  enabled task to the front (itself again after a full turn), keeping all tasks and their cyclic
  order.
\<close>

theorem rotate_loop_round_robin:
  assumes "queue_wf q" "\<exists>t \<in> set (live q). enabled t"
  shows "\<exists>k q'. 0 < k \<and> k \<le> length (live q) \<and> rotate_loop q = Some q' \<and> queue_wf q'
    \<and> live q' = rotate k (live q) \<and> enabled (q' ! 0)
    \<and> (\<forall>j. 0 < j \<and> j < k \<longrightarrow> \<not> enabled (live q ! j))"
  by (rule rotate_loop_next [OF assms])

definition idle_task :: task where
  "idle_task = \<lparr>task_esp = 0, task_ebp = 0, task_state = 0, terminal_num = 0, enabled = True, task_pcb = None\<rparr>"

definition demo_queue :: "task list" where
  "demo_queue = [idle_task\<lparr>task_pcb := Some 0, enabled := False\<rparr>, idle_task\<lparr>task_pcb := Some 1, enabled := False\<rparr>,
     idle_task\<lparr>task_pcb := Some 2\<rparr>] @ replicate 13 idle_task"

lemma demo_queue_props:
  "queue_wf demo_queue" "live demo_queue = [idle_task\<lparr>task_pcb := Some 0, enabled := False\<rparr>,
     idle_task\<lparr>task_pcb := Some 1, enabled := False\<rparr>, idle_task\<lparr>task_pcb := Some 2\<rparr>]"
  by (simp_all add: demo_queue_def queue_wf_def QUEUE_SIZE_def MAX_PROCESS_def live_def idle_task_def list_all_iff)

theorem rotate_loop_round_robin_witness:
  "\<exists>k q'. 0 < k \<and> rotate_loop demo_queue = Some q' \<and> live q' = rotate k (live demo_queue) \<and> enabled (q' ! 0)"
proof -
  have "\<exists>t \<in> set (live demo_queue). enabled t"
    by (simp add: demo_queue_props idle_task_def)
  from rotate_loop_round_robin [OF demo_queue_props(1) this] show ?thesis by blast
qed

text \<open>
  pushing a task with a PCB appends it to the live tasks when there is room, and is reported as
  success but dropped when all six places are taken; popping the only live task with a given PCB
  removes exactly it and keeps the order of the others.
\<close>

theorem push_pop_live:
  assumes "queue_wf q" "task_pcb t \<noteq> None"
  shows "fst (task_push (Some t) q) = 0
    \<and> live (snd (task_push (Some t) q)) = (if length (live q) < 6 then live q @ [t] else live q)
    \<and> (length (live q) < 6 \<and> task_pcb t \<notin> task_pcb ` set (live q) \<longrightarrow>
        live (snd (task_pop (Some t) (snd (task_push (Some t) q)))) = live q)"
proof (cases "length (live q) < 6")
  case True
  note p = task_push_live [OF assms(1) True assms(2)]
  have "live (snd (task_pop (Some t) (snd (task_push (Some t) q)))) = live q"
    if "task_pcb t \<notin> task_pcb ` set (live q)"
  proof -
    have "\<forall>u\<in>set (live q). task_pcb u \<noteq> task_pcb t" using that by (metis imageI)
    then show ?thesis using p task_pop_live(2) [OF p(3), of "live q" t "[]" t] by simp
  qed
  then show ?thesis using p True by simp
next
  case False
  then have "length (live q) = 6" using length_live [OF assms(1)] by simp
  then show ?thesis using task_push_full [OF assms(1), of t] by simp
qed

theorem push_pop_live_witness:
  "live (snd (task_push (Some (idle_task\<lparr>task_pcb := Some 4\<rparr>)) demo_queue))
     = live demo_queue @ [idle_task\<lparr>task_pcb := Some 4\<rparr>]"
  using push_pop_live [OF demo_queue_props(1), of "idle_task\<lparr>task_pcb := Some 4\<rparr>"]
  by (simp add: demo_queue_props)

end
