(* ===== verification/Devices.thy ===== *)
theory Devices
  imports Prelude
begin

text \<open>
  The interrupt controller and the real-time clock, \<open>mp3/student-distrib/i8259.c\<close> and \<open>rtc.c\<close>.
  A port write is a pair of the byte and the port, in the order of the arguments of \<open>outb\<close>; every
  operation returns the writes it makes, in order. What \<open>inb\<close> reads from the clock is a parameter.
  The kernel's copies of the two interrupt masks are the state.
\<close>

type_synonym outb = "u8 \<times> u16"

definition MASTER_8259_PORT :: u16 where "MASTER_8259_PORT = 0x20"
definition MASTER_8259_DATAPORT :: u16 where "MASTER_8259_DATAPORT = 0x21"
definition SLAVE_8259_PORT :: u16 where "SLAVE_8259_PORT = 0xA0"
definition SLAVE_8259_DATAPORT :: u16 where "SLAVE_8259_DATAPORT = 0xA1"
definition MASTER_IRQOFF :: nat where "MASTER_IRQOFF = 0x20"
definition SLAVE_IRQOFF :: nat where "SLAVE_IRQOFF = 0x28"

record pic =
  master_mask :: u8
  slave_mask :: u8

definition i8259_init :: "pic \<Rightarrow> pic \<times> outb list" where
  "i8259_init p =
     (p\<lparr>master_mask := 0xFB, slave_mask := 0xFF\<rparr>,
      [(0x11, MASTER_8259_PORT), (0x11, SLAVE_8259_PORT),
       (0x20, MASTER_8259_DATAPORT), (0x28, SLAVE_8259_DATAPORT),
       (0x04, MASTER_8259_DATAPORT), (0x02, SLAVE_8259_DATAPORT),
       (0x01, MASTER_8259_DATAPORT), (0x01, SLAVE_8259_DATAPORT),
       (0xFB, MASTER_8259_DATAPORT), (0xFF, SLAVE_8259_DATAPORT)])"

text \<open>
  \<open>0x01 << (irq_num - OFF)\<close> is a shift of a 32-bit \<open>int\<close>, truncated to a byte. Vectors are not
  checked; for a shift distance outside 0 to 31 the C expression is undefined and the model gives 0.
\<close>

definition irq_bit :: "nat \<Rightarrow> nat \<Rightarrow> u8" where
  "irq_bit irq_num off = (if off \<le> irq_num then ucast (push_bit (irq_num - off) (1 :: u32)) else 0)"

definition enable_irq :: "nat \<Rightarrow> pic \<Rightarrow> pic \<times> outb list" where
  "enable_irq irq_num p =
     (if irq_num < SLAVE_IRQOFF
      then (let m = master_mask p AND NOT (irq_bit irq_num MASTER_IRQOFF)
            in (p\<lparr>master_mask := m\<rparr>, [(m, MASTER_8259_DATAPORT)]))
      else (let m = slave_mask p AND NOT (irq_bit irq_num SLAVE_IRQOFF)
            in (p\<lparr>slave_mask := m\<rparr>, [(m, SLAVE_8259_DATAPORT)])))"

definition disable_irq :: "nat \<Rightarrow> pic \<Rightarrow> pic \<times> outb list" where
  "disable_irq irq_num p =
     (if irq_num < SLAVE_IRQOFF
      then (let m = master_mask p OR irq_bit irq_num MASTER_IRQOFF
            in (p\<lparr>master_mask := m\<rparr>, [(m, MASTER_8259_DATAPORT)]))
      else (let m = slave_mask p OR irq_bit irq_num SLAVE_IRQOFF
            in (p\<lparr>slave_mask := m\<rparr>, [(m, SLAVE_8259_DATAPORT)])))"

definition send_eoi :: "nat \<Rightarrow> outb list" where
  "send_eoi irq_num =
     (0x20, MASTER_8259_PORT) # (if irq_num \<ge> SLAVE_IRQOFF then [(0x20, SLAVE_8259_PORT)] else [])"

definition get_master_mask :: "pic \<Rightarrow> u8" where "get_master_mask p = master_mask p"
definition get_slave_mask :: "pic \<Rightarrow> u8" where "get_slave_mask p = slave_mask p"

text \<open>An interrupt line is delivered when its bit is clear in the mask of its controller.\<close>

definition irq_enabled :: "nat \<Rightarrow> pic \<Rightarrow> bool" where
  "irq_enabled irq_num p \<longleftrightarrow>
     (if irq_num < SLAVE_IRQOFF then \<not> bit (master_mask p) (irq_num - MASTER_IRQOFF)
      else \<not> bit (slave_mask p) (irq_num - SLAVE_IRQOFF))"

section \<open>The real-time clock\<close>

definition RTC_IRQ_NUMBER :: nat where "RTC_IRQ_NUMBER = 0x28"
definition RTC_REG_PORT :: u16 where "RTC_REG_PORT = 0x70"
definition RTC_DATA_PORT :: u16 where "RTC_DATA_PORT = 0x71"

record rtc =
  rtc_pic :: pic
  rtc_interrupt_flag :: bool

text \<open>\<open>init_rtc\<close>; \<open>prev\<close> is the value read back from register B. The IDT entry is set elsewhere.\<close>

definition init_rtc :: "u8 \<Rightarrow> pic \<Rightarrow> pic \<times> outb list" where
  "init_rtc prev p =
     (let (p1, w1) = disable_irq RTC_IRQ_NUMBER p;
          (p2, w2) = enable_irq RTC_IRQ_NUMBER p1
      in (p2, w1 @ [(0x8B, RTC_REG_PORT), (0x8B, RTC_REG_PORT), (prev OR 0x40, RTC_DATA_PORT)] @ w2))"

definition rtc_interrupt :: "rtc \<Rightarrow> rtc \<times> outb list" where
  "rtc_interrupt r = (r\<lparr>rtc_interrupt_flag := False\<rparr>, (0x0C, RTC_REG_PORT) # send_eoi RTC_IRQ_NUMBER)"

text \<open>The rate-select value of a frequency; \<open>Inl\<close> is an early return with that value.\<close>

definition rtc_rate :: "int \<Rightarrow> int + u8" where
  "rtc_rate frequency =
     (if frequency \<in> {8192, 4096, 2048} then Inl 0
      else if frequency = 1024 then Inr 0x06 else if frequency = 512 then Inr 0x07
      else if frequency = 256 then Inr 0x08 else if frequency = 128 then Inr 0x09
      else if frequency = 64 then Inr 0x0A else if frequency = 32 then Inr 0x0B
      else if frequency = 16 then Inr 0x0C else if frequency = 8 then Inr 0x0D
      else if frequency = 4 then Inr 0x0E else if frequency = 2 then Inr 0x0F
      else Inl 1)"

text \<open>\<open>prev\<close> is the value read from register A.\<close>

definition rtc_set_frequency :: "int \<Rightarrow> u8 \<Rightarrow> pic \<Rightarrow> int \<times> pic \<times> outb list" where
  "rtc_set_frequency frequency prev p =
     (case rtc_rate frequency of
        Inl v \<Rightarrow> (v, p, [])
      | Inr freq \<Rightarrow>
          (let (p1, w1) = disable_irq RTC_IRQ_NUMBER p;
               (p2, w2) = enable_irq RTC_IRQ_NUMBER p1
           in (0, p2, w1 @ [(0x8A, RTC_REG_PORT), (0x8A, RTC_REG_PORT), ((prev AND 0xF0) OR freq, RTC_DATA_PORT)] @ w2)))"

text \<open>
  \<open>rtc_write\<close>: the buffer is \<open>None\<close> for NULL, otherwise the 32-bit value it holds.
\<close>

definition rtc_write :: "int option \<Rightarrow> int \<Rightarrow> u8 \<Rightarrow> pic \<Rightarrow> int \<times> pic \<times> outb list" where
  "rtc_write buf nbytes prev p =
     (case buf of
        None \<Rightarrow> (-1, p, [])
      | Some f \<Rightarrow>
          (if nbytes \<noteq> 4 then (-1, p, [])
           else (let (v, p1, w) = rtc_set_frequency f prev p in ((if v \<noteq> 0 then -1 else nbytes), p1, w))))"

definition rtc_close :: "int \<Rightarrow> int" where "rtc_close fd = 0"

text \<open>
  \<open>rtc_read\<close> sets the flag and spins until the handler clears it. The interrupts that arrive are a
  list: \<open>True\<close> at a place where the clock interrupts. The result is how many entries it took.
\<close>

fun rtc_wait :: "bool list \<Rightarrow> rtc \<Rightarrow> (int \<times> rtc \<times> nat) option" where
  "rtc_wait ticks r =
     (if \<not> rtc_interrupt_flag r then Some (0, r, 0)
      else case ticks of
        [] \<Rightarrow> None
      | b # bs \<Rightarrow> map_option (\<lambda>(v, r', n). (v, r', Suc n))
                    (rtc_wait bs (if b then fst (rtc_interrupt r) else r)))"

declare rtc_wait.simps [simp del]

definition rtc_read :: "bool list \<Rightarrow> rtc \<Rightarrow> (int \<times> rtc \<times> nat) option" where
  "rtc_read ticks r = rtc_wait ticks (r\<lparr>rtc_interrupt_flag := True\<rparr>)"

section \<open>Facts\<close>

lemma bit_irq_bit:
  assumes "off \<le> i" "i < off + 8"
  shows "bit (irq_bit i off) n \<longleftrightarrow> n = i - off"
  using assms by (auto simp: irq_bit_def bit_simps)

lemmas pic_defs = enable_irq_def disable_irq_def irq_enabled_def SLAVE_IRQOFF_def MASTER_IRQOFF_def Let_def

lemma rtc_wait_eq:
  "rtc_interrupt_flag r \<Longrightarrow> rtc_wait (replicate k False @ True # bs) r = Some (0, r\<lparr>rtc_interrupt_flag := False\<rparr>, Suc k)"
  by (induction k arbitrary: r) (simp_all add: rtc_wait.simps [of "_ # _"] rtc_wait.simps [of _ "r\<lparr>rtc_interrupt_flag := False\<rparr>" for r] rtc_interrupt_def)

lemma rtc_wait_stuck: "rtc_interrupt_flag r \<Longrightarrow> rtc_wait (replicate k False) r = None"
  by (induction k) (simp_all add: rtc_wait.simps)

section \<open>Properties\<close>

text \<open>
  for the sixteen vectors of the two controllers, enabling or disabling a line makes exactly
  that line enabled or disabled and leaves every other line as it was, and the mask written to the
  controller is the new value of the kernel's copy.
\<close>

theorem irq_lines_independent:
  assumes "0x20 \<le> i" "i < 0x30" "0x20 \<le> j" "j < 0x30"
  shows "(irq_enabled j (fst (enable_irq i p)) \<longleftrightarrow> j = i \<or> irq_enabled j p)
    \<and> (irq_enabled j (fst (disable_irq i p)) \<longleftrightarrow> j \<noteq> i \<and> irq_enabled j p)
    \<and> snd (enable_irq i p) = (if i < 0x28 then [(get_master_mask (fst (enable_irq i p)), 0x21)]
                              else [(get_slave_mask (fst (enable_irq i p)), 0xA1)])"
proof -
  have b: "bit (irq_bit i 0x20) n \<longleftrightarrow> n = i - 0x20" if "i < 0x28" for n
    using bit_irq_bit [of 32 i n] assms(1) that by simp
  have c: "bit (irq_bit i 0x28) n \<longleftrightarrow> n = i - 0x28" if "\<not> i < 0x28" for n
    using bit_irq_bit [of 40 i n] assms(2) that by simp
  show ?thesis
    using assms by (auto simp: pic_defs bit_simps b c get_master_mask_def get_slave_mask_def
        MASTER_8259_DATAPORT_def SLAVE_8259_DATAPORT_def)
qed

theorem irq_lines_independent_witness:
  "irq_enabled 0x21 (fst (enable_irq 0x21 (fst (i8259_init \<lparr>master_mask = 0, slave_mask = 0\<rparr>))))"
  using irq_lines_independent [of 33 33 "fst (i8259_init \<lparr>master_mask = 0, slave_mask = 0\<rparr>)"] by simp

text \<open>
  setting the clock to a supported frequency of at most 1024 Hz writes to register A the old
  upper four bits with a rate-select value \<open>r\<close> whose divider gives that frequency
  (\<open>32768 = f * 2 ^ (r - 1)\<close>), between two writes that mask and unmask only the clock's line; an
  unsupported value is refused with nothing written; and 2048, 4096 and 8192 Hz are reported as
  success although nothing is written.
\<close>

theorem rtc_frequency:
  "case rtc_set_frequency f prev p of (v, p', w) \<Rightarrow>
     (if f \<in> {2, 4, 8, 16, 32, 64, 128, 256, 512, 1024}
      then v = 0 \<and> irq_enabled RTC_IRQ_NUMBER p' \<and> master_mask p' = master_mask p
        \<and> (\<exists>r. w ! 3 = ((prev AND 0xF0) OR r, 0x71) \<and> r AND 0xF0 = 0 \<and> 32768 = nat f * 2 ^ (unat r - 1))
      else p' = p \<and> w = [] \<and> (v = 0 \<longleftrightarrow> f \<in> {2048, 4096, 8192}))"
proof (cases "f \<in> {2, 4, 8, 16, 32, 64, 128, 256, 512, 1024}")
  case True
  then obtain r where r: "rtc_rate f = Inr r" "r AND 0xF0 = 0" "32768 = nat f * 2 ^ (unat r - 1)"
    by (auto simp: rtc_rate_def)
  moreover have "bit (irq_bit 0x28 0x28) n \<longleftrightarrow> n = 0" for n using bit_irq_bit [of 40 40 n] by simp
  ultimately show ?thesis
    using True by (auto simp: rtc_set_frequency_def pic_defs RTC_IRQ_NUMBER_def RTC_DATA_PORT_def bit_simps
        intro!: exI [of _ r])
next
  case False
  then show ?thesis
    by (cases "rtc_rate f") (auto simp: rtc_set_frequency_def rtc_rate_def split: if_splits)
qed

text \<open>
  a read of the clock blocks until the next clock interrupt and then returns 0: with \<open>k\<close> other
  instants before the first interrupt it returns right after it, with the flag clear, and it does
  not return while no interrupt comes.
\<close>

theorem rtc_read_blocks:
  "rtc_read (replicate k False @ True # bs) r = Some (0, r\<lparr>rtc_interrupt_flag := False\<rparr>, Suc k)
   \<and> rtc_read (replicate k False) r = None"
  using rtc_wait_eq [of "r\<lparr>rtc_interrupt_flag := True\<rparr>" k bs] rtc_wait_stuck [of "r\<lparr>rtc_interrupt_flag := True\<rparr>" k]
  by (simp add: rtc_read_def)

end
