(* ===== verification/Process.thy ===== *)
theory Process
  imports FileSys Scheduling Devices
begin

text \<open>
  Processes: the PCBs of \<open>types.h\<close>, \<open>parse_exec\<close>, \<open>file_to_mem\<close>, \<open>execute\<close> and \<open>halt\<close> of
  \<open>filesys.c\<close>, and \<open>init_schedule\<close> and the timer interrupt \<open>pit_interrupt\<close> of \<open>scheduling.c\<close>,
  on one kernel state.

  The PCB of process slot \<open>n\<close> lives at address \<open>8 MB - 8 KB * (n + 1)\<close>; a PCB pointer is modelled by
  its slot, NULL by \<open>None\<close>. The bytes copied to the load address of a slot's user page are
  \<open>user_image\<close>. Registers saved by the assembly are arguments. \<open>execute\<close> and \<open>halt\<close> do not
  return to their C caller when they succeed: the outcome says where the processor continues.
  \<open>None\<close> stands for an access outside a buffer or through a bad pointer.
\<close>

record pcb =
  file_array :: "filedesc list"
  parent_pid :: int
  pid :: int
  ret_addr :: u32
  pcb_esp :: u32
  pcb_ebp :: u32
  args :: "u8 list"
  vidmap_check :: bool
  con :: int

record kstate =
  image :: mem
  filesys_addr :: nat
  pcbs :: "nat \<Rightarrow> pcb"
  cur_pcb :: "nat option"
  task_queue :: "task list"
  kpaging :: paging
  tss_esp0 :: u32
  con_ovr_flag :: bool
  con_ovr_idx :: int
  con_idx :: int
  user_image :: "nat \<Rightarrow> u8 list"

definition KB_8 :: u32 where "KB_8 = 0x2000"

definition pcb_addr :: "nat \<Rightarrow> u32" where
  "pcb_addr n = MB_8 - KB_8 - KB_8 * of_nat n"

definition kernel_stack :: "nat \<Rightarrow> u32" where
  "kernel_stack n = pcb_addr n + KB_8 - 2"

definition update_pcb :: "nat \<Rightarrow> (pcb \<Rightarrow> pcb) \<Rightarrow> kstate \<Rightarrow> kstate" where
  "update_pcb n f s = s\<lparr>pcbs := (pcbs s)(n := f (pcbs s n))\<rparr>"

section \<open>Command lines\<close>

function parse_name :: "u8 list \<Rightarrow> u8 list \<Rightarrow> nat \<Rightarrow> (u8 list \<times> nat) option" where
  "parse_name str filename i =
     (if i < length str
      then (if str ! i \<noteq> 0x20 \<and> str ! i \<noteq> 0 \<and> i < MAX_FNAME_SIZE
            then Option.bind (store filename i (str ! i)) (\<lambda>f. parse_name str f (i + 1))
            else map_option (\<lambda>f. (f, i)) (store filename i 0))
      else None)"
  by pat_completeness auto
termination by (relation "measure (\<lambda>(str, f, i). length str - i)") auto

function skip_spaces :: "u8 list \<Rightarrow> nat \<Rightarrow> nat option" where
  "skip_spaces str i =
     (if i < length str then (if str ! i = 0x20 then skip_spaces str (i + 1) else Some i) else None)"
  by pat_completeness auto
termination by (relation "measure (\<lambda>(str, i). length str - i)") auto

function parse_args :: "u8 list \<Rightarrow> u8 list \<Rightarrow> nat \<Rightarrow> nat \<Rightarrow> u8 list option" where
  "parse_args str argstr i j =
     (if i < length str
      then (if str ! i \<noteq> 0 \<and> j < 128
            then Option.bind (store argstr j (str ! i))
              (\<lambda>a. if str ! i \<noteq> 0x20 then parse_args str a (i + 1) (j + 1)
                   else if i + 1 < length str
                   then parse_args str a (i + 1) (if str ! (i + 1) \<noteq> 0 then j + 1 else j)
                   else None)
            else store argstr j 0)
      else None)"
  by pat_completeness auto
termination by (relation "measure (\<lambda>(str, a, i, j). length str - i)") auto

declare parse_name.simps [simp del] skip_spaces.simps [simp del] parse_args.simps [simp del]

definition parse_exec :: "u8 list \<Rightarrow> u8 list \<Rightarrow> u8 list \<Rightarrow> (u8 list \<times> u8 list) option" where
  "parse_exec str filename argstr =
     (case parse_name str filename 0 of
        None \<Rightarrow> None
      | Some (f, i) \<Rightarrow>
          (case skip_spaces str i of
             None \<Rightarrow> None
           | Some i2 \<Rightarrow> map_option (\<lambda>a. (f, a)) (parse_args str argstr i2 0)))"

section \<open>Loading a program\<close>

definition elf_magic :: "u8 list \<Rightarrow> bool" where
  "elf_magic b \<longleftrightarrow> b ! 0 = 0x7F \<and> b ! 1 = 0x45 \<and> b ! 2 = 0x4C \<and> b ! 3 = 0x46"

definition entry_point :: "u8 list \<Rightarrow> u32" where
  "entry_point b = push_bit 24 (ucast (b ! 27)) + push_bit 16 (ucast (b ! 26)) + push_bit 8 (ucast (b ! 25)) + ucast (b ! 24)"

text \<open>The part of \<open>file_to_mem\<close> that fills in the new PCB, and chooses its console.\<close>

definition setup_pcb :: "nat \<Rightarrow> nat option \<Rightarrow> kstate \<Rightarrow> kstate" where
  "setup_pcb n parent s =
     (let s1 = update_pcb n (\<lambda>p. p\<lparr>parent_pid := int n - 1, pid := int n\<rparr>) (s\<lparr>cur_pcb := Some n\<rparr>)
      in if n = 0 then update_pcb n (\<lambda>p. p\<lparr>con := 0\<rparr>) s1
         else if con_ovr_flag s1
         then (update_pcb n (\<lambda>p. p\<lparr>con := con_ovr_idx s1\<rparr>) s1)\<lparr>con_ovr_flag := False\<rparr>
         else case parent of
             Some q \<Rightarrow> update_pcb n (\<lambda>p. p\<lparr>con := con (pcbs s1 q)\<rparr>) s1
           | None \<Rightarrow> update_pcb n (\<lambda>p. p\<lparr>con := 0\<rparr>) s1)"

text \<open>
  \<open>file_to_mem\<close> enables interrupts after it has set up the PCB, before it copies the program.
  \<open>load_begin\<close> is the part up to there: it fails, or leaves what the rest needs, the inode, the size and the
  first 40 bytes of the file.
\<close>

record loading =
  ld_inode :: nat
  ld_size :: nat
  ld_head :: "u8 list"

definition load_begin :: "layout \<Rightarrow> u8 list \<Rightarrow> kstate \<Rightarrow> (loading option \<times> kstate) option" where
  "load_begin l name s =
     (case read_dentry_by_name (image s) (filesys_addr s) name of
        None \<Rightarrow> None
      | Some None \<Rightarrow> Some (None, s)
      | Some (Some d) \<Rightarrow>
          (let file_size = get_inode_len (image s) (filesys_addr s) (inode_num d);
               temp_buf = read_data (image s) (filesys_addr s) (inode_num d) 0 40
           in if length temp_buf \<noteq> 40 then Some (None, s)
              else if \<not> elf_magic temp_buf then Some (None, s)
              else (case new_process_ptable l (kpaging s) of (process_num, pg) \<Rightarrow>
                if process_num = -1 then Some (None, s\<lparr>kpaging := pg\<rparr>)
                else Some (Some \<lparr>ld_inode = inode_num d, ld_size = file_size, ld_head = temp_buf\<rparr>,
                           setup_pcb (nat process_num) (cur_pcb s) (s\<lparr>kpaging := pg\<rparr>)))))"

text \<open>
  The copy goes to the load address in the page directory that is loaded, which is that of the current
  process. The result is the entry point, or \<open>-1\<close> as the unsigned value \<open>0xFFFFFFFF\<close>.
\<close>

definition load_end :: "loading \<Rightarrow> kstate \<Rightarrow> u32 \<times> kstate" where
  "load_end ld s =
     (let body = read_data (image s) (filesys_addr s) (ld_inode ld) 0 (ld_size ld);
          s2 = (case cur_pcb s of None \<Rightarrow> s | Some n \<Rightarrow> s\<lparr>user_image := (user_image s)(n := body)\<rparr>)
      in (if length body \<noteq> ld_size ld then -1 else entry_point (ld_head ld), s2))"

definition file_to_mem :: "layout \<Rightarrow> u8 list \<Rightarrow> kstate \<Rightarrow> (u32 \<times> kstate) option" where
  "file_to_mem l name s =
     (case load_begin l name s of
        None \<Rightarrow> None
      | Some (None, s1) \<Rightarrow> Some (-1, s1)
      | Some (Some ld, s1) \<Rightarrow> Some (load_end ld s1))"

section \<open>Execute and halt\<close>

text \<open>
  \<open>execute\<close> and \<open>halt\<close> end in one of these ways: they return to their C caller; they enter a program at an
  address with the user's selectors; \<open>iret\<close> takes the general registers and a code selector as they
  come; they go on at the end of another \<open>execute\<close>, on a stack given by two registers; or (the timer)
  on the stack of another task.
\<close>

record exec_regs =
  reg_ebx :: u32
  reg_ecx :: u32
  reg_edx :: u32

datatype outcome =
    Returns int kstate
  | ToUser u32 kstate
  | Iret exec_regs u32 kstate
  | ToParent u32 u32 kstate
  | Resume u32 u32 kstate

text \<open>The parent that \<open>execute\<close> records: none while fewer than three tasks are in the queue.\<close>

definition exec_parent :: "kstate \<Rightarrow> int" where
  "exec_parent s =
     (case cur_pcb s of
        None \<Rightarrow> -1
      | Some c \<Rightarrow> if task_pcb (task_queue s ! 2) = None then -1 else pid (pcbs s c))"

text \<open>
  \<open>execute\<close> in two parts, before and after the place in \<open>file_to_mem\<close> from which on timer interrupts can
  come in; what the first part keeps in local variables is the record \<open>starting\<close>. \<open>esp\<close> and \<open>ebp\<close> are the
  registers at entry, \<open>fresh\<close> is what the uninitialised fields of the new task structure hold, and \<open>fbuf\<close>
  and \<open>abuf\<close> what the two local buffers hold. \<open>execute\<close> itself is the run without an interruption.
\<close>

record starting =
  st_args :: "u8 list"
  st_parent :: int
  st_cur :: task
  st_load :: loading

definition exec_begin :: "layout \<Rightarrow> u8 list \<Rightarrow> u8 list \<Rightarrow> u8 list \<Rightarrow> kstate \<Rightarrow> (starting option \<times> kstate) option" where
  "exec_begin l fbuf abuf strname s =
     (case parse_exec strname fbuf abuf of
        None \<Rightarrow> None
      | Some (prog, argstr) \<Rightarrow>
          (case load_begin l prog s of
             None \<Rightarrow> None
           | Some (None, s1) \<Rightarrow> Some (None, s1)
           | Some (Some ld, s1) \<Rightarrow>
               Some (Some \<lparr>st_args = argstr, st_parent = exec_parent s, st_cur = task_queue s ! 0, st_load = ld\<rparr>, s1)))"

definition exec_end :: "u32 \<Rightarrow> u32 \<Rightarrow> task \<Rightarrow> starting \<Rightarrow> kstate \<Rightarrow> outcome option" where
  "exec_end esp ebp fresh st s =
     (case load_end (st_load st) s of (entry_addr, s1) \<Rightarrow>
        if entry_addr = -1 then Some (Returns (-1) s1)
        else (case cur_pcb s1 of
            None \<Rightarrow> None
          | Some n \<Rightarrow>
              (case strcpy (args (pcbs s1 n)) (st_args st) of
                 None \<Rightarrow> None
               | Some av \<Rightarrow>
                   (let fa = file_array (pcbs s1 n);
                        fa1 = fa[0 := (fa ! 0)\<lparr>optbl := Some StdioOptbl, in_use := True\<rparr>];
                        fa2 = fa1[1 := (fa1 ! 1)\<lparr>optbl := Some StdioOptbl, in_use := True\<rparr>];
                        s2 = update_pcb n (\<lambda>p. p\<lparr>file_array := fa2, pcb_esp := esp, pcb_ebp := ebp,
                               args := av, vidmap_check := False, parent_pid := st_parent st,
                               ret_addr := entry_addr\<rparr>) s1;
                        temp_cur2 = (if parent_pid (pcbs s2 n) \<noteq> -1 then (st_cur st)\<lparr>enabled := False\<rparr> else st_cur st);
                        temp_next = fresh\<lparr>task_pcb := Some n, task_state := 1, enabled := True\<rparr>;
                        q1 = (if pid (pcbs s2 n) \<noteq> 0 then snd (task_push (Some temp_cur2) (task_queue s2)) else task_queue s2);
                        s3 = s2\<lparr>task_queue := q1[0 := temp_next], tss_esp0 := kernel_stack n\<rparr>
                    in Some (ToUser (ret_addr (pcbs s3 n)) s3)))))"

definition execute :: "layout \<Rightarrow> u32 \<Rightarrow> u32 \<Rightarrow> task \<Rightarrow> u8 list \<Rightarrow> u8 list \<Rightarrow> u8 list \<Rightarrow> kstate \<Rightarrow> outcome option" where
  "execute l esp ebp fresh fbuf abuf strname s =
     (case exec_begin l fbuf abuf strname s of
        None \<Rightarrow> None
      | Some (None, s1) \<Rightarrow> Some (Returns (-1) s1)
      | Some (Some st, s1) \<Rightarrow> exec_end esp ebp fresh st s1)"

definition clear_fd :: "filedesc \<Rightarrow> filedesc" where
  "clear_fd f = f\<lparr>in_use := False, fd_inode := 0, optbl := None, fd_pos := 0\<rparr>"

text \<open>
  \<open>halt\<close>. For a process without a parent it jumps to \<open>exec\<close>, the end of \<open>execute\<close>, with its entry point in
  \<open>eax\<close>, which is pushed there as the code selector; the stack selector and pointer and the instruction
  pointer are what the other registers (\<open>rg\<close>) happen to hold. (The screen is cleared before, see
  theory \<open>Syscall\<close>.) For the others, \<open>halt_begin\<close> runs with interrupts on and \<open>halt_end\<close> with interrupts off; the
  return to the parent goes through \<open>exec_ret\<close>, which loads the constant \<open>0x7FFFBE\<close> into the stack pointer.
\<close>

definition halt_begin :: "layout \<Rightarrow> nat \<Rightarrow> kstate \<Rightarrow> kstate option" where
  "halt_begin l c s =
     (let s1 = update_pcb c (\<lambda>p. p\<lparr>file_array := map clear_fd (file_array p), vidmap_check := False\<rparr>) s;
          pg1 = (kpaging s1)\<lparr>vmem_table2 := (vmem_table2 (kpaging s1))[0 := 0]\<rparr>
      in case return_parent_paging l (parent_pid (pcbs s1 c)) (pid (pcbs s1 c)) pg1 of
           None \<Rightarrow> None
         | Some pg2 \<Rightarrow>
             (if parent_pid (pcbs s1 c) < 0 then None
              else (let p = nat (parent_pid (pcbs s1 c))
                    in Some (s1\<lparr>kpaging := pg2, cur_pcb := Some p, tss_esp0 := kernel_stack p\<rparr>))))"

definition halt_end :: "task \<Rightarrow> kstate \<Rightarrow> outcome option" where
  "halt_end fresh s =
     (case cur_pcb s of
        None \<Rightarrow> None
      | Some p \<Rightarrow>
          (let temp = task_grab (fresh\<lparr>task_pcb := Some p\<rparr>) (task_queue s);
               q1 = snd (task_pop (Some temp) (task_queue s));
               s2 = s\<lparr>task_queue := q1[0 := temp\<lparr>enabled := True\<rparr>]\<rparr>
           in Some (ToParent 0x7FFFBE (pcb_ebp (pcbs s2 p)) s2)))"

definition halt :: "layout \<Rightarrow> exec_regs \<Rightarrow> task \<Rightarrow> kstate \<Rightarrow> outcome option" where
  "halt l rg fresh s =
     (case cur_pcb s of
        None \<Rightarrow> None
      | Some c \<Rightarrow>
          (if parent_pid (pcbs s c) = -1 \<or> pid (pcbs s c) = 0 then Some (Iret rg (ret_addr (pcbs s c)) s)
           else (case halt_begin l c s of None \<Rightarrow> None | Some s1 \<Rightarrow> halt_end fresh s1)))"

section \<open>The timer\<close>

definition PIT_INT_NUM :: nat where "PIT_INT_NUM = 0x20"

text \<open>
  \<open>init_schedule\<close> programs the timer. \<open>outb\<close> takes the data first and the port second.
\<close>

definition init_schedule :: "pic \<Rightarrow> task list \<Rightarrow> int \<times> pic \<times> task list \<times> outb list" where
  "init_schedule p q =
     (let (p1, w1) = disable_irq PIT_INT_NUM p;
          rate = 1193180 div (2 :: nat);
          w2 = [(0x34, 0x43), (0x40, of_nat (rate mod 256)), (0x40, of_nat (rate div 256))];
          (p2, w3) = enable_irq PIT_INT_NUM p1
      in (0, p2, init_task_queue q, w1 @ w2 @ w3))"

definition save_context :: "u32 \<Rightarrow> u32 \<Rightarrow> kstate \<Rightarrow> kstate" where
  "save_context esp ebp s =
     s\<lparr>task_queue := (task_queue s)[0 := (task_queue s ! 0)\<lparr>task_ebp := ebp, task_esp := esp, task_state := 0\<rparr>]\<rparr>"

text \<open>
  \<open>Returns 0\<close> is the plain end of the handler, \<open>Resume\<close> its end on the stack of the chosen task.
  \<open>esp\<close> and \<open>ebp\<close> are the registers in the handler, \<open>kesp\<close> and \<open>kebp\<close> those in the \<open>execute\<close> it calls.
  The acknowledgements sent to the interrupt controller are not part of this state.
\<close>

definition pit_interrupt :: "layout \<Rightarrow> u32 \<Rightarrow> u32 \<Rightarrow> u32 \<Rightarrow> u32 \<Rightarrow> task \<Rightarrow> u8 list \<Rightarrow> u8 list \<Rightarrow> kstate \<Rightarrow> outcome option" where
  "pit_interrupt l esp ebp kesp kebp fresh fbuf abuf s =
     (let s1 = save_context esp ebp s
      in if cur_pcb s1 = None \<or> task_pcb (task_queue s1 ! 2) = None
         then (let s2 = s1\<lparr>con_ovr_idx := con_idx s1, con_ovr_flag := True, con_idx := con_idx s1 + 1\<rparr>
               in case execute l kesp kebp fresh fbuf abuf (str_bytes ''shell'' @ [0]) s2 of
                    None \<Rightarrow> None
                  | Some (Returns v s3) \<Rightarrow> Some (Returns 0 s3)
                  | Some out \<Rightarrow> Some out)
         else (case rotate_loop (task_queue s1) of
             None \<Rightarrow> None
           | Some q \<Rightarrow>
               (let q1 = q[0 := (q ! 0)\<lparr>task_state := 1\<rparr>]
                in case task_pcb (q1 ! 0) of
                     None \<Rightarrow> None
                   | Some n \<Rightarrow>
                       (case swap_task_paging l (pid (pcbs s1 n)) (kpaging s1) of (v, pg) \<Rightarrow>
                          let s2 = s1\<lparr>task_queue := q1, tss_esp0 := kernel_stack n, kpaging := pg\<rparr>
                          in if v = -1 then Some (Returns 0 s2)
                             else Some (Resume (task_esp (q1 ! 0)) (task_ebp (q1 ! 0)) (s2\<lparr>cur_pcb := Some n\<rparr>))))))"


section \<open>What the command-line parser computes\<close>

lemma parse_name_eq:
  assumes "0 \<notin> set nm" "0x20 \<notin> set nm" "c = 0 \<or> c = 0x20"
    and "length xs + length nm < MAX_FNAME_SIZE" "length nm < length ds" "length pre = length xs"
  shows "parse_name (pre @ nm @ c # rest) (xs @ ds) (length xs)
    = Some (xs @ nm @ 0 # drop (length nm + 1) ds, length xs + length nm)"
  using assms
proof (induction nm arbitrary: xs ds pre)
  case Nil
  then obtain d ds' where "ds = d # ds'" by (cases ds) auto
  then show ?case
    using Nil store_at [of xs d ds' 0] by (subst parse_name.simps) (auto simp: nth_append)
next
  case (Cons a nm)
  then obtain d ds' where ds: "ds = d # ds'" by (cases ds) auto
  have "parse_name (pre @ (a # nm) @ c # rest) (xs @ ds) (length xs)
      = parse_name ((pre @ [a]) @ nm @ c # rest) ((xs @ [a]) @ ds') (length (xs @ [a]))"
    using Cons.prems store_at [of xs d ds' a] by (subst parse_name.simps) (auto simp: nth_append ds)
  also have "\<dots> = Some ((xs @ [a]) @ nm @ 0 # drop (length nm + 1) ds', length (xs @ [a]) + length nm)"
    using Cons.prems ds by (intro Cons.IH) auto
  finally show ?case by (simp add: ds)
qed

lemma skip_spaces_eq:
  "c \<noteq> 0x20 \<Longrightarrow> skip_spaces (pre @ replicate k 0x20 @ c # rest) (length pre) = Some (length pre + k)"
proof (induction k arbitrary: pre)
  case 0
  then show ?case by (simp add: skip_spaces.simps)
next
  case (Suc k)
  have "skip_spaces (pre @ replicate (Suc k) 0x20 @ c # rest) (length pre)
      = skip_spaces ((pre @ [0x20]) @ replicate k 0x20 @ c # rest) (length (pre @ [0x20]))"
    by (subst skip_spaces.simps) simp
  then show ?case using Suc.IH [OF Suc.prems, of "pre @ [0x20]"] by simp
qed

text \<open>One trailing space is dropped.\<close>

definition drop_trailing :: "u8 list \<Rightarrow> u8 list" where
  "drop_trailing w = (if w \<noteq> [] \<and> last w = 0x20 then butlast w else w)"

lemma parse_args_eq:
  assumes "0 \<notin> set w" "length xs + length w < 128" "length w < length ds"
  shows "parse_args (pre @ w @ 0 # rest) (xs @ ds) (length pre) (length xs)
    = Some (xs @ drop_trailing w @ 0 # drop (length (drop_trailing w) + 1) ds)"
  using assms
proof (induction w arbitrary: xs ds pre)
  case Nil
  then obtain d ds' where "ds = d # ds'" by (cases ds) auto
  then show ?case
    using store_at [of xs d ds' 0] by (subst parse_args.simps) (simp add: drop_trailing_def)
next
  case (Cons a w)
  then obtain d ds' where ds: "ds = d # ds'" by (cases ds) auto
  note st = store_at [of xs d ds']
  show ?case
  proof (cases "a = 0x20 \<and> w = []")
    case True
    have "parse_args (pre @ (a # w) @ 0 # rest) (xs @ ds) (length pre) (length xs)
        = parse_args ((pre @ [a]) @ 0 # rest) (xs @ a # ds') (length (pre @ [a])) (length xs)"
      using True Cons.prems st by (subst parse_args.simps) (simp add: nth_append ds)
    also have "\<dots> = Some (xs @ 0 # ds')"
      using store_at [of xs a ds' 0] nth_append_length [of "pre @ [a]" 0 rest] by (subst parse_args.simps) simp
    finally show ?thesis using True ds by (simp add: drop_trailing_def)
  next
    case False
    have "(pre @ a # w @ 0 # rest) ! Suc (length pre) \<noteq> 0" if "w \<noteq> []"
      using that Cons.prems(1) by (cases w) (auto simp: nth_append)
    then have "parse_args (pre @ (a # w) @ 0 # rest) (xs @ ds) (length pre) (length xs)
        = parse_args ((pre @ [a]) @ w @ 0 # rest) ((xs @ [a]) @ ds') (length (pre @ [a])) (length (xs @ [a]))"
      using False Cons.prems st by (subst parse_args.simps) (auto simp: nth_append ds)
    also have "\<dots> = Some ((xs @ [a]) @ drop_trailing w @ 0 # drop (length (drop_trailing w) + 1) ds')"
      using Cons.prems ds by (intro Cons.IH) auto
    finally show ?thesis using False ds by (auto simp: drop_trailing_def)
  qed
qed

lemma parse_exec_eq:
  assumes "0 \<notin> set nm" "0x20 \<notin> set nm" "length nm < 32" "0 \<notin> set w" "length w < 128"
    and "w \<noteq> [] \<longrightarrow> 0 < k \<and> hd w \<noteq> 0x20" "length fbuf = 32" "length abuf = 128"
  shows "parse_exec (nm @ replicate k 0x20 @ w @ [0]) fbuf abuf =
    Some (nm @ 0 # drop (length nm + 1) fbuf, drop_trailing w @ 0 # drop (length (drop_trailing w) + 1) abuf)"
proof -
  obtain c rest where c: "replicate k 0x20 @ w @ [0] = c # rest" "c = 0 \<or> c = 0x20"
    using assms(6) by (cases k; cases w) auto
  have "parse_name ([] @ nm @ c # rest) ([] @ fbuf) (length ([] :: u8 list))
      = Some ([] @ nm @ 0 # drop (length nm + 1) fbuf, length ([] :: u8 list) + length nm)"
    using assms c(2) by (intro parse_name_eq) (auto simp: MAX_FNAME_SIZE_def)
  then have 1: "parse_name (nm @ replicate k 0x20 @ w @ [0]) fbuf 0
      = Some (nm @ 0 # drop (length nm + 1) fbuf, length nm)" using c(1) by simp
  obtain c' rest' where c': "w @ [0] = c' # rest'" "c' \<noteq> 0x20" using assms(6) by (cases w) auto
  have 2: "skip_spaces (nm @ replicate k 0x20 @ w @ [0]) (length nm) = Some (length nm + k)"
    using skip_spaces_eq [OF c'(2), of nm k rest'] c'(1) by simp
  have 3: "parse_args ((nm @ replicate k 0x20) @ w @ 0 # []) ([] @ abuf) (length (nm @ replicate k 0x20)) (length ([] :: u8 list))
      = Some ([] @ drop_trailing w @ 0 # drop (length (drop_trailing w) + 1) abuf)"
    using assms by (intro parse_args_eq) auto
  show ?thesis using 1 2 3 by (simp add: parse_exec_def)
qed


lemma parse_name_long:
  assumes "0 \<notin> set nm" "0x20 \<notin> set nm" "length xs + length nm = 32" "length pre = length xs" "length ds = length nm"
  shows "parse_name (pre @ nm @ rest) (xs @ ds) (length xs) = None"
  using assms
proof (induction nm arbitrary: xs ds pre)
  case Nil
  then show ?case by (subst parse_name.simps) (auto simp: store_def MAX_FNAME_SIZE_def)
next
  case (Cons a nm)
  then obtain d ds' where ds: "ds = d # ds'" by (cases ds) auto
  have "parse_name (pre @ (a # nm) @ rest) (xs @ ds) (length xs)
      = parse_name ((pre @ [a]) @ nm @ rest) ((xs @ [a]) @ ds') (length (xs @ [a]))"
    using Cons.prems store_at [of xs d ds' a]
    by (subst parse_name.simps) (auto simp: nth_append ds MAX_FNAME_SIZE_def)
  then show ?case using Cons.IH [of "xs @ [a]" "pre @ [a]" ds'] Cons.prems ds by simp
qed

section \<open>Properties\<close>

text \<open>
  C28: \<open>parse_exec\<close> splits a command line into the program name and the arguments: for a name of
  less than 32 characters and arguments of less than 128, any number of spaces between them, it
  stays in its two buffers and leaves there the name and the arguments without one trailing space,
  both NUL-terminated.
\<close>

theorem parse_exec_splits:
  assumes "0 \<notin> set nm" "0x20 \<notin> set nm" "length nm < 32" "0 \<notin> set w" "length w < 128"
    and "w \<noteq> [] \<longrightarrow> 0 < k \<and> hd w \<noteq> 0x20" "length fbuf = 32" "length abuf = 128"
  shows "\<exists>f a. parse_exec (nm @ replicate k 0x20 @ w @ [0]) fbuf abuf = Some (f, a)
    \<and> length f = 32 \<and> length a = 128 \<and> cstr f = nm \<and> cstr a = drop_trailing w \<and> terminated f \<and> terminated a"
proof -
  have "0 \<notin> set (drop_trailing w)" "length (drop_trailing w) < 128"
    using assms(4,5) by (auto simp: drop_trailing_def dest: in_set_butlastD)
  then show ?thesis
    using parse_exec_eq [OF assms] assms by (simp add: terminated_def)
qed

theorem parse_exec_splits_witness:
  "\<exists>f a. parse_exec (str_bytes ''grep'' @ replicate 2 0x20 @ str_bytes ''very large '' @ [0]) (replicate 32 0) (replicate 128 0) = Some (f, a)
    \<and> cstr f = str_bytes ''grep'' \<and> cstr a = str_bytes ''very large''"
  using parse_exec_splits [of "str_bytes ''grep''" "str_bytes ''very large ''" 2 "replicate 32 0" "replicate 128 0"]
  by (auto simp: str_bytes_def of_char_def drop_trailing_def)

text \<open>
  a program name of 32 or more characters makes \<open>parse_exec\<close> write the terminating NUL past
  the end of the 32-byte name buffer of \<open>execute\<close> (an access out of bounds in the model).
\<close>

theorem parse_exec_long_name:
  assumes "0 \<notin> set nm" "0x20 \<notin> set nm" "length nm = 32" "length fbuf = 32"
  shows "parse_exec (nm @ rest) fbuf abuf = None"
  using parse_name_long [of nm "[]" "[]" fbuf rest] assms by (simp add: parse_exec_def)

theorem parse_exec_long_name_witness:
  "parse_exec (replicate 32 0x61 @ [0]) (replicate 32 0) (replicate 128 0) = None"
  using parse_exec_long_name [of "replicate 32 0x61" "replicate 32 0" "[0]" "replicate 128 0"] by simp

text \<open>
  \<open>init_schedule\<close> empties the task queue and leaves the timer line enabled and the other lines
  alone, but it passes data and port in the wrong order when it sets the rate: no byte ever goes to
  the timer's data port \<open>0x40\<close>; the byte \<open>0x40\<close> goes to ports \<open>0x6E\<close> and \<open>0x91A\<close>.
\<close>

theorem init_schedule_ports:
  "case init_schedule p q of (v, p', q', w) \<Rightarrow>
     v = 0 \<and> irq_enabled PIT_INT_NUM p' \<and> slave_mask p' = slave_mask p
     \<and> q' = init_task_queue q
     \<and> take 3 (drop 1 w) = [(0x34, 0x43), (0x40, 0x6E), (0x40, 0x91A)] \<and> 0x40 \<notin> snd ` set w"
proof -
  have "bit (irq_bit 32 32) n \<longleftrightarrow> n = 0" for n using bit_irq_bit [of 32 32 n] by simp
  then show ?thesis
    by (simp add: init_schedule_def pic_defs PIT_INT_NUM_def MASTER_8259_DATAPORT_def bit_simps)
qed

end
