(* ===== verification/Kernel.thy ===== *)
theory Kernel
  imports Process
begin

text \<open>
  The process machine of the kernel. An abstract machine keeps the run queue as a list of process
  slots with a flag (runnable or sleeping) and the parent of every slot; the kernel state of theory
  \<open>Process\<close> refines it: \<open>execute\<close>, \<open>halt\<close> and the timer interrupt each perform one abstract step
  and keep the invariant \<open>kinv\<close> that ties the task queue, the page directories, the PCBs and the
  current process together.
\<close>

section \<open>The abstract machine\<close>

type_synonym run_queue = "(nat \<times> bool) list"

text \<open>
  Slots in the queue are distinct; the running process is runnable and the first shell never
  leaves; a parent sleeps in the queue while its child lives, and has no second child.
\<close>

definition sched_inv :: "run_queue \<Rightarrow> (nat \<Rightarrow> int) \<Rightarrow> bool" where
  "sched_inv es par \<longleftrightarrow> distinct (map fst es)
     \<and> (es \<noteq> [] \<longrightarrow> snd (hd es) \<and> 0 \<in> fst ` set es)
     \<and> (\<forall>c \<in> fst ` set es. par c = -1 \<or> (\<exists>p. par c = int p \<and> (p, False) \<in> set es))
     \<and> (\<forall>c \<in> fst ` set es. \<forall>d \<in> fst ` set es. par c = par d \<and> par c \<noteq> -1 \<longrightarrow> c = d)"

text \<open>A new process runs; its creator goes to the back, asleep when it is the parent.\<close>

definition spawn :: "nat \<Rightarrow> int \<Rightarrow> run_queue \<Rightarrow> run_queue" where
  "spawn n parent es = (case es of [] \<Rightarrow> [(n, True)] | (c, b) # r \<Rightarrow> (n, True) # r @ [(c, parent = -1)])"

text \<open>The running process ends and its parent wakes up in its place.\<close>

definition finish :: "nat \<Rightarrow> run_queue \<Rightarrow> run_queue" where
  "finish p es = (p, True) # filter (\<lambda>e. fst e \<noteq> p) (tl es)"

lemma sched_invI:
  assumes "distinct (map fst es)" "es \<noteq> [] \<Longrightarrow> snd (hd es)" "es \<noteq> [] \<Longrightarrow> 0 \<in> fst ` set es"
    and "\<And>c. c \<in> fst ` set es \<Longrightarrow> par c = -1 \<or> (\<exists>p. par c = int p \<and> (p, False) \<in> set es)"
    and "\<And>c d. c \<in> fst ` set es \<Longrightarrow> d \<in> fst ` set es \<Longrightarrow> par c = par d \<Longrightarrow> par c \<noteq> -1 \<Longrightarrow> c = d"
  shows "sched_inv es par"
  using assms by (simp add: sched_inv_def)

lemma sched_invD:
  assumes "sched_inv es par"
  shows "distinct (map fst es)" "es \<noteq> [] \<Longrightarrow> snd (hd es)" "es \<noteq> [] \<Longrightarrow> 0 \<in> fst ` set es"
    and "c \<in> fst ` set es \<Longrightarrow> par c = -1 \<or> (\<exists>p. par c = int p \<and> (p, False) \<in> set es)"
    and "c \<in> fst ` set es \<Longrightarrow> d \<in> fst ` set es \<Longrightarrow> par c = par d \<Longrightarrow> par c \<noteq> -1 \<Longrightarrow> c = d"
  using assms unfolding sched_inv_def by blast+

text \<open>No living process has the running one as its parent.\<close>

lemma head_childless:
  assumes "sched_inv ((c, b) # r) par" "d \<in> fst ` set ((c, b) # r)"
  shows "par d \<noteq> int c"
proof
  assume "par d = int c"
  with sched_invD(4) [OF assms] have "(c, False) \<in> set ((c, b) # r)" by auto
  then show False
    using sched_invD(1,2) [OF assms(1)] by (auto simp: image_iff)
qed

lemma spawn_dom: "fst ` set (spawn n parent es) = insert n (fst ` set es)"
  by (cases es) (force simp: spawn_def)+

lemma sched_inv_spawn:
  assumes "sched_inv es par" "n \<notin> fst ` set es" "es = [] \<longrightarrow> n = 0 \<and> parent = -1"
    and "es \<noteq> [] \<longrightarrow> parent = -1 \<or> parent = int (fst (hd es))"
  shows "sched_inv (spawn n parent es) (par(n := parent))"
proof (cases es)
  case Nil
  then show ?thesis using assms(3) by (simp add: sched_inv_def spawn_def)
next
  case (Cons e r)
  then obtain c b where es: "es = (c, b) # r" by (cases e) auto
  note D = sched_invD [OF assms(1), unfolded es]
  have b: b using D(2) by simp
  note dom = spawn_dom [of n parent es]
  have new: "parent = -1 \<or> parent = int c" using assms(4) es by simp
  have nc: "par d \<noteq> int c" if "d \<in> fst ` set es" for d
    using head_childless assms(1) that unfolding es by blast
  show ?thesis
  proof (rule sched_invI)
    show "distinct (map fst (spawn n parent es))" using D(1) assms(2) by (auto simp: spawn_def es)
    show "snd (hd (spawn n parent es))" by (simp add: spawn_def es)
    show "0 \<in> fst ` set (spawn n parent es)" using D(3) dom es by simp
  next
    fix d assume d: "d \<in> fst ` set (spawn n parent es)"
    show "(par(n := parent)) d = -1 \<or> (\<exists>p. (par(n := parent)) d = int p \<and> (p, False) \<in> set (spawn n parent es))"
    proof (cases "d = n")
      case True
      then show ?thesis using new by (auto simp: spawn_def es)
    next
      case False
      then have "d \<in> fst ` set es" using d dom by simp
      then show ?thesis using D(4) [of d] b False by (auto simp: spawn_def es)
    qed
  next
    fix d d' assume "d \<in> fst ` set (spawn n parent es)" "d' \<in> fst ` set (spawn n parent es)"
      "(par(n := parent)) d = (par(n := parent)) d'" "(par(n := parent)) d \<noteq> -1"
    then show "d = d'"
      using new nc D(5) [folded es] unfolding dom by (metis fun_upd_other fun_upd_same insertE)
  qed
qed

lemma sched_inv_finish:
  assumes "sched_inv es par" "es = (c, True) # r" "par c = int p" "c \<noteq> 0"
  shows "sched_inv (finish p es) par" "fst ` set (finish p es) = fst ` set es - {c}" "(p, False) \<in> set r"
proof -
  note D = sched_invD [OF assms(1), unfolded assms(2)]
  have c: "c \<notin> fst ` set r" "distinct (map fst r)" using D(1) by simp_all
  have pr: "(p, False) \<in> set r" using D(4) [of c] assms(3) by auto
  then have pin: "p \<in> fst ` set r" by force
  have dom: "fst ` set (finish p es) = fst ` set r"
    using pin by (auto simp: finish_def assms(2))
  have np: "par d \<noteq> int p" if "d \<in> fst ` set r" for d
    using D(5) [of d c] assms(3) that c(1) by auto
  show "fst ` set (finish p es) = fst ` set es - {c}"
    using c(1) unfolding dom by (auto simp: assms(2))
  show "(p, False) \<in> set r" by (rule pr)
  show "sched_inv (finish p es) par"
  proof (rule sched_invI)
    show "distinct (map fst (finish p es))" using c(2) by (auto simp: finish_def assms(2) distinct_map_filter)
    show "snd (hd (finish p es))" by (simp add: finish_def)
    show "0 \<in> fst ` set (finish p es)" using D(3) assms(4) unfolding dom by auto
  next
    fix d assume d: "d \<in> fst ` set (finish p es)"
    show "par d = -1 \<or> (\<exists>q. par d = int q \<and> (q, False) \<in> set (finish p es))"
      using D(4) [of d] np [of d] d unfolding dom by (auto simp: finish_def assms(2))
  next
    fix d d' assume "d \<in> fst ` set (finish p es)" "d' \<in> fst ` set (finish p es)" "par d = par d'" "par d \<noteq> -1"
    then show "d = d'" using D(5) unfolding dom by (metis fst_conv image_insert insertI2 list.simps(15))
  qed
qed

lemma sched_inv_rotate:
  assumes "sched_inv es par" "snd (hd (rotate k es))"
  shows "sched_inv (rotate k es) par"
proof -
  have "distinct (map fst (rotate k es))" using sched_invD(1) [OF assms(1)] by (simp flip: rotate_map)
  then show ?thesis using assms by (auto simp: sched_inv_def)
qed


section \<open>The refinement relation\<close>

definition entry :: "task \<Rightarrow> nat \<times> bool" where
  "entry t = (the (task_pcb t), enabled t)"

definition ents :: "kstate \<Rightarrow> run_queue" where
  "ents s = map entry (live (task_queue s))"

definition parents :: "kstate \<Rightarrow> nat \<Rightarrow> int" where
  "parents s c = parent_pid (pcbs s c)"

definition kinv :: "kstate \<Rightarrow> bool" where
  "kinv s \<longleftrightarrow> queue_wf (task_queue s) \<and> paging_invar (kpaging s)
     \<and> sched_inv (ents s) (parents s)
     \<and> fst ` set (ents s) = slots_used (kpaging s)
     \<and> cur_pcb s = (case ents s of [] \<Rightarrow> None | e # _ \<Rightarrow> Some (fst e))
     \<and> (\<forall>c \<in> slots_used (kpaging s). pid (pcbs s c) = int c)
     \<and> (\<forall>c. length (file_array (pcbs s c)) = 8 \<and> length (args (pcbs s c)) = 128)"

lemma live_put_first:
  assumes "queue_wf q" "task_pcb t \<noteq> None"
  shows "live (q[0 := t]) = t # tl (live q)" "queue_wf (q[0 := t])"
proof -
  obtain es r where s: "q = live q @ es @ r" "length (live q) + length es = 6" "length r = 10"
    "\<forall>t\<in>set es. task_pcb t = None" "\<forall>t\<in>set (live q). task_pcb t \<noteq> None"
    using queue_split [OF assms(1)] .
  have "live (q[0 := t]) = t # tl (live q) \<and> queue_wf (q[0 := t])"
  proof (cases "live q")
    case Nil
    then obtain e es' where es: "es = e # es'" using s(2) by (cases es) auto
    have "q = e # es' @ r" using s(1) unfolding Nil es by (simp only: append_Nil append_Cons)
    then have u: "q[0 := t] = [t] @ es' @ r" by (simp only: list_update_code append_Cons append_Nil)
    have "length [t] + length es' = 6" using s(2) Nil es by simp
    from queue_join [OF this s(3)] show ?thesis using s(4) es assms(2) Nil unfolding u by simp
  next
    case (Cons h ls)
    have "q = h # ls @ es @ r" using s(1) unfolding Cons by (simp only: append_Cons)
    then have u: "q[0 := t] = (t # ls) @ es @ r" by (simp only: list_update_code append_Cons)
    have "length (t # ls) + length es = 6" using s(2) Cons by simp
    from queue_join [OF this s(3,4)] show ?thesis using s(5) assms(2) unfolding u by (simp add: Cons)
  qed
  then show "live (q[0 := t]) = t # tl (live q)" "queue_wf (q[0 := t])" by blast+
qed

text \<open>Changing other fields of the first entry keeps the queue's shape.\<close>

lemma entries_put_first:
  assumes "queue_wf q" "task_pcb t = task_pcb (q ! 0)" "enabled t = enabled (q ! 0)"
  shows "map entry (live (q[0 := t])) = map entry (live q)" "queue_wf (q[0 := t])"
proof -
  have "map entry (live (q[0 := t])) = map entry (live q) \<and> queue_wf (q[0 := t])"
  proof (cases "live q")
    case Nil
    then have n: "task_pcb t = None" using live_Nil_iff [OF assms(1)] assms(2) by simp
    obtain es r where s: "q = live q @ es @ r" "length (live q) + length es = 6" "length r = 10"
      "\<forall>t\<in>set es. task_pcb t = None"
      using queue_split [OF assms(1)] by metis
    obtain e es' where es: "es = e # es'" using s(2) Nil by (cases es) auto
    have "q = e # es' @ r" using s(1) unfolding Nil es by (simp only: append_Nil append_Cons)
    then have u: "q[0 := t] = [] @ (t # es') @ r" by (simp only: list_update_code append_Cons append_Nil)
    have "length ([] :: task list) + length (t # es') = 6" using s(2) Nil es by simp
    from queue_join [OF this s(3)] show ?thesis using s(4) es n Nil unfolding u by simp
  next
    case (Cons h ls)
    then have "h = q ! 0" "task_pcb h \<noteq> None" using live_hd [OF assms(1)] live_valid [of h q] by auto
    then show ?thesis
      using live_put_first [OF assms(1), of t] Cons assms(2,3) by (simp add: entry_def)
  qed
  then show "map entry (live (q[0 := t])) = map entry (live q)" "queue_wf (q[0 := t])" by blast+
qed

section \<open>Loading a program\<close>

lemma new_process_fails: "new_process_ptable l p = (-1, p') \<Longrightarrow> p' = p"
  by (cases rule: new_process_ptable_cases [of p l]) auto

lemma new_process_alloc:
  assumes "new_process_ptable l p = (v, p')" "v \<noteq> -1"
  shows "alloc_slot_of l p = Some (nat v, p')"
  using assms by (simp add: alloc_slot_of_def)

text \<open>What a successful or failed load leaves: the same state, or a new slot with its PCB.\<close>

definition loaded :: "layout \<Rightarrow> nat \<Rightarrow> kstate \<Rightarrow> kstate \<Rightarrow> bool" where
  "loaded l n s s' \<longleftrightarrow> alloc_slot_of l (kpaging s) = Some (n, kpaging s') \<and> cur_pcb s' = Some n
     \<and> task_queue s' = task_queue s \<and> pid (pcbs s' n) = int n
     \<and> (\<forall>k. k \<noteq> n \<longrightarrow> pcbs s' k = pcbs s k)
     \<and> file_array (pcbs s' n) = file_array (pcbs s n) \<and> args (pcbs s' n) = args (pcbs s n)"

lemma setup_pcb_loaded:
  "alloc_slot_of l (kpaging s) = Some (n, pg) \<Longrightarrow>
   loaded l n s ((setup_pcb n par (s\<lparr>kpaging := pg\<rparr>))\<lparr>user_image := im\<rparr>)"
  by (simp add: loaded_def setup_pcb_def update_pcb_def Let_def split: option.splits)

lemma setup_pcb_fields:
  "image (setup_pcb n c t) = image t" "filesys_addr (setup_pcb n c t) = filesys_addr t"
  by (simp_all add: setup_pcb_def update_pcb_def Let_def split: option.splits)

lemma load_begin_cases:
  assumes "load_begin l name s = Some (r, s')"
  shows "image s' = image s \<and> filesys_addr s' = filesys_addr s
    \<and> (r = None \<and> s' = s \<or> (\<exists>ld n. r = Some ld \<and> loaded l n s s'))"
proof -
  obtain od where od: "read_dentry_by_name (image s) (filesys_addr s) name = Some od"
    using assms by (auto simp: load_begin_def split: option.splits)
  show ?thesis
  proof (cases od)
    case None
    then show ?thesis using assms od by (simp add: load_begin_def)
  next
    case (Some d)
    obtain v pg where np: "new_process_ptable l (kpaging s) = (v, pg)" by (metis surj_pair)
    have "s' = s" if "v = -1" "s' = s\<lparr>kpaging := pg\<rparr>" using that new_process_fails np by fastforce
    moreover have "loaded l (nat v) s (setup_pcb (nat v) c (s\<lparr>kpaging := pg\<rparr>))" if "v \<noteq> -1" for c
      using setup_pcb_loaded [OF new_process_alloc [OF np that], where par = c and im = "user_image (setup_pcb (nat v) c (s\<lparr>kpaging := pg\<rparr>))"] by simp
    ultimately show ?thesis
      using assms od Some np by (auto simp: load_begin_def Let_def setup_pcb_fields split: if_splits)
  qed
qed

lemma load_begin_file:
  assumes "load_begin l name s = Some (Some ld, s')"
  shows "\<exists>d. read_dentry_by_name (image s) (filesys_addr s) name = Some (Some d)
    \<and> ld = \<lparr>ld_inode = inode_num d, ld_size = get_inode_len (image s) (filesys_addr s) (inode_num d),
             ld_head = read_data (image s) (filesys_addr s) (inode_num d) 0 40\<rparr> \<and> length (ld_head ld) = 40 \<and> elf_magic (ld_head ld)"
  using assms by (auto simp: load_begin_def Let_def split: option.splits if_splits prod.splits)

lemma load_end_fields:
  assumes "load_end ld s = (e, s')"
  shows "\<exists>im. s' = s\<lparr>user_image := im\<rparr>"
  using assms by (cases "cur_pcb s") (auto simp: load_end_def Let_def intro: exI [of _ "user_image s"])

lemma loaded_image: "loaded l n s s1 \<Longrightarrow> loaded l n s (s1\<lparr>user_image := im\<rparr>)"
  by (simp add: loaded_def)


section \<open>Execute\<close>

text \<open>The state after a successful \<open>execute\<close>, in terms of the state before.\<close>

definition exec_queue :: "kstate \<Rightarrow> nat \<Rightarrow> task list" where
  "exec_queue s n =
     (if n = 0 then task_queue s
      else snd (task_push (Some (let h = task_queue s ! 0
             in if exec_parent s = -1 then h else h\<lparr>enabled := False\<rparr>)) (task_queue s)))"

definition executed :: "layout \<Rightarrow> task \<Rightarrow> nat \<Rightarrow> kstate \<Rightarrow> kstate \<Rightarrow> bool" where
  "executed l fresh n s s' \<longleftrightarrow> alloc_slot_of l (kpaging s) = Some (n, kpaging s') \<and> cur_pcb s' = Some n
     \<and> (\<forall>k. k \<noteq> n \<longrightarrow> pcbs s' k = pcbs s k) \<and> pid (pcbs s' n) = int n
     \<and> parent_pid (pcbs s' n) = exec_parent s
     \<and> length (file_array (pcbs s' n)) = length (file_array (pcbs s n))
     \<and> length (args (pcbs s' n)) = length (args (pcbs s n))
     \<and> tss_esp0 s' = kernel_stack n
     \<and> task_queue s' = (exec_queue s n)[0 := fresh\<lparr>task_pcb := Some n, task_state := 1, enabled := True\<rparr>]"

lemma exec_begin_cases [consumes 1, case_names fails starts]:
  assumes "exec_begin l fbuf abuf str s = Some (r, s1)"
  obtains (fails) "r = None" "s1 = s"
    | (starts) st n f where "r = Some st" "loaded l n s s1" "parse_exec str fbuf abuf = Some (f, st_args st)"
        "load_begin l f s = Some (Some (st_load st), s1)"
        "st_parent st = exec_parent s" "st_cur st = task_queue s ! 0" "image s1 = image s" "filesys_addr s1 = filesys_addr s"
proof -
  obtain f a r' where p: "parse_exec str fbuf abuf = Some (f, a)" "load_begin l f s = Some (r', s1)"
    "r = map_option (\<lambda>ld. \<lparr>st_args = a, st_parent = exec_parent s, st_cur = task_queue s ! 0, st_load = ld\<rparr>) r'"
    using assms by (auto simp: exec_begin_def split: option.splits prod.splits)
  show ?thesis
  proof (cases r')
    case None
    then show ?thesis using load_begin_cases [OF p(2)] fails p(3) by simp
  next
    case (Some ld)
    let ?st = "\<lparr>st_args = a, st_parent = exec_parent s, st_cur = task_queue s ! 0, st_load = ld\<rparr>"
    obtain n where "loaded l n s s1" "image s1 = image s" "filesys_addr s1 = filesys_addr s"
      using load_begin_cases [OF p(2)] Some by auto
    then show ?thesis using starts [of ?st n f] p Some by simp
  qed
qed

lemma exec_end_cases:
  assumes "exec_end esp ebp fresh st s1 = Some out" "loaded l n s s1" "st_parent st = exec_parent s" "st_cur st = task_queue s ! 0"
  shows "(\<exists>s'. out = Returns (-1) s' \<and> loaded l n s s') \<or> (\<exists>e s'. out = ToUser e s' \<and> executed l fresh n s s'
    \<and> strcpy (args (pcbs s n)) (st_args st) = Some (args (pcbs s' n)) \<and> \<not> vidmap_check (pcbs s' n)
    \<and> file_array (pcbs s' n) = (let fa = file_array (pcbs s n); fa1 = fa[0 := (fa ! 0)\<lparr>optbl := Some StdioOptbl, in_use := True\<rparr>]
         in fa1[1 := (fa1 ! 1)\<lparr>optbl := Some StdioOptbl, in_use := True\<rparr>]))"
proof -
  obtain e im where e: "load_end (st_load st) s1 = (e, s1\<lparr>user_image := im\<rparr>)"
    using load_end_fields by (metis surj_pair)
  note n = loaded_image [OF assms(2), of im]
  show ?thesis
  proof (cases "e = -1")
    case True
    then show ?thesis using assms(1) e n by (auto simp: exec_end_def)
  next
    case False
    then obtain av where av: "strcpy (args (pcbs s1 n)) (st_args st) = Some av"
      using assms(1) e n by (auto simp: exec_end_def Let_def loaded_def split: option.splits)
    have "length av = length (args (pcbs s n))" using strcpy_length [OF av] n by (simp add: loaded_def)
    with assms False n av e show ?thesis
      by (auto simp: exec_end_def Let_def loaded_def executed_def update_pcb_def exec_queue_def)
  qed
qed

lemma execute_cases:
  assumes "execute l esp ebp fresh fbuf abuf str s = Some out"
  shows "(\<exists>s'. out = Returns (-1) s' \<and> (s' = s \<or> (\<exists>n. loaded l n s s')))
    \<or> (\<exists>n e s'. out = ToUser e s' \<and> executed l fresh n s s')"
proof -
  obtain r s1 where b: "exec_begin l fbuf abuf str s = Some (r, s1)"
    using assms by (auto simp: execute_def split: option.splits)
  from b show ?thesis
  proof (cases rule: exec_begin_cases)
    case fails
    then show ?thesis using assms b by (auto simp: execute_def)
  next
    case (starts st n f)
    then have "exec_end esp ebp fresh st s1 = Some out" using assms b by (simp add: execute_def)
    from exec_end_cases [OF this starts(2,5,6)] show ?thesis by blast
  qed
qed

lemma kinvD:
  assumes "kinv s"
  shows "queue_wf (task_queue s)" "paging_invar (kpaging s)" "sched_inv (ents s) (parents s)"
    "fst ` set (ents s) = slots_used (kpaging s)"
    "cur_pcb s = (case ents s of [] \<Rightarrow> None | e # _ \<Rightarrow> Some (fst e))"
    "c \<in> slots_used (kpaging s) \<Longrightarrow> pid (pcbs s c) = int c"
    "length (file_array (pcbs s k)) = 8" "length (args (pcbs s k)) = 128"
  using assms by (simp_all add: kinv_def)

lemma live_count:
  assumes "kinv s"
  shows "length (live (task_queue s)) = card (slots_used (kpaging s))"
proof -
  have "card (fst ` set (ents s)) = length (map fst (ents s))"
    using distinct_card [OF sched_invD(1) [OF kinvD(3) [OF assms]]] by simp
  then show ?thesis using kinvD(4) [OF assms] by (simp add: ents_def)
qed

lemma executed_entries:
  assumes "kinv s" "executed l fresh n s s'"
  shows "ents s' = spawn n (exec_parent s) (ents s)" "queue_wf (task_queue s')" "n \<notin> fst ` set (ents s)"
    "ents s = [] \<longrightarrow> n = 0"
proof -
  note K = kinvD [OF assms(1)]
  define t where "t = fresh\<lparr>task_pcb := Some n, task_state := 1, enabled := True\<rparr>"
  have t: "task_pcb t = Some n" "enabled t" "task_queue s' = (exec_queue s n)[0 := t]"
    using assms(2) by (simp_all add: executed_def t_def)
  note al = slots.alloc_slot [OF K(2), of l n "kpaging s'"] slots.alloc_lowest [OF K(2), of l n "kpaging s'" 0]
  have a: "alloc_slot_of l (kpaging s) = Some (n, kpaging s')" using assms(2) by (simp add: executed_def)
  have n: "n \<notin> slots_used (kpaging s)" "n < 6" using al(1) [OF a] by (auto simp: MAX_PROCESS_def)
  then show nn: "n \<notin> fst ` set (ents s)" by (simp add: K(4))
  have "0 \<in> slots_used (kpaging s)" if "n \<noteq> 0" using al(2) [OF a] that by simp
  then show ne: "ents s = [] \<longrightarrow> n = 0" using K(4) by (metis image_is_empty empty_set empty_iff)
  have zero: "ents s = []" if "n = 0" using sched_invD(3) [OF K(3)] nn that by auto
  have "ents s' = spawn n (exec_parent s) (ents s) \<and> queue_wf (task_queue s')"
  proof (cases "n = 0")
    case True
    then have "live (task_queue s) = []" using zero by (simp add: ents_def)
    then show ?thesis
      using live_put_first [OF K(1), of t] t True zero by (simp add: ents_def spawn_def entry_def exec_queue_def)
  next
    case False
    then obtain h r where L: "live (task_queue s) = h # r" using ne by (cases "live (task_queue s)") (auto simp: ents_def)
    note hq = live_hd [OF K(1) L]
    have h: "task_pcb h \<noteq> None" "enabled h"
      using live_valid [of h "task_queue s"] L sched_invD(2) [OF K(3)] by (auto simp: ents_def entry_def)
    let ?h = "if exec_parent s = -1 then h else h\<lparr>enabled := False\<rparr>"
    have "card (slots_used (kpaging s)) < card {0..<6::nat}"
      using n slots.used_range [OF K(2)] by (intro psubset_card_mono) (auto simp: MAX_PROCESS_def)
    then have "length (live (task_queue s)) < 6" using live_count [OF assms(1)] by simp
    from task_push_live(2,3) [OF K(1) this, of ?h] h
    have p: "live (exec_queue s n) = live (task_queue s) @ [?h]" "queue_wf (exec_queue s n)"
      using False hq by (auto simp: exec_queue_def Let_def)
    from live_put_first [OF p(2), of t] t show ?thesis
      using L h by (simp add: ents_def p(1) spawn_def entry_def)
  qed
  then show "ents s' = spawn n (exec_parent s) (ents s)" "queue_wf (task_queue s')" by blast+
qed

lemma exec_parent_head:
  assumes "kinv s"
  shows "exec_parent s = -1 \<or> (ents s \<noteq> [] \<and> exec_parent s = int (fst (hd (ents s))))"
proof (cases "ents s")
  case Nil
  then show ?thesis using kinvD(5) [OF assms] by (simp add: exec_parent_def)
next
  case (Cons e r)
  then have "fst e \<in> slots_used (kpaging s)" using kinvD(4) [OF assms] by auto
  then show ?thesis using kinvD(5,6) [OF assms] Cons by (simp add: exec_parent_def)
qed

lemma executed_kinv:
  assumes "kinv s" "executed l fresh n s s'"
  shows "kinv s'"
proof -
  note K = kinvD [OF assms(1)] and E = executed_entries [OF assms]
  have X: "alloc_slot_of l (kpaging s) = Some (n, kpaging s')" "cur_pcb s' = Some n" "pid (pcbs s' n) = int n"
    "\<And>k. k \<noteq> n \<Longrightarrow> pcbs s' k = pcbs s k" "parents s' = (parents s)(n := exec_parent s)"
    using assms(2) by (auto simp: executed_def parents_def)
  have used: "slots_used (kpaging s') = insert n (slots_used (kpaging s))" "paging_invar (kpaging s')"
    using slots.alloc_used [OF K(2) X(1)] slots.alloc_invar [OF K(2) X(1)] by auto
  have "ents s = [] \<longrightarrow> exec_parent s = -1" using exec_parent_head [OF assms(1)] by auto
  then have "sched_inv (ents s') (parents s')"
    unfolding E(1) X(5) using E exec_parent_head [OF assms(1)] by (intro sched_inv_spawn [OF K(3)]) auto
  moreover have "fst ` set (ents s') = slots_used (kpaging s')"
    unfolding E(1) used(1) spawn_dom K(4) ..
  moreover have "cur_pcb s' = (case ents s' of [] \<Rightarrow> None | e # _ \<Rightarrow> Some (fst e))"
    unfolding E(1) X(2) by (cases "ents s") (auto simp: spawn_def)
  moreover have "length (file_array (pcbs s' c)) = 8 \<and> length (args (pcbs s' c)) = 128" for c
    using K(7,8) X(4) assms(2) by (cases "c = n") (auto simp: executed_def)
  moreover have "pid (pcbs s' c) = int c" if "c \<in> slots_used (kpaging s')" for c
    using that K(6) X(3,4) used(1) by (cases "c = n") auto
  ultimately show ?thesis using E(2) used(2) by (simp add: kinv_def)
qed


section \<open>Halt\<close>

lemma paging_vmem2 [simp]:
  "paging_invar (p\<lparr>vmem_table2 := t\<rparr>) = paging_invar p" "slots_used (p\<lparr>vmem_table2 := t\<rparr>) = slots_used p"
  by (simp_all add: paging_invar_def slots_used_def user_pde_def)

lemma task_grab_found:
  assumes "queue_wf q" "t \<in> set (live q)" "task_pcb t = Some p"
  shows "task_pcb (task_grab (fresh\<lparr>task_pcb := Some p\<rparr>) q) = Some p"
proof -
  obtain i where i: "i < length (live q)" "live q ! i = t" using assms(2) by (auto simp: in_set_conv_nth)
  then have "task_pcb (q ! i) = Some p" "i < 6"
    using live_nth [OF assms(1)] length_live [OF assms(1)] assms(3) by auto
  then have "find (\<lambda>i. task_pcb (q ! i) = Some p) [0..<MAX_PROCESS] \<noteq> None"
    by (auto simp: find_None_iff MAX_PROCESS_def)
  then show ?thesis by (auto simp: task_grab_def)
qed

text \<open>Taking a sleeping task out of the queue and putting it first, awake.\<close>

lemma wake_entries:
  assumes "queue_wf q" "map entry (live q) = (c, b) # r" "distinct (map fst ((c, b) # r))" "(p, False) \<in> set r"
    and "task_pcb u = Some p"
  defines "q' \<equiv> (snd (task_pop (Some u) q))[0 := u\<lparr>enabled := True\<rparr>]"
  shows "map entry (live q') = finish p ((c, b) # r)" "queue_wf q'"
proof -
  obtain h T where L: "live q = h # T" "entry h = (c, b)" "map entry T = r" using assms(2) by (cases "live q") auto
  then obtain t where "t \<in> set T" "entry t = (p, False)" using assms(4) by force
  then obtain A B where T: "T = A @ t # B" by (meson split_list)
  have tp: "task_pcb t = Some p"
    using \<open>entry t = (p, False)\<close> live_valid [of t q] L(1) T by (auto simp: entry_def)
  have ne: "the (task_pcb v) \<noteq> p" if "v \<in> set (h # A @ B)" for v
  proof -
    have "map fst ((c, b) # r) = map (fst \<circ> entry) (h # A @ t # B)"
      unfolding L(3) [symmetric] T by (simp add: L(2))
    then have "distinct (map (fst \<circ> entry) (h # A @ t # B))" using assms(3) by metis
    then have "(fst \<circ> entry) v \<noteq> (fst \<circ> entry) t" using that by (auto simp: image_iff)
    then show ?thesis using tp by (simp add: entry_def)
  qed
  have "\<forall>v\<in>set (h # A). task_pcb v \<noteq> task_pcb t" using ne tp by force
  from task_pop_live(2,3) [OF assms(1), of "h # A" t B u] this L(1) T tp assms(5)
  have p: "live (snd (task_pop (Some u) q)) = h # A @ B" "queue_wf (snd (task_pop (Some u) q))" by auto
  have "filter (\<lambda>e. fst e \<noteq> p) (map entry (A @ t # B)) = map entry (A @ B)"
    using ne tp by (auto simp: filter_map o_def entry_def intro!: arg_cong2 [where f = "(@)"] arg_cong [where f = "map _"] filter_True)
  then show "map entry (live q') = finish p ((c, b) # r)" "queue_wf q'"
    using live_put_first [OF p(2), of "u\<lparr>enabled := True\<rparr>"] p(1) assms(5)
    unfolding q'_def finish_def L(3) [symmetric] T list.sel by (simp_all add: entry_def)
qed

text \<open>The state after a \<open>halt\<close> that returns to the parent.\<close>

definition halted_pcb :: "pcb \<Rightarrow> pcb" where
  "halted_pcb p = p\<lparr>file_array := map clear_fd (file_array p), vidmap_check := False\<rparr>"

lemma halt_to_parent:
  assumes "kinv s" "ents s = (c, b) # r" "parents s c \<noteq> -1" "c \<noteq> 0"
  shows "\<exists>p s'. halt l rg fresh s = Some (ToParent 0x7FFFBE (pcb_ebp (pcbs s p)) s') \<and> parents s c = int p
    \<and> ents s' = finish p (ents s) \<and> kinv s' \<and> cur_pcb s' = Some p \<and> tss_esp0 s' = kernel_stack p
    \<and> slots_used (kpaging s') = slots_used (kpaging s) - {c}
    \<and> cr3 (kpaging s') = (cr3 (kpaging s) AND 0xFFF) OR (pdir_addr l (int p) AND ADDR_MASK)
    \<and> pcbs s' = (pcbs s)(c := halted_pcb (pcbs s c)) \<and> image s' = image s \<and> filesys_addr s' = filesys_addr s"
proof -
  note K = kinvD [OF assms(1)]
  have b: b using sched_invD(2) [OF K(3)] assms(2) by simp
  have cu: "c \<in> slots_used (kpaging s)" using K(4) assms(2) by auto
  note c6 = slots_used_less [OF cu]
  obtain p where p: "parents s c = int p" using sched_invD(4) [OF K(3), of c] assms(2,3) by auto
  note F = sched_inv_finish [OF K(3) _ p assms(4), of r] 
  have es: "ents s = (c, True) # r" using assms(2) b by simp
  note F = F [OF es]
  let ?pg = "(kpaging s)\<lparr>vmem_table2 := (vmem_table2 (kpaging s))[0 := 0]\<rparr>"
  let ?pg2 = "set_user_pde c (user_frame c + USER_BITS) (load_cr3 (pdir_addr l (int p)) ?pg)"
  have pg: "return_parent_paging l (int p) (int c) ?pg = Some ?pg2"
    using return_parent_paging_used [of ?pg c l "int p"] K(2) c6 cu by simp
  have pg2: "slots_used ?pg2 = slots_used (kpaging s) - {c}" "paging_invar ?pg2"
    using slots_used_set(2) [of "load_cr3 (pdir_addr l (int p)) ?pg" c] paging_invar_set [of "load_cr3 (pdir_addr l (int p)) ?pg" c]
      K(2) c6 by simp_all
  let ?u = "task_grab (fresh\<lparr>task_pcb := Some p\<rparr>) (task_queue s)"
  obtain t where "t \<in> set (live (task_queue s))" "entry t = (p, False)"
    using F(3) assms(2) by (force simp: ents_def)
  then have u: "task_pcb ?u = Some p"
    using task_grab_found [OF K(1)] live_valid [of t "task_queue s"] by (auto simp: entry_def)
  let ?q = "(snd (task_pop (Some ?u) (task_queue s)))[0 := ?u\<lparr>enabled := True\<rparr>]"
  have q: "map entry (live ?q) = finish p (ents s)" "queue_wf ?q"
    using wake_entries [OF K(1) es [unfolded ents_def] sched_invD(1) [OF K(3), unfolded es] F(3) u] es by simp_all
  let ?s1 = "update_pcb c (\<lambda>p. p\<lparr>file_array := map clear_fd (file_array p), vidmap_check := False\<rparr>) s"
  let ?s2 = "?s1\<lparr>kpaging := ?pg2, cur_pcb := Some p, tss_esp0 := kernel_stack p, task_queue := ?q\<rparr>"
  have "cur_pcb s = Some c" "pid (pcbs s c) = int c" using K(5,6) cu assms(2) by auto
  then have h: "halt l rg fresh s = Some (ToParent 0x7FFFBE (pcb_ebp (pcbs s p)) ?s2)"
    using assms(3,4) p pg by (simp add: halt_def halt_begin_def halt_end_def Let_def update_pcb_def parents_def)
  have par: "parents ?s2 = parents s" by (auto simp: parents_def update_pcb_def)
  have en: "ents ?s2 = finish p (ents s)" using q(1) by (simp add: ents_def)
  have "kinv ?s2"
    unfolding kinv_def par en using q(2) pg2 F(1,2) K(4,6-8)
    by (auto simp: finish_def update_pcb_def)
  moreover have "pcbs ?s2 = (pcbs s)(c := halted_pcb (pcbs s c))" by (simp add: update_pcb_def halted_pcb_def)
  moreover have "cr3 ?pg2 = (cr3 (kpaging s) AND 0xFFF) OR (pdir_addr l (int p) AND ADDR_MASK)"
    by (simp add: set_user_pde_def load_cr3_def)
  moreover have "image ?s2 = image s" "filesys_addr ?s2 = filesys_addr s" by (simp_all add: update_pcb_def)
  ultimately show ?thesis using h p en pg2(1) by (intro exI [of _ p] exI [of _ ?s2]) simp
qed


section \<open>The timer interrupt\<close>

lemma kinv_cong:
  assumes "kinv s" "map entry (live (task_queue s')) = ents s" "queue_wf (task_queue s')"
    and "kpaging s' = kpaging s" "pcbs s' = pcbs s" "cur_pcb s' = cur_pcb s"
  shows "kinv s'" "ents s' = ents s"
  using assms by (simp_all add: kinv_def ents_def parents_def [abs_def])

lemma save_context_kinv:
  assumes "kinv s"
  shows "kinv (save_context esp ebp s)" "ents (save_context esp ebp s) = ents s"
  using kinv_cong [OF assms, of "save_context esp ebp s"] entries_put_first [OF kinvD(1) [OF assms]]
  by (simp_all add: save_context_def ents_def)

lemma pit_spawn_kinv:
  assumes "kinv s"
  shows "kinv (s\<lparr>con_ovr_idx := a, con_ovr_flag := f, con_idx := b\<rparr>)"
    "ents (s\<lparr>con_ovr_idx := a, con_ovr_flag := f, con_idx := b\<rparr>) = ents s"
  using kinv_cong [OF assms, of "s\<lparr>con_ovr_idx := a, con_ovr_flag := f, con_idx := b\<rparr>"] kinvD(1) [OF assms]
  by (simp_all add: ents_def)

lemma rotate_entries:
  assumes "kinv s" "ents s \<noteq> []"
  shows "\<exists>k q. rotate_loop (task_queue s) = Some q \<and> queue_wf q \<and> map entry (live q) = rotate k (ents s)
    \<and> enabled (q ! 0) \<and> live q \<noteq> []"
proof -
  have "live (task_queue s) \<noteq> []" using assms(2) by (simp add: ents_def)
  moreover have "enabled (hd (live (task_queue s)))"
    using sched_invD(2) [OF kinvD(3) [OF assms(1)] assms(2)] assms(2) by (simp add: ents_def hd_map entry_def)
  ultimately have "\<exists>t\<in>set (live (task_queue s)). enabled t" using hd_in_set by blast
  from rotate_loop_next [OF kinvD(1) [OF assms(1)] this]
  show ?thesis using assms(2) by (auto simp: ents_def rotate_map)
qed


lemma pit_rotates:
  assumes "kinv s" "ents s \<noteq> []" "task_pcb (task_queue s ! 2) \<noteq> None"
  shows "\<exists>k e b s'. pit_interrupt l esp ebp kesp kebp fresh fbuf abuf s = Some (Resume e b s')
    \<and> kinv s' \<and> ents s' = rotate k (ents s) \<and> pcbs s' = pcbs s \<and> slots_used (kpaging s') = slots_used (kpaging s)
    \<and> image s' = image s \<and> filesys_addr s' = filesys_addr s"
proof -
  let ?s1 = "save_context esp ebp s"
  note K = save_context_kinv [OF assms(1), of esp ebp]
  have q2: "task_pcb (task_queue ?s1 ! 2) \<noteq> None" using assms(3) by (simp add: save_context_def)
  have cur: "cur_pcb ?s1 \<noteq> None" using kinvD(5) [OF K(1)] K(2) assms(2) by (cases "ents s") auto
  obtain k q where q: "rotate_loop (task_queue ?s1) = Some q" "queue_wf q" "map entry (live q) = rotate k (ents s)"
    "enabled (q ! 0)" "live q \<noteq> []"
    using rotate_entries [OF K(1)] assms(2) K(2) by auto
  let ?q = "q[0 := (q ! 0)\<lparr>task_state := 1\<rparr>]"
  have q': "map entry (live ?q) = rotate k (ents s)" "queue_wf ?q"
    using entries_put_first [OF q(2), of "(q ! 0)\<lparr>task_state := 1\<rparr>"] q(3) by simp_all
  obtain h t where L: "live q = h # t" using q(5) by (cases "live q") auto
  have h: "q ! 0 = h" "task_pcb h \<noteq> None" using live_hd [OF q(2) L] live_valid [of h q] L by auto
  then obtain n where n: "task_pcb h = Some n" by auto
  have len: "length ?q > 0" using q(2) by (simp add: queue_wf_def QUEUE_SIZE_def)
  have hd: "rotate k (ents s) = (n, True) # map entry t" using q(3,4) L h n by (simp add: entry_def)
  then have "n \<in> fst ` set (ents s)" by (metis fst_conv image_eqI list.set_intros(1) set_rotate)
  then have nu: "n \<in> slots_used (kpaging s)" by (simp add: kinvD(4) [OF assms(1)])
  then have pid: "pid (pcbs s n) = int n" "n < 6"
    using kinvD(6) [OF assms(1)] slots_used_less by (auto simp: MAX_PROCESS_def)
  let ?pg = "load_cr3 (pdir_addr l (int n)) (kpaging s)"
  let ?s' = "?s1\<lparr>task_queue := ?q, tss_esp0 := kernel_stack n, kpaging := ?pg, cur_pcb := Some n\<rparr>"
  have "swap_task_paging l (pid (pcbs ?s1 n)) (kpaging ?s1) = (0, ?pg)"
    using pid by (simp add: swap_task_paging_def save_context_def MAX_PROCESS_def)
  then have pit: "pit_interrupt l esp ebp kesp kebp fresh fbuf abuf s = Some (Resume (task_esp (?q ! 0)) (task_ebp (?q ! 0)) ?s')"
    using q2 cur q(1) h(1) n len by (auto simp: pit_interrupt_def Let_def)
  have en: "ents ?s' = rotate k (ents s)" using q'(1) by (simp add: ents_def)
  have "sched_inv (rotate k (ents s)) (parents s)"
    using sched_inv_rotate [OF kinvD(3) [OF assms(1)], of k] hd by simp
  moreover have "fst ` set (rotate k (ents s)) = slots_used (kpaging s)"
    using kinvD(4) [OF assms(1)] by simp
  ultimately have "kinv ?s'"
    unfolding kinv_def en hd using q'(2) kinvD(2,6-8) [OF assms(1)]
    by (simp add: parents_def [abs_def] save_context_def)
  moreover have "pcbs ?s' = pcbs s" "image ?s' = image s" "filesys_addr ?s' = filesys_addr s" by (simp_all add: save_context_def)
  moreover have "slots_used (kpaging ?s') = slots_used (kpaging s)" by simp
  ultimately show ?thesis using pit en by blast
qed


text \<open>
  Before there are three tasks the interrupt starts a shell: it is an \<open>execute\<close> in a state that differs
  in the saved context and the choice of the console.
\<close>

definition spawn_state :: "u32 \<Rightarrow> u32 \<Rightarrow> kstate \<Rightarrow> kstate" where
  "spawn_state esp ebp s =
     (save_context esp ebp s)\<lparr>con_ovr_idx := con_idx s, con_ovr_flag := True, con_idx := con_idx s + 1\<rparr>"

lemma spawn_state_kinv:
  assumes "kinv s"
  shows "kinv (spawn_state esp ebp s)" "ents (spawn_state esp ebp s) = ents s"
  using pit_spawn_kinv [OF save_context_kinv(1) [OF assms]] save_context_kinv(2) [OF assms]
  by (simp_all add: spawn_state_def)

lemma spawn_state_fields [simp]:
  "pcbs (spawn_state esp ebp s) = pcbs s" "kpaging (spawn_state esp ebp s) = kpaging s"
  "image (spawn_state esp ebp s) = image s" "filesys_addr (spawn_state esp ebp s) = filesys_addr s"
  "cur_pcb (spawn_state esp ebp s) = cur_pcb s" "i \<noteq> 0 \<Longrightarrow> task_queue (spawn_state esp ebp s) ! i = task_queue s ! i"
  by (simp_all add: spawn_state_def save_context_def)

lemma pit_spawns:
  assumes "pit_interrupt l esp ebp kesp kebp fresh fbuf abuf s = Some out" "cur_pcb s = None \<or> task_pcb (task_queue s ! 2) = None"
  obtains out' where
    "execute l kesp kebp fresh fbuf abuf (str_bytes ''shell'' @ [0]) (spawn_state esp ebp s) = Some out'"
    "out = out' \<or> (\<exists>v s'. out' = Returns v s' \<and> out = Returns 0 s')" "exec_parent (spawn_state esp ebp s) = -1"
proof -
  have "cur_pcb (save_context esp ebp s) = None \<or> task_pcb (task_queue (save_context esp ebp s) ! 2) = None"
    using assms(2) by (simp add: save_context_def)
  moreover have "exec_parent (spawn_state esp ebp s) = -1"
    using assms(2) by (auto simp: exec_parent_def split: option.splits)
  moreover have "con_idx (save_context esp ebp s) = con_idx s" by (simp add: save_context_def)
  ultimately show ?thesis
    using assms(1) that by (auto simp: pit_interrupt_def Let_def spawn_state_def split: option.splits outcome.splits)
qed

section \<open>Reachable kernel states\<close>

text \<open>
  The state after \<open>init_paging\<close> and \<open>init_schedule\<close>, before the first timer interrupt. The memory of the
  PCBs is cleared: no descriptor is in use.
\<close>

definition fds_free :: "kstate \<Rightarrow> bool" where
  "fds_free s \<longleftrightarrow> (\<forall>c. c \<notin> slots_used (kpaging s) \<longrightarrow> (\<forall>f \<in> set (file_array (pcbs s c)). \<not> in_use f))"

definition boot_state :: "layout \<Rightarrow> kstate \<Rightarrow> bool" where
  "boot_state l s \<longleftrightarrow> cur_pcb s = None
     \<and> (\<exists>q. length q = QUEUE_SIZE \<and> task_queue s = init_task_queue q)
     \<and> (\<exists>p. kpaging s = init_paging l p)
     \<and> (\<forall>c. length (file_array (pcbs s c)) = 8 \<and> length (args (pcbs s c)) = 128) \<and> fds_free s"

lemma init_task_queue_empty:
  assumes "length q = QUEUE_SIZE"
  shows "queue_wf (init_task_queue q)" "live (init_task_queue q) = []"
proof -
  let ?f = "\<lambda>t. t\<lparr>task_pcb := None, enabled := True\<rparr>"
  have e: "init_task_queue q = [] @ map ?f (take 6 q) @ drop 6 q"
    using fold_update_each [of 6 q ?f] assms by (simp add: init_task_queue_def MAX_PROCESS_def QUEUE_SIZE_def)
  show "queue_wf (init_task_queue q)" "live (init_task_queue q) = []"
    unfolding e using assms by (intro queue_join; simp add: QUEUE_SIZE_def)+
qed

lemma boot_kinv: "boot_state l s \<Longrightarrow> kinv s"
  using init_task_queue_empty init_paging_invar init_slots
  by (auto simp: boot_state_def kinv_def ents_def sched_inv_def)

text \<open>
  Every program in the image can be loaded: its blocks are there and its entry point is not the value
  that stands for failure. (Where this does not hold, a load can fail after it has taken a slot, see
  \<open>failed_execute\<close>.)
\<close>

definition sound_programs :: "mem \<Rightarrow> nat \<Rightarrow> bool" where
  "sound_programs im fs \<longleftrightarrow> (\<forall>name d. read_dentry_by_name im fs name = Some (Some d) \<longrightarrow>
     (let b = read_data im fs (inode_num d) 0 40; n = get_inode_len im fs (inode_num d)
      in length b = 40 \<and> elf_magic b \<longrightarrow> entry_point b \<noteq> -1 \<and> length (read_data im fs (inode_num d) 0 n) = n))"

text \<open>What the other system calls change: the descriptors of the caller, its video mapping and that page table.\<close>

definition other_call :: "nat \<Rightarrow> filedesc list \<Rightarrow> bool \<Rightarrow> u32 list \<Rightarrow> kstate \<Rightarrow> kstate" where
  "other_call n fa v t s =
     (update_pcb n (\<lambda>p. p\<lparr>file_array := fa, vidmap_check := v\<rparr>) s)\<lparr>kpaging := (kpaging s)\<lparr>vmem_table2 := t\<rparr>\<rparr>"

fun after :: "outcome \<Rightarrow> kstate" where
  "after (Returns v s) = s"
| "after (ToUser e s) = s"
| "after (Iret rg cs s) = s"
| "after (ToParent sp bp s) = s"
| "after (Resume sp bp s) = s"

text \<open>System calls and timer interrupts, with any outcome, in any order and each run to its end.\<close>

inductive kreachable :: "layout \<Rightarrow> kstate \<Rightarrow> bool" for l where
  boot: "boot_state l s \<Longrightarrow> kreachable l s"
| exec: "kreachable l s \<Longrightarrow> execute l esp ebp fresh fbuf abuf str s = Some out \<Longrightarrow> kreachable l (after out)"
| halt: "kreachable l s \<Longrightarrow> halt l rg fresh s = Some out \<Longrightarrow> kreachable l (after out)"
| tick: "kreachable l s \<Longrightarrow> pit_interrupt l esp ebp kesp kebp fresh fbuf abuf s = Some out \<Longrightarrow> kreachable l (after out)"
| call: "kreachable l s \<Longrightarrow> cur_pcb s = Some n \<Longrightarrow> length fa = 8 \<Longrightarrow> kreachable l (other_call n fa v t s)"

lemma execute_image:
  assumes "execute l esp ebp fresh fbuf abuf str s = Some out"
  shows "image (after out) = image s \<and> filesys_addr (after out) = filesys_addr s"
proof -
  obtain r s1 where b: "exec_begin l fbuf abuf str s = Some (r, s1)"
    using assms by (auto simp: execute_def split: option.splits)
  from b show ?thesis
  proof (cases rule: exec_begin_cases)
    case (starts st n f)
    obtain e im where e: "load_end (st_load st) s1 = (e, s1\<lparr>user_image := im\<rparr>)"
      using load_end_fields by (metis prod.collapse)
    have "exec_end esp ebp fresh st s1 = Some out" using assms b starts(1) by (simp add: execute_def)
    then have "image (after out) = image s1 \<and> filesys_addr (after out) = filesys_addr s1"
      using e by (auto simp: exec_end_def Let_def update_pcb_def split: if_splits option.splits)
    then show ?thesis using starts(7,8) by simp
  qed (use assms b in \<open>auto simp: execute_def\<close>)
qed

lemma halt_image: "halt l rg fresh s = Some out \<Longrightarrow> image (after out) = image s \<and> filesys_addr (after out) = filesys_addr s"
  by (auto simp: halt_def halt_begin_def halt_end_def Let_def update_pcb_def split: if_splits option.splits)

lemma pit_image:
  assumes "pit_interrupt l esp ebp kesp kebp fresh fbuf abuf s = Some out"
  shows "image (after out) = image s \<and> filesys_addr (after out) = filesys_addr s"
proof (cases "cur_pcb s = None \<or> task_pcb (task_queue s ! 2) = None")
  case True
  show ?thesis
  proof (rule pit_spawns [OF assms True])
    fix out' assume o: "execute l kesp kebp fresh fbuf abuf (str_bytes ''shell'' @ [0]) (spawn_state esp ebp s) = Some out'"
      "out = out' \<or> (\<exists>v s'. out' = Returns v s' \<and> out = Returns 0 s')"
    then have "after out = after out'" by auto
    then show ?thesis using execute_image [OF o(1)] by simp
  qed
next
  case False
  then have "cur_pcb (save_context esp ebp s) \<noteq> None" "task_pcb (task_queue (save_context esp ebp s) ! 2) \<noteq> None"
    by (simp_all add: save_context_def)
  then show ?thesis
    using assms by (auto simp: pit_interrupt_def Let_def save_context_def split: if_splits option.splits prod.splits)
qed

lemma execute_sound:
  assumes "execute l esp ebp fresh fbuf abuf str s = Some out" "sound_programs (image s) (filesys_addr s)"
  shows "(out = Returns (-1) s \<or> (\<exists>n e s'. out = ToUser e s' \<and> executed l fresh n s s'))
    \<and> image (after out) = image s \<and> filesys_addr (after out) = filesys_addr s"
proof -
  obtain r s1 where b: "exec_begin l fbuf abuf str s = Some (r, s1)"
    using assms(1) by (auto simp: execute_def split: option.splits)
  from b show ?thesis
  proof (cases rule: exec_begin_cases)
    case fails
    then show ?thesis using assms(1) b by (auto simp: execute_def)
  next
    case (starts st n f)
    then have x: "exec_end esp ebp fresh st s1 = Some out" using assms(1) b by (simp add: execute_def)
    obtain im where im: "load_end (st_load st) s1 = (fst (load_end (st_load st) s1), s1\<lparr>user_image := im\<rparr>)"
      using load_end_fields by (metis prod.collapse)
    have i: "image (after out) = image s1 \<and> filesys_addr (after out) = filesys_addr s1"
      using x im by (auto simp: exec_end_def Let_def update_pcb_def split: if_splits option.splits prod.splits)
    obtain d where d: "read_dentry_by_name (image s) (filesys_addr s) f = Some (Some d)" "length (ld_head (st_load st)) = 40"
      "elf_magic (ld_head (st_load st))" "st_load st = \<lparr>ld_inode = inode_num d,
        ld_size = get_inode_len (image s) (filesys_addr s) (inode_num d), ld_head = read_data (image s) (filesys_addr s) (inode_num d) 0 40\<rparr>"
      using load_begin_file [OF starts(4)] by auto
    have "fst (load_end (st_load st) s1) \<noteq> -1"
      using assms(2) d(1-3) starts(7,8) unfolding d(4) by (auto simp: load_end_def Let_def sound_programs_def)
    then have "\<nexists>s'. out = Returns (-1) s'"
      using x by (auto simp: exec_end_def Let_def split: if_splits option.splits prod.splits)
    then show ?thesis using exec_end_cases [OF x starts(2,5,6)] i starts(7,8) by auto
  qed
qed

lemma halt_cases:
  assumes "kinv s" "halt l rg fresh s = Some out"
  obtains (restart) c where "out = Iret rg (ret_addr (pcbs s c)) s"
    | (parent) c p s' where "out = ToParent 0x7FFFBE (pcb_ebp (pcbs s p)) s'" "kinv s'" "cur_pcb s = Some c" "cur_pcb s' = Some p"
      "slots_used (kpaging s') = slots_used (kpaging s) - {c}" "pcbs s' = (pcbs s)(c := halted_pcb (pcbs s c))"
      "image s' = image s" "filesys_addr s' = filesys_addr s"
proof (cases "ents s")
  case Nil
  then show ?thesis using assms kinvD(5) [OF assms(1)] by (simp add: halt_def)
next
  case (Cons e r)
  obtain c b where es: "ents s = (c, b) # r" using Cons by (cases e) auto
  have cu: "c \<in> slots_used (kpaging s)" using kinvD(4) [OF assms(1)] es by auto
  have cur: "cur_pcb s = Some c" "pid (pcbs s c) = int c"
    using kinvD(5,6) [OF assms(1)] es cu by auto
  show ?thesis
  proof (cases "parents s c = -1 \<or> c = 0")
    case True
    then have "halt l rg fresh s = Some (Iret rg (ret_addr (pcbs s c)) s)"
      using cur by (auto simp: halt_def parents_def)
    then show ?thesis using assms(2) restart by simp
  next
    case False
    then show ?thesis using halt_to_parent [OF assms(1) es, of l rg fresh] assms(2) parent cur by auto
  qed
qed

text \<open>The invariant of all steps.\<close>

definition kernel_ok :: "kstate \<Rightarrow> kstate \<Rightarrow> bool" where
  "kernel_ok s s' \<longleftrightarrow> kinv s' \<and> fds_free s' \<and> image s' = image s \<and> filesys_addr s' = filesys_addr s"

lemma executed_fds:
  assumes "kinv s" "fds_free s" "executed l fresh n s s'"
  shows "fds_free s'"
proof -
  have "slots_used (kpaging s') = insert n (slots_used (kpaging s))"
    using slots.alloc_used [OF kinvD(2) [OF assms(1)], of l n "kpaging s'"] assms(3) by (simp add: executed_def)
  then show ?thesis using assms(2,3) by (auto simp: fds_free_def executed_def)
qed

lemma exec_ok:
  assumes "execute l esp ebp fresh fbuf abuf str s = Some out" "kinv s" "fds_free s" "sound_programs (image s) (filesys_addr s)"
  shows "kernel_ok s (after out)"
  using execute_sound [OF assms(1,4)] executed_kinv [OF assms(2)] executed_fds [OF assms(2,3)] assms(2,3)
  by (auto simp: kernel_ok_def)

lemma halt_ok:
  assumes "halt l rg fresh s = Some out" "kinv s" "fds_free s"
  shows "kernel_ok s (after out)"
proof (rule halt_cases [OF assms(2,1)])
  fix c p s' assume h: "out = ToParent 0x7FFFBE (pcb_ebp (pcbs s p)) s'" "kinv s'" "slots_used (kpaging s') = slots_used (kpaging s) - {c}"
    "pcbs s' = (pcbs s)(c := halted_pcb (pcbs s c))" "image s' = image s" "filesys_addr s' = filesys_addr s"
  have "fds_free s'" using assms(3) h(3,4) by (auto simp: fds_free_def halted_pcb_def clear_fd_def)
  then show "kernel_ok s (after out)" using h by (simp add: kernel_ok_def)
qed (use assms in \<open>simp add: kernel_ok_def\<close>)

lemma tick_ok:
  assumes "pit_interrupt l esp ebp kesp kebp fresh fbuf abuf s = Some out" "kinv s" "fds_free s" "sound_programs (image s) (filesys_addr s)"
  shows "kernel_ok s (after out)"
proof (cases "cur_pcb s = None \<or> task_pcb (task_queue s ! 2) = None")
  case True
  let ?s = "spawn_state esp ebp s"
  obtain out' where o: "execute l kesp kebp fresh fbuf abuf (str_bytes ''shell'' @ [0]) ?s = Some out'" "after out = after out'"
    by (rule pit_spawns [OF assms(1) True]) auto
  have "kernel_ok ?s (after out')"
    using exec_ok [OF o(1) spawn_state_kinv(1) [OF assms(2)]] assms(3,4) by (simp add: fds_free_def)
  then show ?thesis by (simp add: kernel_ok_def o(2))
next
  case False
  then have ne: "ents s \<noteq> []" using kinvD(5) [OF assms(2)] by auto
  from pit_rotates [OF assms(2) ne, of l esp ebp kesp kebp fresh fbuf abuf] False assms(1,3) show ?thesis
    by (auto simp: kernel_ok_def fds_free_def)
qed

lemma call_ok:
  assumes "cur_pcb s = Some n" "length fa = 8" "kinv s" "fds_free s"
  shows "kernel_ok s (other_call n fa v t s)"
proof -
  note K = kinvD [OF assms(3)]
  let ?s = "other_call n fa v t s"
  have "n \<in> slots_used (kpaging s)" using assms(1) K(4,5) by (cases "ents s") auto
  then have "fds_free ?s" using assms(4) by (auto simp: fds_free_def other_call_def update_pcb_def)
  moreover have "ents ?s = ents s" "parents ?s = parents s"
    by (auto simp: ents_def parents_def other_call_def update_pcb_def)
  then have "kinv ?s"
    unfolding kinv_def using K assms(2) by (auto simp: other_call_def update_pcb_def)
  ultimately show ?thesis by (simp add: kernel_ok_def other_call_def update_pcb_def)
qed

lemma kreachable_ok:
  "kreachable l s \<Longrightarrow> sound_programs (image s) (filesys_addr s) \<Longrightarrow> kinv s \<and> fds_free s"
proof (induction rule: kreachable.induct)
  case (boot s)
  then show ?case using boot_kinv by (simp add: boot_state_def)
next
  case (exec s esp ebp fresh fbuf abuf str out)
  have "image (after out) = image s \<and> filesys_addr (after out) = filesys_addr s" by (rule execute_image [OF exec.hyps(2)])
  then show ?case using exec_ok [OF exec.hyps(2)] exec.IH exec.prems by (simp add: kernel_ok_def)
next
  case (halt s rg fresh out)
  have "image (after out) = image s \<and> filesys_addr (after out) = filesys_addr s" by (rule halt_image [OF halt.hyps(2)])
  then show ?case using halt_ok [OF halt.hyps(2)] halt.IH halt.prems by (simp add: kernel_ok_def)
next
  case (tick s esp ebp kesp kebp fresh fbuf abuf out)
  have "image (after out) = image s \<and> filesys_addr (after out) = filesys_addr s" by (rule pit_image [OF tick.hyps(2)])
  then show ?case using tick_ok [OF tick.hyps(2)] tick.IH tick.prems by (simp add: kernel_ok_def)
next
  case (call s n fa v t)
  have "image (other_call n fa v t s) = image s" "filesys_addr (other_call n fa v t s) = filesys_addr s"
    by (simp_all add: other_call_def update_pcb_def)
  then show ?case using call_ok [OF call.hyps(2,3)] call.IH call.prems by (simp add: kernel_ok_def)
qed

section \<open>When execute succeeds\<close>

definition runnable_file :: "kstate \<Rightarrow> u8 list \<Rightarrow> u32 \<Rightarrow> bool" where
  "runnable_file s name e \<longleftrightarrow>
     (\<exists>d. read_dentry_by_name (image s) (filesys_addr s) name = Some (Some d)
        \<and> (let b = read_data (image s) (filesys_addr s) (inode_num d) 0 40;
               n = get_inode_len (image s) (filesys_addr s) (inode_num d)
           in length b = 40 \<and> elf_magic b \<and> entry_point b = e \<and> e \<noteq> -1
              \<and> length (read_data (image s) (filesys_addr s) (inode_num d) 0 n) = n))"

lemma load_begin_runs:
  assumes "runnable_file s name e" "paging_invar (kpaging s)" "card (slots_used (kpaging s)) < 6"
  shows "\<exists>ld n s'. load_begin l name s = Some (Some ld, s') \<and> loaded l n s s' \<and> fst (load_end ld s') = e"
proof -
  have "slots_used (kpaging s) \<noteq> {0..<MAX_PROCESS}" using assms(3) by (auto simp: MAX_PROCESS_def)
  then obtain v pg where np: "new_process_ptable l (kpaging s) = (v, pg)" "v \<noteq> -1"
    by (cases rule: new_process_ptable_cases [of "kpaging s" l]) auto
  obtain d where d: "read_dentry_by_name (image s) (filesys_addr s) name = Some (Some d)"
    "length (read_data (image s) (filesys_addr s) (inode_num d) 0 40) = 40"
    "elf_magic (read_data (image s) (filesys_addr s) (inode_num d) 0 40)"
    "entry_point (read_data (image s) (filesys_addr s) (inode_num d) 0 40) = e"
    "length (read_data (image s) (filesys_addr s) (inode_num d) 0 (get_inode_len (image s) (filesys_addr s) (inode_num d)))
       = get_inode_len (image s) (filesys_addr s) (inode_num d)"
    using assms(1) by (auto simp: runnable_file_def Let_def)
  define ld where "ld = \<lparr>ld_inode = inode_num d, ld_size = get_inode_len (image s) (filesys_addr s) (inode_num d),
    ld_head = read_data (image s) (filesys_addr s) (inode_num d) 0 40\<rparr>"
  define s' where "s' = setup_pcb (nat v) (cur_pcb s) (s\<lparr>kpaging := pg\<rparr>)"
  have ld: "load_begin l name s = Some (Some ld, s')" "image s' = image s" "filesys_addr s' = filesys_addr s"
    "ld_inode ld = inode_num d" "ld_size ld = get_inode_len (image s) (filesys_addr s) (inode_num d)"
    "ld_head ld = read_data (image s) (filesys_addr s) (inode_num d) 0 40"
    using np d by (simp_all add: load_begin_def Let_def setup_pcb_fields ld_def s'_def)
  then have "fst (load_end ld s') = e" using d by (simp add: load_end_def Let_def)
  then show ?thesis using load_begin_cases [OF ld(1)] ld(1) by auto
qed

lemma execute_runs:
  assumes "kinv s" "card (slots_used (kpaging s)) < 6"
    and "parse_exec str fbuf abuf = Some (f, a)" "terminated a" "length (cstr a) < 128" "runnable_file s f e"
  shows "\<exists>n s'. execute l esp ebp fresh fbuf abuf str s = Some (ToUser e s') \<and> executed l fresh n s s'
    \<and> image s' = image s \<and> filesys_addr s' = filesys_addr s"
proof -
  obtain ld n s1 where n: "load_begin l f s = Some (Some ld, s1)" "loaded l n s s1" "fst (load_end ld s1) = e"
    using load_begin_runs [OF assms(6) kinvD(2) [OF assms(1)] assms(2)] by blast
  obtain im where im: "load_end ld s1 = (e, s1\<lparr>user_image := im\<rparr>)"
    using load_end_fields n(3) by (metis prod.collapse)
  have e: "e \<noteq> -1" using assms(6) by (auto simp: runnable_file_def Let_def)
  obtain av where "strcpy (args (pcbs s1 n)) a = Some av"
    using strcpy_eq [OF assms(4), of "args (pcbs s1 n)"] assms(5) kinvD(8) [OF assms(1), of n] n(2)
    by (auto simp: loaded_def)
  then have "\<exists>s'. execute l esp ebp fresh fbuf abuf str s = Some (ToUser e s')"
    using assms(3) n(1,2) e im by (simp add: execute_def exec_begin_def exec_end_def Let_def loaded_def update_pcb_def)
  then obtain s' where s': "execute l esp ebp fresh fbuf abuf str s = Some (ToUser e s')" by blast
  then show ?thesis using execute_cases [OF s'] execute_image [OF s'] by auto
qed


section \<open>A small system\<close>

text \<open>An image with one executable of 40 bytes named \<open>shell\<close>, and the kernel right after boot.\<close>

definition shell_image :: mem where
  "shell_image a =
     (if a = 4096 \<or> a = 4100 \<or> a = 4104 then 1
      else if a = 4160 then 0x73 else if a = 4161 then 0x68 else if a = 4162 then 0x65
      else if a = 4163 then 0x6C else if a = 4164 then 0x6C
      else if a = 4192 then 2 else if a = 8192 then 40
      else if a = 12288 then 0x7F else if a = 12289 then 0x45 else if a = 12290 then 0x4C
      else if a = 12291 then 0x46 else if a = 12313 then 0x80 else if a = 12314 then 4
      else if a = 12315 then 8 else 0)"

definition empty_pcb :: pcb where
  "empty_pcb = \<lparr>file_array = replicate 8 \<lparr>optbl = None, fd_inode = 0, fd_pos = 0, in_use = False\<rparr>, parent_pid = 0, pid = 0, ret_addr = 0, pcb_esp = 0, pcb_ebp = 0,
     args = replicate 128 0, vidmap_check = False, con = 0\<rparr>"

definition booted :: kstate where
  "booted = \<lparr>image = shell_image, filesys_addr = 4096, pcbs = (\<lambda>_. empty_pcb), cur_pcb = None,
     task_queue = init_task_queue (replicate 16 idle_task), kpaging = init_paging demo_layout demo_paging,
     tss_esp0 = 0, con_ovr_flag = False, con_ovr_idx = 0, con_idx = 0, user_image = (\<lambda>_. [])\<rparr>"

abbreviation shell_str :: "u8 list" where
  "shell_str \<equiv> str_bytes ''shell'' @ [0]"

abbreviation run_shell :: "kstate \<Rightarrow> outcome option" where
  "run_shell \<equiv> execute demo_layout 0 0 idle_task (replicate 32 0) (replicate 128 0) shell_str"

lemma booted_boot: "boot_state demo_layout booted"
  by (auto simp: boot_state_def booted_def QUEUE_SIZE_def empty_pcb_def free_fds_def fds_free_def intro!: exI [of _ "replicate 16 idle_task"])

lemma shell_bytes: "str_bytes ''shell'' = [0x73, 0x68, 0x65, 0x6C, 0x6C]"
  by (simp add: str_bytes_def of_char_def)

lemma shell_counts:
  "get_num_dir_entries shell_image 4096 = 1" "get_num_inodes shell_image 4096 = 1"
  "get_num_data_blocks shell_image 4096 = 1" "inode_addr 4096 0 = 8192"
  "get_inode_len shell_image 4096 0 = 40" "fs_image_ok shell_image 4096"
  "data_blocks shell_image 8192 0 = 0" "blocks_ok shell_image 4096 8192 40"
  by (simp_all add: get_num_dir_entries_def get_num_inodes_def get_num_data_blocks_def load32_def
      shell_image_def addr32_def inode_addr_def BLOCK_SIZE_def get_inode_len_def inode_length_def fs_image_ok_def
      data_blocks_def blocks_ok_def)

lemma shell_name: "dentry_name shell_image 4096 0 = str_bytes ''shell''"
  by (simp add: dentry_name_def bytes_at_def dentry_addr_def addr32_def DENTRY_SIZE_def upt_rec shell_image_def shell_bytes)

lemma shell_data: "read_data shell_image 4096 0 0 40 = map (\<lambda>k. shell_image (12288 + k)) [0..<40]"
proof -
  have "read_data shell_image 4096 0 0 40 = map (file_byte shell_image 4096 8192) [0..<40]"
    using read_data_eq [of shell_image 4096 0 0 40] by (simp add: shell_counts)
  also have "\<dots> = map (\<lambda>k. shell_image (12288 + k)) [0..<40]"
    by (rule map_cong) (auto simp: file_byte_def shell_counts BLOCK_SIZE_def)
  finally show ?thesis .
qed

lemma shell_parse:
  "\<exists>f a. parse_exec shell_str (replicate 32 0) (replicate 128 0) = Some (f, a)
    \<and> f = str_bytes ''shell'' @ 0 # replicate 26 0 \<and> terminated a \<and> length (cstr a) < 128"
  using parse_exec_eq [of "str_bytes ''shell''" "[]" 0 "replicate 32 0" "replicate 128 0"]
  by (simp add: shell_bytes drop_trailing_def)

lemma shell_runnable:
  assumes "image s = shell_image" "filesys_addr s = 4096"
  shows "runnable_file s (str_bytes ''shell'' @ 0 # replicate 26 0) 0x8048000"
proof -
  let ?f = "str_bytes ''shell'' @ 0 # replicate 26 (0 :: u8)"
  have "terminated ?f" "cstr ?f = str_bytes ''shell''" "length (cstr ?f) \<le> 32" by (simp_all add: shell_bytes)
  with read_dentry_by_name_eq [of ?f shell_image 4096] shell_name
  obtain j d where d: "read_dentry_by_name shell_image 4096 ?f = Some (Some d)" "dentry_matches shell_image 4096 ?f j d"
    by (auto simp: shell_counts)
  then have "inode_num d = 0"
    by (simp add: dentry_matches_def shell_counts dentry_addr_def addr32_def load32_def shell_image_def)
  then show ?thesis
    using d(1) assms by (simp add: runnable_file_def shell_data shell_counts elf_magic_def entry_point_def shell_image_def)
qed

lemma shell_sound: "sound_programs shell_image 4096"
proof -
  have "inode_num d = 0" if "read_dentry_by_name shell_image 4096 name = Some (Some d)" for name d
  proof -
    have "search_dentry shell_image 4096 name 0 = Some (Some d)"
      using that by (auto simp: read_dentry_by_name_def split: option.splits if_splits)
    moreover have "search_dentry shell_image 4096 name 1 = Some None"
      by (subst search_dentry.simps) (simp add: shell_counts)
    ultimately have "inode_num d = load32 shell_image (addr32 (dentry_addr 4096 0 + 36))"
      by (subst (asm) search_dentry.simps) (auto split: option.splits if_splits)
    then show ?thesis by (simp add: dentry_addr_def addr32_def load32_def shell_image_def)
  qed
  then show ?thesis
    unfolding sound_programs_def by (auto simp: shell_data shell_counts entry_point_def shell_image_def)
qed

lemma kreachable_shell:
  "kreachable l s \<Longrightarrow> image s = shell_image \<Longrightarrow> filesys_addr s = 4096 \<Longrightarrow> kinv s"
  using kreachable_ok [of l s] shell_sound by simp

text \<open>Starting the shell from any state of this system with a free slot.\<close>

lemma run_shell_step:
  assumes "kreachable demo_layout s" "image s = shell_image" "filesys_addr s = 4096" "length (ents s) < 6"
  shows "\<exists>n s'. run_shell s = Some (ToUser 0x8048000 s') \<and> executed demo_layout idle_task n s s'
    \<and> kreachable demo_layout s' \<and> image s' = shell_image \<and> filesys_addr s' = 4096
    \<and> length (ents s') = Suc (length (ents s))"
proof -
  note K = kreachable_shell [OF assms(1-3)]
  obtain f a where p: "parse_exec shell_str (replicate 32 0) (replicate 128 0) = Some (f, a)"
    "f = str_bytes ''shell'' @ 0 # replicate 26 0" "terminated a" "length (cstr a) < 128"
    using shell_parse by blast
  have "card (slots_used (kpaging s)) < 6" using assms(4) live_count [OF K] by (simp add: ents_def)
  from execute_runs [OF K this p(1,3,4) shell_runnable [OF assms(2,3), folded p(2)], of demo_layout 0 0 idle_task]
  obtain n s' where n: "run_shell s = Some (ToUser 0x8048000 s')" "executed demo_layout idle_task n s s'"
    "image s' = shell_image" "filesys_addr s' = 4096"
    using assms(2,3) by auto
  moreover have "kreachable demo_layout s'" using kreachable.exec [OF assms(1) n(1)] by simp
  moreover have "length (ents s') = Suc (length (ents s))"
    using executed_entries(1) [OF K n(2)] by (cases "ents s") (auto simp: spawn_def)
  ultimately show ?thesis by blast
qed

text \<open>Three shells running.\<close>

lemma three_shells:
  "\<exists>s. kreachable demo_layout s \<and> image s = shell_image \<and> filesys_addr s = 4096 \<and> length (ents s) = 3 \<and> kinv s"
proof -
  have 0: "kreachable demo_layout booted" "length (ents booted) = 0"
    using kreachable.boot [OF booted_boot] init_task_queue_empty(2) [of "replicate 16 idle_task"]
    by (simp_all add: ents_def booted_def QUEUE_SIZE_def)
  from run_shell_step [OF this(1)] 0(2) obtain s1 where s1: "kreachable demo_layout s1" "image s1 = shell_image"
    "filesys_addr s1 = 4096" "length (ents s1) = 1" by (auto simp: booted_def)
  from run_shell_step [OF s1(1-3)] s1(4) obtain s2 where s2: "kreachable demo_layout s2" "image s2 = shell_image"
    "filesys_addr s2 = 4096" "length (ents s2) = 2" by auto
  from run_shell_step [OF s2(1-3)] s2(4) show ?thesis using kreachable_shell by auto
qed

lemma third_entry:
  assumes "kinv s" "3 \<le> length (ents s)"
  shows "task_pcb (task_queue s ! 2) \<noteq> None"
proof -
  have "2 < length (live (task_queue s))" using assms(2) by (simp add: ents_def)
  then show ?thesis
    using live_nth [OF kinvD(1) [OF assms(1)]] live_valid nth_mem by metis
qed

text \<open>The same image with a program whose entry point is \<open>0xFFFFFFFF\<close>.\<close>

definition damaged_image :: mem where
  "damaged_image = shell_image(12312 := 0xFF, 12313 := 0xFF, 12314 := 0xFF, 12315 := 0xFF)"

definition damaged :: kstate where "damaged = booted\<lparr>image := damaged_image\<rparr>"

lemma damaged_boot: "boot_state demo_layout damaged"
  using booted_boot by (simp add: boot_state_def damaged_def fds_free_def)

lemma damaged_file:
  "\<exists>d. read_dentry_by_name damaged_image 4096 (str_bytes ''shell'' @ 0 # replicate 26 0) = Some (Some d) \<and> inode_num d = 0"
  "read_data damaged_image 4096 0 0 40 = map (\<lambda>k. damaged_image (12288 + k)) [0..<40]"
  "get_inode_len damaged_image 4096 0 = 40"
proof -
  let ?f = "str_bytes ''shell'' @ 0 # replicate 26 (0 :: u8)"
  have c: "get_num_dir_entries damaged_image 4096 = 1" "get_num_inodes damaged_image 4096 = 1"
    "get_num_data_blocks damaged_image 4096 = 1" "get_inode_len damaged_image 4096 0 = 40" "fs_image_ok damaged_image 4096"
    "data_blocks damaged_image 8192 0 = 0" "blocks_ok damaged_image 4096 8192 40" "inode_length damaged_image 8192 = 40"
    by (simp_all add: get_num_dir_entries_def get_num_inodes_def get_num_data_blocks_def load32_def damaged_image_def
        shell_image_def addr32_def inode_addr_def BLOCK_SIZE_def get_inode_len_def inode_length_def fs_image_ok_def
        data_blocks_def blocks_ok_def)
  show "get_inode_len damaged_image 4096 0 = 40" by (rule c(4))
  have "terminated ?f" "cstr ?f = str_bytes ''shell''" "length (cstr ?f) \<le> 32" by (simp_all add: shell_bytes)
  moreover have "dentry_name damaged_image 4096 0 = str_bytes ''shell''"
    by (simp add: dentry_name_def bytes_at_def dentry_addr_def addr32_def DENTRY_SIZE_def upt_rec damaged_image_def shell_image_def shell_bytes)
  ultimately obtain j d where d: "read_dentry_by_name damaged_image 4096 ?f = Some (Some d)" "dentry_matches damaged_image 4096 ?f j d"
    using read_dentry_by_name_eq [of ?f damaged_image 4096] by (auto simp: c)
  have "j = 0" using d(2) by (simp add: dentry_matches_def c(1))
  then have "inode_num d = load32 damaged_image 4196"
    using d(2) by (simp add: dentry_matches_def dentry_addr_def addr32_def DENTRY_SIZE_def)
  also have "\<dots> = 0" by (simp add: load32_def addr32_def damaged_image_def shell_image_def)
  finally have "inode_num d = 0" .
  then show "\<exists>d. read_dentry_by_name damaged_image 4096 ?f = Some (Some d) \<and> inode_num d = 0" using d(1) by blast
  have "read_data damaged_image 4096 0 0 40 = map (file_byte damaged_image 4096 8192) [0..<40]"
    using read_data_eq [of damaged_image 4096 0 0 40] by (simp add: c shell_counts)
  also have "\<dots> = map (\<lambda>k. damaged_image (12288 + k)) [0..<40]"
    by (rule map_cong) (auto simp: file_byte_def c BLOCK_SIZE_def)
  finally show "read_data damaged_image 4096 0 0 40 = map (\<lambda>k. damaged_image (12288 + k)) [0..<40]" .
qed

lemma damaged_run: "\<exists>s'. run_shell damaged = Some (Returns (-1) s') \<and> s' \<noteq> damaged"
proof -
  obtain f a where p: "parse_exec shell_str (replicate 32 0) (replicate 128 0) = Some (f, a)"
    "f = str_bytes ''shell'' @ 0 # replicate 26 0" using shell_parse by blast
  obtain d where d: "read_dentry_by_name damaged_image 4096 f = Some (Some d)" "inode_num d = 0" using damaged_file(1) p(2) by blast
  have k: "kinv damaged" "slots_used (kpaging damaged) = {}"
    using boot_kinv [OF damaged_boot] by (simp_all add: damaged_def booted_def init_slots)
  obtain v pg where np: "new_process_ptable demo_layout (kpaging damaged) = (v, pg)" "v \<noteq> -1"
    using k(2) by (cases rule: new_process_ptable_cases [of "kpaging damaged" demo_layout]) (auto simp: MAX_PROCESS_def)
  have i: "image damaged = damaged_image" "filesys_addr damaged = 4096" "cur_pcb damaged = None" by (simp_all add: damaged_def booted_def)
  let ?b = "map (\<lambda>k. damaged_image (12288 + k)) [0..<40]"
  have "elf_magic ?b" "entry_point ?b = -1" by (simp_all add: elf_magic_def entry_point_def damaged_image_def shell_image_def)
  then obtain s1 ld where b: "load_begin demo_layout f damaged = Some (Some ld, s1)" "ld_head ld = ?b"
    using d np by (auto simp: load_begin_def Let_def i damaged_file)
  obtain s' where e: "load_end ld s1 = (-1, s')" using b(2) \<open>entry_point ?b = -1\<close> by (cases "load_end ld s1") (auto simp: load_end_def Let_def)
  obtain n where "loaded demo_layout n damaged s1" using load_begin_cases [OF b(1)] by auto
  then have "cur_pcb s' \<noteq> cur_pcb damaged" using load_end_fields [OF e] by (auto simp: loaded_def i)
  moreover have "run_shell damaged = Some (Returns (-1) s')"
    using p b(1) e by (simp add: execute_def exec_begin_def exec_end_def)
  ultimately show ?thesis by auto
qed

text \<open>Where the stack address of \<open>exec_ret\<close> lies.\<close>

lemma stack_of_slot: "c < MAX_PROCESS \<Longrightarrow> (0x7FFFBE :: u32) \<in> {pcb_addr c ..< pcb_addr c + KB_8} \<longleftrightarrow> c = 0"
  by (auto simp: less6 pcb_addr_def MB_8_def KB_8_def)

lemma masked_address: "((x AND 0xFFF) OR (a AND ADDR_MASK)) AND ADDR_MASK = a AND ADDR_MASK"
proof -
  have "(0xFFF :: u32) AND ADDR_MASK = 0" by (simp add: ADDR_MASK_def)
  then show ?thesis by (simp add: bit.conj_disj_distrib2 and.assoc)
qed

section \<open>Properties\<close>

text \<open>
  C1: when the programs of the file system can be loaded, the kernel reaches from boot, by calls of \<open>execute\<close>,
  \<open>halt\<close> and the file calls and by timer interrupts, whatever their outcome and in any order but each
  run to its end before the next, only states in which the run queue, the page directories, the PCBs and the
  current process agree: the queue entries are distinct and are exactly the slots whose user page is
  present, the current process is the first entry and is runnable, each PCB carries its slot as
  \<open>pid\<close>, every process with a parent has it asleep in the queue as the parent of no other process,
  and no free slot has a descriptor in use. (\<open>failed_execute\<close> and the theorems of \<open>Preempt\<close> show what
  happens with a damaged program and with a timer interrupt in the middle of a call.)
\<close>

theorem kernel_invariant:
  assumes "kreachable l s" "sound_programs (image s) (filesys_addr s)"
  shows "queue_wf (task_queue s) \<and> paging_invar (kpaging s) \<and> sched_inv (ents s) (parents s)
    \<and> fst ` set (ents s) = slots_used (kpaging s)
    \<and> cur_pcb s = (case ents s of [] \<Rightarrow> None | e # _ \<Rightarrow> Some (fst e))
    \<and> (\<forall>c \<in> slots_used (kpaging s). pid (pcbs s c) = int c) \<and> fds_free s"
  using kreachable_ok [OF assms] by (simp add: kinv_def)

theorem kernel_invariant_witness:
  "\<exists>s n c. kreachable demo_layout s \<and> length (ents s) = 4 \<and> cur_pcb s = Some n \<and> parents s n = int c
    \<and> sched_inv (ents s) (parents s) \<and> fst ` set (ents s) = slots_used (kpaging s)"
proof -
  obtain s where s: "kreachable demo_layout s" "image s = shell_image" "filesys_addr s = 4096" "length (ents s) = 3" "kinv s"
    using three_shells by blast
  obtain n s' where n: "executed demo_layout idle_task n s s'" "kreachable demo_layout s'" "image s' = shell_image"
    "filesys_addr s' = 4096" "length (ents s') = 4"
    using run_shell_step [OF s(1-3)] s(4) by auto
  obtain a b r where es: "ents s = (a, b) # r" using s(4) by (cases "ents s") auto
  then have "a \<in> slots_used (kpaging s)" using kinvD(4) [OF s(5)] by auto
  then have "exec_parent s \<noteq> -1"
    using third_entry [OF s(5)] s(4) kinvD(5,6) [OF s(5)] es by (auto simp: exec_parent_def)
  then have "\<exists>c. parents s' n = int c"
    using exec_parent_head [OF s(5)] n(1) by (auto simp: executed_def parents_def)
  moreover have "cur_pcb s' = Some n" using n(1) by (simp add: executed_def)
  ultimately show ?thesis using kernel_invariant [OF n(2)] shell_sound n(2-5) by auto
qed

text \<open>
  C14: \<open>execute\<close> of a valid executable succeeds whenever a process slot is free: control goes to the
  program's entry point in the lowest free slot, the new process is the current one at the front of
  the run queue on its own kernel stack, and its creator goes to the back, asleep exactly when it
  was recorded as the parent.
\<close>

theorem execute_spawns:
  assumes "kinv s" "card (slots_used (kpaging s)) < 6"
    and "parse_exec str fbuf abuf = Some (f, a)" "terminated a" "length (cstr a) < 128" "runnable_file s f e"
  shows "\<exists>n s'. execute l esp ebp fresh fbuf abuf str s = Some (ToUser e s') \<and> kinv s'
    \<and> n \<notin> slots_used (kpaging s) \<and> (\<forall>k<n. k \<in> slots_used (kpaging s))
    \<and> ents s' = spawn n (exec_parent s) (ents s) \<and> cur_pcb s' = Some n \<and> tss_esp0 s' = kernel_stack n
    \<and> parents s' = (parents s)(n := exec_parent s)"
proof -
  obtain n s' where n: "execute l esp ebp fresh fbuf abuf str s = Some (ToUser e s')" "executed l fresh n s s'"
    using execute_runs [OF assms] by blast
  have "alloc_slot_of l (kpaging s) = Some (n, kpaging s')" using n(2) by (simp add: executed_def)
  note al = alloc_slot_cases [OF kinvD(2) [OF assms(1)] this]
  have "parents s' = (parents s)(n := exec_parent s)" using n(2) by (auto simp: executed_def parents_def)
  then show ?thesis
    using n al executed_kinv [OF assms(1) n(2)] executed_entries(1) [OF assms(1) n(2)]
    by (auto simp: executed_def)
qed

theorem execute_spawns_witness:
  "\<exists>n s'. run_shell booted = Some (ToUser 0x8048000 s') \<and> ents s' = spawn n (-1) []"
proof -
  obtain f a where p: "parse_exec shell_str (replicate 32 0) (replicate 128 0) = Some (f, a)"
    "f = str_bytes ''shell'' @ 0 # replicate 26 0" "terminated a" "length (cstr a) < 128"
    using shell_parse by blast
  have k: "kinv booted" using boot_kinv [OF booted_boot] .
  have r: "runnable_file booted f 0x8048000" using shell_runnable [of booted] p(2) by (simp add: booted_def)
  have "card (slots_used (kpaging booted)) < 6" by (simp add: booted_def init_slots)
  moreover have "ents booted = []" "exec_parent booted = -1"
    using init_task_queue_empty(2) [of "replicate 16 idle_task"]
    by (simp_all add: ents_def booted_def QUEUE_SIZE_def exec_parent_def)
  ultimately show ?thesis
    using execute_spawns [OF k _ p(1,3,4) r, of demo_layout 0 0 idle_task] by auto
qed

text \<open>
  C7: a program started by a running process and halted as its next step: the books of the kernel are as before
  the \<open>execute\<close> - run queue, current process, page slots, the PCBs of all other processes - and the
  parent's page directory and kernel stack are set up again. Control, however, does not go back to the
  parent in general: \<open>halt\<close> continues at the fixed stack address \<open>0x7FFFBE\<close>, which lies in the
  parent's kernel stack exactly when the parent is in slot 0.
\<close>

theorem execute_halt_roundtrip:
  assumes "kinv s" "3 \<le> length (ents s)"
    and "execute l esp ebp fresh fbuf abuf str s = Some (ToUser e s1)"
  shows "\<exists>c n s2. cur_pcb s = Some c \<and> halt l rg fresh2 s1 = Some (ToParent 0x7FFFBE (pcb_ebp (pcbs s c)) s2) \<and> kinv s2
    \<and> ents s2 = ents s \<and> cur_pcb s2 = Some c \<and> slots_used (kpaging s2) = slots_used (kpaging s)
    \<and> n \<notin> slots_used (kpaging s) \<and> (\<forall>k. k \<noteq> n \<longrightarrow> pcbs s2 k = pcbs s k)
    \<and> tss_esp0 s2 = kernel_stack c \<and> cr3 (kpaging s2) AND ADDR_MASK = pdir_addr l (int c) AND ADDR_MASK
    \<and> (0x7FFFBE \<in> {pcb_addr c ..< pcb_addr c + KB_8} \<longleftrightarrow> c = 0)"
proof -
  obtain n where n: "executed l fresh n s s1" using execute_cases [OF assms(3)] by auto
  note K = kinvD [OF assms(1)] and E = executed_entries [OF assms(1) n] and K1 = executed_kinv [OF assms(1) n]
  obtain c b r where es: "ents s = (c, b) # r" using assms(2) by (cases "ents s") auto
  have b: b using sched_invD(2) [OF K(3)] es by simp
  have cu: "c \<in> slots_used (kpaging s)" using K(4) es by auto
  have par: "exec_parent s = int c"
    using K(5,6) es cu third_entry [OF assms(1,2)] by (auto simp: exec_parent_def)
  then have es1: "ents s1 = (n, True) # r @ [(c, False)]" using E(1) es by (simp add: spawn_def)
  have n0: "n \<noteq> 0" using E(3) sched_invD(3) [OF K(3)] es by (metis list.distinct(1))
  have pn: "parents s1 n = int c" using n par by (simp add: executed_def parents_def)
  then obtain p s2 where h: "halt l rg fresh2 s1 = Some (ToParent 0x7FFFBE (pcb_ebp (pcbs s1 p)) s2)" "parents s1 n = int p"
    "ents s2 = finish p (ents s1)" "kinv s2" "cur_pcb s2 = Some p" "tss_esp0 s2 = kernel_stack p"
    "slots_used (kpaging s2) = slots_used (kpaging s1) - {n}"
    "cr3 (kpaging s2) = (cr3 (kpaging s1) AND 0xFFF) OR (pdir_addr l (int p) AND ADDR_MASK)"
    "pcbs s2 = (pcbs s1)(n := halted_pcb (pcbs s1 n))"
    using halt_to_parent [OF K1 es1 _ n0, of l rg fresh2] by auto
  have pc: "p = c" using h(2) pn by simp
  have nc: "n \<noteq> c" using E(3) es by auto
  have "c \<notin> fst ` set r" using sched_invD(1) [OF K(3)] es by simp
  then have "filter (\<lambda>e. fst e \<noteq> c) r = r" by (force intro: filter_True)
  then have "ents s2 = ents s" using h(3) pc es1 es b by (simp add: finish_def)
  moreover have "slots_used (kpaging s2) = slots_used (kpaging s)"
    using h(7) kinvD(4) [OF K1] K(4) E(1,3) spawn_dom [of n "exec_parent s" "ents s"] by auto
  moreover have "n \<notin> slots_used (kpaging s)" using E(3) K(4) by simp
  moreover have p1: "pcbs s1 k = pcbs s k" if "k \<noteq> n" for k using n that by (simp add: executed_def)
  then have "\<forall>k. k \<noteq> n \<longrightarrow> pcbs s2 k = pcbs s k" using h(9) by simp
  moreover have "pcb_ebp (pcbs s1 p) = pcb_ebp (pcbs s c)" using p1 nc pc by simp
  moreover have "cr3 (kpaging s2) AND ADDR_MASK = pdir_addr l (int c) AND ADDR_MASK"
    unfolding h(8) pc by (rule masked_address)
  moreover have "0x7FFFBE \<in> {pcb_addr c ..< pcb_addr c + KB_8} \<longleftrightarrow> c = 0"
    using slots_used_less [OF cu] by (rule stack_of_slot)
  moreover have "cur_pcb s = Some c" using K(5) es by simp
  ultimately show ?thesis using h pc by (intro exI [of _ c] exI [of _ n] exI [of _ s2]) simp
qed

theorem execute_halt_roundtrip_witness:
  "\<exists>s s1 bp s2. kreachable demo_layout s \<and> run_shell s = Some (ToUser 0x8048000 s1)
    \<and> halt demo_layout \<lparr>reg_ebx = 0, reg_ecx = 0, reg_edx = 0\<rparr> idle_task s1 = Some (ToParent 0x7FFFBE bp s2) \<and> ents s2 = ents s"
proof -
  obtain s where s: "kreachable demo_layout s" "image s = shell_image" "filesys_addr s = 4096" "length (ents s) = 3" "kinv s"
    using three_shells by blast
  obtain s1 where s1: "run_shell s = Some (ToUser 0x8048000 s1)"
    using run_shell_step [OF s(1-3)] s(4) by auto
  from execute_halt_roundtrip [OF s(5) _ s1, of "\<lparr>reg_ebx = 0, reg_ecx = 0, reg_edx = 0\<rparr>" idle_task] s show ?thesis
    using s1 by auto
qed

text \<open>
  C15: once the three shells exist, every timer interrupt terminates and resumes a runnable process:
  the run queue is rotated (so no process is lost and the order is kept), the current process is
  the new front of the queue, and the invariant holds again.
\<close>

theorem timer_switches:
  assumes "kinv s" "3 \<le> length (ents s)"
  shows "\<exists>k e b s' n r. pit_interrupt l esp ebp kesp kebp fresh fbuf abuf s = Some (Resume e b s') \<and> kinv s'
    \<and> ents s' = rotate k (ents s) \<and> ents s' = (n, True) # r \<and> cur_pcb s' = Some n"
proof -
  have ne: "ents s \<noteq> []" using assms(2) by auto
  obtain k e b s' where p: "pit_interrupt l esp ebp kesp kebp fresh fbuf abuf s = Some (Resume e b s')" "kinv s'"
    "ents s' = rotate k (ents s)"
    using pit_rotates [OF assms(1) ne third_entry [OF assms]] by blast
  have "ents s' \<noteq> []" using p(3) ne by simp
  then obtain n f r where r: "ents s' = (n, f) # r" by (metis list.exhaust surj_pair)
  then have "f" "cur_pcb s' = Some n"
    using sched_invD(2) [OF kinvD(3) [OF p(2)]] kinvD(5) [OF p(2)] by auto
  then have "ents s' = (n, True) # r" using r by simp
  then show ?thesis using p \<open>cur_pcb s' = Some n\<close> by blast
qed

theorem timer_switches_witness:
  "\<exists>s k e b s'. length (ents s) = 3 \<and> pit_interrupt demo_layout 0 0 0 0 idle_task [] [] s = Some (Resume e b s')
    \<and> ents s' = rotate k (ents s)"
proof -
  obtain s where s: "kinv s" "length (ents s) = 3" using three_shells by blast
  from timer_switches [OF s(1), of demo_layout 0 0 0 0 idle_task "[]" "[]"] s(2)
  obtain k e b s' where "pit_interrupt demo_layout 0 0 0 0 idle_task [] [] s = Some (Resume e b s')"
    "ents s' = rotate k (ents s)" by auto
  then show ?thesis using s(2) by blast
qed

text \<open>
  C29: an \<open>execute\<close> that fails does not call \<open>halt\<close>, as its comment says: it leaves the state as it was, or
  (the program cannot be copied in full, or its entry point is \<open>0xFFFFFFFF\<close>) it has taken a process slot that nothing
  gives back and made the unfinished process the current one, although the caller keeps running.
\<close>

theorem failed_execute:
  assumes "kinv s" "execute l esp ebp fresh fbuf abuf str s = Some (Returns v s')"
  shows "v = -1 \<and> (s' = s \<or> (\<exists>n. n \<notin> slots_used (kpaging s) \<and> cur_pcb s' = Some n
    \<and> slots_used (kpaging s') = insert n (slots_used (kpaging s)) \<and> task_queue s' = task_queue s))"
proof -
  have "v = -1 \<and> (s' = s \<or> (\<exists>n. loaded l n s s'))" using execute_cases [OF assms(2)] by auto
  moreover have "n \<notin> slots_used (kpaging s) \<and> slots_used (kpaging s') = insert n (slots_used (kpaging s))"
    if "loaded l n s s'" for n
    using that slots.alloc_used [OF kinvD(2) [OF assms(1)], of l n "kpaging s'"]
      slots.alloc_slot [OF kinvD(2) [OF assms(1)], of l n "kpaging s'"] by (auto simp: loaded_def)
  ultimately show ?thesis by (auto simp: loaded_def)
qed

theorem failed_execute_witness:
  "execute demo_layout 0 0 idle_task (replicate 32 0) (replicate 128 0) [0] booted = Some (Returns (-1) booted)
   \<and> (\<exists>n s'. run_shell damaged = Some (Returns (-1) s') \<and> cur_pcb s' = Some n \<and> slots_used (kpaging s') = {n})"
proof
  have "parse_exec [0] (replicate 32 0) (replicate 128 0) = Some (replicate 32 0, replicate 128 0)"
    using parse_exec_eq [of "[]" "[]" 0 "replicate 32 0" "replicate 128 0"]
    by (simp add: drop_trailing_def flip: replicate_Suc)
  moreover have "dentry_name shell_image 4096 0 \<noteq> []" by (simp add: shell_name shell_bytes)
  then have "read_dentry_by_name shell_image 4096 (replicate 32 0) = Some None"
    using read_dentry_by_name_eq [of "replicate 32 0" shell_image 4096] cstr_pad [of "[]" 32]
    by (auto simp: dentry_matches_def shell_counts terminated_def)
  ultimately have "execute demo_layout 0 0 idle_task (replicate 32 0) (replicate 128 0) [0] booted = Some (Returns (-1) booted)"
    by (simp add: execute_def exec_begin_def load_begin_def booted_def)
  with failed_execute [OF boot_kinv [OF booted_boot] this]
  show "execute demo_layout 0 0 idle_task (replicate 32 0) (replicate 128 0) [0] booted = Some (Returns (-1) booted)" by simp
next
  obtain s' where s': "run_shell damaged = Some (Returns (-1) s')" "s' \<noteq> damaged" using damaged_run by blast
  have "slots_used (kpaging damaged) = {}" by (simp add: damaged_def booted_def init_slots)
  with failed_execute [OF boot_kinv [OF damaged_boot] s'(1)] s'
  show "\<exists>n s'. run_shell damaged = Some (Returns (-1) s') \<and> cur_pcb s' = Some n \<and> slots_used (kpaging s') = {n}" by auto
qed

end
