(* ===== verification/Preempt.thy ===== *)
theory Preempt
  imports Kernel
begin

text \<open>
  Timer interrupts in the middle of \<open>execute\<close> and \<open>halt\<close>. System calls enter the kernel through a trap gate,
  \<open>file_to_mem\<close> enables interrupts before it copies the program, and \<open>halt\<close> disables them only for its last
  part; the theorems show what a timer interrupt does at these two places, where \<open>cur_pcb\<close> is
  no longer the task at the front of the run queue. The invariant of theory \<open>Kernel\<close> is lost in both cases.
\<close>

section \<open>Timer interrupts in any state with three tasks\<close>

definition runs_ok :: "kstate \<Rightarrow> bool" where
  "runs_ok s \<longleftrightarrow> queue_wf (task_queue s) \<and> 3 \<le> length (ents s) \<and> (\<exists>e \<in> set (ents s). snd e)
     \<and> (\<forall>c \<in> fst ` set (ents s). c < MAX_PROCESS \<and> pid (pcbs s c) = int c) \<and> cur_pcb s \<noteq> None"

text \<open>One or more timer interrupts, each of which switches to a task.\<close>

inductive timer_runs :: "layout \<Rightarrow> kstate \<Rightarrow> kstate \<Rightarrow> bool" for l where
  first: "pit_interrupt l esp ebp kesp kebp fresh fbuf abuf s = Some (Resume e b s') \<Longrightarrow> timer_runs l s s'"
| more: "timer_runs l s s' \<Longrightarrow> pit_interrupt l esp ebp kesp kebp fresh fbuf abuf s' = Some (Resume e b s'') \<Longrightarrow> timer_runs l s s''"

text \<open>What such interrupts leave alone.\<close>

definition switched :: "nat \<Rightarrow> kstate \<Rightarrow> kstate \<Rightarrow> bool" where
  "switched k s s' \<longleftrightarrow> runs_ok s' \<and> ents s' = rotate k (ents s) \<and> snd (hd (ents s')) \<and> cur_pcb s' = Some (fst (hd (ents s')))
     \<and> pcbs s' = pcbs s \<and> slots_used (kpaging s') = slots_used (kpaging s) \<and> image s' = image s \<and> filesys_addr s' = filesys_addr s
     \<and> user_image s' = user_image s"

lemma switched_trans: "switched j s s' \<Longrightarrow> switched k s' s'' \<Longrightarrow> switched (k + j) s s''"
  unfolding switched_def by (auto simp: rotate_rotate)

lemma switched_ok: "switched k s s' \<Longrightarrow> runs_ok s'"
  by (simp add: switched_def)

lemma tick_switches:
  assumes "runs_ok s"
  shows "\<exists>k e b s'. pit_interrupt l esp ebp kesp kebp fresh fbuf abuf s = Some (Resume e b s') \<and> switched k s s'
    \<and> 0 < k \<and> (\<forall>j. 0 < j \<and> j < k \<longrightarrow> \<not> snd (ents s ! j))"
proof -
  let ?s1 = "save_context esp ebp s"
  have wf: "queue_wf (task_queue s)" and len: "3 \<le> length (ents s)" using assms by (simp_all add: runs_ok_def)
  have en: "map entry (live (task_queue ?s1)) = ents s" "queue_wf (task_queue ?s1)"
    using entries_put_first [OF wf] by (simp_all add: save_context_def ents_def)
  have "2 < length (live (task_queue s))" using len by (simp add: ents_def)
  then have "task_pcb (task_queue s ! 2) \<noteq> None" using live_nth [OF wf] live_valid nth_mem by metis
  then have q2: "task_pcb (task_queue ?s1 ! 2) \<noteq> None" "cur_pcb ?s1 \<noteq> None"
    using assms by (simp_all add: save_context_def runs_ok_def)
  have "\<exists>t \<in> set (live (task_queue ?s1)). enabled t"
  proof -
    obtain e where "e \<in> set (map entry (live (task_queue ?s1)))" "snd e" using assms en(1) by (auto simp: runs_ok_def)
    then show ?thesis by (auto simp: entry_def)
  qed
  from rotate_loop_next [OF en(2) this] obtain k q where k: "0 < k" "rotate_loop (task_queue ?s1) = Some q" "queue_wf q"
    "live q = rotate k (live (task_queue ?s1))" "enabled (q ! 0)" "k \<le> length (live (task_queue ?s1))"
    "\<forall>j. 0 < j \<and> j < k \<longrightarrow> \<not> enabled (live (task_queue ?s1) ! j)" by blast
  have rot: "map entry (live q) = rotate k (ents s)" using k(4) en(1) by (metis rotate_map)
  let ?q = "q[0 := (q ! 0)\<lparr>task_state := 1\<rparr>]"
  have q': "map entry (live ?q) = rotate k (ents s)" "queue_wf ?q"
    using entries_put_first [OF k(3), of "(q ! 0)\<lparr>task_state := 1\<rparr>"] rot by simp_all
  have "length (live q) = length (ents s)" using rot by (metis length_map length_rotate)
  then have "live q \<noteq> []" using len by auto
  then obtain h t where L: "live q = h # t" by (cases "live q") auto
  have h: "q ! 0 = h" "task_pcb h \<noteq> None" using live_hd [OF k(3) L] live_valid [of h q] L by auto
  then obtain n where n: "task_pcb h = Some n" by auto
  have hd: "rotate k (ents s) = (n, True) # map entry t" using rot k(5) L h n by (simp add: entry_def)
  then have "n \<in> fst ` set (ents s)" by (metis fst_conv image_eqI list.set_intros(1) set_rotate)
  then have pid: "pid (pcbs s n) = int n" "n < 6" using assms by (auto simp: runs_ok_def MAX_PROCESS_def)
  let ?s' = "?s1\<lparr>task_queue := ?q, tss_esp0 := kernel_stack n, kpaging := load_cr3 (pdir_addr l (int n)) (kpaging s), cur_pcb := Some n\<rparr>"
  have len0: "length ?q > 0" using k(3) by (simp add: queue_wf_def QUEUE_SIZE_def)
  have "swap_task_paging l (pid (pcbs ?s1 n)) (kpaging ?s1) = (0, load_cr3 (pdir_addr l (int n)) (kpaging s))"
    using pid by (simp add: swap_task_paging_def save_context_def MAX_PROCESS_def)
  then have pit: "pit_interrupt l esp ebp kesp kebp fresh fbuf abuf s = Some (Resume (task_esp (?q ! 0)) (task_ebp (?q ! 0)) ?s')"
    using q2 k(2) h(1) n len0 by (auto simp: pit_interrupt_def Let_def)
  have es: "ents ?s' = rotate k (ents s)" using q'(1) by (simp add: ents_def)
  have "runs_ok ?s'"
    using q'(2) assms unfolding runs_ok_def es by (simp add: save_context_def)
  moreover have "hd (rotate k (ents s)) = (n, True)" using hd by simp
  ultimately have "switched k s ?s'"
    unfolding switched_def es by (simp add: save_context_def)
  moreover have "\<not> snd (ents s ! j)" if "0 < j" "j < k" for j
  proof -
    have "ents s ! j = entry (live (task_queue ?s1) ! j)"
      using that k(6) unfolding en(1) [symmetric] by simp
    then show ?thesis using k(7) that by (simp add: entry_def)
  qed
  ultimately show ?thesis using pit k(1) by blast
qed

lemma timer_runs_switch:
  assumes "timer_runs l s s'" "runs_ok s"
  shows "\<exists>k. switched k s s'"
  using assms
proof (induction rule: timer_runs.induct)
  case (first esp ebp kesp kebp fresh fbuf abuf s e b s')
  then show ?case using tick_switches [of s l esp ebp kesp kebp fresh fbuf abuf] by auto
next
  case (more s s' esp ebp kesp kebp fresh fbuf abuf e b s'')
  then obtain k where k: "switched k s s'" by blast
  then have "runs_ok s'" by (simp add: switched_def)
  from tick_switches [OF this, of l esp ebp kesp kebp fresh fbuf abuf] more.hyps(2)
  obtain j where "switched j s' s''" by auto
  then show ?case using switched_trans [OF k] by blast
qed

lemma kinv_runs_ok:
  assumes "kinv s" "3 \<le> length (ents s)" "task_queue s' = task_queue s" "cur_pcb s' \<noteq> None"
    and "\<forall>c \<in> fst ` set (ents s). pid (pcbs s' c) = pid (pcbs s c)"
  shows "runs_ok s'"
proof -
  note K = kinvD [OF assms(1)]
  have es: "ents s' = ents s" using assms(3) by (simp add: ents_def)
  have "\<exists>e \<in> set (ents s). snd e" using sched_invD(2) [OF K(3)] assms(2) by (cases "ents s") auto
  moreover have "c < MAX_PROCESS \<and> pid (pcbs s' c) = int c" if "c \<in> fst ` set (ents s)" for c
    using that K(4,6) slots_used_less assms(5) by auto
  ultimately show ?thesis using K(1) assms(2-4) unfolding runs_ok_def es by simp
qed

lemma queue_of_ents:
  assumes "queue_wf (task_queue s)" "ents s = (c, b) # r"
  shows "\<exists>t T. live (task_queue s) = t # T \<and> task_pcb t = Some c \<and> enabled t = b \<and> map entry T = r \<and> task_queue s ! 0 = t"
proof -
  obtain t T where L: "live (task_queue s) = t # T" "entry t = (c, b)" "map entry T = r"
    using assms(2) by (cases "live (task_queue s)") (auto simp: ents_def)
  moreover have "task_pcb t \<noteq> None" using live_valid [of t "task_queue s"] L(1) by simp
  ultimately show ?thesis using live_hd [OF assms(1) L(1)] by (auto simp: entry_def)
qed

section \<open>In the middle of execute\<close>

text \<open>
  A timer interrupt while \<open>execute\<close> copies the program: when the kernel comes back to the task that
  is loading, \<open>cur_pcb\<close> and the page directory are the caller's, not the new process'. The program is
  copied over the image of the caller, which becomes its own parent; the new process is in no
  queue and its slot stays taken; and the caller is twice in the run queue, once asleep, unless it is in slot 0.
\<close>

theorem interrupted_load:
  assumes "kinv s" "3 \<le> length (ents s)" "cur_pcb s = Some c"
    and "exec_begin l fbuf abuf str s = Some (Some st, s1)" "timer_runs l s1 s2" "cur_pcb s2 = Some c"
    and "exec_end esp ebp fresh st s2 = Some (ToUser e s3)"
  shows "\<exists>n k. n \<notin> slots_used (kpaging s) \<and> slots_used (kpaging s3) = insert n (slots_used (kpaging s)) \<and> n \<notin> fst ` set (ents s3)
    \<and> parents s3 c = int c \<and> cur_pcb s3 = Some c
    \<and> user_image s3 c = read_data (image s) (filesys_addr s) (ld_inode (st_load st)) 0 (ld_size (st_load st))
    \<and> ents s3 = rotate k (ents s) @ (if c = 0 then [] else [(c, False)]) \<and> hd (ents s3) = (c, True)"
proof -
  note K = kinvD [OF assms(1)]
  obtain n where n: "loaded l n s s1" "st_parent st = exec_parent s" "st_cur st = task_queue s ! 0"
    "image s1 = image s" "filesys_addr s1 = filesys_addr s"
    using assms(4) by (cases rule: exec_begin_cases) auto
  have al: "alloc_slot_of l (kpaging s) = Some (n, kpaging s1)" using n(1) by (simp add: loaded_def)
  have free: "n \<notin> slots_used (kpaging s)" "slots_used (kpaging s1) = insert n (slots_used (kpaging s))" "n < MAX_PROCESS"
    using slots.alloc_slot [OF K(2) al] slots.alloc_used [OF K(2) al] by auto
  obtain r where es: "ents s = (c, True) # r"
    using assms(2,3) K(5) sched_invD(2) [OF K(3)] by (cases "ents s") auto
  have cu: "c \<in> slots_used (kpaging s)" using K(4) es by auto
  have nc: "n \<noteq> c" using free(1) cu by auto
  have pc: "exec_parent s = int c"
    using K(6) assms(3) cu third_entry [OF assms(1,2)] by (auto simp: exec_parent_def)
  have "\<forall>a \<in> fst ` set (ents s). pid (pcbs s1 a) = pid (pcbs s a)"
    using n(1) free(1) unfolding K(4) by (auto simp: loaded_def)
  then have "runs_ok s1" using kinv_runs_ok [OF assms(1,2), of s1] n(1) by (simp add: loaded_def)
  then obtain k where k: "switched k s1 s2" using timer_runs_switch [OF assms(5)] by blast
  have es1: "ents s1 = ents s" using n(1) by (simp add: loaded_def ents_def)
  have es2: "ents s2 = rotate k (ents s)" "queue_wf (task_queue s2)" "pcbs s2 = pcbs s1"
    "slots_used (kpaging s2) = slots_used (kpaging s1)" "image s2 = image s" "filesys_addr s2 = filesys_addr s"
    using k n(4,5) es1 by (auto simp: switched_def runs_ok_def)
  have "ents s2 \<noteq> []" using es2(1) es by simp
  then obtain r2 where r2: "ents s2 = (c, True) # r2" using k assms(6) by (cases "ents s2") (auto simp: switched_def)
  have pcb: "pcbs s2 c = pcbs s c" using es2(3) n(1) nc by (simp add: loaded_def)
  define body where "body = read_data (image s) (filesys_addr s) (ld_inode (st_load st)) 0 (ld_size (st_load st))"
  define t0 where "t0 = (st_cur st)\<lparr>enabled := False\<rparr>"
  define t1 where "t1 = fresh\<lparr>task_pcb := Some c, task_state := 1, enabled := True\<rparr>"
  define q1 where "q1 = (if c \<noteq> 0 then snd (task_push (Some t0) (task_queue s2)) else task_queue s2)"
  have pid: "pid (pcbs s2 c) = int c" using K(6) [OF cu] pcb by simp
  have s3: "task_queue s3 = q1[0 := t1] \<and> cur_pcb s3 = Some c \<and> kpaging s3 = kpaging s2 \<and> parents s3 c = int c \<and> user_image s3 c = body"
    using assms(6,7) n(2) pc pid es2(5,6)
    by (auto simp: exec_end_def load_end_def Let_def update_pcb_def parents_def q1_def t0_def t1_def body_def split: if_splits option.splits)
  have t0: "task_pcb t0 = Some c" "enabled t0 = False"
    using queue_of_ents [OF K(1) es] n(3) by (auto simp: t0_def)
  have "card (slots_used (kpaging s)) < card {0..<6::nat}"
    using free(1,3) slots.used_range [OF K(2)] by (intro psubset_card_mono) (auto simp: MAX_PROCESS_def)
  then have "length (live (task_queue s2)) < 6" using live_count [OF assms(1)] es2(1) by (metis card_atLeastLessThan diff_zero ents_def length_map length_rotate)
  from task_push_live(2,3) [OF es2(2) this, of t0] t0
  have q1: "live q1 = live (task_queue s2) @ (if c = 0 then [] else [t0])" "queue_wf q1"
    using es2(2) by (simp_all add: q1_def)
  obtain t T where L: "live (task_queue s2) = t # T" "map entry T = r2"
    using queue_of_ents [OF es2(2) r2] by blast
  have "ents s3 = (c, True) # r2 @ (if c = 0 then [] else [(c, False)])"
    using live_put_first(1) [OF q1(2), of t1] s3 q1(1) L t0 by (simp add: ents_def t1_def entry_def)
  then have e3: "ents s3 = rotate k (ents s) @ (if c = 0 then [] else [(c, False)])" "hd (ents s3) = (c, True)"
    using r2 es2(1) by auto
  moreover have "fst ` set (ents s3) = slots_used (kpaging s)" using e3(1) K(4) cu by (auto simp: image_iff)
  ultimately show ?thesis using free s3 es2(4) unfolding body_def by (intro exI [of _ n] exI [of _ k]) simp
qed

section \<open>In the middle of halt\<close>

text \<open>
  A timer interrupt before the last part of \<open>halt\<close>: when the kernel comes back to the halted process,
  \<open>cur_pcb\<close> is that process again instead of its parent. It takes itself out of the queue and then
  overwrites the entry that follows: that task is lost, the parent is not woken, and the halted process
  stays at the front of the queue although its slot is free.
\<close>

theorem interrupted_halt:
  assumes "kinv s" "3 \<le> length (ents s)" "cur_pcb s = Some c" "c \<noteq> 0" "parents s c \<noteq> -1"
    and "halt_begin l c s = Some s1" "timer_runs l s1 s2" "cur_pcb s2 = Some c"
    and "halt_end fresh s2 = Some out"
  shows "\<exists>k sp bp s3. out = ToParent sp bp s3 \<and> cur_pcb s3 = Some c \<and> c \<notin> slots_used (kpaging s3)
    \<and> ents s3 = (c, True) # drop 2 (rotate k (ents s))"
proof -
  note K = kinvD [OF assms(1)]
  obtain r where es: "ents s = (c, True) # r"
    using assms(2,3) K(5) sched_invD(2) [OF K(3)] by (cases "ents s") auto
  obtain p s' where h: "halt l \<lparr>reg_ebx = 0, reg_ecx = 0, reg_edx = 0\<rparr> fresh s = Some (ToParent 0x7FFFBE (pcb_ebp (pcbs s p)) s')"
    "slots_used (kpaging s') = slots_used (kpaging s) - {c}" "pcbs s' = (pcbs s)(c := halted_pcb (pcbs s c))"
    using halt_to_parent [OF assms(1) es assms(5,4), of l "\<lparr>reg_ebx = 0, reg_ecx = 0, reg_edx = 0\<rparr>" fresh] by blast
  have cu: "c \<in> slots_used (kpaging s)" using K(4) es by auto
  then have "halt l \<lparr>reg_ebx = 0, reg_ecx = 0, reg_edx = 0\<rparr> fresh s = halt_end fresh s1"
    using assms(3-6) K(6) by (simp add: halt_def parents_def)
  then have s1: "kpaging s1 = kpaging s'" "pcbs s1 = pcbs s'" using h(1) by (auto simp: halt_end_def Let_def split: option.splits)
  have q1: "task_queue s1 = task_queue s" "cur_pcb s1 \<noteq> None"
    using assms(6) by (auto simp: halt_begin_def Let_def update_pcb_def split: option.splits if_splits)
  have "runs_ok s1"
    using kinv_runs_ok [OF assms(1,2) q1] by (simp add: s1(2) h(3) halted_pcb_def)
  then obtain k where k: "switched k s1 s2" using timer_runs_switch [OF assms(7)] by blast
  have es2: "ents s2 = rotate k (ents s)" "queue_wf (task_queue s2)" "slots_used (kpaging s2) = slots_used (kpaging s) - {c}"
    using k q1(1) s1(1) h(2) by (auto simp: switched_def runs_ok_def ents_def)
  have "ents s2 \<noteq> []" using es2(1) es by simp
  then obtain r2 where r2: "ents s2 = (c, True) # r2" using k assms(8) by (cases "ents s2") (auto simp: switched_def)
  obtain t T where L: "live (task_queue s2) = t # T" "task_pcb t = Some c" "map entry T = r2"
    using queue_of_ents [OF es2(2) r2] by blast
  define u where "u = task_grab (fresh\<lparr>task_pcb := Some c\<rparr>) (task_queue s2)"
  have u: "task_pcb u = Some c" unfolding u_def using task_grab_found [OF es2(2), of t c] L by simp
  have pop: "live (snd (task_pop (Some u) (task_queue s2))) = T" "queue_wf (snd (task_pop (Some u) (task_queue s2)))"
    using task_pop_live(2,3) [OF es2(2), of "[]" t T u] L u by simp_all
  define s3 where "s3 = s2\<lparr>task_queue := (snd (task_pop (Some u) (task_queue s2)))[0 := u\<lparr>enabled := True\<rparr>]\<rparr>"
  have out: "out = ToParent 0x7FFFBE (pcb_ebp (pcbs s3 c)) s3"
    using assms(8,9) by (simp add: halt_end_def Let_def u_def s3_def)
  have "ents s3 = (c, True) # tl r2"
    using live_put_first(1) [OF pop(2), of "u\<lparr>enabled := True\<rparr>"] u pop(1) L(3) by (auto simp: ents_def s3_def entry_def map_tl)
  then have "ents s3 = (c, True) # drop 2 (rotate k (ents s))" using r2 es2(1) by (cases r2) auto
  then show ?thesis using out es2(3) assms(8) by (auto simp: s3_def)
qed

section \<open>An example\<close>

lemma third_missing:
  assumes "queue_wf q" "length (live q) \<le> 2"
  shows "task_pcb (q ! 2) = None"
proof -
  obtain es r where s: "q = live q @ es @ r" "length (live q) + length es = 6" "\<forall>t\<in>set es. task_pcb t = None"
    using queue_split [OF assms(1)] by metis
  have l: "2 - length (live q) < length es" using s(2) assms(2) by linarith
  have "(live q @ es @ r) ! 2 = es ! (2 - length (live q))" using l assms(2) by (auto simp: nth_append)
  then show ?thesis using s(1,3) l by (metis nth_mem)
qed

lemma runs_shell:
  assumes "kreachable demo_layout s" "image s = shell_image" "filesys_addr s = 4096" "length (ents s) \<le> 2" "\<forall>e \<in> set (ents s). snd e"
  shows "\<exists>s'. kreachable demo_layout s' \<and> image s' = shell_image \<and> filesys_addr s' = 4096
    \<and> length (ents s') = Suc (length (ents s)) \<and> (\<forall>e \<in> set (ents s'). snd e)"
proof -
  have K: "kinv s" using kreachable_shell assms(1-3) by blast
  obtain n s' where n: "executed demo_layout idle_task n s s'" "kreachable demo_layout s'" "image s' = shell_image"
    "filesys_addr s' = 4096" "length (ents s') = Suc (length (ents s))"
    using run_shell_step [OF assms(1-3)] assms(4) by auto
  have "task_pcb (task_queue s ! 2) = None"
    using third_missing [OF kinvD(1) [OF K]] assms(4) by (simp add: ents_def)
  then have "exec_parent s = -1" by (simp add: exec_parent_def split: option.split)
  then have "\<forall>e \<in> set (ents s'). snd e"
    using executed_entries(1) [OF K n(1)] assms(5) by (cases "ents s") (auto simp: spawn_def)
  then show ?thesis using n by blast
qed

lemma three_running:
  "\<exists>s. kreachable demo_layout s \<and> kinv s \<and> image s = shell_image \<and> filesys_addr s = 4096 \<and> length (ents s) = 3 \<and> (\<forall>e \<in> set (ents s). snd e)"
proof -
  have 0: "kreachable demo_layout booted" "ents booted = []"
    using kreachable.boot [OF booted_boot] init_task_queue_empty(2) [of "replicate 16 idle_task"]
    by (simp_all add: ents_def booted_def QUEUE_SIZE_def)
  from runs_shell [OF 0(1)] 0(2) obtain s1 where s1: "kreachable demo_layout s1" "image s1 = shell_image"
    "filesys_addr s1 = 4096" "length (ents s1) = 1" "\<forall>e \<in> set (ents s1). snd e" by (auto simp: booted_def)
  from runs_shell [OF s1(1-3) _ s1(5)] s1(4) obtain s2 where s2: "kreachable demo_layout s2" "image s2 = shell_image"
    "filesys_addr s2 = 4096" "length (ents s2) = 2" "\<forall>e \<in> set (ents s2). snd e" by auto
  from runs_shell [OF s2(1-3) _ s2(5)] s2(4) show ?thesis using kreachable_shell by auto
qed

text \<open>When all tasks can run, an interrupt goes to the next; after a round the first runs again.\<close>

lemma tick_next:
  assumes "runs_ok s" "\<forall>e \<in> set (ents s). snd e"
  shows "\<exists>e b s'. pit_interrupt l esp ebp kesp kebp fresh fbuf abuf s = Some (Resume e b s') \<and> switched 1 s s'"
proof -
  obtain k e b s' where k: "pit_interrupt l esp ebp kesp kebp fresh fbuf abuf s = Some (Resume e b s')" "switched k s s'"
    "0 < k" "\<forall>j. 0 < j \<and> j < k \<longrightarrow> \<not> snd (ents s ! j)"
    using tick_switches [OF assms(1), of l esp ebp kesp kebp fresh fbuf abuf] by blast
  have "1 < length (ents s)" using assms(1) by (simp add: runs_ok_def)
  then have "snd (ents s ! 1)" using assms(2) by simp
  then have "\<not> 1 < k" using k(4) by auto
  then have "k = 1" using k(3) by simp
  then show ?thesis using k by blast
qed

lemma timer_round:
  assumes "runs_ok s" "\<forall>e \<in> set (ents s). snd e" "length (ents s) = 3"
  shows "\<exists>s'. timer_runs l s s' \<and> switched 3 s s'"
proof -
  have all: "\<forall>e \<in> set (ents s'). snd e" if "switched k s s'" for k s' using that assms(2) by (simp add: switched_def)
  obtain e1 b1 s1 where 1: "pit_interrupt l 0 0 0 0 idle_task [] [] s = Some (Resume e1 b1 s1)" "switched 1 s s1"
    using tick_next [OF assms(1,2)] by blast
  obtain e2 b2 s2 where 2: "pit_interrupt l 0 0 0 0 idle_task [] [] s1 = Some (Resume e2 b2 s2)" "switched 1 s1 s2"
    using tick_next [OF switched_ok [OF 1(2)] all [OF 1(2)]] by blast
  have s2: "switched 2 s s2" using switched_trans [OF 1(2) 2(2)] by (simp add: numeral_2_eq_2)
  obtain e3 b3 s3 where 3: "pit_interrupt l 0 0 0 0 idle_task [] [] s2 = Some (Resume e3 b3 s3)" "switched 1 s2 s3"
    using tick_next [OF switched_ok [OF s2] all [OF s2]] by blast
  have "timer_runs l s s3" by (rule timer_runs.more [OF timer_runs.more [OF timer_runs.first [OF 1(1)] 2(1)] 3(1)])
  then show ?thesis using switched_trans [OF s2 3(2)] by (auto simp: numeral_3_eq_3)
qed

theorem interrupted_load_witness:
  "\<exists>s st s1 s2 s3 c. kreachable demo_layout s \<and> exec_begin demo_layout (replicate 32 0) (replicate 128 0) shell_str s = Some (Some st, s1)
    \<and> timer_runs demo_layout s1 s2 \<and> exec_end 0 0 idle_task st s2 = Some (ToUser 0x8048000 s3)
    \<and> cur_pcb s3 = Some c \<and> parents s3 c = int c"
proof -
  obtain s where s: "kreachable demo_layout s" "kinv s" "image s = shell_image" "filesys_addr s = 4096" "length (ents s) = 3"
    "\<forall>e \<in> set (ents s). snd e" using three_running by blast
  note K = kinvD [OF s(2)]
  obtain c r where es: "ents s = (c, True) # r" using s(5) K(3) sched_invD(2) [OF K(3)] by (cases "ents s") auto
  have cur: "cur_pcb s = Some c" using K(5) es by simp
  obtain f a where p: "parse_exec shell_str (replicate 32 0) (replicate 128 0) = Some (f, a)"
    "f = str_bytes ''shell'' @ 0 # replicate 26 0" "terminated a" "length (cstr a) < 128"
    using shell_parse by blast
  have "card (slots_used (kpaging s)) < 6" using s(5) live_count [OF s(2)] by (simp add: ents_def)
  then obtain ld n s1 where n: "load_begin demo_layout f s = Some (Some ld, s1)" "loaded demo_layout n s s1"
    using load_begin_runs [OF shell_runnable [OF s(3,4), folded p(2)] K(2)] by blast
  define st where "st = \<lparr>st_args = a, st_parent = exec_parent s, st_cur = task_queue s ! 0, st_load = ld\<rparr>"
  have b: "exec_begin demo_layout (replicate 32 0) (replicate 128 0) shell_str s = Some (Some st, s1)"
    using p(1) n(1) by (simp add: exec_begin_def st_def)
  have al: "alloc_slot_of demo_layout (kpaging s) = Some (n, kpaging s1)" using n(2) by (simp add: loaded_def)
  have nf: "n \<notin> slots_used (kpaging s)" using slots.alloc_slot [OF K(2) al] by simp
  have pids: "\<forall>a \<in> fst ` set (ents s). pid (pcbs s1 a) = pid (pcbs s a)" using n(2) nf unfolding K(4) by (auto simp: loaded_def)
  have "runs_ok s1" using kinv_runs_ok [OF s(2), of s1] n(2) pids s(5) by (simp add: loaded_def)
  moreover have e1: "ents s1 = ents s" using n(2) by (simp add: loaded_def ents_def)
  ultimately obtain s2 where s2: "timer_runs demo_layout s1 s2" "switched 3 s1 s2"
    using timer_round [of s1 demo_layout] s(5,6) by auto
  have "ents s2 = ents s" using s2(2) e1 s(5) rotate_id [of 3 "ents s"] by (simp add: switched_def)
  then have c2: "cur_pcb s2 = Some c" using s2(2) es by (simp add: switched_def)
  have im: "image s2 = shell_image" "filesys_addr s2 = 4096"
    using s2(2) load_begin_cases [OF n(1)] s(3,4) by (simp_all add: switched_def)
  have d: "fst (load_end ld s2) = 0x8048000"
  proof -
    obtain d where "read_dentry_by_name shell_image 4096 f = Some (Some d)" "ld = \<lparr>ld_inode = inode_num d,
      ld_size = get_inode_len shell_image 4096 (inode_num d), ld_head = read_data shell_image 4096 (inode_num d) 0 40\<rparr>"
      using load_begin_file [OF n(1)] s(3,4) by auto
    moreover have "runnable_file s f 0x8048000" using shell_runnable [OF s(3,4)] p(2) by simp
    ultimately show ?thesis
      by (auto simp: runnable_file_def load_end_def Let_def im s(3,4))
  qed
  obtain im' where e: "load_end ld s2 = (0x8048000, s2\<lparr>user_image := im'\<rparr>)"
    using load_end_fields d by (metis prod.collapse)
  have "terminated a" "length (cstr a) < length (args (pcbs s2 c))" using p(3,4) kinvD(8) [OF s(2), of c] s2(2) n(2) nf es K(4)
    by (auto simp: switched_def loaded_def)
  then obtain av where "strcpy (args (pcbs s2 c)) a = Some av" using strcpy_eq [OF p(3), of "args (pcbs s2 c)"] by auto
  then obtain s3 where x: "exec_end 0 0 idle_task st s2 = Some (ToUser 0x8048000 s3)"
    using e c2 by (simp add: exec_end_def Let_def st_def update_pcb_def)
  have "parents s3 c = int c" "cur_pcb s3 = Some c"
    using interrupted_load [OF s(2) _ cur b s2(1) c2 x] s(5) by auto
  then show ?thesis using s(1) b s2(1) x by blast
qed

end
