(* ===== verification/TuxLdisc.thy ===== *)
theory TuxLdisc
  imports Prelude
begin

text \<open>
  The line discipline of the Tux game controller (\<open>mp2/module/tuxctl-ld.c\<close>): two 64-byte
  ring buffers between the serial driver and the character driver, and the callback that
  cuts the received bytes into three-byte packets by their framing bits.

  A \<open>tty\<close> keeps the optional \<open>disc_data\<close> (the C pointer, \<open>None\<close> when NULL), the two
  static variables of \<open>tuxctl_ldisc_data_callback\<close>, the bytes handed to the serial driver's
  \<open>write\<close> and the packets handed to \<open>tuxctl_handle_packet\<close>. The serial driver is outside
  the repository: what its \<open>write_room\<close> answers is a parameter. An operation that would
  dereference a NULL \<open>disc_data\<close> returns \<open>None\<close>.

  The model is the sequential run of each method, for one controller. In the code only the changes
  of the two buffers are under the spin lock: \<open>tuxctl_ldisc_put\<close> gives the lock back before it
  calls \<open>tuxctl_ldisc_write_wakeup\<close>, and \<open>write_room\<close> and \<open>write\<close> of the driver are called without it,
  so two calls that overlap could hand their bytes to the driver in either order. \<open>saved\<close> and
  \<open>n_saved\<close> are static in C, one copy for all controllers and without a lock; here they are in the
  record of the only one.
\<close>

definition TUXCTL_BUFSIZE :: nat where "TUXCTL_BUFSIZE = 64"
definition TUXCTL_MAGIC :: u32 where "TUXCTL_MAGIC = 0x74757863"

record tuxctl_ldisc_data =
  magic :: u32
  rx_buf :: "u8 list"
  rx_start :: nat
  rx_end :: nat
  tx_buf :: "u8 list"
  tx_start :: nat
  tx_end :: nat

record tty =
  disc_data :: "tuxctl_ldisc_data option"
  saved :: "u8 list"
  n_saved :: nat
  driver_out :: "u8 list"
  packets :: "u8 list list"

section \<open>The buffer macros\<close>

definition buf_used :: "nat \<Rightarrow> nat \<Rightarrow> nat" where
  "buf_used s e = (if s \<le> e then e - s else TUXCTL_BUFSIZE + e - s)"

definition buf_room :: "nat \<Rightarrow> nat \<Rightarrow> nat" where
  "buf_room s e = TUXCTL_BUFSIZE - buf_used s e - 1"

definition buf_empty :: "nat \<Rightarrow> nat \<Rightarrow> bool" where
  "buf_empty s e = (s = e)"

definition buf_full :: "nat \<Rightarrow> nat \<Rightarrow> bool" where
  "buf_full s e = ((e + 1) mod TUXCTL_BUFSIZE = s)"

definition buf_incidx :: "nat \<Rightarrow> nat" where
  "buf_incidx i = (i + 1) mod TUXCTL_BUFSIZE"

section \<open>One-byte steps of the two rings\<close>

definition rx_push :: "u8 \<Rightarrow> tuxctl_ldisc_data \<Rightarrow> tuxctl_ldisc_data" where
  "rx_push c d = d\<lparr>rx_buf := (rx_buf d)[rx_end d := c], rx_end := buf_incidx (rx_end d)\<rparr>"

definition rx_front :: "tuxctl_ldisc_data \<Rightarrow> u8" where
  "rx_front d = rx_buf d ! rx_start d"

definition rx_pop :: "tuxctl_ldisc_data \<Rightarrow> tuxctl_ldisc_data" where
  "rx_pop d = d\<lparr>rx_start := buf_incidx (rx_start d)\<rparr>"

definition rx_is_empty :: "tuxctl_ldisc_data \<Rightarrow> bool" where
  "rx_is_empty d = buf_empty (rx_start d) (rx_end d)"

definition rx_is_full :: "tuxctl_ldisc_data \<Rightarrow> bool" where
  "rx_is_full d = buf_full (rx_start d) (rx_end d)"

definition tx_push :: "u8 \<Rightarrow> tuxctl_ldisc_data \<Rightarrow> tuxctl_ldisc_data" where
  "tx_push c d = d\<lparr>tx_buf := (tx_buf d)[tx_end d := c], tx_end := buf_incidx (tx_end d)\<rparr>"

definition tx_front :: "tuxctl_ldisc_data \<Rightarrow> u8" where
  "tx_front d = tx_buf d ! tx_start d"

definition tx_pop :: "tuxctl_ldisc_data \<Rightarrow> tuxctl_ldisc_data" where
  "tx_pop d = d\<lparr>tx_start := buf_incidx (tx_start d)\<rparr>"

definition tx_is_empty :: "tuxctl_ldisc_data \<Rightarrow> bool" where
  "tx_is_empty d = buf_empty (tx_start d) (tx_end d)"

definition tx_is_full :: "tuxctl_ldisc_data \<Rightarrow> bool" where
  "tx_is_full d = buf_full (tx_start d) (tx_end d)"

section \<open>The operations\<close>

text \<open>
  \<open>kmalloc\<close> gives either nothing (the call then fails with \<open>-ENOMEM\<close>, here \<open>-12\<close>) or a block
  whose two arrays hold arbitrary bytes.
\<close>

fun tuxctl_ldisc_open :: "(u8 list \<times> u8 list) option \<Rightarrow> tty \<Rightarrow> int \<times> tty" where
  "tuxctl_ldisc_open None t = (-12, t)"
| "tuxctl_ldisc_open (Some (rx, tx)) t =
     (0, t\<lparr>disc_data := Some \<lparr>magic = TUXCTL_MAGIC, rx_buf = rx, rx_start = 0, rx_end = 0,
                             tx_buf = tx, tx_start = 0, tx_end = 0\<rparr>\<rparr>)"

definition tuxctl_ldisc_close :: "tty \<Rightarrow> tty" where
  "tuxctl_ldisc_close t = t\<lparr>disc_data := None\<rparr>"

definition tuxctl_ldisc_get :: "tty \<Rightarrow> int \<Rightarrow> (u8 list \<times> tty) option" where
  "tuxctl_ldisc_get t n =
     (if n \<le> 0 then Some ([], t)
      else case disc_data t of
        None \<Rightarrow> None
      | Some d \<Rightarrow>
          (let (bytes, d') = drain rx_is_empty rx_front rx_pop (nat n) d
           in Some (bytes, t\<lparr>disc_data := Some d'\<rparr>)))"

text \<open>
  \<open>write_wakeup\<close>: the loop condition is \<open>n <= room\<close>, so it may take \<open>room + 1\<close> bytes.
  \<open>room\<close> is the answer of the driver's \<open>write_room\<close>.
\<close>

definition tuxctl_ldisc_write_wakeup :: "int \<Rightarrow> tty \<Rightarrow> tty option" where
  "tuxctl_ldisc_write_wakeup room t =
     (if room < 0 then Some t
      else case disc_data t of
        None \<Rightarrow> None
      | Some d \<Rightarrow>
          (let (bytes, d') = drain tx_is_empty tx_front tx_pop (nat (room + 1)) d
           in Some (t\<lparr>disc_data := Some d', driver_out := driver_out t @ bytes\<rparr>)))"

text \<open>\<open>put\<close> returns the number of bytes not stored. \<open>buf\<close> holds at least \<open>n\<close> bytes.\<close>

definition tuxctl_ldisc_put :: "int \<Rightarrow> tty \<Rightarrow> u8 list \<Rightarrow> int \<Rightarrow> (int \<times> tty) option" where
  "tuxctl_ldisc_put room t buf n =
     (if n \<le> 0 then map_option (\<lambda>t'. (n, t')) (tuxctl_ldisc_write_wakeup room t)
      else case disc_data t of
        None \<Rightarrow> None
      | Some d \<Rightarrow>
          (let (rest, d') = feed tx_is_full tx_push (take (nat n) buf) d
           in map_option (\<lambda>t'. (int (length rest), t'))
                (tuxctl_ldisc_write_wakeup room (t\<lparr>disc_data := Some d'\<rparr>))))"

text \<open>The framing test on the three bytes at a position.\<close>

definition framed :: "u8 \<Rightarrow> u8 \<Rightarrow> u8 \<Rightarrow> bool" where
  "framed a b c \<longleftrightarrow> a AND 0x80 = 0 \<and> b AND 0x80 \<noteq> 0 \<and> c AND 0x80 \<noteq> 0"

text \<open>The loop of the callback over \<open>packet[i .. n)\<close>: the packets found and the final \<open>i\<close>.\<close>

function cut_packets :: "u8 list \<Rightarrow> nat \<Rightarrow> nat \<Rightarrow> u8 list list \<times> nat" where
  "cut_packets p n i =
     (if i + 2 < n then
        (if framed (p ! i) (p ! (i + 1)) (p ! (i + 2))
         then (let (ps, j) = cut_packets p n (i + 3) in (take 3 (drop i p) # ps, j))
         else cut_packets p n (i + 1))
      else ([], i))"
  by pat_completeness auto
termination by (relation "measure (\<lambda>(p, n, i). n - i)") auto

declare cut_packets.simps [simp del]

definition tuxctl_ldisc_data_callback :: "tty \<Rightarrow> tty option" where
  "tuxctl_ldisc_data_callback t =
     (case tuxctl_ldisc_get t (12 - int (n_saved t)) of
        None \<Rightarrow> None
      | Some (bytes, t') \<Rightarrow>
          (let packet = take (n_saved t) (saved t) @ bytes;
               n = n_saved t + length bytes;
               (ps, i) = cut_packets packet n 0
           in Some (t'\<lparr>n_saved := n - i, saved := drop i packet, packets := packets t' @ ps\<rparr>)))"

text \<open>\<open>rcv_buf\<close> returns silently when the discipline is closed. \<open>cp\<close> are the \<open>count\<close> bytes.\<close>

definition tuxctl_ldisc_rcv_buf :: "u8 list \<Rightarrow> tty \<Rightarrow> tty option" where
  "tuxctl_ldisc_rcv_buf cp t =
     (case disc_data t of
        None \<Rightarrow> Some t
      | Some d \<Rightarrow>
          tuxctl_ldisc_data_callback
            (t\<lparr>disc_data := Some (snd (feed rx_is_full rx_push cp d))\<rparr>))"


text \<open>Several deliveries of the serial driver, one after the other.\<close>

fun rcv_all :: "u8 list list \<Rightarrow> tty \<Rightarrow> tty option" where
  "rcv_all [] t = Some t"
| "rcv_all (c # cs) t = Option.bind (tuxctl_ldisc_rcv_buf c t) (rcv_all cs)"

section \<open>Abstraction and invariant\<close>

definition rx_list :: "tuxctl_ldisc_data \<Rightarrow> u8 list" where
  "rx_list d = ring_list (rx_buf d) (rx_start d) (rx_end d)"

definition tx_list :: "tuxctl_ldisc_data \<Rightarrow> u8 list" where
  "tx_list d = ring_list (tx_buf d) (tx_start d) (tx_end d)"

definition ldisc_invar :: "tuxctl_ldisc_data \<Rightarrow> bool" where
  "ldisc_invar d \<longleftrightarrow> length (rx_buf d) = TUXCTL_BUFSIZE \<and> length (tx_buf d) = TUXCTL_BUFSIZE
     \<and> rx_start d < TUXCTL_BUFSIZE \<and> rx_end d < TUXCTL_BUFSIZE
     \<and> tx_start d < TUXCTL_BUFSIZE \<and> tx_end d < TUXCTL_BUFSIZE"

definition tty_invar :: "tty \<Rightarrow> bool" where
  "tty_invar t \<longleftrightarrow> (case disc_data t of None \<Rightarrow> True | Some d \<Rightarrow> ldisc_invar d)
     \<and> n_saved t \<le> 2 \<and> length (saved t) = n_saved t"

text \<open>The bytes received but not yet cut: the saved ones, then those in the receive ring.\<close>

definition pending :: "tty \<Rightarrow> u8 list" where
  "pending t = saved t @ (case disc_data t of None \<Rightarrow> [] | Some d \<Rightarrow> rx_list d)"

text \<open>The reference framing of a whole byte stream: its packets and the undecided rest.\<close>

fun frames :: "u8 list \<Rightarrow> u8 list list \<times> u8 list" where
  "frames (a # b # c # r) =
     (if framed a b c then (let (ps, l) = frames r in ([a, b, c] # ps, l))
      else frames (b # c # r))"
| "frames xs = ([], xs)"

section \<open>The two rings are bounded queues\<close>

lemmas ring_op_defs = rx_push_def rx_front_def rx_pop_def rx_is_empty_def rx_is_full_def
  tx_push_def tx_front_def tx_pop_def tx_is_empty_def tx_is_full_def
  buf_empty_def buf_full_def buf_incidx_def

interpretation rx: bounded_fifo rx_is_empty rx_is_full rx_push rx_front rx_pop rx_list
  ldisc_invar "\<lambda>_. True" "TUXCTL_BUFSIZE - 1"
proof (unfold_locales, goal_cases)
  case (1 d) then show ?case by (auto simp: ldisc_invar_def ring_op_defs rx_list_def ring_list_Nil_iff)
next
  case (2 d) then show ?case
    using ring_used_full [of "rx_start d" 64 "rx_end d"]
    by (simp add: ldisc_invar_def ring_op_defs rx_list_def TUXCTL_BUFSIZE_def)
next
  case (3 d) then show ?case
    using ring_used_bound [of "rx_start d" 64 "rx_end d"]
    by (simp add: ldisc_invar_def ring_op_defs rx_list_def TUXCTL_BUFSIZE_def)
next
  case (4 d x) then show ?case
    by (simp add: ldisc_invar_def ring_op_defs TUXCTL_BUFSIZE_def)
next
  case (5 d x) then show ?case
    using ring_list_enq [of "rx_start d" "rx_buf d" "rx_end d" x]
    by (simp add: ldisc_invar_def ring_op_defs rx_list_def)
next
  case (6 d) then show ?case
    by (simp add: ldisc_invar_def ring_op_defs TUXCTL_BUFSIZE_def)
next
  case (7 d) then show ?case
    using ring_list_deq [of "rx_start d" "rx_buf d" "rx_end d"]
    by (simp add: ldisc_invar_def ring_op_defs rx_list_def)
qed

interpretation tx: bounded_fifo tx_is_empty tx_is_full tx_push tx_front tx_pop tx_list
  ldisc_invar "\<lambda>_. True" "TUXCTL_BUFSIZE - 1"
proof (unfold_locales, goal_cases)
  case (1 d) then show ?case by (auto simp: ldisc_invar_def ring_op_defs tx_list_def ring_list_Nil_iff)
next
  case (2 d) then show ?case
    using ring_used_full [of "tx_start d" 64 "tx_end d"]
    by (simp add: ldisc_invar_def ring_op_defs tx_list_def TUXCTL_BUFSIZE_def)
next
  case (3 d) then show ?case
    using ring_used_bound [of "tx_start d" 64 "tx_end d"]
    by (simp add: ldisc_invar_def ring_op_defs tx_list_def TUXCTL_BUFSIZE_def)
next
  case (4 d x) then show ?case
    by (simp add: ldisc_invar_def ring_op_defs TUXCTL_BUFSIZE_def)
next
  case (5 d x) then show ?case
    using ring_list_enq [of "tx_start d" "tx_buf d" "tx_end d" x]
    by (simp add: ldisc_invar_def ring_op_defs tx_list_def)
next
  case (6 d) then show ?case
    by (simp add: ldisc_invar_def ring_op_defs TUXCTL_BUFSIZE_def)
next
  case (7 d) then show ?case
    using ring_list_deq [of "tx_start d" "tx_buf d" "tx_end d"]
    by (simp add: ldisc_invar_def ring_op_defs tx_list_def)
qed

section \<open>Framing\<close>

lemma frames_short: "length xs \<le> 2 \<Longrightarrow> frames xs = ([], xs)"
  by (cases xs rule: frames.cases) auto

lemma frames_rest_short: "length (snd (frames xs)) \<le> 2"
  by (induction xs rule: frames.induct) (auto simp: case_prod_unfold Let_def)

lemma frames_append:
  "frames (xs @ ys) =
     (fst (frames xs) @ fst (frames (snd (frames xs) @ ys)), snd (frames (snd (frames xs) @ ys)))"
  by (induction xs rule: frames.induct) (auto simp: case_prod_unfold Let_def)

lemma drop_cons3:
  "i + 2 < length p \<Longrightarrow> drop i p = p ! i # p ! (i + 1) # p ! (i + 2) # drop (i + 3) p"
  by (simp add: Cons_nth_drop_Suc numeral_eq_Suc)

lemma cut_packets_frames:
  assumes "i \<le> length p"
  shows "fst (cut_packets p (length p) i) = fst (frames (drop i p))
    \<and> drop (snd (cut_packets p (length p) i)) p = snd (frames (drop i p))
    \<and> snd (cut_packets p (length p) i) \<le> length p"
  using assms
proof (induction p "length p" i rule: cut_packets.induct)
  case (1 p i)
  show ?case
  proof (cases "i + 2 < length p")
    case True
    note d = drop_cons3 [OF True]
    have e: "drop (i + 1) p = p ! (i + 1) # p ! (i + 2) # drop (i + 3) p"
      using d by (metis drop_Suc_Cons drop_drop drop0 One_nat_def add.commute)
    show ?thesis
    proof (cases "framed (p ! i) (p ! (i + 1)) (p ! (i + 2))")
      case fr: True
      then show ?thesis
        using 1(1)[OF True fr] True
        by (simp add: cut_packets.simps [of p "length p" i] case_prod_unfold Let_def d)
    next
      case fr: False
      then show ?thesis
        using 1(2)[OF True fr] True e
        by (simp add: cut_packets.simps [of p "length p" i] d)
    qed
  next
    case False
    then show ?thesis
      using 1(3) by (simp add: cut_packets.simps [of p "length p" i] frames_short)
  qed
qed


section \<open>What the operations do\<close>

lemma get_spec:
  assumes "tty_invar t" "disc_data t = Some d"
  shows "\<exists>d'. tuxctl_ldisc_get t n = Some (take (nat n) (rx_list d), t\<lparr>disc_data := Some d'\<rparr>)
    \<and> ldisc_invar d' \<and> rx_list d' = drop (nat n) (rx_list d)"
proof (cases "n \<le> 0")
  case True
  then show ?thesis
    using assms by (intro exI [of _ d]) (simp add: tuxctl_ldisc_get_def tty_invar_def)
next
  case False
  then show ?thesis
    using rx.drain_spec [of d "nat n"] assms
    by (intro exI [of _ "snd (drain rx_is_empty rx_front rx_pop (nat n) d)"])
      (simp add: tuxctl_ldisc_get_def tty_invar_def case_prod_unfold)
qed

lemma callback_spec:
  assumes "tty_invar t" "disc_data t = Some d"
  shows "\<exists>t' d'. tuxctl_ldisc_data_callback t = Some t' \<and> tty_invar t' \<and> disc_data t' = Some d'
    \<and> rx_list d' = drop (12 - n_saved t) (rx_list d)
    \<and> saved t' = snd (frames (saved t @ take (12 - n_saved t) (rx_list d)))
    \<and> packets t' = packets t @ fst (frames (saved t @ take (12 - n_saved t) (rx_list d)))"
proof -
  define k where "k = 12 - n_saved t"
  define p where "p = saved t @ take k (rx_list d)"
  have k: "nat (12 - int (n_saved t)) = k" by (simp add: k_def)
  obtain d' where g: "tuxctl_ldisc_get t (12 - int (n_saved t)) =
        Some (take k (rx_list d), t\<lparr>disc_data := Some d'\<rparr>)"
      and d': "ldisc_invar d'" "rx_list d' = drop k (rx_list d)"
    using get_spec [OF assms, of "12 - int (n_saved t)"] k by auto
  have sv: "take (n_saved t) (saved t) = saved t" "length (saved t) = n_saved t"
    using assms by (simp_all add: tty_invar_def)
  have n: "n_saved t + length (take k (rx_list d)) = length p"
    using sv by (simp add: p_def)
  note c = cut_packets_frames [of 0 p]
  obtain ps i where ci: "cut_packets p (length p) 0 = (ps, i)" by (metis surj_pair)
  have i: "length p - i \<le> 2" "drop i p = snd (frames p)" "ps = fst (frames p)"
    using c ci frames_rest_short [of p] by (auto simp flip: length_drop)
  have "tuxctl_ldisc_data_callback t = Some (t\<lparr>disc_data := Some d', n_saved := length p - i,
      saved := drop i p, packets := packets t @ ps\<rparr>)"
    by (simp add: tuxctl_ldisc_data_callback_def g sv(1) n ci Let_def del: length_take drop_append
        flip: p_def)
  then show ?thesis
    using i d' by (simp add: tty_invar_def flip: p_def k_def) (metis length_drop)
qed

lemma rcv_buf_spec:
  fixes cp :: "u8 list"
  assumes "tty_invar t" "disc_data t = Some d"
  defines "acc \<equiv> rx_list d @ take (63 - length (rx_list d)) cp"
  shows "\<exists>t' d'. tuxctl_ldisc_rcv_buf cp t = Some t' \<and> tty_invar t' \<and> disc_data t' = Some d'
    \<and> rx_list d' = drop (12 - n_saved t) acc
    \<and> saved t' = snd (frames (saved t @ take (12 - n_saved t) acc))
    \<and> packets t' = packets t @ fst (frames (saved t @ take (12 - n_saved t) acc))"
proof -
  let ?d = "snd (feed rx_is_full rx_push cp d)" and ?t = "t\<lparr>disc_data := Some (snd (feed rx_is_full rx_push cp d))\<rparr>"
  have f: "rx_list ?d = acc" "ldisc_invar ?d"
    using rx.feed_spec [of d cp] assms by (simp_all add: list_all_iff tty_invar_def TUXCTL_BUFSIZE_def)
  have "tty_invar ?t" "disc_data ?t = Some ?d"
    using assms f by (simp_all add: tty_invar_def)
  from callback_spec [OF this] show ?thesis
    using assms(2) f(1) by (simp add: tuxctl_ldisc_rcv_buf_def)
qed

lemma frames_take_drop:
  "frames (xs @ take k ys @ drop k ys) =
     (fst (frames (xs @ take k ys)) @ fst (frames (snd (frames (xs @ take k ys)) @ drop k ys)),
      snd (frames (snd (frames (xs @ take k ys)) @ drop k ys)))"
  using frames_append [of "xs @ take k ys" "drop k ys"] by simp


lemma rcv_all_short_chunks:
  assumes "tty_invar t" "disc_data t = Some d" "rx_list d = []"
    and "list_all (\<lambda>c. length c \<le> 10) cs"
  shows "\<exists>t'. rcv_all cs t = Some t' \<and> tty_invar t'
    \<and> packets t' = packets t @ fst (frames (saved t @ concat cs))
    \<and> pending t' = snd (frames (saved t @ concat cs))"
  using assms
proof (induction cs arbitrary: t d)
  case Nil
  then show ?case by (simp add: frames_short pending_def tty_invar_def)
next
  case (Cons c cs)
  have len: "length c \<le> 10" "n_saved t \<le> 2" using Cons.prems by (simp_all add: tty_invar_def)
  from rcv_buf_spec [OF Cons.prems(1,2), of c] obtain t' d' where
    r: "tuxctl_ldisc_rcv_buf c t = Some t'" "tty_invar t'" "disc_data t' = Some d'" "rx_list d' = []"
      "saved t' = snd (frames (saved t @ c))" "packets t' = packets t @ fst (frames (saved t @ c))"
    using len Cons.prems(3) by auto
  from Cons.IH [OF r(2,3,4)] Cons.prems(4) show ?case
    using r frames_append [of "saved t @ c" "concat cs"] by simp
qed

text \<open>The state right after a successful \<open>tuxctl_ldisc_open\<close> on a fresh terminal.\<close>

definition fresh_tty :: tty where
  "fresh_tty = \<lparr>disc_data = None, saved = [], n_saved = 0, driver_out = [], packets = []\<rparr>"

definition open_data :: "u8 list \<Rightarrow> u8 list \<Rightarrow> tuxctl_ldisc_data" where
  "open_data rx tx = \<lparr>magic = TUXCTL_MAGIC, rx_buf = rx, rx_start = 0, rx_end = 0,
                      tx_buf = tx, tx_start = 0, tx_end = 0\<rparr>"

lemma open_data_lists [simp]: "rx_list (open_data rx tx) = []" "tx_list (open_data rx tx) = []"
  by (simp_all add: open_data_def rx_list_def tx_list_def ring_list_def ring_used_def)

lemma open_fresh:
  assumes "length rx = TUXCTL_BUFSIZE" "length tx = TUXCTL_BUFSIZE"
  defines "t \<equiv> snd (tuxctl_ldisc_open (Some (rx, tx)) fresh_tty)"
  shows "tty_invar t" "disc_data t = Some (open_data rx tx)"
    "saved t = []" "packets t = []" "driver_out t = []" "pending t = []"
  using assms by (simp_all add: t_def fresh_tty_def tty_invar_def ldisc_invar_def
      pending_def TUXCTL_BUFSIZE_def open_data_def rx_list_def ring_list_def ring_used_def)

text \<open>The fresh terminal opened with zeroed arrays, used by the concrete examples.\<close>

definition zeros :: "u8 list" where "zeros = replicate 64 0"

definition open_tty :: tty where
  "open_tty = snd (tuxctl_ldisc_open (Some (zeros, zeros)) fresh_tty)"

lemma length_zeros: "length zeros = TUXCTL_BUFSIZE"
  by (simp add: zeros_def TUXCTL_BUFSIZE_def)

lemmas open_tty_props = open_fresh [OF length_zeros length_zeros, folded open_tty_def]

lemma wakeup_spec:
  assumes "tty_invar t" "disc_data t = Some d" "0 \<le> room"
  shows "\<exists>d'. tuxctl_ldisc_write_wakeup room t = Some (t\<lparr>disc_data := Some d',
        driver_out := driver_out t @ take (nat room + 1) (tx_list d)\<rparr>)
    \<and> ldisc_invar d' \<and> tx_list d' = drop (nat room + 1) (tx_list d)
    \<and> rx_list d' = rx_list d"
proof -
  let ?r = "drain tx_is_empty tx_front tx_pop (nat room + 1) d"
  have "rx_list (snd (drain tx_is_empty tx_front tx_pop k e)) = rx_list e" for k e
    by (induction k arbitrary: e) (auto simp: case_prod_unfold Let_def tx_pop_def rx_list_def)
  moreover have "nat (room + 1) = nat room + 1" using assms(3) by simp
  ultimately show ?thesis
    using tx.drain_spec [of d "nat room + 1"] assms
    by (intro exI [of _ "snd ?r"])
      (simp add: tuxctl_ldisc_write_wakeup_def tty_invar_def case_prod_unfold Let_def del: drain.simps)
qed

lemma feed_tx_rx_list: "rx_list (snd (feed tx_is_full tx_push xs e)) = rx_list e"
  by (induction xs arbitrary: e) (auto simp: tx_push_def rx_list_def)

section \<open>Properties\<close>

text \<open>
  C11: receiving any bytes in an open line discipline returns, keeps the invariant, and loses
  nothing but what does not fit the 63 free places of the ring: the packets delivered so far,
  followed by those in the bytes still pending, are exactly the packets of the old pending
  bytes followed by the accepted ones, under the framing of a whole stream.
\<close>

theorem rcv_buf_stream:
  assumes "tty_invar t" "disc_data t = Some d"
  shows "\<exists>t'. tuxctl_ldisc_rcv_buf cp t = Some t' \<and> tty_invar t' \<and>
    (let acc = take (63 - length (rx_list d)) cp
     in packets t' @ fst (frames (pending t')) = packets t @ fst (frames (pending t @ acc))
        \<and> snd (frames (pending t')) = snd (frames (pending t @ acc)))"
proof -
  let ?acc = "rx_list d @ take (63 - length (rx_list d)) cp"
  from rcv_buf_spec [OF assms, of cp] obtain t' d' where
    r: "tuxctl_ldisc_rcv_buf cp t = Some t'" "tty_invar t'" "disc_data t' = Some d'"
      "rx_list d' = drop (12 - n_saved t) ?acc"
      "saved t' = snd (frames (saved t @ take (12 - n_saved t) ?acc))"
      "packets t' = packets t @ fst (frames (saved t @ take (12 - n_saved t) ?acc))"
    by blast
  have "pending t @ take (63 - length (rx_list d)) cp
      = saved t @ take (12 - n_saved t) ?acc @ drop (12 - n_saved t) ?acc"
    using assms by (simp only: append_take_drop_id) (simp add: pending_def)
  then show ?thesis
    using r frames_take_drop [of "saved t" "12 - n_saved t" ?acc] by (simp add: pending_def Let_def)
qed

theorem rcv_buf_stream_witness:
  "\<exists>t'. tuxctl_ldisc_rcv_buf [1, 0x81, 0x82, 3] open_tty = Some t' \<and> tty_invar t'
    \<and> packets t' @ fst (frames (pending t')) = [[1, 0x81, 0x82]]
    \<and> snd (frames (pending t')) = [3]"
  using rcv_buf_stream [of open_tty "open_data zeros zeros" "[1, 0x81, 0x82, 3]"]
  by (simp add: open_tty_props framed_def )

text \<open>
  from a freshly opened line discipline, deliveries of at most ten bytes each, however the
  serial driver splits the stream, hand over exactly the packets of the concatenated stream, and
  the bytes kept for the next call are exactly its undecided rest (at most two bytes).
\<close>

theorem rcv_all_packets:
  assumes "length rx = TUXCTL_BUFSIZE" "length tx = TUXCTL_BUFSIZE"
    and "list_all (\<lambda>c. length c \<le> 10) cs"
  shows "\<exists>t'. rcv_all cs (snd (tuxctl_ldisc_open (Some (rx, tx)) fresh_tty)) = Some t'
    \<and> packets t' = fst (frames (concat cs))
    \<and> pending t' = snd (frames (concat cs)) \<and> length (pending t') \<le> 2"
proof -
  note o = open_fresh [OF assms(1,2)]
  show ?thesis
    using rcv_all_short_chunks [OF o(1,2) _ assms(3)] o frames_rest_short [of "concat cs"] by auto
qed

theorem rcv_all_packets_witness:
  "\<exists>t'. rcv_all [[1, 0x81], [0x82, 3], [4]] (snd (tuxctl_ldisc_open (Some (zeros, zeros)) fresh_tty)) = Some t'
    \<and> packets t' = [[1, 0x81, 0x82]] \<and> pending t' = [3, 4] \<and> length (pending t') \<le> 2"
  using rcv_all_packets [of zeros zeros "[[1, 0x81], [0x82, 3], [4]]"]
  by (simp add: length_zeros framed_def del: rcv_all.simps tuxctl_ldisc_open.simps)

text \<open>
  C27: \<open>tuxctl_ldisc_put\<close> on an open line discipline returns the number of bytes it could not
  store; the bytes handed to the driver followed by those still queued are the old ones followed
  by the stored ones, in order; the driver gets at most \<open>room + 1\<close> bytes (one more than its
  \<open>write_room\<close>); and the receive side is not touched.
\<close>

theorem put_in_order:
  assumes "tty_invar t" "disc_data t = Some d" "0 \<le> n" "nat n \<le> length buf" "0 \<le> room"
  shows "\<exists>t' d'. tuxctl_ldisc_put room t buf n
        = Some (n - int (min (nat n) (63 - length (tx_list d))), t')
    \<and> tty_invar t' \<and> disc_data t' = Some d'
    \<and> driver_out t' @ tx_list d' = driver_out t @ tx_list d @ take (min (nat n) (63 - length (tx_list d))) buf
    \<and> length (driver_out t') = length (driver_out t)
        + min (nat room + 1) (length (tx_list d) + min (nat n) (63 - length (tx_list d)))
    \<and> rx_list d' = rx_list d \<and> saved t' = saved t \<and> packets t' = packets t"
proof (cases "n = 0")
  case True
  with wakeup_spec [OF assms(1,2,5)] assms show ?thesis
    by (auto simp: tuxctl_ldisc_put_def tty_invar_def)
next
  case False
  let ?k = "63 - length (tx_list d)"
  let ?f = "feed tx_is_full tx_push (take (nat n) buf) d"
  let ?t = "t\<lparr>disc_data := Some (snd ?f)\<rparr>"
  have f: "fst ?f = drop ?k (take (nat n) buf)" "tx_list (snd ?f) = tx_list d @ take ?k (take (nat n) buf)"
    "ldisc_invar (snd ?f)"
    using tx.feed_spec [of d "take (nat n) buf"] assms by (simp_all add: list_all_iff tty_invar_def TUXCTL_BUFSIZE_def)
  have t: "tty_invar ?t" "disc_data ?t = Some (snd ?f)"
    using assms f by (simp_all add: tty_invar_def)
  have len: "int (length (fst ?f)) = n - int (min (nat n) ?k)" "length (fst ?f) = nat n - ?k"
    using assms by (auto simp: f(1))
  obtain d' where w: "tuxctl_ldisc_write_wakeup room ?t = Some (?t\<lparr>disc_data := Some d',
        driver_out := driver_out t @ take (nat room + 1) (tx_list (snd ?f))\<rparr>)"
      "ldisc_invar d'" "tx_list d' = drop (nat room + 1) (tx_list (snd ?f))" "rx_list d' = rx_list d"
    using wakeup_spec [OF t assms(5)] by (auto simp: feed_tx_rx_list)
  have "tuxctl_ldisc_put room t buf n = Some (n - int (min (nat n) ?k), t\<lparr>disc_data := Some d',
        driver_out := driver_out t @ take (nat room + 1) (tx_list (snd ?f))\<rparr>)"
    using False assms(2,3) w(1) len(1) by (simp add: tuxctl_ldisc_put_def case_prod_unfold Let_def)
  moreover have "length (tx_list (snd ?f)) = length (tx_list d) + min (nat n) ?k"
    "tx_list d @ take (min (nat n) ?k) buf = tx_list (snd ?f)"
    using f(2) assms(4) by (simp_all add: min.commute)
  ultimately show ?thesis
    using w(2-4) t(1) by (intro exI [of _ d'] exI) (auto simp: tty_invar_def min.commute)
qed

theorem put_in_order_witness:
  "\<exists>t' d'. tuxctl_ldisc_put 1 open_tty [7, 8, 9] 3 = Some (0, t')
    \<and> disc_data t' = Some d' \<and> driver_out t' @ tx_list d' = [7, 8, 9] \<and> length (driver_out t') = 2"
  using put_in_order [of open_tty "open_data zeros zeros" 3 "[7, 8, 9]" 1]
  by (auto simp: open_tty_props)

end
