(* ===== verification/Vga.thy ===== *)
theory Vga
  imports Devices
begin

text \<open>
  The text-mode cursor, \<open>mp3/student-distrib/vga.c\<close>. The CRT controller is a file of byte
  registers behind two ports, as the source says: the register number is written to port
  \<open>0x3D4\<close> and the value goes to, or comes from, port \<open>0x3D5\<close>. Each operation is the sequence
  of its port accesses on that file; the \<open>io_wait\<close> writes to the unused port \<open>0xB0\<close> change nothing.
\<close>

definition VGA_CRTC_ADDRPORT :: u16 where "VGA_CRTC_ADDRPORT = 0x3D4"
definition VGA_CRTC_DATAPORT :: u16 where "VGA_CRTC_DATAPORT = 0x3D5"
definition VGA_CURSORHIGH :: u8 where "VGA_CURSORHIGH = 0x0E"
definition VGA_CURSORLOW :: u8 where "VGA_CURSORLOW = 0x0F"
definition VGA_CSR :: u8 where "VGA_CSR = 0x0A"
definition VGA_CER :: u8 where "VGA_CER = 0x0B"
definition VGA_MSL :: u8 where "VGA_MSL = 0x09"
definition VGA_MAXSCAN :: u8 where "VGA_MAXSCAN = 0x1F"

record crtc =
  crtc_index :: u8
  crtc_regs :: "u8 \<Rightarrow> u8"

definition crtc_outb :: "outb \<Rightarrow> crtc \<Rightarrow> crtc" where
  "crtc_outb w c =
     (if snd w = VGA_CRTC_ADDRPORT then c\<lparr>crtc_index := fst w\<rparr>
      else if snd w = VGA_CRTC_DATAPORT then c\<lparr>crtc_regs := (crtc_regs c)(crtc_index c := fst w)\<rparr>
      else c)"

definition crtc_inb :: "crtc \<Rightarrow> u8" where
  "crtc_inb c = crtc_regs c (crtc_index c)"

definition io_wait :: outb where "io_wait = (0, 0xB0)"

definition vga_set_crtc_reg :: "u8 \<Rightarrow> u8 \<Rightarrow> crtc \<Rightarrow> crtc" where
  "vga_set_crtc_reg reg val c =
     fold crtc_outb [(reg, VGA_CRTC_ADDRPORT), io_wait, (val, VGA_CRTC_DATAPORT), io_wait] c"

definition vga_get_crtc_reg :: "u8 \<Rightarrow> crtc \<Rightarrow> u8 \<times> crtc" where
  "vga_get_crtc_reg reg c =
     (let c1 = fold crtc_outb [(reg, VGA_CRTC_ADDRPORT), io_wait] c in (crtc_inb c1, c1))"

text \<open>Bit 5 of the cursor start register is \<open>cursor_disable\<close>.\<close>

definition vga_enable_cursor :: "bool \<Rightarrow> crtc \<Rightarrow> crtc" where
  "vga_enable_cursor cursor_state c =
     (let (new_csr, c1) = vga_get_crtc_reg VGA_CSR c
      in vga_set_crtc_reg VGA_CSR ((new_csr AND NOT 0x20) OR (if cursor_state then 0 else 0x20)) c1)"

datatype vga_cursortype = CURSOR_UNDERLINE | CURSOR_HALFBLOCK | CURSOR_BLOCK

text \<open>The start and end scanlines are the low five bits of their registers.\<close>

definition vga_set_cursor_type :: "vga_cursortype \<Rightarrow> crtc \<Rightarrow> crtc" where
  "vga_set_cursor_type type c =
     (let (msl, c1) = vga_get_crtc_reg VGA_MSL c;
          max_scanline = msl AND VGA_MAXSCAN;
          scanline_end = (case type of
              CURSOR_UNDERLINE \<Rightarrow> 1
            | CURSOR_BLOCK \<Rightarrow> max_scanline - 1
            | CURSOR_HALFBLOCK \<Rightarrow> max_scanline div 2);
          (new_csr, c2) = vga_get_crtc_reg VGA_CSR c1;
          (new_cer, c3) = vga_get_crtc_reg VGA_CER c2;
          c4 = vga_set_crtc_reg VGA_CSR (new_csr AND NOT 0x1F) c3
      in vga_set_crtc_reg VGA_CER ((new_cer AND NOT 0x1F) OR (scanline_end AND 0x1F)) c4)"

definition vga_set_cursor_pos :: "u16 \<Rightarrow> u16 \<Rightarrow> crtc \<Rightarrow> crtc" where
  "vga_set_cursor_pos x y c =
     (if x > 80 \<or> y > 25 then c
      else (let cell_addr = y * 80 + x;
                c1 = vga_set_crtc_reg VGA_CURSORHIGH (ucast (drop_bit 8 (cell_addr AND 0xFF00))) c;
                c2 = crtc_outb io_wait c1;
                c3 = vga_set_crtc_reg VGA_CURSORLOW (ucast (cell_addr AND 0x00FF)) c2
            in crtc_outb io_wait c3))"

section \<open>What the registers hold\<close>

lemmas crtc_defs = crtc_outb_def crtc_inb_def io_wait_def VGA_CRTC_ADDRPORT_def VGA_CRTC_DATAPORT_def
  VGA_CURSORHIGH_def VGA_CURSORLOW_def VGA_CSR_def VGA_CER_def VGA_MSL_def VGA_MAXSCAN_def

lemma vga_set_crtc_reg_eq [simp]:
  "vga_set_crtc_reg reg val c = \<lparr>crtc_index = reg, crtc_regs = (crtc_regs c)(reg := val)\<rparr>"
  by (simp add: vga_set_crtc_reg_def crtc_defs)

lemma vga_get_crtc_reg_eq [simp]:
  "vga_get_crtc_reg reg c = (crtc_regs c reg, c\<lparr>crtc_index := reg\<rparr>)"
  by (simp add: vga_get_crtc_reg_def crtc_defs)

text \<open>The cell the hardware cursor is on, and whether it is visible.\<close>

definition cursor_cell :: "crtc \<Rightarrow> nat" where
  "cursor_cell c = 256 * unat (crtc_regs c VGA_CURSORHIGH) + unat (crtc_regs c VGA_CURSORLOW)"

definition cursor_visible :: "crtc \<Rightarrow> bool" where
  "cursor_visible c \<longleftrightarrow> \<not> bit (crtc_regs c VGA_CSR) 5"

lemma unat_high_byte: "unat (ucast (drop_bit 8 (w AND 0xFF00)) :: u8) = unat w div 256" for w :: u16
proof -
  have "unat (w AND 0xFF00) div 256 = unat w div 256"
  proof -
    have "unat (w AND 0xFF00) = unat w AND 0xFF00" by (simp add: unsigned_and_eq)
    moreover have "drop_bit 8 (unat w AND 0xFF00) = drop_bit 8 (unat w) AND 0xFF" by (simp add: drop_bit_and)
    moreover have "drop_bit 8 (unat w) AND 0xFF = drop_bit 8 (unat w) mod 256"
      using take_bit_eq_mask [of 8 "drop_bit 8 (unat w)"] by (simp add: mask_eq_exp_minus_1 take_bit_eq_mod)
    moreover have "unat w div 256 < 256" using unsigned_less [of w, where ?'a = nat] by (simp add: less_mult_imp_div_less)
    ultimately show ?thesis by (simp add: drop_bit_eq_div)
  qed
  moreover have "unat w div 256 < 256" using unsigned_less [of w, where ?'a = nat] by (simp add: less_mult_imp_div_less)
  ultimately show ?thesis
    by (simp only: unsigned_ucast_eq unsigned_drop_bit_eq drop_bit_eq_div) (simp add: take_bit_eq_mod drop_bit_eq_div unat_div_distrib)
qed

lemma unat_low_byte: "unat (ucast (w AND 0x00FF) :: u8) = unat w mod 256" for w :: u16
proof -
  have "unat (w AND 0xFF) = unat w mod 256"
    using take_bit_eq_mask [of 8 "unat w"] by (simp add: unsigned_and_eq mask_eq_exp_minus_1 take_bit_eq_mod)
  then show ?thesis by (simp only: unsigned_ucast_eq) (simp add: take_bit_eq_mod)
qed

lemma cell_addr_unat:
  assumes "x < 80" "y < 25"
  shows "unat (of_nat y * 80 + of_nat x :: u16) = 80 * y + x"
proof -
  have "of_nat y * 80 + of_nat x = (of_nat (80 * y + x) :: u16)" by simp
  moreover have "80 * y + x < 2 ^ 16" using assms by simp
  ultimately show ?thesis by (simp only: unat_of_nat) (simp add: take_bit_eq_mod)
qed

lemma cursor_args:
  assumes "x < 80" "y < 25"
  shows "\<not> (of_nat x :: u16) > 80" "\<not> (of_nat y :: u16) > 25"
  using assms by (simp_all add: word_less_nat_alt unat_of_nat take_bit_eq_mod)

lemma set_cursor_pos_regs:
  assumes "x < 80" "y < 25"
  shows "crtc_regs (vga_set_cursor_pos (of_nat x) (of_nat y) c)
    = (crtc_regs c)(0x0E := ucast (drop_bit 8 ((of_nat y * 80 + of_nat x :: u16) AND 0xFF00)),
                    0x0F := ucast ((of_nat y * 80 + of_nat x :: u16) AND 0xFF))"
  using cursor_args [OF assms] by (simp only: vga_set_cursor_pos_def Let_def vga_set_crtc_reg_eq if_False disj_not1 simp_thms) (simp add: crtc_defs)

lemma set_cursor_pos_cell:
  assumes "x < 80" "y < 25"
  shows "cursor_cell (vga_set_cursor_pos (of_nat x) (of_nat y) c) = 80 * y + x"
proof -
  have "cursor_cell (vga_set_cursor_pos (of_nat x) (of_nat y) c)
      = 256 * unat (ucast (drop_bit 8 ((of_nat y * 80 + of_nat x :: u16) AND 0xFF00)) :: u8)
        + unat (ucast ((of_nat y * 80 + of_nat x :: u16) AND 0xFF) :: u8)"
    unfolding cursor_cell_def set_cursor_pos_regs [OF assms] VGA_CURSORHIGH_def VGA_CURSORLOW_def
    by (simp only: fun_upd_def) simp
  also have "\<dots> = 256 * ((80 * y + x) div 256) + (80 * y + x) mod 256"
    unfolding unat_high_byte unat_low_byte cell_addr_unat [OF assms] ..
  finally show ?thesis by simp
qed

lemma set_cursor_pos_visible:
  assumes "x < 80" "y < 25"
  shows "cursor_visible (vga_set_cursor_pos (of_nat x) (of_nat y) c) \<longleftrightarrow> cursor_visible c"
  unfolding cursor_visible_def set_cursor_pos_regs [OF assms] VGA_CSR_def by simp

lemma enable_cursor_visible [simp]: "cursor_visible (vga_enable_cursor b c) \<longleftrightarrow> b"
  by (auto simp: vga_enable_cursor_def cursor_visible_def crtc_defs bit_simps Let_def)

lemma enable_cursor_cell [simp]: "cursor_cell (vga_enable_cursor b c) = cursor_cell c"
  by (simp add: vga_enable_cursor_def cursor_cell_def crtc_defs Let_def)

end
