(* ===== verification/Console.thy ===== *)
theory Console
  imports KLib Vga "HOL-Library.Monad_Syntax"
begin

text \<open>
  The console driver and the virtual terminals, \<open>mp3/student-distrib/console.c\<close>.

  The state holds the three virtual terminals, the index of the one on the screen
  (\<open>current_console\<close>, \<open>None\<close> for NULL), the video memory as 2000 cells, the keyboard state, the
  CRT controller's registers, the terminal of the running process (\<open>cur_pcb->con\<close>, \<open>None\<close>
  when there is no process) and the key the scancode interpreter saw last. An access through NULL or outside an array is the value \<open>None\<close> of
  the operation.

  \<open>console_scroll\<close> moves a terminal's own buffer with pointer arithmetic on cells where bytes were
  meant, so it reads 80 cells past the end of \<open>vid_buf\<close>; what lies there is the parameter \<open>spill\<close>, a
  function of the state and of the terminal.
\<close>

section \<open>Data\<close>

record vga_char =
  codept :: u8
  underln :: bool
  fg_color :: "2 word"
  fg_intensity :: bool
  bg_color :: "3 word"
  blink :: bool

record console_state =
  condrv_en :: bool
  vcur_x :: int
  vcur_y :: int
  pcur_en :: bool
  kbd_echo_en :: bool
  vcur_autoinc_en :: bool
  con_wrap :: bool
  con_scroll :: bool
  con_bkspstop_col :: u8
  charstyle :: vga_char

text \<open>
  The buffer a read is filling: \<open>None\<close> for NULL or for storage that is gone, otherwise the bytes
  the pointer refers to.
\<close>

record buffered_input =
  buffer_length :: u32
  buffer :: "u8 list option"
  next_pos :: u32
  complete :: bool

record console =
  present :: bool
  con_id :: int
  current :: bool
  constate :: console_state
  current_input :: buffered_input
  kbuf :: "u8 list"
  vid_buf :: "vga_char list"

record kbd_mod_state =
  ctrl :: bool
  alt :: bool
  sft :: bool
  capslock :: bool

record kbd_input =
  mods :: kbd_mod_state
  char_pressed :: u8

record cstate =
  vterms :: "console list"
  current_console :: "nat option"
  vmem :: "vga_char list"
  kbd_state :: kbd_input
  crtc :: crtc
  proc_con :: "nat option"
  kbd_last :: u8

type_synonym spill = "cstate \<Rightarrow> nat \<Rightarrow> vga_char list"

datatype con_inc = CONINC_CHAR | CONINC_LINE | CONINC_LINERETURN | CONINC_SCREEN

definition MAX_VTERMS :: nat where "MAX_VTERMS = 3"
definition SCREEN :: nat where "SCREEN = NUM_ROWS * NUM_COLS"

text \<open>A cell from its two bytes in memory.\<close>

definition vga_of_bytes :: "u8 \<Rightarrow> u8 \<Rightarrow> vga_char" where
  "vga_of_bytes c a = \<lparr>codept = c, underln = bit a 0, fg_color = ucast (drop_bit 1 a), fg_intensity = bit a 3,
     bg_color = ucast (drop_bit 4 a), blink = bit a 7\<rparr>"

section \<open>Terminals and cells\<close>

definition proc_term :: "cstate \<Rightarrow> nat" where
  "proc_term s = (case proc_con s of None \<Rightarrow> 0 | Some k \<Rightarrow> k)"

definition term_of :: "bool \<Rightarrow> cstate \<Rightarrow> nat option" where
  "term_of force_current s =
     do { k \<leftarrow> (if force_current then current_console s else Some (proc_term s));
          if k < length (vterms s) then Some k else None }"

definition upd_con :: "nat \<Rightarrow> (console \<Rightarrow> console) \<Rightarrow> cstate \<Rightarrow> cstate" where
  "upd_con k f s = s\<lparr>vterms := (vterms s)[k := f (vterms s ! k)]\<rparr>"

definition upd_state :: "nat \<Rightarrow> (console_state \<Rightarrow> console_state) \<Rightarrow> cstate \<Rightarrow> cstate" where
  "upd_state k f s = upd_con k (\<lambda>c. c\<lparr>constate := f (constate c)\<rparr>) s"

definition put_cell :: "int \<Rightarrow> vga_char \<Rightarrow> vga_char list \<Rightarrow> vga_char list option" where
  "put_cell i ch b = (if 0 \<le> i then store b (nat i) ch else None)"

definition set_cursor :: "console_state \<Rightarrow> cstate \<Rightarrow> cstate" where
  "set_cursor cs s = s\<lparr>crtc := vga_set_cursor_pos (of_int (vcur_x cs)) (of_int (vcur_y cs)) (crtc s)\<rparr>"

definition enable_cursor :: "bool \<Rightarrow> cstate \<Rightarrow> cstate" where
  "enable_cursor b s = s\<lparr>crtc := vga_enable_cursor b (crtc s)\<rparr>"

definition console_refresh_pcur :: "cstate \<Rightarrow> cstate option" where
  "console_refresh_pcur s = do { k \<leftarrow> term_of True s; Some (set_cursor (constate (vterms s ! k)) s) }"

definition console_getcursorpos :: "cstate \<Rightarrow> (int \<times> int) option" where
  "console_getcursorpos s =
     do { k \<leftarrow> term_of False s; Some (vcur_x (constate (vterms s ! k)), vcur_y (constate (vterms s ! k))) }"

definition console_setcursorpos :: "int \<Rightarrow> int \<Rightarrow> cstate \<Rightarrow> (int \<times> cstate) option" where
  "console_setcursorpos x y s =
     (if x < 0 \<or> x \<ge> int NUM_COLS then Some (1, s)
      else if y < 0 \<or> y \<ge> int NUM_ROWS then Some (2, s)
      else do { k \<leftarrow> term_of False s; Some (0, upd_state k (\<lambda>c. c\<lparr>vcur_x := x, vcur_y := y\<rparr>) s) })"

text \<open>\<open>vterm_get_buffer\<close>: the terminal whose buffer the process writes to.\<close>

definition vterm_get_buffer :: "cstate \<Rightarrow> nat option" where
  "vterm_get_buffer s = term_of False s"

section \<open>Cursor movement\<close>

text \<open>One turn of the loop of \<open>console_inccur\<close>, on its local copy of the console state.\<close>

definition inccur_step :: "(cstate \<Rightarrow> cstate option) \<Rightarrow> console_state \<times> cstate \<Rightarrow> (console_state \<times> cstate) option" where
  "inccur_step scroll p =
     (let cs = fst p; s = snd p
      in if vcur_x cs + 1 \<ge> int NUM_COLS
         then (if vcur_y cs + 1 \<ge> int NUM_ROWS
               then (if con_wrap cs
                     then do { s' \<leftarrow> (if con_scroll cs then scroll s else Some s);
                               Some (cs\<lparr>vcur_y := int NUM_ROWS - 1, vcur_x := 0\<rparr>, s') }
                     else Some (cs, s))
               else if con_wrap cs then Some (cs\<lparr>vcur_y := vcur_y cs + 1, vcur_x := 0\<rparr>, s)
               else Some (cs, s))
         else Some (cs\<lparr>vcur_x := vcur_x cs + 1\<rparr>, s))"

fun repeat_opt :: "nat \<Rightarrow> ('a \<Rightarrow> 'a option) \<Rightarrow> 'a \<Rightarrow> 'a option" where
  "repeat_opt 0 f x = Some x"
| "repeat_opt (Suc n) f x = do { y \<leftarrow> f x; repeat_opt n f y }"

definition num_chars :: "con_inc \<Rightarrow> console_state \<Rightarrow> int" where
  "num_chars inc cs =
     (case inc of
        CONINC_CHAR \<Rightarrow> 1
      | CONINC_LINE \<Rightarrow> 1 + int NUM_COLS
      | CONINC_LINERETURN \<Rightarrow> 1 + (int NUM_COLS - vcur_x cs - 1)
      | CONINC_SCREEN \<Rightarrow> 1 + int NUM_COLS * int NUM_ROWS)"

definition inccur_with :: "(bool \<Rightarrow> cstate \<Rightarrow> cstate option) \<Rightarrow> con_inc \<Rightarrow> bool \<Rightarrow> cstate \<Rightarrow> cstate option" where
  "inccur_with scroll inc force_current s =
     do { k \<leftarrow> term_of force_current s;
          (cs, s1) \<leftarrow> repeat_opt (nat (num_chars inc (constate (vterms s ! k)))) (inccur_step (scroll force_current))
                       (constate (vterms s ! k), s);
          let s2 = upd_state k (\<lambda>_. cs) s1;
          if force_current \<or> Some k = current_console s2
          then do { s3 \<leftarrow> console_refresh_pcur s2; Some (enable_cursor True s3) }
          else Some s2 }"

section \<open>Writing a character\<close>

definition styled :: "u8 \<Rightarrow> console_state \<Rightarrow> vga_char" where
  "styled c cs = (charstyle cs)\<lparr>codept := c\<rparr>"

definition cursor_index :: "console_state \<Rightarrow> int" where
  "cursor_index cs = vcur_x cs + vcur_y cs * int NUM_COLS"

text \<open>Whether the process' terminal is written through to the screen.\<close>

definition on_screen :: "cstate \<Rightarrow> bool option" where
  "on_screen s =
     (case proc_con s of
        None \<Rightarrow> Some True
      | Some k \<Rightarrow> do { c \<leftarrow> term_of True s; Some (int k = con_id (vterms s ! c)) })"

definition putchar_with :: "(bool \<Rightarrow> cstate \<Rightarrow> cstate option) \<Rightarrow> u8 \<Rightarrow> cstate \<Rightarrow> cstate option" where
  "putchar_with scroll c s =
     (if c = 0x0A then inccur_with scroll CONINC_LINERETURN False s
      else do {
        k \<leftarrow> vterm_get_buffer s;
        let cs = constate (vterms s ! k);
        b \<leftarrow> put_cell (cursor_index cs) (styled c cs) (vid_buf (vterms s ! k));
        let s1 = upd_con k (\<lambda>con. con\<lparr>vid_buf := b\<rparr>) s;
        vis \<leftarrow> on_screen s1;
        v \<leftarrow> (if vis then put_cell (cursor_index cs) (styled c cs) (vmem s1) else Some (vmem s1));
        let s2 = s1\<lparr>vmem := v\<rparr>;
        s3 \<leftarrow> (if vcur_autoinc_en cs then inccur_with scroll CONINC_CHAR False s2 else Some s2);
        vis2 \<leftarrow> on_screen s3;
        Some (if vis2 then set_cursor (constate (vterms s3 ! k)) s3 else s3) })"

definition echo_with :: "(bool \<Rightarrow> cstate \<Rightarrow> cstate option) \<Rightarrow> u8 \<Rightarrow> cstate \<Rightarrow> cstate option" where
  "echo_with scroll c s =
     (if c = 0x0A then inccur_with scroll CONINC_LINERETURN True s
      else do {
        k \<leftarrow> term_of True s;
        let cs = constate (vterms s ! k);
        b \<leftarrow> put_cell (cursor_index cs) (styled c cs) (vid_buf (vterms s ! k));
        let s1 = upd_con k (\<lambda>con. con\<lparr>vid_buf := b\<rparr>) s;
        v \<leftarrow> put_cell (cursor_index cs) (styled c cs) (vmem s1);
        let s2 = s1\<lparr>vmem := v\<rparr>;
        s3 \<leftarrow> (if vcur_autoinc_en cs then inccur_with scroll CONINC_CHAR True s2 else Some s2);
        Some (set_cursor (constate (vterms s3 ! k)) s3) })"

section \<open>Scrolling\<close>

text \<open>
  One line of scrolling. \<open>vid_buf + LINE_MEM_LEN\<close> is 160 cells into the buffer, and 1920 cells are
  moved; in video memory the same expression is one line, 80 cells.
\<close>

definition scroll_shift :: "spill \<Rightarrow> nat \<Rightarrow> cstate \<Rightarrow> cstate" where
  "scroll_shift spill k s =
     (let con = vterms s ! k;
          s1 = upd_con k (\<lambda>c. c\<lparr>vid_buf := take 1920 (drop 160 (vid_buf con @ spill s k)) @ drop 1920 (vid_buf con)\<rparr>) s
      in if current con then s1\<lparr>vmem := take 1920 (drop 80 (vmem s)) @ drop 1920 (vmem s)\<rparr> else s1)"

text \<open>The cursor is put at the start of the last line, with scrolling off, for the blanks.\<close>

definition scroll_prepare :: "nat \<Rightarrow> cstate \<Rightarrow> cstate" where
  "scroll_prepare k s =
     upd_state k (\<lambda>c. c\<lparr>vcur_x := 0, vcur_y := int NUM_ROWS - 1, vcur_autoinc_en := True, con_scroll := False\<rparr>) s"

definition scroll_line :: "spill \<Rightarrow> (u8 \<Rightarrow> cstate \<Rightarrow> cstate option) \<Rightarrow> bool \<Rightarrow> nat \<Rightarrow> cstate \<Rightarrow> cstate option" where
  "scroll_line spill put force_current k s =
     do {
       let s2 = scroll_shift spill k s;
       let oldx = vcur_x (constate (vterms s ! k));
       let oldy = vcur_y (constate (vterms s ! k));
       s4 \<leftarrow> repeat_opt NUM_COLS (put 0x20) (scroll_prepare k s2);
       s5 \<leftarrow> (if force_current then Some (upd_state k (\<lambda>c. c\<lparr>vcur_x := oldx, vcur_y := oldy\<rparr>) s4)
              else do { (v, t) \<leftarrow> console_setcursorpos oldx oldy s4; Some t });
       let s6 = (if current (vterms s5 ! k) \<or> force_current then set_cursor (constate (vterms s5 ! k)) s5 else s5);
       Some (upd_state k (\<lambda>c. c\<lparr>con_scroll := True\<rparr>) s6) }"

text \<open>
  \<open>console_scroll\<close> dereferences \<open>cur_pcb\<close> before anything else, also when it is NULL.
\<close>

definition scroll_with :: "spill \<Rightarrow> (bool \<Rightarrow> u8 \<Rightarrow> cstate \<Rightarrow> cstate option) \<Rightarrow> nat \<Rightarrow> bool \<Rightarrow> cstate \<Rightarrow> cstate option" where
  "scroll_with spill put lines force_current s =
     do {
       p \<leftarrow> proc_con s;
       k \<leftarrow> term_of force_current s;
       if \<not> con_scroll (constate (vterms s ! k)) then Some s
       else repeat_opt lines (scroll_line spill (put force_current) force_current k) s }"

text \<open>
  The functions call each other: a write moves the cursor, which may scroll, which writes blanks.
  Scrolling clears \<open>con_scroll\<close> first, so the inner writes never scroll again; \<open>depth\<close> bounds the
  nesting, and one level is enough.
\<close>

fun scroll_depth :: "spill \<Rightarrow> nat \<Rightarrow> nat \<Rightarrow> bool \<Rightarrow> cstate \<Rightarrow> cstate option" where
  "scroll_depth spill 0 lines force_current s = None"
| "scroll_depth spill (Suc depth) lines force_current s =
     scroll_with spill (\<lambda>f. (if f then echo_with else putchar_with) (scroll_depth spill depth 1)) lines force_current s"

definition console_scroll :: "spill \<Rightarrow> nat \<Rightarrow> bool \<Rightarrow> cstate \<Rightarrow> cstate option" where
  "console_scroll spill = scroll_depth spill 1"

definition console_inccur :: "spill \<Rightarrow> con_inc \<Rightarrow> bool \<Rightarrow> cstate \<Rightarrow> cstate option" where
  "console_inccur spill = inccur_with (console_scroll spill 1)"

definition console_putchar :: "spill \<Rightarrow> u8 \<Rightarrow> cstate \<Rightarrow> cstate option" where
  "console_putchar spill = putchar_with (console_scroll spill 1)"

definition console_echo :: "spill \<Rightarrow> u8 \<Rightarrow> cstate \<Rightarrow> cstate option" where
  "console_echo spill = echo_with (console_scroll spill 1)"

definition console_putn :: "spill \<Rightarrow> u8 list \<Rightarrow> nat \<Rightarrow> cstate \<Rightarrow> (int \<times> cstate) option" where
  "console_putn spill buf n s =
     (if n \<le> length buf
      then map_option (\<lambda>t. (int n, t)) (fold (\<lambda>c r. Option.bind r (console_putchar spill c)) (take n buf) (Some s))
      else None)"

text \<open>\<open>console_puts\<close>: \<open>str[c]\<close> is read before \<open>c < n\<close> is tested.\<close>

fun puts_loop :: "spill \<Rightarrow> u8 list \<Rightarrow> int \<Rightarrow> int \<Rightarrow> cstate \<Rightarrow> (int \<times> cstate) option" where
  "puts_loop spill [] c n s = None"
| "puts_loop spill (ch # str) c n s =
     (if ch \<noteq> 0 \<and> c < n
      then do { s' \<leftarrow> console_putchar spill ch s; puts_loop spill str (c + 1) n s' }
      else Some (c, s))"

definition console_puts :: "spill \<Rightarrow> u8 list \<Rightarrow> int \<Rightarrow> cstate \<Rightarrow> (int \<times> cstate) option" where
  "console_puts spill str n s =
     do { (c, s1) \<leftarrow> puts_loop spill str 0 n (enable_cursor False s);
          s2 \<leftarrow> console_refresh_pcur (enable_cursor True s1);
          Some (c, s2) }"

text \<open>The blank screen of \<open>clear\<close> in \<open>lib.c\<close>, as cells.\<close>

definition blank_screen :: "vga_char list" where
  "blank_screen = replicate SCREEN (vga_of_bytes 0x20 ATTRIB)"

definition console_clrsc :: "cstate \<Rightarrow> cstate option" where
  "console_clrsc s =
     do { k \<leftarrow> term_of True s;
          console_refresh_pcur (upd_state k (\<lambda>c. c\<lparr>vcur_x := 0, vcur_y := 0\<rparr>) (s\<lparr>vmem := blank_screen\<rparr>)) }"

section \<open>Keyboard input\<close>

definition bksp_move :: "console_state \<Rightarrow> console_state" where
  "bksp_move cs =
     (if vcur_x cs \<le> 0
      then (if vcur_y cs \<le> 0 then cs\<lparr>vcur_x := 0, vcur_y := 0\<rparr>
            else (if con_wrap cs then cs\<lparr>vcur_y := vcur_y cs - 1\<rparr> else cs)\<lparr>vcur_x := int NUM_COLS - 1\<rparr>)
      else if con_bkspstop_col cs = 0 \<or> vcur_x cs > uint (con_bkspstop_col cs)
      then cs\<lparr>vcur_x := vcur_x cs - 1\<rparr> else cs)"

definition console_bksp :: "spill \<Rightarrow> cstate \<Rightarrow> cstate option" where
  "console_bksp spill s =
     do { k \<leftarrow> term_of True s;
          let cs = bksp_move (constate (vterms s ! k));
          let s1 = upd_state k (\<lambda>c. c\<lparr>vcur_autoinc_en := False\<rparr>) s;
          let s2 = upd_state k (\<lambda>_. cs) s1;
          s3 \<leftarrow> console_echo spill 0x20 s2;
          let s4 = upd_state k (\<lambda>c. c\<lparr>vcur_autoinc_en := True\<rparr>) s3;
          console_refresh_pcur (upd_state k (\<lambda>_. cs) s4) }"

definition console_echokbd :: "spill \<Rightarrow> kbd_input \<Rightarrow> cstate \<Rightarrow> cstate option" where
  "console_echokbd spill kbdin s =
     do { k \<leftarrow> term_of True s;
          let s0 = upd_state k (\<lambda>c. c\<lparr>vcur_autoinc_en := True\<rparr>) s;
          let ctl = ctrl (mods kbdin) \<or> alt (mods kbdin);
          let c = (if ctl \<and> 0x61 \<le> char_pressed kbdin \<and> char_pressed kbdin \<le> 0x7A
                   then char_pressed kbdin - 0x20 else char_pressed kbdin);
          s1 \<leftarrow> (if ctl then console_echo spill 0x5E s0 else Some s0);
          if ctl \<and> c = 0x4C then do { s2 \<leftarrow> console_clrsc s1; console_refresh_pcur s2 }
          else do {
            s2 \<leftarrow> (if alt (mods kbdin) \<or> c = 0x1B then console_echo spill 0x5B s1 else Some s1);
            if c \<noteq> 0x1B then console_echo spill c s2 else Some s2 } }"

definition us_numtosym :: "u8 list" where
  "us_numtosym = [0x29, 0x21, 0x40, 0x23, 0x24, 0x25, 0x5E, 0x26, 0x2A, 0x28]"

definition us_symgroup1 :: "u8 list" where
  "us_symgroup1 = [0x7B, 0x7C, 0x7D]"

text \<open>The printable keys of \<open>console_inputhandler\<close> and the character each gives; \<open>None\<close> for the others.\<close>

definition printable_char :: "kbd_mod_state \<Rightarrow> u8 \<Rightarrow> u8 option" where
  "printable_char m raw =
     (if 0x61 \<le> raw \<and> raw \<le> 0x7A then Some (if sft m \<or> capslock m then raw - 0x20 else raw)
      else if 0x30 \<le> raw \<and> raw \<le> 0x39 then Some (if sft m then us_numtosym ! unat (raw - 0x30) else raw)
      else if 0x5B \<le> raw \<and> raw \<le> 0x5D then Some (if sft m then us_symgroup1 ! unat (raw - 0x5B) else raw)
      else if raw = 0x20 then Some 0x20
      else if raw = 0x3B then Some (if sft m then 0x3A else 0x3B)
      else if raw = 0x27 then Some (if sft m then 0x22 else 0x27)
      else if raw = 0x60 then Some (if sft m then 0x7E else 0x60)
      else if raw = 0x2D then Some (if sft m then 0x5F else 0x2D)
      else if raw = 0x3D then Some (if sft m then 0x2B else 0x3D)
      else if raw = 0x2C then Some (if sft m then 0x3C else 0x2C)
      else if raw = 0x2E then Some (if sft m then 0x3E else 0x2E)
      else if raw = 0x2F then Some (if sft m then 0x3F else 0x2F)
      else None)"

definition buf_store :: "u32 \<Rightarrow> u8 \<Rightarrow> buffered_input \<Rightarrow> buffered_input option" where
  "buf_store i c bi = do { b \<leftarrow> buffer bi; b' \<leftarrow> store b (unat i) c; Some (bi\<lparr>buffer := Some b'\<rparr>) }"

definition input_newline :: "buffered_input \<Rightarrow> buffered_input option" where
  "input_newline bi =
     do { bi1 \<leftarrow> (if \<not> buffer_length bi > 1 then Some bi
                  else if next_pos bi = buffer_length bi
                  then do { b \<leftarrow> buf_store (next_pos bi - 1) 0 bi; buf_store (next_pos bi - 2) 0x0A b }
                  else do { b \<leftarrow> buf_store (next_pos bi) 0x0A bi; buf_store (next_pos bi + 1) 0 b });
          Some (bi1\<lparr>complete := True\<rparr>) }"

definition input_char :: "u8 \<Rightarrow> buffered_input \<Rightarrow> buffered_input option" where
  "input_char c bi =
     (if complete bi then Some bi
      else if next_pos bi = buffer_length bi - 2
      then do { bi1 \<leftarrow> (if buffer_length bi > 1
                         then do { b \<leftarrow> buf_store (next_pos bi + 1) 0 bi; buf_store (next_pos bi) 0x0A b }
                         else Some bi);
                Some (bi1\<lparr>complete := True\<rparr>) }
      else do { bi1 \<leftarrow> buf_store (next_pos bi) c bi; Some (bi1\<lparr>next_pos := next_pos bi + 1\<rparr>) })"

definition input_bksp :: "buffered_input \<Rightarrow> buffered_input" where
  "input_bksp bi = (if \<not> complete bi \<and> next_pos bi > 0 then bi\<lparr>next_pos := next_pos bi - 1\<rparr> else bi)"

definition put_input :: "buffered_input \<Rightarrow> cstate \<Rightarrow> cstate option" where
  "put_input bi s = do { k \<leftarrow> term_of True s; Some (upd_con k (\<lambda>c. c\<lparr>current_input := bi\<rparr>) s) }"

definition console_inputhandler :: "spill \<Rightarrow> u8 \<Rightarrow> cstate \<Rightarrow> cstate option" where
  "console_inputhandler spill raw s =
     do { k \<leftarrow> term_of True s;
          let s0 = s\<lparr>kbd_state := (kbd_state s)\<lparr>char_pressed := 0\<rparr>\<rparr>;
          let bi = current_input (vterms s ! k);
          let m = mods (kbd_state s0);
          case printable_char m raw of
            Some c \<Rightarrow>
              (let s1 = s0\<lparr>kbd_state := (kbd_state s0)\<lparr>char_pressed := c\<rparr>\<rparr>
               in if c \<noteq> 0
                  then do { s2 \<leftarrow> console_echokbd spill (kbd_state s1) s1; bi2 \<leftarrow> input_char c bi; put_input bi2 s2 }
                  else put_input bi s1)
          | None \<Rightarrow>
              (if raw = 0x1A
               then put_input bi (s0\<lparr>kbd_state := (kbd_state s0)\<lparr>mods := m\<lparr>capslock := \<not> capslock m\<rparr>\<rparr>\<rparr>)
               else if raw = 0x08 then do { s1 \<leftarrow> console_bksp spill s0; put_input (input_bksp bi) s1 }
               else if raw = 0x0A
               then do { s1 \<leftarrow> console_inccur spill CONINC_LINERETURN True s0; bi2 \<leftarrow> input_newline bi; put_input bi2 s1 }
               else put_input bi s0) }"

section \<open>Reading a line\<close>

text \<open>
  \<open>console_getinput\<close> spins until an interrupt completes the input. The interrupts that arrive are a
  list of state changes, the first of them first; the result is \<open>None\<close> when they end before the input is
  complete, and otherwise has the interrupts that were not needed.
\<close>

type_synonym isr = "cstate \<Rightarrow> cstate option"

fun input_wait :: "nat \<Rightarrow> isr list \<Rightarrow> cstate \<Rightarrow> (cstate \<times> isr list) option" where
  "input_wait k isrs s =
     (if complete (current_input (vterms s ! k)) then Some (s, isrs)
      else case isrs of [] \<Rightarrow> None | f # fs \<Rightarrow> do { s' \<leftarrow> f s; input_wait k fs s' })"

declare input_wait.simps [simp del]

definition proc_terminal :: "cstate \<Rightarrow> nat option" where
  "proc_terminal s = do { k \<leftarrow> proc_con s; if k < length (vterms s) then Some k else None }"

definition console_getinput :: "isr list \<Rightarrow> cstate \<Rightarrow> (int \<times> cstate \<times> isr list) option" where
  "console_getinput isrs s =
     do { k \<leftarrow> proc_terminal s;
          let s1 = upd_con k (\<lambda>c. c\<lparr>current_input := (current_input c)\<lparr>next_pos := 0, complete := False\<rparr>,
                       constate := (constate c)\<lparr>con_bkspstop_col := of_int (vcur_x (constate c))\<rparr>\<rparr>) s;
          (s2, rest) \<leftarrow> input_wait k isrs s1;
          bi \<leftarrow> buf_store (buffer_length (current_input (vterms s2 ! k)) - 1) 0 (current_input (vterms s2 ! k));
          let s3 = upd_con k (\<lambda>c. c\<lparr>current_input := bi, constate := (constate c)\<lparr>con_bkspstop_col := 0\<rparr>\<rparr>) s2;
          Some (sint (next_pos bi), s3, rest) }"

text \<open>The buffer is \<open>None\<close> for NULL; what it holds afterwards is part of the state.\<close>

definition console_readline :: "isr list \<Rightarrow> u8 list option \<Rightarrow> int \<Rightarrow> cstate \<Rightarrow> (int \<times> cstate \<times> isr list) option" where
  "console_readline isrs cbuf n s =
     (if cbuf = None \<or> n = 0 then Some (0, s, isrs)
      else do { k \<leftarrow> proc_terminal s;
                console_getinput isrs (upd_con k (\<lambda>c. c\<lparr>current_input :=
                   (current_input c)\<lparr>buffer := cbuf, buffer_length := of_int n\<rparr>\<rparr>) s) })"

text \<open>
  \<open>console_getchar\<close> reads into one byte; the byte is what the terminal's input buffer holds after it.
\<close>

definition console_getchar :: "isr list \<Rightarrow> u8 \<Rightarrow> cstate \<Rightarrow> (bool \<times> cstate \<times> isr list) option" where
  "console_getchar isrs c s = map_option (\<lambda>(v, r). (v = 0, r)) (console_readline isrs (Some [c]) 1 s)"

text \<open>
  \<open>console_readline_w\<close> reads into a local buffer of 129 bytes, which is gone when the function
  returns while the terminal keeps the pointer to it.
\<close>

definition console_readline_w :: "isr list \<Rightarrow> int \<Rightarrow> u8 list \<Rightarrow> int \<Rightarrow> cstate
    \<Rightarrow> (int \<times> u8 list \<times> cstate \<times> isr list) option" where
  "console_readline_w isrs fd buf nbytes s =
     (let nb = (if nbytes \<ge> 128 then 128 else nbytes)
      in if fd \<noteq> 0 then Some (-1, buf, s, isrs)
         else do { k \<leftarrow> proc_terminal s;
                   (n, s1, rest) \<leftarrow> console_readline isrs (Some (replicate 129 0)) nb s;
                   let kb = (if nb = 0 then replicate 129 0 else the (buffer (current_input (vterms s1 ! k))));
                   buf' \<leftarrow> strncpy buf kb (nat (n + 1));
                   let s2 = (if nb = 0 then s1
                             else upd_con k (\<lambda>c. c\<lparr>current_input := (current_input c)\<lparr>buffer := None\<rparr>\<rparr>) s1);
                   Some (n + 1, buf', s2, rest) })"

definition console_write_w :: "spill \<Rightarrow> int \<Rightarrow> u8 list \<Rightarrow> int \<Rightarrow> cstate \<Rightarrow> (int \<times> cstate) option" where
  "console_write_w spill fd buf nbytes s =
     (if fd \<noteq> 1 then Some (-1, s) else console_putn spill buf (nat (nbytes mod 2 ^ 32)) s)"

definition console_close :: "int \<Rightarrow> int" where
  "console_close fd = -1"

definition console_isinit :: "cstate \<Rightarrow> bool" where
  "console_isinit s = condrv_en (constate (vterms s ! 0))"

section \<open>Virtual terminals\<close>

definition default_style :: "vga_char" where
  "default_style = \<lparr>codept = 0x20, underln = False, fg_color = 3, fg_intensity = True, bg_color = 0, blink = False\<rparr>"

definition vterm_swap_console :: "int \<Rightarrow> cstate \<Rightarrow> (int \<times> cstate) option" where
  "vterm_swap_console new_idx s =
     (if new_idx < 0 \<or> new_idx \<ge> int MAX_VTERMS then Some (1, s)
      else if \<not> present (vterms s ! nat new_idx) then Some (2, s)
      else do {
        k \<leftarrow> term_of True s;
        let n = nat new_idx;
        let s1 = upd_con k (\<lambda>c. c\<lparr>current := False, vid_buf := vmem s\<rparr>) s;
        let s2 = (upd_con n (\<lambda>c. c\<lparr>current := True\<rparr>) s1)\<lparr>current_console := Some n\<rparr>;
        let s3 = s2\<lparr>vmem := vid_buf (vterms s2 ! n)\<rparr>;
        Some (0, enable_cursor True (set_cursor (constate (vterms s3 ! n)) s3)) })"

definition vterm_new :: "int \<Rightarrow> cstate \<Rightarrow> int \<times> cstate" where
  "vterm_new idx s =
     (if idx < 0 \<or> idx \<ge> int MAX_VTERMS then (1, s)
      else if present (vterms s ! nat idx) then (2, s)
      else (let n = nat idx;
                cs = \<lparr>condrv_en = True, vcur_x = 0, vcur_y = 0, pcur_en = True, kbd_echo_en = True,
                      vcur_autoinc_en = True, con_wrap = True, con_scroll = True, con_bkspstop_col = 0,
                      charstyle = default_style\<rparr>;
                s1 = upd_con n (\<lambda>c. c\<lparr>con_id := idx, constate := cs, kbuf := (kbuf c)[0 := 0],
                        current_input := (current_input c)\<lparr>buffer := None, buffer_length := 0\<rparr>\<rparr>) s;
                s2 = s1\<lparr>vmem := replicate SCREEN default_style\<rparr>
            in (0, upd_con n (\<lambda>c. c\<lparr>present := True\<rparr>) s2)))"

definition vterm_init :: "cstate \<Rightarrow> int \<times> cstate" where
  "vterm_init s =
     (0, (upd_con 0 (\<lambda>c. c\<lparr>current := True\<rparr>) (snd (vterm_new 0 s)))\<lparr>current_console := Some 0\<rparr>)"

definition init_message :: "u8 list" where
  "init_message = str_bytes ''[INFO] Console Initialized.'' @ [0x0A, 0]"

definition console_init :: "spill \<Rightarrow> cstate \<Rightarrow> (int \<times> cstate) option" where
  "console_init spill s =
     do { let s1 = s\<lparr>vmem := blank_screen\<rparr>;
          let cs = (constate (vterms s1 ! 0))\<lparr>vcur_x := 0, vcur_y := 0, pcur_en := True, kbd_echo_en := True,
                      vcur_autoinc_en := True, con_scroll := True, con_wrap := True, con_bkspstop_col := 0\<rparr>;
          let st = (charstyle cs)\<lparr>bg_color := 0, fg_color := 3, fg_intensity := True, blink := False, underln := False\<rparr>;
          let s2 = s1\<lparr>crtc := vga_enable_cursor True (vga_set_cursor_type CURSOR_BLOCK (crtc s1))\<rparr>;
          let s3 = upd_state 0 (\<lambda>_. cs\<lparr>charstyle := st, condrv_en := True\<rparr>) s2;
          (v, s4) \<leftarrow> console_puts spill init_message 29 s3;
          Some (0, s4) }"

end
