(* ===== verification/Terminal.thy ===== *)
theory Terminal
  imports Console
begin

text \<open>
  What the console driver shows: the invariant of the virtual terminals, an abstract terminal (a
  grid of cells and a position) that the driver implements on the screen, and the facts on
  keyboard input and on switching terminals.
\<close>

section \<open>The invariant\<close>

definition state_ok :: "console_state \<Rightarrow> bool" where
  "state_ok cs \<longleftrightarrow> 0 \<le> vcur_x cs \<and> vcur_x cs < 80 \<and> 0 \<le> vcur_y cs \<and> vcur_y cs < 25 \<and> con_wrap cs"

definition con_ok :: "console \<Rightarrow> bool" where
  "con_ok c \<longleftrightarrow> state_ok (constate c) \<and> length (vid_buf c) = 2000"

definition cwf :: "cstate \<Rightarrow> bool" where
  "cwf s \<longleftrightarrow> length (vterms s) = 3 \<and> length (vmem s) = 2000
     \<and> (\<exists>c<3. current_console s = Some c) \<and> (\<exists>p<3. proc_con s = Some p)
     \<and> (\<forall>k<3. con_ok (vterms s ! k) \<and> con_id (vterms s ! k) = int k
          \<and> (current (vterms s ! k) \<longleftrightarrow> current_console s = Some k))"

text \<open>Between calls every terminal scrolls and advances its cursor.\<close>

definition settled :: "cstate \<Rightarrow> bool" where
  "settled s \<longleftrightarrow> (\<forall>k<3. con_scroll (constate (vterms s ! k)) \<and> vcur_autoinc_en (constate (vterms s ! k)))"

definition spill_ok :: "spill \<Rightarrow> bool" where
  "spill_ok spill \<longleftrightarrow> (\<forall>s k. length (spill s k) = 80)"

lemma cwfD:
  assumes "cwf s"
  shows "length (vterms s) = 3" "length (vmem s) = 2000"
    and "\<exists>c<3. current_console s = Some c" "\<exists>p<3. proc_con s = Some p"
    and "k < 3 \<Longrightarrow> state_ok (constate (vterms s ! k))" "k < 3 \<Longrightarrow> length (vid_buf (vterms s ! k)) = 2000"
    and "k < 3 \<Longrightarrow> con_id (vterms s ! k) = int k"
    and "k < 3 \<Longrightarrow> current (vterms s ! k) \<longleftrightarrow> current_console s = Some k"
  using assms by (auto simp: cwf_def con_ok_def)

lemma term_of_cwf:
  assumes "cwf s"
  shows "term_of True s = current_console s" "term_of False s = proc_con s"
  using assms by (auto simp: cwf_def term_of_def proc_term_def)

lemma term_of_less: "cwf s \<Longrightarrow> term_of f s = Some k \<Longrightarrow> k < 3"
  by (cases f) (auto simp: term_of_cwf cwf_def)

lemma upd_con_sel [simp]:
  "vmem (upd_con k f s) = vmem s" "current_console (upd_con k f s) = current_console s"
  "kbd_state (upd_con k f s) = kbd_state s" "kbd_last (upd_con k f s) = kbd_last s" "crtc (upd_con k f s) = crtc s" "proc_con (upd_con k f s) = proc_con s"
  "length (vterms (upd_con k f s)) = length (vterms s)"
  "k < length (vterms s) \<Longrightarrow> vterms (upd_con k f s) ! k = f (vterms s ! k)"
  "j \<noteq> k \<Longrightarrow> vterms (upd_con k f s) ! j = vterms s ! j"
  by (simp_all add: upd_con_def)

lemma upd_con_twice [simp]: "upd_con k f (upd_con k g s) = upd_con k (\<lambda>c. f (g c)) s"
  by (cases "k < length (vterms s)") (simp_all add: upd_con_def list_update_beyond)

lemma upd_con_cong: "(k < length (vterms s) \<Longrightarrow> f (vterms s ! k) = g (vterms s ! k)) \<Longrightarrow> upd_con k f s = upd_con k g s"
  by (cases "k < length (vterms s)") (simp_all add: upd_con_def list_update_beyond)

lemma upd_con_comm [simp]:
  "(upd_con k f s)\<lparr>vmem := v\<rparr> = upd_con k f (s\<lparr>vmem := v\<rparr>)"
  "(upd_con k f s)\<lparr>crtc := c\<rparr> = upd_con k f (s\<lparr>crtc := c\<rparr>)"
  by (simp_all add: upd_con_def)

lemma term_of_cong:
  "current_console t = current_console s \<Longrightarrow> proc_con t = proc_con s \<Longrightarrow> length (vterms t) = length (vterms s)
   \<Longrightarrow> term_of f t = term_of f s"
  by (simp add: term_of_def proc_term_def)

section \<open>The cursor\<close>

definition cursor_shown :: "crtc \<Rightarrow> console_state \<Rightarrow> bool" where
  "cursor_shown c cs \<longleftrightarrow> cursor_cell c = nat (cursor_index cs) \<and> cursor_visible c"

lemma set_cursor_shown:
  assumes "state_ok cs"
  shows "cursor_cell (crtc (set_cursor cs s)) = nat (cursor_index cs)"
    and "cursor_visible (crtc (set_cursor cs s)) \<longleftrightarrow> cursor_visible (crtc s)"
proof -
  obtain x y where x: "vcur_x cs = int x" "x < 80" and y: "vcur_y cs = int y" "y < 25"
    using assms by (metis state_ok_def nonneg_int_cases of_nat_less_numeral_iff)
  show "cursor_cell (crtc (set_cursor cs s)) = nat (cursor_index cs)"
    "cursor_visible (crtc (set_cursor cs s)) \<longleftrightarrow> cursor_visible (crtc s)"
    using set_cursor_pos_cell [OF x(2) y(2)] set_cursor_pos_visible [OF x(2) y(2)]
    by (simp_all add: set_cursor_def x y cursor_index_def NUM_COLS_def nat_add_distrib nat_mult_distrib)
qed

text \<open>The next position; from the last cell it is the start of the last line.\<close>

definition adv :: "console_state \<Rightarrow> console_state" where
  "adv cs =
     (if vcur_x cs = 79 then cs\<lparr>vcur_y := min 24 (vcur_y cs + 1), vcur_x := 0\<rparr> else cs\<lparr>vcur_x := vcur_x cs + 1\<rparr>)"

definition line_start :: "console_state \<Rightarrow> console_state" where
  "line_start cs = cs\<lparr>vcur_y := min 24 (vcur_y cs + 1), vcur_x := 0\<rparr>"

lemma adv_ok: "state_ok cs \<Longrightarrow> state_ok (adv cs)" "state_ok cs \<Longrightarrow> state_ok (line_start cs)"
  by (auto simp: state_ok_def adv_def line_start_def min_def)

lemma inccur_step_eq:
  assumes "state_ok cs"
  shows "inccur_step scroll (cs, s) =
    (if vcur_x cs = 79 \<and> vcur_y cs = 24 \<and> con_scroll cs then map_option (Pair (adv cs)) (scroll s) else Some (adv cs, s))"
  using assms by (auto simp: inccur_step_def adv_def state_ok_def NUM_COLS_def NUM_ROWS_def Let_def map_option_case
      split: option.splits)

lemma inccur_steps:
  assumes "state_ok cs" "vcur_x cs + int n < 80"
  shows "repeat_opt n (inccur_step scroll) (cs, s) = Some (cs\<lparr>vcur_x := vcur_x cs + int n\<rparr>, s)"
  using assms
proof (induction n arbitrary: cs)
  case (Suc n)
  then have "vcur_x cs \<noteq> 79" by simp
  then have "inccur_step scroll (cs, s) = Some (cs\<lparr>vcur_x := vcur_x cs + 1\<rparr>, s)"
    using inccur_step_eq [OF Suc.prems(1)] by (simp add: adv_def)
  moreover have "state_ok (cs\<lparr>vcur_x := vcur_x cs + 1\<rparr>)" using Suc.prems by (simp add: state_ok_def)
  ultimately show ?case using Suc.IH [of "cs\<lparr>vcur_x := vcur_x cs + 1\<rparr>"] Suc.prems by simp
qed simp

lemma repeat_opt_snoc: "repeat_opt (Suc n) f x = Option.bind (repeat_opt n f x) f"
proof (induction n arbitrary: x)
  case 0
  then show ?case by (cases "f x") simp_all
next
  case (Suc n)
  show ?case
  proof (cases "f x")
    case (Some a)
    then have "repeat_opt (Suc (Suc n)) f x = repeat_opt (Suc n) f a" "repeat_opt (Suc n) f x = repeat_opt n f a"
      by simp_all
    then show ?thesis using Suc.IH [of a] by simp
  qed simp
qed

text \<open>Moving by one place, and to the next line, where no scrolling is due.\<close>

definition at_end :: "console_state \<Rightarrow> bool" where
  "at_end cs \<longleftrightarrow> vcur_x cs = 79 \<and> vcur_y cs = 24 \<and> con_scroll cs"

definition bottom :: "console_state \<Rightarrow> bool" where
  "bottom cs \<longleftrightarrow> vcur_y cs = 24 \<and> con_scroll cs"

lemma steps_char:
  assumes "state_ok cs"
  shows "repeat_opt (nat (num_chars CONINC_CHAR cs)) (inccur_step scroll) (cs, s)
    = (if at_end cs then map_option (Pair (adv cs)) (scroll s) else Some (adv cs, s))"
  using inccur_step_eq [OF assms, of scroll s] by (cases "scroll s") (auto simp: num_chars_def at_end_def)

lemma steps_return:
  assumes "state_ok cs"
  shows "repeat_opt (nat (num_chars CONINC_LINERETURN cs)) (inccur_step scroll) (cs, s)
    = (if bottom cs then map_option (Pair (line_start cs)) (scroll s) else Some (line_start cs, s))"
proof -
  define n where "n = nat (79 - vcur_x cs)"
  have n: "nat (num_chars CONINC_LINERETURN cs) = Suc n" "vcur_x cs + int n = 79"
    using assms by (auto simp: num_chars_def NUM_COLS_def n_def state_ok_def)
  have e: "repeat_opt n (inccur_step scroll) (cs, s) = Some (cs\<lparr>vcur_x := 79\<rparr>, s)"
    using inccur_steps [OF assms, of n scroll s] n(2) by simp
  have ok: "state_ok (cs\<lparr>vcur_x := 79\<rparr>)" using assms by (simp add: state_ok_def)
  have "adv (cs\<lparr>vcur_x := 79\<rparr>) = line_start cs" by (simp add: adv_def line_start_def)
  then show ?thesis
    unfolding n(1) repeat_opt_snoc e using inccur_step_eq [OF ok, of scroll s] by (auto simp: bottom_def)
qed

lemma upd_state_sel [simp]:
  "vmem (upd_state k f s) = vmem s" "current_console (upd_state k f s) = current_console s"
  "kbd_state (upd_state k f s) = kbd_state s" "kbd_last (upd_state k f s) = kbd_last s" "crtc (upd_state k f s) = crtc s" "proc_con (upd_state k f s) = proc_con s"
  "length (vterms (upd_state k f s)) = length (vterms s)"
  "k < length (vterms s) \<Longrightarrow> vterms (upd_state k f s) ! k = (vterms s ! k)\<lparr>constate := f (constate (vterms s ! k))\<rparr>"
  "j \<noteq> k \<Longrightarrow> vterms (upd_state k f s) ! j = vterms s ! j"
  by (simp_all add: upd_state_def)

lemma inccur_with_eq:
  assumes "cwf s" "term_of f s = Some k"
    and "repeat_opt (nat (num_chars inc (constate (vterms s ! k)))) (inccur_step (scroll f)) (constate (vterms s ! k), s) = Some (cs, t)"
    and "length (vterms t) = 3" "current_console t = current_console s" "state_ok cs"
  shows "\<exists>c. inccur_with scroll inc f s = Some (upd_state k (\<lambda>_. cs) (t\<lparr>crtc := c\<rparr>))
    \<and> (if current_console s = Some k then cursor_shown c cs else c = crtc t)"
proof -
  have k: "k < 3" using term_of_less [OF assms(1,2)] .
  let ?u = "upd_state k (\<lambda>_. cs) t"
  have n: "inccur_with scroll inc f s =
      (if f \<or> Some k = current_console s then do { s3 \<leftarrow> console_refresh_pcur ?u; Some (enable_cursor True s3) } else Some ?u)"
    using assms by (simp add: inccur_with_def)
  show ?thesis
  proof (cases "current_console s = Some k")
    case True
    then have "term_of True ?u = Some k" using assms(4,5) k by (simp add: term_of_def)
    then have "inccur_with scroll inc f s = Some (enable_cursor True (set_cursor cs ?u))"
      using n True k assms(4) by (simp add: console_refresh_pcur_def)
    moreover have "enable_cursor True (set_cursor cs ?u)
        = upd_state k (\<lambda>_. cs) (t\<lparr>crtc := crtc (enable_cursor True (set_cursor cs t))\<rparr>)"
      by (simp add: enable_cursor_def set_cursor_def upd_state_def)
    moreover have "cursor_shown (crtc (enable_cursor True (set_cursor cs t))) cs"
      using set_cursor_shown [OF assms(6)] by (simp add: cursor_shown_def enable_cursor_def)
    ultimately show ?thesis using True by auto
  next
    case False
    then have "\<not> f" using assms(1,2) term_of_cwf(1) by auto
    then have "inccur_with scroll inc f s = Some (upd_state k (\<lambda>_. cs) (t\<lparr>crtc := crtc t\<rparr>))" using n False by simp
    then show ?thesis using False by auto
  qed
qed

text \<open>
  Writing a character and moving on. The state after it, but for the cursor registers, when no
  scrolling is due.
\<close>

definition put_eff :: "nat \<Rightarrow> u8 \<Rightarrow> cstate \<Rightarrow> cstate" where
  "put_eff k c s =
     (let cs = constate (vterms s ! k); i = nat (cursor_index cs)
      in upd_con k (\<lambda>con. con\<lparr>vid_buf := (vid_buf (vterms s ! k))[i := styled c cs]\<rparr>)
           (s\<lparr>vmem := if current_console s = Some k then (vmem s)[i := styled c cs] else vmem s\<rparr>))"

lemma cursor_index_less: "state_ok cs \<Longrightarrow> 0 \<le> cursor_index cs \<and> nat (cursor_index cs) < 2000"
  by (auto simp: state_ok_def cursor_index_def NUM_COLS_def)

lemma put_cell_ok: "state_ok cs \<Longrightarrow> length b = 2000 \<Longrightarrow> put_cell (cursor_index cs) ch b = Some (b[nat (cursor_index cs) := ch])"
  using cursor_index_less [of cs] by (simp add: put_cell_def store_def)

lemma put_eff_sel [simp]:
  "current_console (put_eff k c s) = current_console s" "proc_con (put_eff k c s) = proc_con s"
  "kbd_state (put_eff k c s) = kbd_state s" "kbd_last (put_eff k c s) = kbd_last s" "crtc (put_eff k c s) = crtc s"
  "length (vterms (put_eff k c s)) = length (vterms s)" "length (vmem (put_eff k c s)) = length (vmem s)"
  "constate (vterms (put_eff k c s) ! j) = constate (vterms s ! j)"
  "current (vterms (put_eff k c s) ! j) = current (vterms s ! j)" "con_id (vterms (put_eff k c s) ! j) = con_id (vterms s ! j)"
  "length (vid_buf (vterms (put_eff k c s) ! j)) = length (vid_buf (vterms s ! j))"
  "j \<noteq> k \<Longrightarrow> vterms (put_eff k c s) ! j = vterms s ! j"
  by (cases "k < length (vterms s)"; simp add: put_eff_def Let_def upd_con_def nth_list_update list_update_beyond)+

lemma put_eff_cwf [simp]: "cwf s \<Longrightarrow> cwf (put_eff k c s)"
  by (simp add: cwf_def con_ok_def)

lemma on_screen_eq: "cwf s \<Longrightarrow> proc_con s = Some k \<Longrightarrow> on_screen s = Some (current_console s = Some k)"
  using cwfD(3,7) [of s] by (auto simp: on_screen_def term_of_cwf)

lemma emit_eq:
  assumes "cwf s" "term_of f s = Some k" "c \<noteq> 0x0A" "vcur_autoinc_en (constate (vterms s ! k))"
  shows "(if f then echo_with else putchar_with) scroll c s =
    do { t \<leftarrow> inccur_with scroll CONINC_CHAR f (put_eff k c s);
         b \<leftarrow> (if f then Some True else on_screen t);
         Some (if b then set_cursor (constate (vterms t ! k)) t else t) }"
proof -
  have k: "k < 3" using term_of_less [OF assms(1,2)] .
  let ?cs = "constate (vterms s ! k)"
  note ok = cwfD(5) [OF assms(1) k] and l = cwfD(6) [OF assms(1) k] cwfD(2) [OF assms(1)]
  note pc = put_cell_ok [OF ok l(1)] put_cell_ok [OF ok l(2)]
  show ?thesis
  proof (cases f)
    case True
    then have "current_console s = Some k" using assms(1,2) by (simp add: term_of_cwf)
    then show ?thesis
      using True assms pc by (simp add: echo_with_def put_eff_def Let_def)
  next
    case False
    then have p: "proc_con s = Some k" using assms(1,2) by (simp add: term_of_cwf)
    have "on_screen (upd_con k (\<lambda>con. con\<lparr>vid_buf := b\<rparr>) s) = on_screen s" for b
      using k cwfD(1,3) [OF assms(1)] p
      by (auto simp: on_screen_def term_of_def upd_con_def nth_list_update split: option.splits)
    then show ?thesis
      using False assms pc on_screen_eq [OF assms(1) p] by (auto simp: putchar_with_def vterm_get_buffer_def put_eff_def Let_def)
  qed
qed

abbreviation emit :: "bool \<Rightarrow> (bool \<Rightarrow> cstate \<Rightarrow> cstate option) \<Rightarrow> u8 \<Rightarrow> cstate \<Rightarrow> cstate option" where
  "emit f \<equiv> (if f then echo_with else putchar_with)"

lemma emit_gen:
  assumes "cwf s" "term_of f s = Some k" "c \<noteq> 0x0A" "vcur_autoinc_en (constate (vterms s ! k))"
    and "repeat_opt (nat (num_chars CONINC_CHAR (constate (vterms s ! k)))) (inccur_step (scroll f))
           (constate (vterms s ! k), put_eff k c s) = Some (cs, t)"
    and "cwf t" "current_console t = current_console s" "proc_con t = proc_con s" "state_ok cs"
  shows "\<exists>d. emit f scroll c s = Some (upd_state k (\<lambda>_. cs) (t\<lparr>crtc := d\<rparr>))
    \<and> (if current_console s = Some k then cursor_shown d cs else d = crtc t)"
proof -
  have k: "k < 3" using term_of_less [OF assms(1,2)] .
  have tp: "term_of f (put_eff k c s) = Some k" using assms(2) by (simp add: term_of_cong [of "put_eff k c s" s])
  obtain d where d: "inccur_with scroll CONINC_CHAR f (put_eff k c s) = Some (upd_state k (\<lambda>_. cs) (t\<lparr>crtc := d\<rparr>))"
    "if current_console s = Some k then cursor_shown d cs else d = crtc t"
    using inccur_with_eq [OF put_eff_cwf [OF assms(1)] tp, of CONINC_CHAR scroll cs t] assms(5-9) cwfD(1) [OF assms(6)] by auto
  let ?u = "upd_state k (\<lambda>_. cs) (t\<lparr>crtc := d\<rparr>)"
  have ck: "constate (vterms ?u ! k) = cs" using k cwfD(1) [OF assms(6)] by simp
  have os: "(if f then Some True else on_screen ?u) = Some (current_console s = Some k)"
  proof (cases f)
    case False
    then have "proc_con s = Some k" using assms(1,2) by (simp add: term_of_cwf)
    moreover have "cwf ?u"
      using assms(6,9) k by (auto simp: cwf_def con_ok_def upd_state_def upd_con_def nth_list_update)
    ultimately show ?thesis using False on_screen_eq [of ?u k] assms(7,8) by simp
  qed (use assms(1,2) in \<open>simp add: term_of_cwf\<close>)
  have e: "emit f scroll c s = Some (if current_console s = Some k then set_cursor cs ?u else ?u)"
    using emit_eq [OF assms(1-4), of scroll] unfolding d(1) using os ck by simp
  show ?thesis
  proof (cases "current_console s = Some k")
    case True
    have "set_cursor cs ?u = upd_state k (\<lambda>_. cs) (t\<lparr>crtc := crtc (set_cursor cs ?u)\<rparr>)"
      by (simp add: set_cursor_def upd_state_def)
    moreover have "cursor_shown (crtc (set_cursor cs ?u)) cs"
      using set_cursor_shown [OF assms(9), of ?u] d(2) True by (simp add: cursor_shown_def)
    ultimately show ?thesis using e True by auto
  qed (use e d in auto)
qed

lemma emit_quiet:
  assumes "cwf s" "term_of f s = Some k" "c \<noteq> 0x0A" "vcur_autoinc_en (constate (vterms s ! k))"
    and "\<not> at_end (constate (vterms s ! k))"
  shows "\<exists>d. emit f scroll c s = Some (upd_state k (\<lambda>_. adv (constate (vterms s ! k))) ((put_eff k c s)\<lparr>crtc := d\<rparr>))
    \<and> (if current_console s = Some k then cursor_shown d (adv (constate (vterms s ! k))) else d = crtc s)"
proof -
  have ok: "state_ok (constate (vterms s ! k))" using cwfD(5) [OF assms(1) term_of_less [OF assms(1,2)]] .
  show ?thesis
    using emit_gen [OF assms(1-4), of scroll "adv (constate (vterms s ! k))" "put_eff k c s"]
      steps_char [OF ok, of "scroll f" "put_eff k c s"] assms(1,5) adv_ok(1) [OF ok]
    by (simp split del: if_split cong: if_cong)
qed

section \<open>Scrolling\<close>

text \<open>The state while the last line is being blanked, but for the cursor registers.\<close>

definition blanked :: "nat \<Rightarrow> nat \<Rightarrow> cstate \<Rightarrow> cstate" where
  "blanked k n s =
     (let cs = constate (vterms s ! k); bl = styled 0x20 cs; fill = (\<lambda>b. take 1920 b @ replicate n bl @ drop (1920 + n) b)
      in upd_con k (\<lambda>con. con\<lparr>vid_buf := fill (vid_buf (vterms s ! k)),
                        constate := cs\<lparr>vcur_x := (if n < 80 then int n else 0)\<rparr>\<rparr>)
           (s\<lparr>vmem := if current_console s = Some k then fill (vmem s) else vmem s\<rparr>))"

lemma blanked_sel [simp]:
  "current_console (blanked k n s) = current_console s" "proc_con (blanked k n s) = proc_con s"
  "kbd_state (blanked k n s) = kbd_state s" "kbd_last (blanked k n s) = kbd_last s" "crtc (blanked k n s) = crtc s"
  "length (vterms (blanked k n s)) = length (vterms s)"
  "k < length (vterms s) \<Longrightarrow> constate (vterms (blanked k n s) ! k) = (constate (vterms s ! k))\<lparr>vcur_x := (if n < 80 then int n else 0)\<rparr>"
  "j \<noteq> k \<Longrightarrow> vterms (blanked k n s) ! j = vterms s ! j"
  by (simp_all add: blanked_def Let_def)

lemma blanked_cwf:
  assumes "cwf s" "k < 3" "n \<le> 80"
  shows "cwf (blanked k n s)"
  using assms by (auto simp: cwf_def con_ok_def state_ok_def blanked_def Let_def upd_con_def nth_list_update)

lemma blanked_step:
  assumes "cwf s" "k < 3" "n < 80" "vcur_y (constate (vterms s ! k)) = 24" "vcur_x (constate (vterms s ! k)) = 0"
  shows "upd_state k (\<lambda>_. adv (constate (vterms (blanked k n s) ! k))) (put_eff k 0x20 (blanked k n s)) = blanked k (Suc n) s"
proof -
  have l: "length (vterms s) = 3" "length (vmem s) = 2000" "length (vid_buf (vterms s ! k)) = 2000"
    using cwfD(1,2,6) [OF assms(1)] assms(2) by simp_all
  let ?cs = "constate (vterms (blanked k n s) ! k)"
  have i: "nat (cursor_index ?cs) = 1920 + n" "styled 0x20 ?cs = styled 0x20 (constate (vterms s ! k))"
    "adv ?cs = (constate (vterms s ! k))\<lparr>vcur_x := (if Suc n < 80 then int (Suc n) else 0)\<rparr>"
    using assms l by (auto simp: cursor_index_def NUM_COLS_def styled_def adv_def)
  show ?thesis
    unfolding put_eff_def Let_def i using assms(2,3) l fill_step [of 1920 n "vmem s"] fill_step [of 1920 n "vid_buf (vterms s ! k)"]
    by (auto simp: blanked_def Let_def upd_state_def intro!: upd_con_cong)
qed

lemma cstate_comm: "s\<lparr>crtc := d, vmem := v\<rparr> = s\<lparr>vmem := v, crtc := d\<rparr>" for s :: cstate
  by (cases s) simp

lemma upd_con_id: "f (vterms s ! k) = vterms s ! k \<Longrightarrow> upd_con k f s = s"
  by (simp add: upd_con_def)

lemma crtc_comm [simp]:
  "blanked k n (s\<lparr>crtc := d\<rparr>) = (blanked k n s)\<lparr>crtc := d\<rparr>" "put_eff k c (s\<lparr>crtc := d\<rparr>) = (put_eff k c s)\<lparr>crtc := d\<rparr>"
  "(upd_state k f s)\<lparr>crtc := d\<rparr> = upd_state k f (s\<lparr>crtc := d\<rparr>)"
  "cwf (s\<lparr>crtc := d\<rparr>) = cwf s" "term_of b (s\<lparr>crtc := d\<rparr>) = term_of b s"
  by (simp_all add: blanked_def put_eff_def upd_state_def Let_def cwf_def term_of_def proc_term_def cstate_comm)

lemma blank_loop:
  assumes "cwf s" "term_of f s = Some k" "vcur_y (constate (vterms s ! k)) = 24" "vcur_x (constate (vterms s ! k)) = 0"
    and "vcur_autoinc_en (constate (vterms s ! k))" "\<not> con_scroll (constate (vterms s ! k))" "n \<le> 80"
  shows "\<exists>d. repeat_opt n (emit f scroll 0x20) s = Some ((blanked k n s)\<lparr>crtc := d\<rparr>) \<and> (current_console s \<noteq> Some k \<longrightarrow> d = crtc s)"
  using assms(7)
proof (induction n)
  case 0
  have "(constate (vterms s ! k))\<lparr>vcur_x := 0\<rparr> = constate (vterms s ! k)"
    using assms(4) by (cases "constate (vterms s ! k)") simp
  then have "blanked k 0 s = s" by (simp add: blanked_def Let_def upd_con_id)
  then show ?case by (auto intro: exI [of _ "crtc s"])
next
  case (Suc n)
  have k: "k < 3" "length (vterms s) = 3" using term_of_less [OF assms(1,2)] cwfD(1) [OF assms(1)] by auto
  obtain d where d: "repeat_opt n (emit f scroll 0x20) s = Some ((blanked k n s)\<lparr>crtc := d\<rparr>)" "current_console s \<noteq> Some k \<longrightarrow> d = crtc s"
    using Suc by auto
  let ?u = "(blanked k n s)\<lparr>crtc := d\<rparr>"
  have "cwf ?u" "term_of f ?u = Some k"
    using blanked_cwf [OF assms(1) k(1), of n] Suc.prems assms(2) term_of_cong [of "blanked k n s" s f] by simp_all
  moreover have "vcur_autoinc_en (constate (vterms ?u ! k))" "\<not> at_end (constate (vterms ?u ! k))"
    using k assms(5,6) by (simp_all add: at_end_def)
  ultimately obtain e where e: "emit f scroll 0x20 ?u
      = Some (upd_state k (\<lambda>_. adv (constate (vterms ?u ! k))) ((put_eff k 0x20 ?u)\<lparr>crtc := e\<rparr>))"
    "current_console ?u \<noteq> Some k \<longrightarrow> e = crtc ?u"
    using emit_quiet [of ?u f k 32 scroll] by auto
  have "upd_state k (\<lambda>_. adv (constate (vterms ?u ! k))) ((put_eff k 0x20 ?u)\<lparr>crtc := e\<rparr>) = (blanked k (Suc n) s)\<lparr>crtc := e\<rparr>"
    using blanked_step [OF assms(1) k(1) _ assms(3,4), of n] Suc.prems by (simp flip: crtc_comm(3))
  then show ?case using d e by (auto simp: repeat_opt_snoc simp del: repeat_opt.simps(2))
qed

definition scrolled :: "spill \<Rightarrow> nat \<Rightarrow> cstate \<Rightarrow> cstate" where
  "scrolled spill k s =
     (let cs = constate (vterms s ! k); bl = replicate 80 (styled 0x20 cs)
      in upd_con k (\<lambda>c. c\<lparr>vid_buf := take 1920 (drop 160 (vid_buf (vterms s ! k) @ spill s k)) @ bl,
                          constate := cs\<lparr>vcur_autoinc_en := True, con_scroll := True\<rparr>\<rparr>)
           (s\<lparr>vmem := if current_console s = Some k then drop 80 (vmem s) @ bl else vmem s\<rparr>))"

lemma scroll_line_eq:
  assumes "cwf s" "term_of f s = Some k" "spill_ok spill"
  shows "\<exists>d. scroll_line spill (emit f sc) f k s = Some ((scrolled spill k s)\<lparr>crtc := d\<rparr>)
    \<and> (current_console s \<noteq> Some k \<longrightarrow> d = crtc s)"
proof -
  have k: "k < 3" "length (vterms s) = 3" "length (vmem s) = 2000" "length (vid_buf (vterms s ! k)) = 2000"
    using term_of_less [OF assms(1,2)] cwfD(1,2,6) [OF assms(1)] by auto
  have sp: "length (spill s k) = 80" using assms(3) by (simp add: spill_ok_def)
  note ok = cwfD(5) [OF assms(1) k(1)] and cur = cwfD(8) [OF assms(1) k(1)]
  let ?cs = "constate (vterms s ! k)"
  let ?vb = "take 1920 (drop 160 (vid_buf (vterms s ! k) @ spill s k)) @ drop 1920 (vid_buf (vterms s ! k))"
  let ?vm = "if current_console s = Some k then take 1920 (drop 80 (vmem s)) @ drop 1920 (vmem s) else vmem s"
  define s3 where "s3 = upd_con k (\<lambda>c. c\<lparr>vid_buf := ?vb, constate := ?cs\<lparr>vcur_x := 0, vcur_y := 24, vcur_autoinc_en := True, con_scroll := False\<rparr>\<rparr>) (s\<lparr>vmem := ?vm\<rparr>)"
  have c3: "cwf s3"
    using assms(1) ok k sp by (auto simp: s3_def cwf_def con_ok_def state_ok_def upd_con_def nth_list_update)
  have t3: "term_of f s3 = Some k" using assms(2) term_of_cong [of s3 s f] by (simp add: s3_def)
  obtain d where d: "repeat_opt 80 (emit f sc 0x20) s3 = Some ((blanked k 80 s3)\<lparr>crtc := d\<rparr>)" "current_console s \<noteq> Some k \<longrightarrow> d = crtc s"
    using blank_loop [OF c3 t3, of 80 sc] k by (auto simp: s3_def)
  let ?s4 = "(blanked k 80 s3)\<lparr>crtc := d\<rparr>"
  have t4: "term_of f ?s4 = Some k" using t3 term_of_cong [of "blanked k 80 s3" s3 f] by simp
  have p3: "scroll_prepare k (scroll_shift spill k s) = s3"
    using cur by (simp add: s3_def scroll_prepare_def scroll_shift_def upd_state_def Let_def NUM_ROWS_def)
      (auto intro!: upd_con_cong)
  have "(if f then Some (upd_state k (\<lambda>c. c\<lparr>vcur_x := vcur_x ?cs, vcur_y := vcur_y ?cs\<rparr>) ?s4)
       else do { (v, t) \<leftarrow> console_setcursorpos (vcur_x ?cs) (vcur_y ?cs) ?s4; Some t })
     = Some (upd_state k (\<lambda>c. c\<lparr>vcur_x := vcur_x ?cs, vcur_y := vcur_y ?cs\<rparr>) ?s4)" (is "_ = Some ?s5")
    using ok t4 by (cases f) (auto simp: console_setcursorpos_def state_ok_def NUM_COLS_def NUM_ROWS_def)
  moreover have "upd_state k (\<lambda>c. c\<lparr>con_scroll := True\<rparr>) (?s5\<lparr>crtc := e\<rparr>) = (scrolled spill k s)\<lparr>crtc := e\<rparr>" for e
    using k sp by (auto simp: s3_def blanked_def scrolled_def Let_def upd_state_def styled_def intro!: upd_con_cong)
  moreover have "current (vterms ?s5 ! k) \<longleftrightarrow> current_console s = Some k"
    using k cur by (simp add: s3_def blanked_def Let_def)
  ultimately have r: "scroll_line spill (emit f sc) f k s
      = Some ((scrolled spill k s)\<lparr>crtc := if current_console s = Some k \<or> f then crtc (set_cursor (constate (vterms ?s5 ! k)) ?s5) else d\<rparr>)"
    unfolding scroll_line_def Let_def p3 NUM_COLS_def d(1) by (simp add: set_cursor_def)
  moreover have "f \<Longrightarrow> current_console s = Some k" using assms(1,2) by (simp add: term_of_cwf)
  ultimately show ?thesis using d(2) by auto
qed

lemma scrolled_sel [simp]:
  "current_console (scrolled spill k s) = current_console s" "proc_con (scrolled spill k s) = proc_con s"
  "kbd_state (scrolled spill k s) = kbd_state s" "kbd_last (scrolled spill k s) = kbd_last s" "crtc (scrolled spill k s) = crtc s"
  "length (vterms (scrolled spill k s)) = length (vterms s)"
  "k < length (vterms s) \<Longrightarrow> constate (vterms (scrolled spill k s) ! k)
     = (constate (vterms s ! k))\<lparr>vcur_autoinc_en := True, con_scroll := True\<rparr>"
  "j \<noteq> k \<Longrightarrow> vterms (scrolled spill k s) ! j = vterms s ! j"
  by (simp_all add: scrolled_def Let_def)

lemma scrolled_cwf:
  assumes "cwf s" "k < 3" "spill_ok spill"
  shows "cwf (scrolled spill k s)"
  using assms by (auto simp: cwf_def con_ok_def state_ok_def scrolled_def spill_ok_def Let_def upd_con_def nth_list_update)

lemma repeat_opt_0 [simp]: "repeat_opt 0 f = Some"
  by (rule ext) simp

lemma console_scroll_eq:
  assumes "cwf s" "term_of f s = Some k" "spill_ok spill" "con_scroll (constate (vterms s ! k))"
  shows "\<exists>d. console_scroll spill 1 f s = Some ((scrolled spill k s)\<lparr>crtc := d\<rparr>) \<and> (current_console s \<noteq> Some k \<longrightarrow> d = crtc s)"
proof -
  obtain p where "proc_con s = Some p" using cwfD(4) [OF assms(1)] by blast
  then have "console_scroll spill 1 f s = scroll_line spill (emit f (scroll_depth spill 0 1)) f k s"
    using assms(2,4) by (simp add: console_scroll_def scroll_with_def)
  then show ?thesis using scroll_line_eq [OF assms(1-3), of "scroll_depth spill 0 1"] by simp
qed

lemma scroll_if:
  assumes "cwf s" "term_of f s = Some k" "spill_ok spill" "b \<Longrightarrow> con_scroll (constate (vterms s ! k))"
  shows "\<exists>d. (if b then map_option (Pair a) (console_scroll spill 1 f s) else Some (a, s))
      = Some (a, (if b then scrolled spill k s else s)\<lparr>crtc := d\<rparr>) \<and> (current_console s \<noteq> Some k \<longrightarrow> d = crtc s)"
proof (cases b)
  case True
  then show ?thesis using console_scroll_eq [OF assms(1-3) assms(4) [OF True]] by auto
qed (auto intro: exI [of _ "crtc s"])

section \<open>One character\<close>

text \<open>The state after a character, but for the cursor registers.\<close>

definition write_eff :: "spill \<Rightarrow> nat \<Rightarrow> u8 \<Rightarrow> cstate \<Rightarrow> cstate" where
  "write_eff spill k c s =
     (let cs = constate (vterms s ! k)
      in if c = 0x0A
         then upd_state k (\<lambda>_. line_start cs) (if bottom cs then scrolled spill k s else s)
         else upd_state k (\<lambda>_. adv cs) (if at_end cs then scrolled spill k (put_eff k c s) else put_eff k c s))"

lemma crtc_comm2 [simp]: "(scrolled spill k s)\<lparr>crtc := d, crtc := e\<rparr> = (scrolled spill k s)\<lparr>crtc := e\<rparr>"
  by simp

lemma write_eq:
  assumes "cwf s" "term_of f s = Some k" "spill_ok spill" "vcur_autoinc_en (constate (vterms s ! k))"
  shows "\<exists>d. emit f (console_scroll spill 1) c s = Some ((write_eff spill k c s)\<lparr>crtc := d\<rparr>)
    \<and> (if current_console s = Some k then cursor_shown d (constate (vterms (write_eff spill k c s) ! k)) else d = crtc s)"
proof -
  let ?cs = "constate (vterms s ! k)" and ?sc = "console_scroll spill 1"
  have k: "k < 3" "length (vterms s) = 3" using term_of_less [OF assms(1,2)] cwfD(1) [OF assms(1)] by auto
  note ok = cwfD(5) [OF assms(1) k(1)]
  show ?thesis
  proof (cases "c = 0x0A")
    case True
    then have e: "emit f ?sc c s = inccur_with ?sc CONINC_LINERETURN f s"
      by (simp add: echo_with_def putchar_with_def)
    obtain t where t: "repeat_opt (nat (num_chars CONINC_LINERETURN ?cs)) (inccur_step (?sc f)) (?cs, s) = Some (line_start ?cs, t)"
      "\<exists>d. t = (if bottom ?cs then scrolled spill k s else s)\<lparr>crtc := d\<rparr> \<and> (current_console s \<noteq> Some k \<longrightarrow> d = crtc s)"
      using steps_return [OF ok, of "?sc f" s] scroll_if [OF assms(1-3), of "bottom ?cs" "line_start ?cs"] by (auto simp: bottom_def split del: if_split)
    have l: "length (vterms t) = 3" "current_console t = current_console s" using t(2) k by (auto split: if_splits)
    obtain d where d: "inccur_with ?sc CONINC_LINERETURN f s = Some (upd_state k (\<lambda>_. line_start ?cs) (t\<lparr>crtc := d\<rparr>))"
      "if current_console s = Some k then cursor_shown d (line_start ?cs) else d = crtc t"
      using inccur_with_eq [where scroll = ?sc, OF assms(1,2) t(1) l adv_ok(2) [OF ok]] by blast
    moreover have "write_eff spill k c s = upd_state k (\<lambda>_. line_start ?cs) (if bottom ?cs then scrolled spill k s else s)"
      using True by (simp add: write_eff_def Let_def)
    ultimately show ?thesis
      using t(2) k unfolding e by (intro exI [of _ d]) (auto split: if_splits)
  next
    case False
    let ?p = "put_eff k c s"
    have tp: "term_of f ?p = Some k" using assms(2) term_of_cong [of ?p s f] by simp
    obtain t where t: "repeat_opt (nat (num_chars CONINC_CHAR ?cs)) (inccur_step (?sc f)) (?cs, ?p) = Some (adv ?cs, t)"
      "\<exists>d. t = (if at_end ?cs then scrolled spill k ?p else ?p)\<lparr>crtc := d\<rparr> \<and> (current_console s \<noteq> Some k \<longrightarrow> d = crtc s)"
      using steps_char [OF ok, of "?sc f" ?p] scroll_if [OF put_eff_cwf [OF assms(1)] tp assms(3), of "at_end ?cs" "adv ?cs"]
      by (auto simp: at_end_def split del: if_split)
    have "cwf t" "current_console t = current_console s" "proc_con t = proc_con s"
      using t(2) assms(1) scrolled_cwf [OF put_eff_cwf [OF assms(1)] k(1) assms(3)] by (auto split: if_splits)
    then obtain d where "emit f ?sc c s = Some (upd_state k (\<lambda>_. adv ?cs) (t\<lparr>crtc := d\<rparr>))"
      "if current_console s = Some k then cursor_shown d (adv ?cs) else d = crtc t"
      using emit_gen [where scroll = ?sc, OF assms(1,2) False assms(4) t(1) _ _ _ adv_ok(1) [OF ok]] by blast
    moreover have "write_eff spill k c s = upd_state k (\<lambda>_. adv ?cs) (if at_end ?cs then scrolled spill k ?p else ?p)"
      using False by (simp add: write_eff_def Let_def)
    ultimately show ?thesis
      using t(2) k by (intro exI [of _ d]) (auto split: if_splits)
  qed
qed

section \<open>An abstract terminal\<close>

text \<open>
  A grid of cells and a position in it. A character goes to the position, which moves on; past
  the last cell the grid moves up by a line, the last line becomes blank and the position is its start.
\<close>

type_synonym grid = "vga_char list \<times> nat"

definition scroll_up :: "vga_char \<Rightarrow> vga_char list \<Rightarrow> vga_char list" where
  "scroll_up style g = drop 80 g @ replicate 80 (style\<lparr>codept := 0x20\<rparr>)"

definition t_write :: "vga_char \<Rightarrow> u8 \<Rightarrow> grid \<Rightarrow> grid" where
  "t_write style c t =
     (let (g, p) = t; g' = (if c = 0x0A then g else g[p := style\<lparr>codept := c\<rparr>]);
          q = (if c = 0x0A then 80 * (p div 80 + 1) else p + 1)
      in if q < 2000 then (g', q) else (scroll_up style g', 1920))"

definition grid_of :: "cstate \<Rightarrow> nat \<Rightarrow> grid" where
  "grid_of s k = (vmem s, nat (cursor_index (constate (vterms s ! k))))"

text \<open>What an operation on terminal \<open>k\<close> leaves alone.\<close>

definition frame :: "nat \<Rightarrow> cstate \<Rightarrow> cstate \<Rightarrow> bool" where
  "frame k s t \<longleftrightarrow> cwf t \<and> settled t \<and> current_console t = current_console s \<and> proc_con t = proc_con s
     \<and> kbd_state t = kbd_state s \<and> kbd_last t = kbd_last s \<and> (\<forall>j. j \<noteq> k \<longrightarrow> vterms t ! j = vterms s ! j)
     \<and> current_input (vterms t ! k) = current_input (vterms s ! k)
     \<and> charstyle (constate (vterms t ! k)) = charstyle (constate (vterms s ! k))
     \<and> con_bkspstop_col (constate (vterms t ! k)) = con_bkspstop_col (constate (vterms s ! k))
     \<and> present (vterms t ! k) = present (vterms s ! k)
     \<and> (current_console s \<noteq> Some k \<longrightarrow> vmem t = vmem s \<and> crtc t = crtc s)"

lemma frame_refl: "cwf s \<Longrightarrow> settled s \<Longrightarrow> frame k s s"
  by (simp add: frame_def)

lemma frame_trans [trans]: "frame k s t \<Longrightarrow> frame k t u \<Longrightarrow> frame k s u"
  by (simp add: frame_def)

lemma frameD:
  assumes "frame k s t"
  shows "cwf t" "settled t" "current_console t = current_console s" "proc_con t = proc_con s"
    "kbd_state t = kbd_state s" "j \<noteq> k \<Longrightarrow> vterms t ! j = vterms s ! j"
    "current_input (vterms t ! k) = current_input (vterms s ! k)"
    "charstyle (constate (vterms t ! k)) = charstyle (constate (vterms s ! k))"
    "current_console s \<noteq> Some k \<Longrightarrow> vmem t = vmem s \<and> crtc t = crtc s"
  using assms by (auto simp: frame_def)

lemma terminal_fields [simp]:
  "present (vterms (put_eff k c s) ! j) = present (vterms s ! j)" "present (vterms (scrolled spill k s) ! j) = present (vterms s ! j)"
  "current_input (vterms (put_eff k c s) ! j) = current_input (vterms s ! j)"
  "current_input (vterms (scrolled spill k s) ! j) = current_input (vterms s ! j)"
  "current_console s \<noteq> Some k \<Longrightarrow> vmem (put_eff k c s) = vmem s" "current_console s \<noteq> Some k \<Longrightarrow> vmem (scrolled spill k s) = vmem s"
  by (cases "k < length (vterms s)"; simp add: put_eff_def scrolled_def Let_def upd_con_def nth_list_update list_update_beyond)+

lemma write_eff_sel [simp]:
  "current_console (write_eff spill k c s) = current_console s" "proc_con (write_eff spill k c s) = proc_con s"
  "kbd_state (write_eff spill k c s) = kbd_state s" "kbd_last (write_eff spill k c s) = kbd_last s" "crtc (write_eff spill k c s) = crtc s"
  "length (vterms (write_eff spill k c s)) = length (vterms s)"
  "j \<noteq> k \<Longrightarrow> vterms (write_eff spill k c s) ! j = vterms s ! j"
  "k < length (vterms s) \<Longrightarrow> current_input (vterms (write_eff spill k c s) ! k) = current_input (vterms s ! k)"
  "k < length (vterms s) \<Longrightarrow> present (vterms (write_eff spill k c s) ! k) = present (vterms s ! k)"
  "current_console s \<noteq> Some k \<Longrightarrow> vmem (write_eff spill k c s) = vmem s"
  by (simp_all add: write_eff_def Let_def)

lemma write_eff_constate:
  assumes "k < length (vterms s)"
  shows "constate (vterms (write_eff spill k c s) ! k)
    = (if c = 0x0A then line_start (constate (vterms s ! k)) else adv (constate (vterms s ! k)))"
  using assms by (simp add: write_eff_def Let_def)

lemma write_eff_cwf:
  assumes "cwf s" "k < 3" "spill_ok spill"
  shows "cwf (write_eff spill k c s)"
proof -
  have u: "cwf (upd_state k (\<lambda>_. cs) t)" if "cwf t" "state_ok cs" for cs t
    using that assms(2) by (auto simp: cwf_def con_ok_def upd_state_def upd_con_def nth_list_update)
  note ok = cwfD(5) [OF assms(1,2)]
  show ?thesis
    using u [OF _ adv_ok(1) [OF ok]] u [OF _ adv_ok(2) [OF ok]] assms scrolled_cwf [OF assms] scrolled_cwf [OF put_eff_cwf [OF assms(1)] assms(2,3)]
    by (simp add: write_eff_def Let_def)
qed

lemma write_eff_frame:
  assumes "cwf s" "settled s" "k < 3" "spill_ok spill" "current_console s \<noteq> Some k \<longrightarrow> d = crtc s"
  shows "frame k s ((write_eff spill k c s)\<lparr>crtc := d\<rparr>)"
proof -
  have l: "k < length (vterms s)" using cwfD(1) [OF assms(1)] assms(3) by simp
  let ?w = "write_eff spill k c s"
  have cs: "constate (vterms ?w ! k) = (if c = 0x0A then line_start (constate (vterms s ! k)) else adv (constate (vterms s ! k)))"
    by (rule write_eff_constate [OF l])
  have "settled ?w"
    unfolding settled_def
  proof (intro allI impI)
    fix j :: nat
    assume "j < 3"
    then show "con_scroll (constate (vterms ?w ! j)) \<and> vcur_autoinc_en (constate (vterms ?w ! j))"
      using assms(2) cs by (cases "j = k") (auto simp: settled_def adv_def line_start_def)
  qed
  then show ?thesis
    using assms(5) l write_eff_cwf [OF assms(1,3,4)] cs by (simp add: frame_def settled_def adv_def line_start_def)
qed

lemma write_eff_grid:
  assumes "cwf s" "k < 3" "current_console s = Some k" "con_scroll (constate (vterms s ! k))"
  shows "grid_of (write_eff spill k c s) k = t_write (charstyle (constate (vterms s ! k))) c (grid_of s k)"
proof -
  let ?cs = "constate (vterms s ! k)"
  have l: "length (vterms s) = 3" using cwfD(1) [OF assms(1)] .
  obtain x y where xy: "vcur_x ?cs = int x" "x < 80" "vcur_y ?cs = int y" "y < 25"
    using cwfD(5) [OF assms(1,2)] by (metis state_ok_def nonneg_int_cases of_nat_less_numeral_iff)
  have i: "nat (cursor_index ?cs) = 80 * y + x" using xy by (simp add: cursor_index_def NUM_COLS_def nat_add_distrib nat_mult_distrib)
  have d: "(80 * y + x) div 80 = y" using xy by simp
  have e: "80 * y + x = 1999 \<longleftrightarrow> x = 79 \<and> y = 24"
  proof
    assume h: "80 * y + x = 1999"
    then have "y = 24" using d by simp
    then show "x = 79 \<and> y = 24" using h by simp
  qed simp
  have a: "at_end ?cs \<longleftrightarrow> 80 * y + x = 1999" "bottom ?cs \<longleftrightarrow> y = 24"
    "nat (cursor_index (adv ?cs)) = (if 80 * y + x = 1999 then 1920 else 80 * y + x + 1)"
    "nat (cursor_index (line_start ?cs)) = (if y = 24 then 1920 else 80 * (y + 1))"
    unfolding e using xy assms(4) by (auto simp: at_end_def bottom_def adv_def line_start_def cursor_index_def NUM_COLS_def nat_add_distrib nat_mult_distrib min_def)
  show ?thesis
  proof (cases "c = 0x0A")
    case True
    then show ?thesis
      using xy a(2,4) d i assms(2,3) l by (auto simp: grid_of_def t_write_def write_eff_def scrolled_def scroll_up_def styled_def Let_def)
  next
    case False
    have "80 * y + x < 2000" using xy by simp
    then show ?thesis
      using False xy a(1,3) i assms(2,3) l
      by (auto simp: grid_of_def t_write_def write_eff_def scrolled_def scroll_up_def styled_def put_eff_def Let_def)
  qed
qed

lemma write_frame:
  assumes "cwf s" "settled s" "term_of f s = Some k" "spill_ok spill"
  shows "\<exists>t. emit f (console_scroll spill 1) c s = Some t \<and> frame k s t
    \<and> (current_console s = Some k \<longrightarrow> grid_of t k = t_write (charstyle (constate (vterms s ! k))) c (grid_of s k)
         \<and> cursor_shown (crtc t) (constate (vterms t ! k)))"
proof -
  have k: "k < 3" using term_of_less [OF assms(1,3)] .
  have fl: "con_scroll (constate (vterms s ! k))" "vcur_autoinc_en (constate (vterms s ! k))"
    using assms(2) k by (simp_all add: settled_def)
  obtain d where d: "emit f (console_scroll spill 1) c s = Some ((write_eff spill k c s)\<lparr>crtc := d\<rparr>)"
    "if current_console s = Some k then cursor_shown d (constate (vterms (write_eff spill k c s) ! k)) else d = crtc s"
    using write_eq [OF assms(1,3,4) fl(2)] by blast
  moreover have "frame k s ((write_eff spill k c s)\<lparr>crtc := d\<rparr>)"
    using write_eff_frame [OF assms(1,2) k assms(4)] d(2) by simp
  moreover have "grid_of ((write_eff spill k c s)\<lparr>crtc := d\<rparr>) k = grid_of (write_eff spill k c s) k"
    by (simp add: grid_of_def)
  ultimately show ?thesis
    using write_eff_grid [OF assms(1) k _ fl(1)] by (intro exI [of _ "(write_eff spill k c s)\<lparr>crtc := d\<rparr>"]) simp
qed

lemma console_putchar_frame:
  assumes "cwf s" "settled s" "proc_con s = Some k" "spill_ok spill"
  shows "\<exists>t. console_putchar spill c s = Some t \<and> frame k s t
    \<and> (current_console s = Some k \<longrightarrow> grid_of t k = t_write (charstyle (constate (vterms s ! k))) c (grid_of s k)
         \<and> cursor_shown (crtc t) (constate (vterms t ! k)))"
  using write_frame [of s False k spill c] assms by (simp add: console_putchar_def term_of_cwf)

lemma console_echo_frame:
  assumes "cwf s" "settled s" "current_console s = Some k" "spill_ok spill"
  shows "\<exists>t. console_echo spill c s = Some t \<and> frame k s t"
  using write_frame [of s True k spill c] assms by (auto simp: console_echo_def term_of_cwf)

lemma console_return_frame:
  assumes "cwf s" "settled s" "current_console s = Some k" "spill_ok spill"
  shows "\<exists>t. console_inccur spill CONINC_LINERETURN True s = Some t \<and> frame k s t"
  using console_echo_frame [OF assms, of 10] by (simp add: console_echo_def echo_with_def console_inccur_def)

lemma putn_run:
  assumes "cwf s" "settled s" "proc_con s = Some k" "spill_ok spill"
  shows "\<exists>t. fold (\<lambda>c r. Option.bind r (console_putchar spill c)) xs (Some s) = Some t \<and> frame k s t
    \<and> (current_console s = Some k \<longrightarrow> grid_of t k = fold (t_write (charstyle (constate (vterms s ! k)))) xs (grid_of s k)
         \<and> (xs \<noteq> [] \<longrightarrow> cursor_shown (crtc t) (constate (vterms t ! k))))"
  using assms
proof (induction xs arbitrary: s)
  case Nil
  then show ?case by (simp add: frame_refl)
next
  case (Cons c xs)
  obtain t where t: "console_putchar spill c s = Some t" "frame k s t"
    "current_console s = Some k \<longrightarrow> grid_of t k = t_write (charstyle (constate (vterms s ! k))) c (grid_of s k)
         \<and> cursor_shown (crtc t) (constate (vterms t ! k))"
    using console_putchar_frame [OF Cons.prems] by blast
  note fd = frameD [OF t(2)]
  obtain u where "fold (\<lambda>c r. Option.bind r (console_putchar spill c)) xs (Some t) = Some u" "frame k t u"
    "current_console t = Some k \<longrightarrow> grid_of u k = fold (t_write (charstyle (constate (vterms t ! k)))) xs (grid_of t k)
         \<and> (xs \<noteq> [] \<longrightarrow> cursor_shown (crtc u) (constate (vterms u ! k)))"
    using Cons.IH [OF fd(1,2)] fd(4) Cons.prems(3,4) by auto
  then show ?case
    using t fd(3,8) frame_trans [OF t(2)] by (cases "xs = []") (auto intro!: exI [of _ u])
qed

section \<open>Backspace, echo and the input handler\<close>

lemma refresh_frame:
  assumes "cwf s" "settled s" "current_console s = Some k"
  shows "\<exists>t. console_refresh_pcur s = Some t \<and> frame k s t \<and> vterms t = vterms s"
  using assms by (auto simp: console_refresh_pcur_def term_of_cwf set_cursor_def frame_def settled_def)

lemma upd_state_frame:
  assumes "cwf s" "settled s" "current_console s = Some k" "state_ok cs" "con_scroll cs" "vcur_autoinc_en cs"
    and "charstyle cs = charstyle (constate (vterms s ! k))" "con_bkspstop_col cs = con_bkspstop_col (constate (vterms s ! k))"
  shows "frame k s (upd_state k (\<lambda>_. cs) s)"
proof -
  have "k < 3" "length (vterms s) = 3" using assms(1,3) by (auto simp: cwf_def)
  then show ?thesis
    using assms by (auto simp: frame_def cwf_def con_ok_def settled_def upd_state_def upd_con_def nth_list_update)
qed

lemma bksp_move_ok:
  assumes "state_ok cs"
  shows "state_ok (bksp_move cs)" "con_scroll (bksp_move cs) = con_scroll cs" "vcur_autoinc_en (bksp_move cs) = vcur_autoinc_en cs"
    "charstyle (bksp_move cs) = charstyle cs" "con_bkspstop_col (bksp_move cs) = con_bkspstop_col cs"
  using assms by (auto simp: bksp_move_def state_ok_def NUM_COLS_def)

lemma console_bksp_frame:
  assumes "cwf s" "settled s" "current_console s = Some k" "spill_ok spill"
  shows "\<exists>t. console_bksp spill s = Some t \<and> frame k s t"
proof -
  have k: "k < 3" "length (vterms s) = 3" using assms(1,3) by (auto simp: cwf_def)
  let ?cs = "bksp_move (constate (vterms s ! k))"
  note b = bksp_move_ok [OF cwfD(5) [OF assms(1) k(1)]]
  have fl: "con_scroll ?cs" "vcur_autoinc_en ?cs" using assms(2) k b by (simp_all add: settled_def)
  let ?s2 = "upd_state k (\<lambda>_. ?cs) s"
  have f2: "frame k s ?s2" using upd_state_frame [OF assms(1-3) b(1) fl b(4,5)] .
  obtain s3 where s3: "console_echo spill 0x20 ?s2 = Some s3" "frame k ?s2 s3"
    using console_echo_frame [OF frameD(1,2) [OF f2] _ assms(4), of k 32] assms(3) by auto
  have f3: "frame k s s3" using frame_trans [OF f2 s3(2)] .
  let ?s5 = "upd_state k (\<lambda>_. ?cs) s3"
  have l3: "length (vterms s3) = 3" using frameD(1) [OF f3] by (simp add: cwf_def)
  have f5: "frame k s3 ?s5"
    using upd_state_frame [OF frameD(1,2) [OF f3] _ b(1) fl] f3 assms(3) b(4,5) by (simp add: frame_def)
  note f5' = frame_trans [OF f3 f5]
  obtain t where t: "console_refresh_pcur ?s5 = Some t" "frame k ?s5 t"
    using refresh_frame [OF frameD(1,2) [OF f5]] frameD(3) [OF f5'] assms(3) by auto
  have "console_bksp spill s = console_refresh_pcur ?s5"
    using assms(1,3) s3(1) by (simp add: console_bksp_def term_of_cwf Let_def upd_state_def)
  then show ?thesis using t frame_trans [OF f5' t(2)] by auto
qed

lemma frame_current:
  "frame k s t \<Longrightarrow> current_console s = Some k \<Longrightarrow> cwf t \<and> settled t \<and> current_console t = Some k"
  by (simp add: frame_def)

lemma console_clrsc_frame:
  assumes "cwf s" "settled s" "current_console s = Some k"
  shows "\<exists>t. console_clrsc s = Some t \<and> frame k s t"
proof -
  have k: "k < 3" "length (vterms s) = 3" using assms(1,3) by (auto simp: cwf_def)
  let ?u = "upd_state k (\<lambda>c. c\<lparr>vcur_x := 0, vcur_y := 0\<rparr>) (s\<lparr>vmem := blank_screen\<rparr>)"
  have "frame k s ?u"
    using assms k by (auto simp: frame_def cwf_def con_ok_def state_ok_def settled_def upd_state_def upd_con_def nth_list_update
        blank_screen_def SCREEN_def NUM_COLS_def NUM_ROWS_def)
  moreover have "console_clrsc s = console_refresh_pcur ?u" using assms by (simp add: console_clrsc_def term_of_cwf)
  ultimately show ?thesis
    using refresh_frame [of ?u k] frame_trans [of k s ?u] frame_current [of k s ?u] assms(3) by auto
qed

lemma console_echokbd_frame:
  assumes "cwf s" "settled s" "current_console s = Some k" "spill_ok spill"
  shows "\<exists>t. console_echokbd spill ki s = Some t \<and> frame k s t"
proof -
  have k: "k < 3" using assms(1,3) by (auto simp: cwf_def)
  have "vcur_autoinc_en (constate (vterms s ! k))" using assms(2) k by (simp add: settled_def)
  then have "(constate (vterms s ! k))\<lparr>vcur_autoinc_en := True\<rparr> = constate (vterms s ! k)"
    by (cases "constate (vterms s ! k)") simp
  then have u: "upd_state k (\<lambda>c. c\<lparr>vcur_autoinc_en := True\<rparr>) s = s" by (simp add: upd_state_def upd_con_id)
  have e: "\<exists>t'. console_echo spill c t = Some t' \<and> frame k s t'" if "frame k s t" for t c
    using console_echo_frame [of t k spill c] frame_current [OF that assms(3)] frame_trans [OF that] assms(4) by auto
  have c: "\<exists>t'. Option.bind (console_clrsc t) console_refresh_pcur = Some t' \<and> frame k s t'" if f: "frame k s t" for t
  proof -
    obtain v where v: "console_clrsc t = Some v" "frame k t v"
      using console_clrsc_frame [of t k] frame_current [OF f assms(3)] by auto
    have fv: "frame k s v" using frame_trans [OF f v(2)] .
    then show ?thesis
      using v(1) refresh_frame [of v k] frame_current [OF fv assms(3)] frame_trans [OF fv] by auto
  qed
  define g where "g = (\<lambda>b c (t :: cstate). if b then console_echo spill c t else Some t)"
  have g: "\<exists>t'. g b c t = Some t' \<and> frame k s t'" if "frame k s t" for b c t using e [OF that, of c] that by (simp add: g_def)
  have r: "frame k s s" using assms by (simp add: frame_refl)
  let ?ctl = "ctrl (mods ki) \<or> alt (mods ki)"
  let ?c = "if ?ctl \<and> 0x61 \<le> char_pressed ki \<and> char_pressed ki \<le> 0x7A then char_pressed ki - 0x20 else char_pressed ki"
  have "console_echokbd spill ki s = do { s1 \<leftarrow> g ?ctl 0x5E s;
      if ?ctl \<and> ?c = 0x4C then Option.bind (console_clrsc s1) console_refresh_pcur
      else do { s2 \<leftarrow> g (alt (mods ki) \<or> ?c = 0x1B) 0x5B s1; g (?c \<noteq> 0x1B) ?c s2 } }"
    using assms(1,3) by (simp only: console_echokbd_def term_of_cwf Option.bind.bind_lunit Let_def u g_def)
  moreover obtain s1 where s1: "g ?ctl 0x5E s = Some s1" "frame k s s1" using g [OF r] by blast
  moreover obtain s2 where s2: "g (alt (mods ki) \<or> ?c = 0x1B) 0x5B s1 = Some s2" "frame k s s2" using g [OF s1(2)] by blast
  ultimately show ?thesis
    using c [OF s1(2)] g [OF s2(2), of "?c \<noteq> 0x1B" ?c] by (simp split del: if_split) (simp split: if_split)
qed

text \<open>What a key does to the modifiers and to the input being read.\<close>

definition mods_step :: "u8 \<Rightarrow> kbd_mod_state \<Rightarrow> kbd_mod_state" where
  "mods_step raw m = (if raw = 0x1A then m\<lparr>capslock := \<not> capslock m\<rparr> else m)"

definition input_step :: "kbd_mod_state \<Rightarrow> u8 \<Rightarrow> buffered_input \<Rightarrow> buffered_input option" where
  "input_step m raw bi =
     (case printable_char m raw of
        Some c \<Rightarrow> input_char c bi
      | None \<Rightarrow> if raw = 0x08 then Some (input_bksp bi) else if raw = 0x0A then input_newline bi else Some bi)"

definition keyed :: "nat \<Rightarrow> cstate \<Rightarrow> cstate \<Rightarrow> bool" where
  "keyed k s t \<longleftrightarrow> cwf t \<and> settled t \<and> current_console t = current_console s \<and> proc_con t = proc_con s
     \<and> kbd_last t = kbd_last s
     \<and> (\<forall>j. j \<noteq> k \<longrightarrow> vterms t ! j = vterms s ! j) \<and> present (vterms t ! k) = present (vterms s ! k)
     \<and> con_bkspstop_col (constate (vterms t ! k)) = con_bkspstop_col (constate (vterms s ! k))"

lemma printable_char_nonzero: "printable_char m raw = Some c \<Longrightarrow> c \<noteq> 0"
proof -
  have n: "us_numtosym ! unat (raw - 0x30) \<noteq> 0" if "0x30 \<le> raw" "raw \<le> 0x39"
  proof -
    have "unat (raw - 0x30) < 10" using that by (simp add: unat_sub word_le_nat_alt)
    then have "us_numtosym ! unat (raw - 0x30) \<in> set us_numtosym" by (intro nth_mem) (simp add: us_numtosym_def)
    moreover have "0 \<notin> set us_numtosym" by (simp add: us_numtosym_def)
    ultimately show ?thesis by metis
  qed
  have g: "us_symgroup1 ! unat (raw - 0x5B) \<noteq> 0" if "0x5B \<le> raw" "raw \<le> 0x5D"
  proof -
    have "unat (raw - 0x5B) < 3" using that by (simp add: unat_sub word_le_nat_alt)
    then have "us_symgroup1 ! unat (raw - 0x5B) \<in> set us_symgroup1" by (intro nth_mem) (simp add: us_symgroup1_def)
    moreover have "0 \<notin> set us_symgroup1" by (simp add: us_symgroup1_def)
    ultimately show ?thesis by metis
  qed
  assume "printable_char m raw = Some c"
  then show ?thesis
    using n g by (auto simp: printable_char_def split: if_splits)
qed

lemma printable_char_special: "printable_char m 0x1A = None" "printable_char m 0x08 = None" "printable_char m 0x0A = None"
  by (simp_all add: printable_char_def)

lemma put_input_keyed:
  assumes "frame k (s\<lparr>kbd_state := ki\<rparr>) t" "current_console s = Some k"
  shows "\<exists>u. put_input bi t = Some u \<and> keyed k s u \<and> kbd_state u = ki \<and> current_input (vterms u ! k) = bi"
proof -
  have t: "cwf t" "settled t" "current_console t = Some k" using assms by (auto simp: frame_def)
  then have k: "k < 3" "length (vterms t) = 3" by (auto simp: cwf_def)
  let ?u = "upd_con k (\<lambda>c. c\<lparr>current_input := bi\<rparr>) t"
  have "cwf ?u" "settled ?u"
    using t(1,2) k by (auto simp: cwf_def con_ok_def settled_def upd_con_def nth_list_update)
  then have "keyed k s ?u" using assms k by (simp add: keyed_def frame_def)
  moreover have "kbd_state ?u = ki" using assms(1) by (simp add: frame_def)
  moreover have "put_input bi t = Some ?u" using t by (simp add: put_input_def term_of_cwf)
  ultimately show ?thesis using k by auto
qed

lemma inputhandler_eq:
  assumes "cwf s" "settled s" "current_console s = Some k" "spill_ok spill"
    and "input_step (mods (kbd_state s)) raw (current_input (vterms s ! k)) = Some bi"
  shows "\<exists>t. console_inputhandler spill raw s = Some t \<and> keyed k s t
    \<and> mods (kbd_state t) = mods_step raw (mods (kbd_state s)) \<and> current_input (vterms t ! k) = bi"
proof -
  let ?m = "mods (kbd_state s)" and ?bi = "current_input (vterms s ! k)"
  define st where "st = (\<lambda>m c. s\<lparr>kbd_state := \<lparr>mods = m, char_pressed = c\<rparr>\<rparr>)"
  have w: "cwf (st m c)" "settled (st m c)" "current_console (st m c) = Some k" for m c
    using assms(1-3) by (auto simp: st_def cwf_def con_ok_def settled_def)
  have p: "\<exists>u. put_input b t = Some u \<and> keyed k s u \<and> mods (kbd_state u) = m \<and> current_input (vterms u ! k) = b"
    if "frame k (st m c) t" for m c t b
    using put_input_keyed [where k = k and s = s and ki = "\<lparr>mods = m, char_pressed = c\<rparr>" and t = t and bi = b] that assms(3) by (auto simp: st_def)
  have r: "frame k (st m c) (st m c)" for m c using frame_refl [OF w(1,2)] .
  have s0: "s\<lparr>kbd_state := (kbd_state s)\<lparr>char_pressed := 0\<rparr>\<rparr> = st ?m 0" by (cases "kbd_state s") (simp add: st_def)
  have st [simp]: "kbd_state (st m c) = \<lparr>mods = m, char_pressed = c\<rparr>" "(st m c)\<lparr>kbd_state := \<lparr>mods = m', char_pressed = c'\<rparr>\<rparr> = st m' c'" for m c m' c'
    by (simp_all add: st_def)
  have tm: "term_of True s = Some k" using assms(1,3) by (simp add: term_of_cwf)
  show ?thesis
  proof (cases "printable_char ?m raw")
    case (Some c)
    have sp: "raw \<noteq> 0x1A" using Some printable_char_special(1) by (metis option.distinct(1))
    obtain t where t: "console_echokbd spill \<lparr>mods = ?m, char_pressed = c\<rparr> (st ?m c) = Some t" "frame k (st ?m c) t"
      using console_echokbd_frame [OF w assms(4)] by blast
    have "console_inputhandler spill raw s = do { s2 \<leftarrow> console_echokbd spill \<lparr>mods = ?m, char_pressed = c\<rparr> (st ?m c); bi2 \<leftarrow> input_char c ?bi; put_input bi2 s2 }"
      using Some printable_char_nonzero [OF Some] by (simp add: console_inputhandler_def tm s0 Let_def)
    then show ?thesis
      using t p [OF t(2), of bi] assms(5) Some sp by (auto simp: input_step_def mods_step_def)
  next
    case None
    obtain t1 where t1: "console_bksp spill (st ?m 0) = Some t1" "frame k (st ?m 0) t1"
      using console_bksp_frame [OF w assms(4)] by blast
    obtain t2 where t2: "console_inccur spill CONINC_LINERETURN True (st ?m 0) = Some t2" "frame k (st ?m 0) t2"
      using console_return_frame [OF w assms(4)] by blast
    have h: "console_inputhandler spill raw s =
        (if raw = 0x1A then put_input ?bi (st (?m\<lparr>capslock := \<not> capslock ?m\<rparr>) 0)
         else if raw = 0x08 then put_input (input_bksp ?bi) t1
         else if raw = 0x0A then do { bi2 \<leftarrow> input_newline ?bi; put_input bi2 t2 }
         else put_input ?bi (st ?m 0))"
      using None t1(1) t2(1) by (simp add: console_inputhandler_def tm s0 Let_def)
    consider "raw = 0x1A" | "raw = 0x08" | "raw = 0x0A" | "raw \<noteq> 0x1A" "raw \<noteq> 0x08" "raw \<noteq> 0x0A" by blast
    then show ?thesis
    proof cases
      case 1
      then show ?thesis using h None assms(5) p [OF r, of ?bi "?m\<lparr>capslock := \<not> capslock ?m\<rparr>" 0] by (simp add: input_step_def mods_step_def)
    next
      case 2
      then show ?thesis using h None assms(5) p [OF t1(2), of bi] by (simp add: input_step_def mods_step_def)
    next
      case 3
      then show ?thesis using h None assms(5) p [OF t2(2), of bi] by (simp add: input_step_def mods_step_def)
    next
      case 4
      then show ?thesis using h None assms(5) p [OF r, of ?bi ?m 0] by (simp add: input_step_def mods_step_def)
    qed
  qed
qed

section \<open>The input buffer\<close>

text \<open>A live buffer with room for the line, its newline and its NUL.\<close>

definition input_safe :: "buffered_input \<Rightarrow> bool" where
  "input_safe bi \<longleftrightarrow> (\<exists>b. buffer bi = Some b \<and> unat (buffer_length bi) \<le> length b
     \<and> unat (next_pos bi) + 2 \<le> unat (buffer_length bi))"

lemma input_step_safe:
  assumes "input_safe bi"
  shows "\<exists>bi'. input_step m raw bi = Some bi' \<and> input_safe bi' \<and> buffer_length bi' = buffer_length bi"
proof -
  obtain b where b: "buffer bi = Some b" "unat (buffer_length bi) \<le> length b" "unat (next_pos bi) + 2 \<le> unat (buffer_length bi)"
    using assms by (auto simp: input_safe_def)
  have l: "unat (next_pos bi + 1) = unat (next_pos bi) + 1"
    using b(3) unsigned_less [of "buffer_length bi", where ?'a = nat] by (simp add: unat_word_ariths)
  have g: "buffer_length bi > 1" using b(3) by (simp add: word_less_nat_alt)
  have ne: "next_pos bi \<noteq> buffer_length bi" using b(3) by auto
  have d: "unat (buffer_length bi - 2) = unat (buffer_length bi) - 2" using b(3) by (subst unat_sub) (simp_all add: word_le_nat_alt)
  have c: "\<exists>bi'. input_char c bi = Some bi' \<and> input_safe bi' \<and> buffer_length bi' = buffer_length bi" for c
    using b l g d by (auto simp: input_char_def buf_store_def store_def input_safe_def word_unat_eq_iff)
  have n: "\<exists>bi'. input_newline bi = Some bi' \<and> input_safe bi' \<and> buffer_length bi' = buffer_length bi"
    using b l g ne by (auto simp: input_newline_def buf_store_def store_def input_safe_def)
  have k: "input_safe (input_bksp bi) \<and> buffer_length (input_bksp bi) = buffer_length bi"
    using b by (auto simp: input_bksp_def input_safe_def word_gt_0_no unat_minus_one word_gt_0)
  show ?thesis using c n k assms by (auto simp: input_step_def split: option.splits)
qed

text \<open>
  When a key does not fit: the terminal has no live buffer (no read was made yet, or the last one has
  returned), or the character, or the newline and NUL that end the line, would be stored outside it.
\<close>

definition room :: "buffered_input \<Rightarrow> u32 \<Rightarrow> bool" where
  "room bi i \<longleftrightarrow> (\<exists>b. buffer bi = Some b \<and> unat i < length b)"

definition key_faults :: "kbd_mod_state \<Rightarrow> u8 \<Rightarrow> buffered_input \<Rightarrow> bool" where
  "key_faults m raw bi \<longleftrightarrow>
     (if printable_char m raw \<noteq> None
      then \<not> complete bi \<and> (if next_pos bi = buffer_length bi - 2
             then buffer_length bi > 1 \<and> \<not> (room bi (next_pos bi + 1) \<and> room bi (next_pos bi))
             else \<not> room bi (next_pos bi))
      else raw = 0x0A \<and> buffer_length bi > 1
        \<and> \<not> (if next_pos bi = buffer_length bi then room bi (next_pos bi - 1) \<and> room bi (next_pos bi - 2)
             else room bi (next_pos bi) \<and> room bi (next_pos bi + 1)))"

lemma buf_store_None: "buf_store i c bi = None \<longleftrightarrow> \<not> room bi i"
  by (cases "buffer bi") (auto simp: buf_store_def room_def store_def)

lemma buf_store_room: "buf_store i c bi = Some bi' \<Longrightarrow> room bi' j = room bi j"
  by (auto simp: buf_store_def room_def store_def Option.bind_eq_Some_conv split: if_splits)

lemma two_stores_None: "Option.bind (buf_store i c bi) (buf_store j d) = None \<longleftrightarrow> \<not> (room bi i \<and> room bi j)"
proof (cases "buf_store i c bi")
  case None
  then have "\<not> room bi i" using buf_store_None by auto
  then show ?thesis using None by simp
next
  case (Some b)
  then have "room bi i" "room b j = room bi j" using buf_store_None [of i c bi] buf_store_room [OF Some] by auto
  then show ?thesis using Some by (simp add: buf_store_None)
qed

lemma bind_Some_None: "Option.bind x (\<lambda>b. Some (g b)) = None \<longleftrightarrow> x = None"
  by (cases x) simp_all

lemma input_step_None: "input_step m raw bi = None \<longleftrightarrow> key_faults m raw bi"
proof -
  have "input_char c bi = None \<longleftrightarrow> \<not> complete bi \<and> (if next_pos bi = buffer_length bi - 2
      then buffer_length bi > 1 \<and> \<not> (room bi (next_pos bi + 1) \<and> room bi (next_pos bi)) else \<not> room bi (next_pos bi))" for c
    unfolding input_char_def by (simp add: bind_Some_None two_stores_None buf_store_None)
  moreover have "input_newline bi = None \<longleftrightarrow> buffer_length bi > 1
      \<and> \<not> (if next_pos bi = buffer_length bi then room bi (next_pos bi - 1) \<and> room bi (next_pos bi - 2)
           else room bi (next_pos bi) \<and> room bi (next_pos bi + 1))"
    unfolding input_newline_def by (simp add: bind_Some_None two_stores_None)
  ultimately show ?thesis
    using printable_char_special by (cases "printable_char m raw") (auto simp: input_step_def key_faults_def)
qed

lemma key_fault_stops:
  assumes "cwf s" "current_console s = Some k" "input_step (mods (kbd_state s)) raw (current_input (vterms s ! k)) = None"
  shows "console_inputhandler spill raw s = None"
proof (cases "printable_char (mods (kbd_state s)) raw")
  case None
  then have "raw = 0x0A" "input_newline (current_input (vterms s ! k)) = None"
    using assms(3) by (auto simp: input_step_def split: if_splits)
  then show ?thesis
    using assms(1,2) None by (simp add: console_inputhandler_def term_of_cwf Let_def bind_eq_None_conv)
next
  case (Some c)
  then have "input_char c (current_input (vterms s ! k)) = None" using assms(3) by (simp add: input_step_def)
  then show ?thesis
    using assms(1,2) Some printable_char_nonzero [OF Some]
    by (simp add: console_inputhandler_def term_of_cwf Let_def bind_eq_None_conv)
qed

section \<open>Reading a line\<close>

text \<open>The line a user edits: printable keys add a character, backspace takes the last one away.\<close>

definition edit_key :: "u8 \<Rightarrow> kbd_mod_state \<times> u8 list \<Rightarrow> kbd_mod_state \<times> u8 list" where
  "edit_key raw p =
     (case p of (m, line) \<Rightarrow>
       (mods_step raw m,
        case printable_char m raw of Some c \<Rightarrow> line @ [c] | None \<Rightarrow> if raw = 0x08 then butlast line else line))"

definition typed :: "u32 \<Rightarrow> u8 list \<Rightarrow> buffered_input \<Rightarrow> bool" where
  "typed n line bi \<longleftrightarrow> buffer_length bi = n \<and> next_pos bi = of_nat (length line) \<and> \<not> complete bi
     \<and> (\<exists>b. buffer bi = Some b \<and> length b = 129 \<and> take (length line) b = line)"

lemma edit_length: "length (snd (edit_key raw p)) \<le> Suc (length (snd p))"
  by (auto simp: edit_key_def split: option.splits prod.splits)

lemma typed_step:
  assumes "typed (of_nat n) line bi" "raw \<noteq> 0x0A" "length line + 2 < n" "n \<le> 128"
  shows "\<exists>bi'. input_step m raw bi = Some bi' \<and> typed (of_nat n) (snd (edit_key raw (m, line))) bi'"
proof -
  obtain b where b: "buffer_length bi = of_nat n" "next_pos bi = of_nat (length line)" "\<not> complete bi"
    "buffer bi = Some b" "length b = 129" "take (length line) b = line"
    using assms(1) by (auto simp: typed_def)
  have u: "unat (of_nat j :: u32) = j" if "j \<le> 129" for j using that by (simp add: unat_of_nat take_bit_eq_mod)
  have e: "(of_nat n :: u32) - 2 = of_nat (n - 2)" using assms(3) by (simp add: of_nat_diff)
  have "unat (next_pos bi) = length line" using b(2) assms(3,4) u by simp
  moreover have "unat (buffer_length bi - 2) = n - 2" unfolding b(1) e by (rule u) (use assms(4) in simp)
  ultimately have ne: "next_pos bi \<noteq> buffer_length bi - 2" using assms(3) by auto
  have c: "\<exists>bi'. input_char c bi = Some bi' \<and> typed (of_nat n) (line @ [c]) bi'" for c
  proof -
    have "length line < 129" using assms(3,4) by simp
    moreover have "take (Suc (length line)) (b[length line := c]) = line @ [c]"
      using b(5,6) calculation by (simp add: take_Suc_conv_app_nth)
    ultimately show ?thesis
      using b ne u [of "length line"] by (simp add: input_char_def buf_store_def store_def typed_def)
  qed
  have k: "typed (of_nat n) (butlast line) (input_bksp bi)"
  proof (cases "line = []")
    case True
    then show ?thesis using b by (simp add: typed_def input_bksp_def)
  next
    case False
    then have "next_pos bi > 0" using b(2) u [of "length line"] assms(3,4) by (simp add: word_gt_0 word_unat_eq_iff)
    moreover have "take (length line - 1) b = butlast line"
      using butlast_take [of "length line" b] b(5,6) assms(3,4) by simp
    moreover have "(of_nat (length line) - 1 :: u32) = of_nat (length line - 1)" using False by (cases line) simp_all
    ultimately show ?thesis using b by (simp add: typed_def input_bksp_def)
  qed
  show ?thesis
    using c k assms(1,2) by (auto simp: input_step_def edit_key_def split: option.splits)
qed

lemma keyed_trans: "keyed k s t \<Longrightarrow> keyed k t u \<Longrightarrow> keyed k s u"
  by (simp add: keyed_def)

lemma keyed_refl: "cwf s \<Longrightarrow> settled s \<Longrightarrow> keyed k s s"
  by (simp add: keyed_def)

lemma edit_no_nul: "0 \<notin> set (snd p) \<Longrightarrow> 0 \<notin> set (snd (fold edit_key keys p))"
proof (induction keys arbitrary: p)
  case (Cons raw keys)
  have "0 \<notin> set (snd (edit_key raw p))"
    using Cons.prems printable_char_nonzero by (auto simp: edit_key_def dest: in_set_butlastD split: option.splits prod.splits)
  then show ?case using Cons.IH by simp
qed simp

lemma typing_run:
  assumes "cwf s" "settled s" "current_console s = Some k" "spill_ok spill"
    and "typed (of_nat n) line (current_input (vterms s ! k))" "0x0A \<notin> set keys"
    and "length line + length keys + 2 \<le> n" "n \<le> 128"
  shows "\<exists>t. input_wait k (map (console_inputhandler spill) keys @ fs) s = input_wait k fs t \<and> keyed k s t
    \<and> mods (kbd_state t) = fst (fold edit_key keys (mods (kbd_state s), line))
    \<and> typed (of_nat n) (snd (fold edit_key keys (mods (kbd_state s), line))) (current_input (vterms t ! k))
    \<and> length (snd (fold edit_key keys (mods (kbd_state s), line))) + 2 \<le> n"
  using assms
proof (induction keys arbitrary: s line)
  case Nil
  then show ?case by (auto simp: keyed_refl intro!: exI [of _ s])
next
  case (Cons raw keys)
  let ?m = "mods (kbd_state s)"
  let ?p = "edit_key raw (?m, line)"
  have len: "length (snd ?p) \<le> Suc (length line)" using edit_length [of raw "(?m, line)"] by simp
  obtain bi where bi: "input_step ?m raw (current_input (vterms s ! k)) = Some bi" "typed (of_nat n) (snd ?p) bi"
    using typed_step [OF Cons.prems(5), of raw ?m] Cons.prems(6-8) by auto
  obtain t where t: "console_inputhandler spill raw s = Some t" "keyed k s t"
    "mods (kbd_state t) = mods_step raw ?m" "current_input (vterms t ! k) = bi"
    using inputhandler_eq [OF Cons.prems(1-4) bi(1)] by blast
  have p: "?p = (mods (kbd_state t), snd ?p)" by (simp add: t(3) edit_key_def)
  have "cwf t" "settled t" "current_console t = Some k" using t(2) Cons.prems(3) by (auto simp: keyed_def)
  moreover have "typed (of_nat n) (snd ?p) (current_input (vterms t ! k))" using bi(2) t(4) by simp
  moreover have "0x0A \<notin> set keys" "length (snd ?p) + length keys + 2 \<le> n" using Cons.prems(6,7) len by simp_all
  ultimately obtain u where
    "input_wait k (map (console_inputhandler spill) keys @ fs) t = input_wait k fs u" "keyed k t u"
    "mods (kbd_state u) = fst (fold edit_key keys (mods (kbd_state t), snd ?p))"
    "typed (of_nat n) (snd (fold edit_key keys (mods (kbd_state t), snd ?p))) (current_input (vterms u ! k))"
    "length (snd (fold edit_key keys (mods (kbd_state t), snd ?p))) + 2 \<le> n"
    using Cons.IH [of t "snd ?p"] Cons.prems(4,8) by blast
  note u = this [folded p]
  have "\<not> complete (current_input (vterms s ! k))" using Cons.prems(5) by (simp add: typed_def)
  then have "input_wait k (map (console_inputhandler spill) (raw # keys) @ fs) s
      = input_wait k (map (console_inputhandler spill) keys @ fs) t"
    using t(1) by (simp add: input_wait.simps [of k "console_inputhandler spill raw # _"])
  then show ?case using u keyed_trans [OF t(2) u(2)] by auto
qed

text \<open>A read of at most \<open>n\<close> bytes that has been set up, and one whose line is complete.\<close>

definition started :: "nat \<Rightarrow> nat \<Rightarrow> cstate \<Rightarrow> cstate" where
  "started k n s = upd_con k (\<lambda>c. c\<lparr>current_input := (current_input c)\<lparr>buffer := Some (replicate 129 0),
       buffer_length := of_nat n, next_pos := 0, complete := False\<rparr>,
     constate := (constate c)\<lparr>con_bkspstop_col := of_int (vcur_x (constate c))\<rparr>\<rparr>) s"

definition line_ready :: "nat \<Rightarrow> nat \<Rightarrow> u8 list \<Rightarrow> cstate \<Rightarrow> bool" where
  "line_ready k n line u \<longleftrightarrow> cwf u \<and> settled u \<and> current_console u = Some k \<and> proc_con u = Some k
     \<and> (\<exists>b. buffer (current_input (vterms u ! k)) = Some b \<and> length b = 129 \<and> take (length line + 2) b = line @ [0x0A, 0])
     \<and> buffer_length (current_input (vterms u ! k)) = of_nat n \<and> next_pos (current_input (vterms u ! k)) = of_nat (length line)"

lemma return_key:
  assumes "cwf s" "settled s" "current_console s = Some k" "spill_ok spill"
    and "typed (of_nat n) line (current_input (vterms s ! k))" "length line + 2 \<le> n" "n \<le> 128" "proc_con s = Some k"
  shows "\<exists>t. console_inputhandler spill 0x0A s = Some t \<and> complete (current_input (vterms t ! k)) \<and> line_ready k n line t"
proof -
  let ?bi = "current_input (vterms s ! k)" and ?L = "length line"
  obtain b where b: "buffer_length ?bi = of_nat n" "next_pos ?bi = of_nat ?L" "\<not> complete ?bi"
    "buffer ?bi = Some b" "length b = 129" "take ?L b = line"
    using assms(5) by (auto simp: typed_def)
  have u: "unat (of_nat j :: u32) = j" if "j \<le> 129" for j using that by (simp add: unat_of_nat take_bit_eq_mod)
  have l1: "(of_nat ?L :: u32) + 1 = of_nat (?L + 1)" by simp
  have "unat (next_pos ?bi) \<noteq> unat (buffer_length ?bi)" "unat (buffer_length ?bi) > 1"
    using b(1,2) u assms(6,7) by simp_all
  then have g: "next_pos ?bi \<noteq> buffer_length ?bi" "buffer_length ?bi > 1" by (auto simp: word_less_nat_alt)
  let ?b = "b[?L := 0x0A, ?L + 1 := 0]"
  have "unat (next_pos ?bi) = ?L" "unat (next_pos ?bi + 1) = ?L + 1"
    unfolding b(2) l1 by (rule u, use assms(6,7) in simp)+
  then have n: "input_newline ?bi = Some (?bi\<lparr>buffer := Some ?b, complete := True\<rparr>)"
    using b(4,5) g assms(6,7) by (simp add: input_newline_def buf_store_def store_def)
  obtain t where t: "console_inputhandler spill 0x0A s = Some t" "keyed k s t"
    "current_input (vterms t ! k) = ?bi\<lparr>buffer := Some ?b, complete := True\<rparr>"
    using inputhandler_eq [OF assms(1-4), of 10] n printable_char_special(3) by (auto simp: input_step_def)
  have "take (?L + 2) ?b = line @ [0x0A, 0]"
    using b(5,6) assms(6,7) by (simp add: take_Suc_conv_app_nth)
  then show ?thesis
    using t b(1,2,5) assms(3,8) by (intro exI [of _ t]) (auto simp: line_ready_def keyed_def)
qed

lemma wait_done: "\<not> complete (current_input (vterms s ! k)) \<Longrightarrow> f s = Some t \<Longrightarrow> complete (current_input (vterms t ! k))
    \<Longrightarrow> input_wait k (f # fs) s = Some (t, fs)"
  by (simp add: input_wait.simps [of k "f # _"] input_wait.simps [of k fs t])

lemma wait_more: "\<not> complete (current_input (vterms s ! k)) \<Longrightarrow> f s = Some t \<Longrightarrow> input_wait k (f # fs) s = input_wait k fs t"
  by (simp add: input_wait.simps [of k "f # _"])

lemma upd_input_wf:
  assumes "cwf s" "settled s" "k < 3" "\<And>c. vcur_x (constate (f c)) = vcur_x (constate c)" "\<And>c. vcur_y (constate (f c)) = vcur_y (constate c)"
    "\<And>c. con_wrap (constate (f c)) = con_wrap (constate c)" "\<And>c. con_scroll (constate (f c)) = con_scroll (constate c)"
    "\<And>c. vcur_autoinc_en (constate (f c)) = vcur_autoinc_en (constate c)" "\<And>c. vid_buf (f c) = vid_buf c"
    "\<And>c. con_id (f c) = con_id c" "\<And>c. current (f c) = current c"
  shows "cwf (upd_con k f s)" "settled (upd_con k f s)"
  using assms(1-3) by (auto simp: cwf_def con_ok_def state_ok_def settled_def upd_con_def nth_list_update assms(4-11))

lemma started_ok:
  assumes "cwf s" "settled s" "k < 3"
  shows "cwf (started k n s)" "settled (started k n s)" "typed (of_nat n) [] (current_input (vterms (started k n s) ! k))"
    "current_console (started k n s) = current_console s" "proc_con (started k n s) = proc_con s"
    "kbd_state (started k n s) = kbd_state s" "kbd_last (started k n s) = kbd_last s"
  using assms cwfD(1) [OF assms(1)] unfolding started_def by (auto intro!: upd_input_wf simp: typed_def)

lemma getinput_line:
  assumes "cwf s" "proc_con s = Some k" "input_wait k isrs (started k n s) = Some (u, fs)" "line_ready k n line u"
    and "length line + 2 \<le> n" "n \<le> 128"
  shows "\<exists>t. console_readline isrs (Some (replicate 129 0)) (int n) s = Some (int (length line), t, fs) \<and> line_ready k n line t"
proof -
  have k: "k < 3" "length (vterms s) = 3" using assms(1,2) by (auto simp: cwf_def)
  obtain b where u: "cwf u" "settled u" "current_console u = Some k" "proc_con u = Some k"
    "buffer (current_input (vterms u ! k)) = Some b" "length b = 129" "take (length line + 2) b = line @ [0x0A, 0]"
    "buffer_length (current_input (vterms u ! k)) = of_nat n" "next_pos (current_input (vterms u ! k)) = of_nat (length line)"
    using assms(4) by (auto simp: line_ready_def)
  let ?bi = "(current_input (vterms u ! k))\<lparr>buffer := Some (b[n - 1 := 0])\<rparr>"
  let ?g = "\<lambda>c. c\<lparr>current_input := ?bi, constate := (constate c)\<lparr>con_bkspstop_col := 0\<rparr>\<rparr>"
  have "unat (of_nat n - 1 :: u32) = n - 1"
  proof -
    have "(of_nat n - 1 :: u32) = of_nat (n - 1)" using assms(5) by (simp add: of_nat_diff)
    then show ?thesis using assms(6) by (simp only:) (simp add: unat_of_nat take_bit_eq_mod)
  qed
  then have bs: "buf_store (buffer_length (current_input (vterms u ! k)) - 1) 0 (current_input (vterms u ! k)) = Some ?bi"
    using u(5,6,8) assms(6) by (simp add: buf_store_def store_def)
  have nx: "sint (next_pos ?bi) = int (length line)"
    using u(9) assms(5,6) by (simp add: sint_uint signed_take_bit_int_eq_self unsigned_of_nat take_bit_nat_eq_self)
  have "console_readline isrs (Some (replicate 129 0)) (int n) s = Some (int (length line), upd_con k ?g u, fs)"
    using assms(2,3,5) k bs nx by (simp add: console_readline_def proc_terminal_def console_getinput_def started_def)
  moreover have "cwf (upd_con k ?g u)" "settled (upd_con k ?g u)" using upd_input_wf [of u k ?g] u(1,2) k by simp_all
  moreover have "take (length line + 2) (b[n - 1 := 0]) = line @ [0x0A, 0]"
  proof (cases "n - 1 = length line + 1")
    case True
    then have "(b[n - 1 := 0]) = b" using arg_cong [OF u(7), of "\<lambda>xs. xs ! (length line + 1)"] u(6) assms(5,6)
      by (simp add: nth_append list_update_same_conv)
    then show ?thesis using u(7) by simp
  next
    case False
    then show ?thesis using u(7) assms(5) by simp
  qed
  moreover have "length (vterms u) = 3" using u(1) by (simp add: cwf_def)
  ultimately show ?thesis
    using u k by (auto simp: line_ready_def)
qed

lemma edit_fold_length: "length (snd (fold edit_key ks p)) \<le> length (snd p) + length ks"
proof (induction ks arbitrary: p)
  case (Cons r ks)
  have "length (snd (fold edit_key ks (edit_key r p))) \<le> length (snd (edit_key r p)) + length ks" by (rule Cons.IH)
  also have "\<dots> \<le> Suc (length (snd p)) + length ks" by (rule add_right_mono [OF edit_length])
  finally show ?case by simp
qed simp

lemma readline_w_ready:
  assumes "cwf s" "proc_con s = Some k" "n = min 128 (nat nbytes)" "input_wait k isrs (started k n s) = Some (u, fs)"
    and "line_ready k n line u" "length line + 2 \<le> n" "0 \<notin> set line" "length line < length buf"
  shows "\<exists>t. console_readline_w isrs 0 buf nbytes s = Some (int (length line) + 1, line @ 0x0A # drop (length line + 1) buf, t, fs)
    \<and> cwf t \<and> settled t \<and> current_console t = Some k \<and> proc_con t = Some k
    \<and> buffer (current_input (vterms t ! k)) = None \<and> buffer_length (current_input (vterms t ! k)) > 1"
proof -
  have n: "(if nbytes \<ge> 128 then 128 else nbytes) = int n" "n \<le> 128" using assms(3,6) by auto
  have k: "k < 3" using assms(1,2) by (auto simp: cwf_def)
  obtain t where r: "console_readline isrs (Some (replicate 129 0)) (int n) s = Some (int (length line), t, fs)" "line_ready k n line t"
    using getinput_line [OF assms(1,2,4,5,6) n(2)] by blast
  then obtain b where t: "cwf t" "settled t" "current_console t = Some k" "proc_con t = Some k"
    "buffer (current_input (vterms t ! k)) = Some b" "length b = 129" "take (length line + 2) b = line @ [0x0A, 0]"
    "buffer_length (current_input (vterms t ! k)) = of_nat n"
    by (auto simp: line_ready_def)
  have l3: "length (vterms s) = 3" "length (vterms t) = 3" using assms(1) t(1) by (auto simp: cwf_def)
  have "b = (line @ [0x0A, 0]) @ drop (length line + 2) b"
    using append_take_drop_id [of "length line + 2" b] unfolding t(7) by (rule sym)
  then have "b = (line @ [0x0A]) @ 0 # drop (length line + 2) b" by simp
  then have cb: "cstr b = line @ [0x0A]" "terminated b"
    using assms(7) cstr_append_zero [of "line @ [0x0A]" "drop (length line + 2) b"] by (force, metis in_set_conv_decomp terminated_def)
  have sc: "strncpy buf b (nat (int (length line) + 1)) = Some (line @ 0x0A # drop (length line + 1) buf)"
    using strncpy_eq [of b "length line + 1" buf] cb assms(8) by (simp add: nat_add_distrib)
  let ?u = "upd_con k (\<lambda>c. c\<lparr>current_input := (current_input c)\<lparr>buffer := None\<rparr>\<rparr>) t"
  have "console_readline_w isrs 0 buf nbytes s = Some (int (length line) + 1, line @ 0x0A # drop (length line + 1) buf, ?u, fs)"
    using r(1) t(5) n assms(2,6) k l3 sc by (simp add: console_readline_w_def proc_terminal_def Let_def)
  moreover have "cwf ?u" "settled ?u"
    using upd_input_wf [of t k "\<lambda>c. c\<lparr>current_input := (current_input c)\<lparr>buffer := None\<rparr>\<rparr>"] t(1,2) k by simp_all
  moreover have "(of_nat n :: u32) > 1" using n(2) assms(6) by (simp add: word_less_nat_alt unat_of_nat take_bit_eq_mod)
  ultimately show ?thesis using t(3,4,8) k l3 by (intro exI [of _ ?u]) simp
qed

lemma readline_w_line:
  assumes "cwf s" "settled s" "current_console s = Some k" "proc_con s = Some k" "spill_ok spill"
    and "0x0A \<notin> set keys" "length keys + 2 \<le> nat nbytes" "length keys + 2 \<le> 128" "length keys < length buf"
  defines "line \<equiv> snd (fold edit_key keys (mods (kbd_state s), []))"
  shows "\<exists>t. console_readline_w (map (console_inputhandler spill) (keys @ [0x0A]) @ fs) 0 buf nbytes s
      = Some (int (length line) + 1, line @ 0x0A # drop (length line + 1) buf, t, fs) \<and> cwf t \<and> settled t
    \<and> current_console t = Some k \<and> proc_con t = Some k
    \<and> buffer (current_input (vterms t ! k)) = None \<and> buffer_length (current_input (vterms t ! k)) > 1"
proof -
  define n where "n = min 128 (nat nbytes)"
  have n: "length keys + 2 \<le> n" "n \<le> 128" using assms(7,8) by (auto simp: n_def)
  have k: "k < 3" using assms(1,3) by (auto simp: cwf_def)
  note st = started_ok [OF assms(1,2) k, of n]
  have le: "length line \<le> length keys"
    using edit_fold_length [of keys "(mods (kbd_state s), [])"] by (simp add: line_def)
  have z: "0 \<notin> set line" using edit_no_nul [of "(mods (kbd_state s), [])" keys] by (simp add: line_def)
  have ck: "current_console (started k n s) = Some k" using st(4) assms(3) by simp
  obtain t where t: "input_wait k (map (console_inputhandler spill) keys @ console_inputhandler spill 0x0A # fs) (started k n s)
      = input_wait k (console_inputhandler spill 0x0A # fs) t" "keyed k (started k n s) t"
    "typed (of_nat n) line (current_input (vterms t ! k))" "length line + 2 \<le> n"
    using typing_run [OF st(1,2) ck assms(5) st(3) assms(6) _ n(2), of "console_inputhandler spill 0x0A # fs"] n(1)
    unfolding st(6) line_def by auto
  have tw: "cwf t" "settled t" "current_console t = Some k" using t(2) st(4) assms(3) by (auto simp: keyed_def)
  have pt: "proc_con t = Some k" using t(2) st(5) assms(4) by (simp add: keyed_def)
  obtain u where u: "console_inputhandler spill 0x0A t = Some u" "complete (current_input (vterms u ! k))" "line_ready k n line u"
    using return_key [OF tw assms(5) t(3,4) n(2) pt] by blast
  have "input_wait k (console_inputhandler spill 0x0A # fs) t = Some (u, fs)"
    using wait_done [of t k "console_inputhandler spill 0x0A" u fs] u(1,2) t(3) by (simp add: typed_def)
  then show ?thesis
    using readline_w_ready [OF assms(1,4) n_def _ u(3) t(4) z] t(1) le assms(9) by simp
qed

section \<open>Switching terminals\<close>

lemma swap_eq:
  assumes "cwf s" "settled s" "current_console s = Some k" "j < 3" "present (vterms s ! j)"
  shows "\<exists>t. vterm_swap_console (int j) s = Some (0, t) \<and> cwf t \<and> settled t \<and> current_console t = Some j \<and> proc_con t = proc_con s
    \<and> vmem t = (if j = k then vmem s else vid_buf (vterms s ! j))
    \<and> vid_buf (vterms t ! k) = vmem s \<and> (\<forall>i. present (vterms t ! i) = present (vterms s ! i))
    \<and> (\<forall>i. constate (vterms t ! i) = constate (vterms s ! i)) \<and> (\<forall>i. current_input (vterms t ! i) = current_input (vterms s ! i))
    \<and> (\<forall>i. i \<noteq> k \<longrightarrow> vid_buf (vterms t ! i) = vid_buf (vterms s ! i))
    \<and> cursor_shown (crtc t) (constate (vterms s ! j))"
proof -
  have k: "k < 3" "length (vterms s) = 3" using assms(1,3) by (auto simp: cwf_def)
  define Y where "Y i = (if i = k then (vterms s ! k)\<lparr>current := False, vid_buf := vmem s\<rparr> else vterms s ! i)" for i
  define s2 where "s2 = (upd_con j (\<lambda>c. c\<lparr>current := True\<rparr>) (upd_con k (\<lambda>c. c\<lparr>current := False, vid_buf := vmem s\<rparr>) s))\<lparr>current_console := Some j\<rparr>"
  define s3 where "s3 = s2\<lparr>vmem := vid_buf (vterms s2 ! j)\<rparr>"
  define t where "t = enable_cursor True (set_cursor (constate (vterms s3 ! j)) s3)"
  have Y: "vterms (upd_con k (\<lambda>c. c\<lparr>current := False, vid_buf := vmem s\<rparr>) s) ! i = Y i" for i
    using k by (cases "i = k") (simp_all add: Y_def)
  have v2: "vterms s2 ! i = (if i = j then (Y j)\<lparr>current := True\<rparr> else Y i)" for i
    using assms(4) k Y by (cases "i = j") (simp_all add: s2_def)
  have l: "length (vterms t) = 3" "vterms t = vterms s2" "vmem t = vid_buf (vterms s2 ! j)" "current_console t = Some j" "proc_con t = proc_con s"
    using k by (simp_all add: t_def s3_def s2_def enable_cursor_def set_cursor_def)
  have cs: "constate (vterms s3 ! j) = constate (vterms s ! j)" by (simp add: s3_def v2 Y_def)
  have "cursor_shown (crtc t) (constate (vterms s ! j))"
    using set_cursor_shown [OF cwfD(5) [OF assms(1,4)], of s3] unfolding cs
    by (simp add: cursor_shown_def enable_cursor_def t_def cs)
  moreover have "cwf t"
    using assms(1,3,4) k l unfolding cwf_def by (auto simp: con_ok_def v2 Y_def)
  moreover have "settled t" using assms(2) l(2) by (auto simp: settled_def v2 Y_def)
  moreover have "vterm_swap_console (int j) s = Some (0, t)"
    using assms by (simp add: vterm_swap_console_def MAX_VTERMS_def term_of_cwf Let_def t_def s3_def s2_def)
  ultimately show ?thesis using l by (intro exI [of _ t]) (auto simp: v2 Y_def)
qed

section \<open>An example state\<close>

definition demo_spill :: spill where
  "demo_spill s k = replicate 80 default_style"

definition demo_con :: "nat \<Rightarrow> console" where
  "demo_con k = \<lparr>present = True, con_id = int k, current = (k = 0),
     constate = \<lparr>condrv_en = True, vcur_x = 0, vcur_y = 0, pcur_en = True, kbd_echo_en = True, vcur_autoinc_en = True,
                 con_wrap = True, con_scroll = True, con_bkspstop_col = 0, charstyle = default_style\<rparr>,
     current_input = \<lparr>buffer_length = 0, buffer = None, next_pos = 0, complete = False\<rparr>,
     kbuf = replicate 129 0, vid_buf = replicate 2000 default_style\<rparr>"

definition demo_console :: "nat \<Rightarrow> cstate" where
  "demo_console p = \<lparr>vterms = map demo_con [0, 1, 2], current_console = Some 0, vmem = replicate 2000 default_style,
     kbd_state = \<lparr>mods = \<lparr>ctrl = False, alt = False, sft = False, capslock = False\<rparr>, char_pressed = 0\<rparr>,
     crtc = \<lparr>crtc_index = 0, crtc_regs = (\<lambda>_. 0)\<rparr>, proc_con = Some p, kbd_last = 0\<rparr>"

lemma demo_con_nth: "k < 3 \<Longrightarrow> map demo_con [0, 1, 2] ! k = demo_con k"
  by (auto simp: less_Suc_eq numeral_3_eq_3 numeral_2_eq_2)

lemma demo_ok: "p < 3 \<Longrightarrow> cwf (demo_console p)" "settled (demo_console p)"
proof -
  show "cwf (demo_console p)" if "p < 3"
    using that demo_con_nth unfolding cwf_def demo_console_def by (simp add: demo_con_def con_ok_def state_ok_def)
  show "settled (demo_console p)" using demo_con_nth unfolding settled_def demo_console_def by (simp add: demo_con_def)
qed

lemma demo_spill_ok: "spill_ok demo_spill"
  by (simp add: spill_ok_def demo_spill_def)

lemma demo_fields: "current_console (demo_console p) = Some 0" "proc_con (demo_console p) = Some p"
  "vterms (demo_console p) ! 0 = demo_con 0" "vterms (demo_console p) ! 1 = demo_con 1"
  "mods (kbd_state (demo_console p)) = \<lparr>ctrl = False, alt = False, sft = False, capslock = False\<rparr>"
  by (simp_all add: demo_console_def)

section \<open>Properties\<close>

text \<open>
  C8: writing \<open>n\<close> bytes from a process whose terminal is on the screen always succeeds and makes the
  video memory and the cursor those of an abstract terminal after the same bytes: characters in the
  terminal's style at the position, line breaks, and scrolling by one line at the bottom. The
  hardware cursor is left visible on the position, and the terminal invariant holds again.
\<close>

theorem console_putn_terminal:
  assumes "cwf s" "settled s" "proc_con s = Some k" "current_console s = Some k" "spill_ok spill" "n \<le> length buf"
  shows "\<exists>t. console_putn spill buf n s = Some (int n, t) \<and> cwf t \<and> settled t
    \<and> grid_of t k = fold (t_write (charstyle (constate (vterms s ! k)))) (take n buf) (grid_of s k)
    \<and> (0 < n \<longrightarrow> cursor_cell (crtc t) = snd (grid_of t k) \<and> cursor_visible (crtc t))"
proof -
  obtain t where t: "fold (\<lambda>c r. Option.bind r (console_putchar spill c)) (take n buf) (Some s) = Some t" "frame k s t"
    "grid_of t k = fold (t_write (charstyle (constate (vterms s ! k)))) (take n buf) (grid_of s k)"
    "take n buf \<noteq> [] \<longrightarrow> cursor_shown (crtc t) (constate (vterms t ! k))"
    using putn_run [OF assms(1-3,5)] assms(4) by blast
  moreover have "snd (grid_of t k) = nat (cursor_index (constate (vterms t ! k)))" by (simp add: grid_of_def)
  ultimately show ?thesis
    using assms(6) frameD(1,2) [OF t(2)] by (intro exI [of _ t]) (auto simp: console_putn_def cursor_shown_def)
qed

theorem console_putn_terminal_witness:
  "\<exists>t. console_putn demo_spill [0x48, 0x0A] 2 (demo_console 0) = Some (2, t) \<and> snd (grid_of t 0) = 80"
proof -
  obtain t where "console_putn demo_spill [0x48, 0x0A] 2 (demo_console 0) = Some (2, t)"
    "grid_of t 0 = fold (t_write default_style) [0x48, 0x0A] (grid_of (demo_console 0) 0)"
    using console_putn_terminal [of "demo_console 0" 0 demo_spill 2 "[0x48, 0x0A]"] demo_ok [of 0] demo_spill_ok demo_fields
    by (auto simp: demo_con_def)
  moreover have "grid_of (demo_console 0) 0 = (replicate 2000 default_style, 0)"
    by (simp add: grid_of_def demo_fields(3)) (simp add: demo_console_def demo_con_def cursor_index_def)
  ultimately show ?thesis by (simp add: t_write_def)
qed

text \<open>
  C19: a process whose terminal is not on the screen can write without limit and never touches the
  video memory, the hardware cursor or another terminal; the write still succeeds.
\<close>

theorem console_putn_hidden:
  assumes "cwf s" "settled s" "proc_con s = Some k" "current_console s \<noteq> Some k" "spill_ok spill" "n \<le> length buf"
  shows "\<exists>t. console_putn spill buf n s = Some (int n, t) \<and> cwf t \<and> vmem t = vmem s \<and> crtc t = crtc s
    \<and> current_console t = current_console s \<and> (\<forall>j. j \<noteq> k \<longrightarrow> vterms t ! j = vterms s ! j)"
proof -
  obtain t where t: "fold (\<lambda>c r. Option.bind r (console_putchar spill c)) (take n buf) (Some s) = Some t" "frame k s t"
    using putn_run [OF assms(1-3,5)] by blast
  then show ?thesis
    using assms(4,6) by (intro exI [of _ t]) (auto simp: console_putn_def frame_def)
qed

theorem console_putn_hidden_witness:
  "\<exists>t. console_putn demo_spill [0x48, 0x0A] 2 (demo_console 1) = Some (2, t) \<and> vmem t = vmem (demo_console 1)"
  using console_putn_hidden [of "demo_console 1" 1 demo_spill 2 "[0x48, 0x0A]"] demo_ok [of 1] demo_spill_ok demo_fields by auto

text \<open>
  a line typed on the terminal of the reading process, with backspaces and the caps-lock key,
  and ended by Enter is what the read delivers: the edited line and a newline in the caller's
  buffer (whose further bytes keep their values), the number of characters with the newline as
  the result, and no keystroke after Enter is taken. The line must leave two bytes of the limit
  (128, or the count asked for) free.
\<close>

theorem typed_line_read:
  assumes "cwf s" "settled s" "current_console s = Some k" "proc_con s = Some k" "spill_ok spill"
    and "0x0A \<notin> set keys" "length keys + 2 \<le> nat nbytes" "length keys + 2 \<le> 128" "length keys < length buf"
  shows "\<exists>line t. line = snd (fold edit_key keys (mods (kbd_state s), []))
    \<and> console_readline_w (map (console_inputhandler spill) (keys @ [0x0A]) @ later) 0 buf nbytes s
      = Some (int (length line) + 1, line @ 0x0A # drop (length line + 1) buf, t, later) \<and> cwf t \<and> settled t"
  using readline_w_line [OF assms, of later] by blast

theorem typed_line_read_witness:
  "\<exists>t. console_readline_w (map (console_inputhandler demo_spill) ([0x68, 0x6A, 0x08, 0x69] @ [0x0A]) @ []) 0 [1, 2, 3, 4, 5] 128 (demo_console 0)
     = Some (3, [0x68, 0x69, 0x0A, 4, 5], t, [])"
proof -
  have e: "snd (fold edit_key [0x68, 0x6A, 0x08, 0x69] (mods (kbd_state (demo_console 0)), [])) = [0x68, 0x69]"
    by (simp add: demo_fields(5) edit_key_def printable_char_def mods_step_def)
  show ?thesis
    using typed_line_read [of "demo_console 0" 0 demo_spill "[0x68, 0x6A, 0x08, 0x69]" 128 "[1, 2, 3, 4, 5]" "[]"] demo_ok [of 0] demo_spill_ok demo_fields e
    by auto
qed

text \<open>
  C30: once a read has returned, the terminal still points at the buffer on the dead stack frame of
  \<open>console_readline_w\<close>: the next Enter key on that terminal stores through that pointer.
\<close>

theorem enter_after_read:
  assumes "cwf s" "settled s" "current_console s = Some k" "proc_con s = Some k" "spill_ok spill"
    and "0x0A \<notin> set keys" "length keys + 2 \<le> nat nbytes" "length keys + 2 \<le> 128" "length keys < length buf"
    and "console_readline_w (map (console_inputhandler spill) (keys @ [0x0A]) @ later) 0 buf nbytes s = Some (v, buf', t, later)"
  shows "console_inputhandler spill 0x0A t = None"
proof -
  have t: "cwf t" "settled t" "current_console t = Some k" "buffer (current_input (vterms t ! k)) = None"
    "buffer_length (current_input (vterms t ! k)) > 1"
    using readline_w_line [OF assms(1-9), of later] assms(10) by auto
  then have n: "input_newline (current_input (vterms t ! k)) = None" by (simp add: input_newline_def buf_store_def)
  show ?thesis
    using t(1,3) n printable_char_special(3) by (simp add: console_inputhandler_def term_of_cwf Let_def bind_eq_None_conv)
qed

theorem enter_after_read_witness:
  "\<exists>v b t. console_readline_w (map (console_inputhandler demo_spill) ([0x68] @ [0x0A]) @ []) 0 [1, 2, 3] 128 (demo_console 0) = Some (v, b, t, [])
     \<and> console_inputhandler demo_spill 0x0A t = None"
proof -
  obtain t where t: "console_readline_w (map (console_inputhandler demo_spill) ([0x68] @ [0x0A]) @ []) 0 [1, 2, 3] 128 (demo_console 0)
      = Some (2, [0x68, 0x0A, 3], t, [])"
    using readline_w_line [of "demo_console 0" 0 demo_spill "[0x68]" 128 "[1, 2, 3]" "[]"] demo_ok [of 0] demo_spill_ok demo_fields
    by (auto simp: edit_key_def printable_char_def mods_step_def)
  show ?thesis
    using t enter_after_read [OF demo_ok(1) [of 0] demo_ok(2) demo_fields(1) demo_fields(2) demo_spill_ok _ _ _ _ t] by auto
qed

text \<open>
  C21: what any key does on any terminal in any state of its input buffer. The key is a bad access exactly when
  \<open>key_faults\<close> says that it does not fit: its character, or the newline and NUL that end a line, would
  be stored outside a live buffer, or there is none, as before the first read and after one has returned. In
  all other cases the cursor of every terminal stays on the screen and the other terminals are left
  alone. While a read of at least two bytes is pending (a live buffer with two free bytes) no key faults, and it stays so.
\<close>

theorem inputhandler_safe:
  assumes "cwf s" "settled s" "current_console s = Some k" "spill_ok spill"
  shows "(console_inputhandler spill raw s = None \<longleftrightarrow> key_faults (mods (kbd_state s)) raw (current_input (vterms s ! k)))
    \<and> (\<forall>t. console_inputhandler spill raw s = Some t \<longrightarrow> cwf t \<and> settled t \<and> current_console t = Some k
        \<and> (\<forall>j. j \<noteq> k \<longrightarrow> vterms t ! j = vterms s ! j))
    \<and> (input_safe (current_input (vterms s ! k)) \<longrightarrow>
        (\<exists>t. console_inputhandler spill raw s = Some t \<and> input_safe (current_input (vterms t ! k))))"
proof (cases "input_step (mods (kbd_state s)) raw (current_input (vterms s ! k))")
  case None
  then have "\<not> input_safe (current_input (vterms s ! k))"
    using input_step_safe [of "current_input (vterms s ! k)" "mods (kbd_state s)" raw] by auto
  then show ?thesis using None key_fault_stops [OF assms(1,3) None] input_step_None by simp
next
  case (Some bi)
  have "input_safe bi" if "input_safe (current_input (vterms s ! k))"
    using input_step_safe [OF that, of "mods (kbd_state s)" raw] Some by auto
  then show ?thesis
    using inputhandler_eq [OF assms Some] assms(3) Some input_step_None [of "mods (kbd_state s)" raw "current_input (vterms s ! k)"]
    by (auto simp: keyed_def)
qed

theorem inputhandler_safe_witness:
  "(\<exists>t. console_inputhandler demo_spill 0x61 (upd_con 0 (\<lambda>c. c\<lparr>current_input :=
     \<lparr>buffer_length = 128, buffer = Some (replicate 129 0), next_pos = 126, complete = False\<rparr>\<rparr>) (demo_console 0)) = Some t)
   \<and> console_inputhandler demo_spill 0x61 (upd_con 0 (\<lambda>c. c\<lparr>current_input :=
     \<lparr>buffer_length = 0, buffer = None, next_pos = 0, complete = False\<rparr>\<rparr>) (demo_console 0)) = None"
proof -
  have ok: "cwf (upd_con 0 (\<lambda>c. c\<lparr>current_input := bi\<rparr>) (demo_console 0))" "settled (upd_con 0 (\<lambda>c. c\<lparr>current_input := bi\<rparr>) (demo_console 0))"
    "vterms (upd_con 0 (\<lambda>c. c\<lparr>current_input := bi\<rparr>) (demo_console 0)) ! 0 = (vterms (demo_console 0) ! 0)\<lparr>current_input := bi\<rparr>"
    for bi
    using upd_input_wf [of "demo_console 0" 0 "\<lambda>c. c\<lparr>current_input := bi\<rparr>"] demo_ok [of 0] by (simp_all add: demo_console_def)
  have "printable_char (mods (kbd_state (demo_console 0))) 0x61 \<noteq> None" by (simp add: printable_char_def)
  then have f: "\<not> key_faults (mods (kbd_state (demo_console 0))) 0x61
      \<lparr>buffer_length = 128, buffer = Some (replicate 129 0), next_pos = 126, complete = False\<rparr>"
    "key_faults (mods (kbd_state (demo_console 0))) 0x61 \<lparr>buffer_length = 0, buffer = None, next_pos = 0, complete = False\<rparr>"
    by (simp_all add: key_faults_def room_def)
  have k: "kbd_state (upd_con 0 g (demo_console 0)) = kbd_state (demo_console 0)" for g by simp
  note h = inputhandler_safe [OF ok(1,2) _ demo_spill_ok, of _ 0 "0x61", unfolded k ok(3) console.simps, THEN conjunct1]
  have c: "current_console (upd_con 0 g (demo_console 0)) = Some 0" for g using demo_fields(1) by simp
  show ?thesis using f h [OF c] by (simp only: not_None_eq [symmetric] not_not) simp
qed

text \<open>
  C20: switching to another terminal and back restores the screen: the first switch shows that
  terminal's own buffer with its cursor, and after the second the video memory is what it was.
\<close>

theorem swap_back:
  assumes "cwf s" "settled s" "current_console s = Some k" "j < 3" "j \<noteq> k" "present (vterms s ! j)" "present (vterms s ! k)"
  shows "\<exists>t u. vterm_swap_console (int j) s = Some (0, t) \<and> cwf t \<and> vmem t = vid_buf (vterms s ! j)
    \<and> cursor_cell (crtc t) = nat (cursor_index (constate (vterms s ! j)))
    \<and> vterm_swap_console (int k) t = Some (0, u) \<and> cwf u \<and> vmem u = vmem s \<and> current_console u = Some k"
proof -
  have k: "k < 3" using assms(1,3) by (auto simp: cwf_def)
  obtain t where t: "vterm_swap_console (int j) s = Some (0, t)" "cwf t" "settled t" "current_console t = Some j"
    "vmem t = vid_buf (vterms s ! j)" "vid_buf (vterms t ! k) = vmem s" "present (vterms t ! k)"
    "cursor_shown (crtc t) (constate (vterms s ! j))"
    using swap_eq [OF assms(1-4,6)] assms(5,7) by auto
  then show ?thesis
    using swap_eq [OF t(2-4) k t(7)] assms(5) by (auto simp: cursor_shown_def)
qed

theorem swap_back_witness:
  "\<exists>t u. vterm_swap_console 1 (demo_console 0) = Some (0, t) \<and> vterm_swap_console 0 t = Some (0, u) \<and> vmem u = vmem (demo_console 0)"
proof -
  have "present (vterms (demo_console 0) ! 1)" "present (vterms (demo_console 0) ! 0)" by (simp_all only: demo_fields) (simp_all add: demo_con_def)
  then show ?thesis using swap_back [of "demo_console 0" 0 1] demo_ok [of 0] demo_spill_ok demo_fields(1) by auto
qed

end
