(* ===== verification/Keyboard.thy ===== *)
theory Keyboard
  imports Terminal
begin

text \<open>
  The keyboard driver, \<open>mp3/student-distrib/keyboard.c\<close>: the scancode table, the interpreter of scancodes,
  the interrupt handler and the initialisation of the controller. \<open>char\<close> is signed in the source;
  the only comparisons where that matters are those of the function keys, written out below.
  The status bytes that the controller shows while it is being initialised are a parameter.
\<close>

definition KEYBOARD_DATAPORT :: u16 where "KEYBOARD_DATAPORT = 0x60"
definition KEYBOARD_CMDPORT :: u16 where "KEYBOARD_CMDPORT = 0x64"
definition KBD_INT_NUM :: nat where "KBD_INT_NUM = 0x21"
definition RELEASED_MASK :: u8 where "RELEASED_MASK = 0x80"
definition CODE1_PRIMARYFLAG :: u8 where "CODE1_PRIMARYFLAG = 0xE0"
definition SCANCODE_SET1_LEN :: nat where "SCANCODE_SET1_LEN = 0x58"

definition scan1_normal :: "u8 list" where
  "scan1_normal =
     [0, 0x1B] @ str_bytes ''1234567890'' @ str_bytes ''-='' @ [0x08, 0x09]
     @ str_bytes ''qwertyuiop'' @ str_bytes ''[]'' @ [0x0A, 0x11]
     @ str_bytes ''asdfghjkl;'' @ [0x27, 0x60]
     @ [0x0E, 0x5C] @ str_bytes ''zxcvbnm,./''
     @ [0x0F, 0x2A, 0x13, 0x20, 0x1A]
     @ [0xF1, 0xF2, 0xF3, 0xF4, 0xF5, 0xF6, 0xF7, 0xF8, 0xF9, 0xFA]
     @ [0x1C, 0x16] @ str_bytes ''789-'' @ str_bytes ''456+'' @ str_bytes ''1230.'' @ [0x0B, 0x0C, 0, 0]"

definition is_shift :: "u8 \<Rightarrow> bool" where "is_shift c \<longleftrightarrow> c = 0x0E \<or> c = 0x0F"
definition is_ctrl :: "u8 \<Rightarrow> bool" where "is_ctrl c \<longleftrightarrow> c = 0x11 \<or> c = 0x12"
definition is_alt :: "u8 \<Rightarrow> bool" where "is_alt c \<longleftrightarrow> c = 0x13 \<or> c = 0x14"

text \<open>\<open>ascii >= '\xF1' && ascii <= '\xFA'\<close> on signed characters.\<close>

definition is_fkey :: "u8 \<Rightarrow> bool" where "is_fkey c \<longleftrightarrow> 0xF1 \<le> c \<and> c \<le> 0xFA"

definition set_mods :: "(kbd_mod_state \<Rightarrow> kbd_mod_state) \<Rightarrow> cstate \<Rightarrow> cstate" where
  "set_mods f s = s\<lparr>kbd_state := (kbd_state s)\<lparr>mods := f (mods (kbd_state s))\<rparr>\<rparr>"

text \<open>
  The table entry of a scancode. A code of exactly \<open>SCANCODE_SET1_LEN\<close> passes the test and is
  looked up one past the end of the table, which is \<open>None\<close>.
\<close>

definition scan_char :: "u8 \<Rightarrow> u8 \<Rightarrow> u8 option" where
  "scan_char pri sec =
     (if sec \<noteq> 0 then Some 0
      else if unat (pri AND 0x7F) < SCANCODE_SET1_LEN then Some (scan1_normal ! unat (pri AND 0x7F)) else None)"

definition key_released :: "u8 \<Rightarrow> cstate \<Rightarrow> cstate" where
  "key_released ascii s =
     (if is_shift ascii then set_mods (\<lambda>m. m\<lparr>sft := False\<rparr>) s
      else if is_ctrl ascii then set_mods (\<lambda>m. m\<lparr>ctrl := False\<rparr>) s
      else if is_alt ascii then set_mods (\<lambda>m. m\<lparr>alt := False\<rparr>) s
      else if ascii = kbd_last s then s\<lparr>kbd_last := 0\<rparr> else s)"

text \<open>
  Alt with a function key. The test \<open>ascii < MAX_VTERMS\<close> compares the negative character, so it
  is true for all of them, and \<open>vterms[console]\<close> is read for \<open>console\<close> up to 9.
\<close>

definition fkey_pressed :: "u8 \<Rightarrow> cstate \<Rightarrow> cstate option" where
  "fkey_pressed ascii s =
     (if alt (mods (kbd_state s)) \<and> sint ascii < int MAX_VTERMS
      then (let console = unat ((ascii AND 0x0F) - 1)
            in if console < length (vterms s)
               then (if present (vterms s ! console) then map_option snd (vterm_swap_console (int console) s) else Some s)
               else None)
      else Some s)"

definition key_pressed :: "spill \<Rightarrow> u8 \<Rightarrow> cstate \<Rightarrow> cstate option" where
  "key_pressed spill ascii s =
     (if is_shift ascii then Some (set_mods (\<lambda>m. m\<lparr>sft := True\<rparr>) s)
      else if is_ctrl ascii then Some (set_mods (\<lambda>m. m\<lparr>ctrl := True\<rparr>) s)
      else if is_alt ascii then Some (set_mods (\<lambda>m. m\<lparr>alt := True\<rparr>) s)
      else if ascii = 0x08 then console_inputhandler spill ascii s
      else if is_fkey ascii then fkey_pressed ascii s
      else if ascii \<noteq> kbd_last s
      then map_option (\<lambda>t. t\<lparr>kbd_last := ascii\<rparr>) (console_inputhandler spill ascii s)
      else Some s)"

definition interpret_scancode :: "spill \<Rightarrow> u8 \<Rightarrow> u8 \<Rightarrow> cstate \<Rightarrow> (u8 \<times> cstate) option" where
  "interpret_scancode spill pri sec s =
     (if unat (pri AND 0x7F) > SCANCODE_SET1_LEN then Some (0, s)
      else do { ascii \<leftarrow> scan_char pri sec;
                s' \<leftarrow> (if pri > RELEASED_MASK then Some (key_released ascii s) else key_pressed spill ascii s);
                Some (ascii, s') })"

text \<open>The handler: \<open>b1\<close> is the first byte read from the data port, \<open>b2\<close> the second, when it is read.\<close>

definition kbd_int :: "spill \<Rightarrow> u8 \<Rightarrow> u8 \<Rightarrow> cstate \<Rightarrow> (cstate \<times> outb list) option" where
  "kbd_int spill b1 b2 s =
     (let (pri, sec) = (if b1 = CODE1_PRIMARYFLAG then (b2, b1) else (b1, 0))
      in map_option (\<lambda>(c, t). (t, send_eoi KBD_INT_NUM)) (interpret_scancode spill pri sec s))"

section \<open>Initialisation\<close>

text \<open>\<open>while (inb(KEYBOARD_CMDPORT) & BIT_1);\<close> on the status bytes still to come.\<close>

fun ps2_wait :: "u8 list \<Rightarrow> u8 list option" where
  "ps2_wait [] = None"
| "ps2_wait (st # sts) = (if st AND 0x02 \<noteq> 0 then ps2_wait sts else Some sts)"

definition keyboard_init :: "u8 list \<Rightarrow> pic \<Rightarrow> (pic \<times> outb list) option" where
  "keyboard_init status p =
     do { let (p1, w1) = disable_irq KBD_INT_NUM p;
          st1 \<leftarrow> ps2_wait status;
          st2 \<leftarrow> ps2_wait st1;
          st3 \<leftarrow> ps2_wait st2;
          let (p2, w2) = enable_irq KBD_INT_NUM p1;
          Some (p2, w1 @ [(0xAD, KEYBOARD_CMDPORT), io_wait, io_wait, (0x60, KEYBOARD_CMDPORT),
                          (0x51, KEYBOARD_DATAPORT), (0xAE, KEYBOARD_CMDPORT)] @ w2) }"

section \<open>Facts\<close>

lemma scan1_normal_length: "length scan1_normal = SCANCODE_SET1_LEN"
  by (simp add: scan1_normal_def str_bytes_def SCANCODE_SET1_LEN_def)

definition kbd_isr :: "spill \<Rightarrow> u8 \<Rightarrow> isr" where
  "kbd_isr spill b s = map_option fst (kbd_int spill b 0 s)"

text \<open>Pressing and releasing a key; the keys that are neither modifiers nor function keys nor Enter.\<close>

definition stroke :: "spill \<Rightarrow> u8 \<Rightarrow> isr list" where
  "stroke spill p = [kbd_isr spill p, kbd_isr spill (p OR 0x80)]"

definition key_of :: "u8 \<Rightarrow> u8" where
  "key_of p = scan1_normal ! unat p"

definition ordinary :: "u8 \<Rightarrow> bool" where
  "ordinary c \<longleftrightarrow> c \<noteq> 0 \<and> \<not> is_shift c \<and> \<not> is_ctrl c \<and> \<not> is_alt c \<and> \<not> is_fkey c"

lemma code_bits:
  fixes p :: u8
  assumes "p < 0x58"
  shows "p AND 0x7F = p" "(p OR 0x80) AND 0x7F = p" "p \<noteq> 0xE0" "p OR 0x80 \<noteq> 0xE0" "\<not> p > 0x80" "p \<noteq> 0 \<Longrightarrow> p OR 0x80 > 0x80"
proof -
  have "unat p < 0x58" using assms by (simp add: word_less_nat_alt)
  moreover have "p = of_nat (unat p)" by simp
  ultimately have "p \<in> set (map of_nat [0..<0x58])" by (metis atLeastLessThan_iff imageI le0 list.set_map set_upt)
  then have "p AND 0x7F = p \<and> (p OR 0x80) AND 0x7F = p \<and> p \<noteq> 0xE0 \<and> p OR 0x80 \<noteq> 0xE0 \<and> \<not> p > 0x80 \<and> (p \<noteq> 0 \<longrightarrow> p OR 0x80 > 0x80)"
    by (simp add: upt_rec) (elim disjE; simp)
  then show "p AND 0x7F = p" "(p OR 0x80) AND 0x7F = p" "p \<noteq> 0xE0" "p OR 0x80 \<noteq> 0xE0" "\<not> p > 0x80" "p \<noteq> 0 \<Longrightarrow> p OR 0x80 > 0x80"
    by blast+
qed

lemma press_eq:
  assumes "p < 0x58"
  shows "kbd_isr spill p s = key_pressed spill (key_of p) s"
  using code_bits [OF assms] assms
  by (cases "key_pressed spill (key_of p) s")
    (simp_all add: kbd_isr_def kbd_int_def interpret_scancode_def scan_char_def key_of_def CODE1_PRIMARYFLAG_def SCANCODE_SET1_LEN_def
      RELEASED_MASK_def word_less_nat_alt)

lemma release_eq:
  assumes "p < 0x58" "p \<noteq> 0"
  shows "kbd_isr spill (p OR 0x80) s = Some (key_released (key_of p) s)"
  using code_bits [OF assms(1)] assms
  by (simp add: kbd_isr_def kbd_int_def interpret_scancode_def scan_char_def key_of_def CODE1_PRIMARYFLAG_def SCANCODE_SET1_LEN_def
      RELEASED_MASK_def word_less_nat_alt)

text \<open>From a state with no key held, a stroke of an ordinary key is one call of the input handler.\<close>

lemma stroke_once:
  assumes "p < 0x58" "ordinary (key_of p)" "kbd_last s = 0" "console_inputhandler spill (key_of p) s = Some t" "kbd_last t = 0"
  shows "\<exists>u. kbd_isr spill p s = Some u \<and> vterms u = vterms t \<and> kbd_isr spill (p OR 0x80) u = Some t"
proof -
  have p0: "p \<noteq> 0" using assms(2) by (auto simp: ordinary_def key_of_def scan1_normal_def)
  have "kbd_isr spill p s = Some (if key_of p = 8 then t else t\<lparr>kbd_last := key_of p\<rparr>)"
    using assms press_eq [OF assms(1)] by (cases "key_of p = 8") (simp_all add: key_pressed_def ordinary_def)
  moreover have "t\<lparr>kbd_last := 0\<rparr> = t" using assms(5) by (cases t) simp
  ultimately show ?thesis
    using assms(2,5) release_eq [OF assms(1) p0, of spill] by (auto simp: key_released_def ordinary_def)
qed

lemma strokes_run:
  assumes "cwf s" "settled s" "current_console s = Some k" "spill_ok spill" "kbd_last s = 0"
    and "typed (of_nat n) line (current_input (vterms s ! k))"
    and "\<forall>p\<in>set ps. p < 0x58 \<and> ordinary (key_of p) \<and> key_of p \<noteq> 0x0A"
    and "length line + length ps + 2 \<le> n" "n \<le> 128"
  shows "\<exists>t. input_wait k (concat (map (stroke spill) ps) @ fs) s = input_wait k fs t \<and> keyed k s t
    \<and> typed (of_nat n) (snd (fold edit_key (map key_of ps) (mods (kbd_state s), line))) (current_input (vterms t ! k))"
  using assms
proof (induction ps arbitrary: s line)
  case Nil
  then show ?case by (auto simp: keyed_refl intro!: exI [of _ s])
next
  case (Cons p ps)
  let ?m = "mods (kbd_state s)" and ?raw = "key_of p"
  let ?q = "edit_key ?raw (?m, line)"
  have len: "length (snd ?q) \<le> Suc (length line)" using edit_length [of ?raw "(?m, line)"] by simp
  have p: "p < 0x58" "ordinary ?raw" "?raw \<noteq> 0x0A" using Cons.prems(7) by auto
  obtain bi where bi: "input_step ?m ?raw (current_input (vterms s ! k)) = Some bi" "typed (of_nat n) (snd ?q) bi"
    using typed_step [OF Cons.prems(6) p(3), of ?m] Cons.prems(8,9) by auto
  obtain t where t: "console_inputhandler spill ?raw s = Some t" "keyed k s t"
    "mods (kbd_state t) = mods_step ?raw ?m" "current_input (vterms t ! k) = bi"
    using inputhandler_eq [OF Cons.prems(1-4) bi(1)] by blast
  have tl: "kbd_last t = 0" using t(2) Cons.prems(5) by (simp add: keyed_def)
  obtain u where u: "kbd_isr spill p s = Some u" "vterms u = vterms t" "kbd_isr spill (p OR 0x80) u = Some t"
    using stroke_once [OF p(1,2) Cons.prems(5) t(1) tl] by blast
  have nc: "\<not> complete (current_input (vterms s ! k))" "\<not> complete (current_input (vterms u ! k))"
    using Cons.prems(6) bi(2) t(4) u(2) by (auto simp: typed_def)
  have w: "input_wait k (concat (map (stroke spill) (p # ps)) @ fs) s = input_wait k (concat (map (stroke spill) ps) @ fs) t"
    using wait_more [of s k "kbd_isr spill p" u] wait_more [of u k "kbd_isr spill (p OR 0x80)" t] nc u by (simp add: stroke_def)
  have q: "?q = (mods (kbd_state t), snd ?q)" by (simp add: t(3) edit_key_def)
  have "cwf t" "settled t" "current_console t = Some k" using t(2) Cons.prems(3) by (auto simp: keyed_def)
  moreover have "typed (of_nat n) (snd ?q) (current_input (vterms t ! k))" using bi(2) t(4) by simp
  moreover have "\<forall>p\<in>set ps. p < 0x58 \<and> ordinary (key_of p) \<and> key_of p \<noteq> 0x0A" "length (snd ?q) + length ps + 2 \<le> n"
    using Cons.prems(7,8) len by auto
  ultimately obtain v where
    "input_wait k (concat (map (stroke spill) ps) @ fs) t = input_wait k fs v" "keyed k t v"
    "typed (of_nat n) (snd (fold edit_key (map key_of ps) (mods (kbd_state t), snd ?q))) (current_input (vterms v ! k))"
    using Cons.IH [of t "snd ?q"] Cons.prems(4,9) tl by blast
  note v = this [folded q]
  show ?case using w v keyed_trans [OF t(2) v(2)] by auto
qed

lemma enter_key: "key_of 0x1C = 0x0A" "ordinary (key_of 0x1C)"
  by (simp_all add: key_of_def scan1_normal_def str_bytes_def ordinary_def is_shift_def is_ctrl_def is_alt_def is_fkey_def)

section \<open>Properties\<close>

text \<open>
  C17: from the scancodes of the keyboard controller to the caller of a read: pressing and
  releasing keys (letters, digits, punctuation, space, caps lock, backspace) and then pressing Enter
  delivers the edited line with its newline to the process that reads on the visible
  terminal. The release of Enter is left for later.
\<close>

theorem scancodes_read:
  assumes "cwf s" "settled s" "current_console s = Some k" "proc_con s = Some k" "spill_ok spill" "kbd_last s = 0"
    and "\<forall>p\<in>set ps. p < 0x58 \<and> ordinary (key_of p) \<and> key_of p \<noteq> 0x0A"
    and "length ps + 2 \<le> nat nbytes" "length ps + 2 \<le> 128" "length ps < length buf"
  shows "\<exists>line t. line = snd (fold edit_key (map key_of ps) (mods (kbd_state s), []))
    \<and> console_readline_w (concat (map (stroke spill) ps) @ stroke spill 0x1C @ later) 0 buf nbytes s
      = Some (int (length line) + 1, line @ 0x0A # drop (length line + 1) buf, t, kbd_isr spill 0x9C # later) \<and> cwf t"
proof -
  define n where "n = min 128 (nat nbytes)"
  define line where "line = snd (fold edit_key (map key_of ps) (mods (kbd_state s), []))"
  have n: "length ps + 2 \<le> n" "n \<le> 128" using assms(8,9) by (auto simp: n_def)
  have k: "k < 3" using assms(1,3) by (auto simp: cwf_def)
  note st = started_ok [OF assms(1,2) k, of n]
  have le: "length line \<le> length ps"
    using edit_fold_length [of "map key_of ps" "(mods (kbd_state s), [])"] by (simp add: line_def)
  have z: "0 \<notin> set line" using edit_no_nul [of "(mods (kbd_state s), [])"] by (simp add: line_def)
  let ?later = "kbd_isr spill 0x9C # later"
  obtain t where t: "input_wait k (concat (map (stroke spill) ps) @ kbd_isr spill 0x1C # ?later) (started k n s)
      = input_wait k (kbd_isr spill 0x1C # ?later) t" "keyed k (started k n s) t" "typed (of_nat n) line (current_input (vterms t ! k))"
    using strokes_run [OF st(1,2) _ assms(5) _ st(3) assms(7) _ n(2)] st(4,6,7) assms(3,6) n(1) unfolding line_def by fastforce
  have tw: "cwf t" "settled t" "current_console t = Some k" "proc_con t = Some k" "kbd_last t = 0"
    using t(2) st(4,5,7) assms(3,4,6) by (auto simp: keyed_def)
  have L: "length line + 2 \<le> n" using le n(1) by simp
  obtain u where u: "console_inputhandler spill 0x0A t = Some u" "complete (current_input (vterms u ! k))" "line_ready k n line u"
    using return_key [OF tw(1-3) assms(5) t(3) L n(2) tw(4)] by blast
  have "kbd_isr spill 0x1C t = Some (u\<lparr>kbd_last := 0x0A\<rparr>)"
    using press_eq [of "0x1C" spill t] enter_key u(1) tw(5) by (simp add: key_pressed_def ordinary_def)
  then have "input_wait k (kbd_isr spill 0x1C # ?later) t = Some (u\<lparr>kbd_last := 0x0A\<rparr>, ?later)"
    using wait_done [of t k "kbd_isr spill 0x1C" "u\<lparr>kbd_last := 0x0A\<rparr>" ?later] u(2) t(3) by (simp add: typed_def)
  moreover have "line_ready k n line (u\<lparr>kbd_last := 0x0A\<rparr>)" using u(3) by (auto simp: line_ready_def cwf_def settled_def)
  moreover have "concat (map (stroke spill) ps) @ stroke spill 0x1C @ later = concat (map (stroke spill) ps) @ kbd_isr spill 0x1C # ?later"
    by (simp add: stroke_def)
  moreover have "length line < length buf" using le assms(10) by simp
  ultimately obtain v where "console_readline_w (concat (map (stroke spill) ps) @ stroke spill 0x1C @ later) 0 buf nbytes s
      = Some (int (length line) + 1, line @ 0x0A # drop (length line + 1) buf, v, ?later)" "cwf v"
    using readline_w_ready [OF assms(1,4) n_def _ _ L z, of _ "u\<lparr>kbd_last := 0x0A\<rparr>" ?later buf] t(1) by metis
  then show ?thesis by (intro exI [of _ line] exI [of _ v]) (simp add: line_def)
qed

theorem scancodes_read_witness:
  "\<exists>t. console_readline_w (concat (map (stroke demo_spill) [0x26, 0x1F]) @ stroke demo_spill 0x1C @ []) 0 [0, 0, 0, 0] 128 (demo_console 0)
     = Some (3, [0x6C, 0x73, 0x0A, 0], t, [kbd_isr demo_spill 0x9C])"
proof -
  have k: "key_of 0x26 = 0x6C" "key_of 0x1F = 0x73" by (simp_all add: key_of_def scan1_normal_def str_bytes_def)
  have "snd (fold edit_key (map key_of [0x26, 0x1F]) (mods (kbd_state (demo_console 0)), [])) = [0x6C, 0x73]"
    by (simp add: k demo_fields(5) edit_key_def printable_char_def mods_step_def)
  moreover have "kbd_last (demo_console 0) = 0" by (simp add: demo_console_def)
  moreover have "\<forall>p\<in>set [0x26, 0x1F]. p < 0x58 \<and> ordinary (key_of p) \<and> key_of p \<noteq> 0x0A"
    by (simp add: k ordinary_def is_shift_def is_ctrl_def is_alt_def is_fkey_def)
  ultimately show ?thesis
    using scancodes_read [of "demo_console 0" 0 demo_spill "[0x26, 0x1F]" 128 "[0, 0, 0, 0]" "[]"] demo_ok [of 0] demo_fields demo_spill_ok by auto
qed

text \<open>
  holding an ordinary key other than backspace delivers one character: after the first press every
  further press code of the same key, without a release in between, changes nothing.
\<close>

theorem held_key_once:
  assumes "p < 0x58" "ordinary (key_of p)" "key_of p \<noteq> 0x08" "kbd_isr spill p s = Some t"
  shows "kbd_last t = key_of p \<and> fold (\<lambda>f r. Option.bind r f) (replicate n (kbd_isr spill p)) (Some t) = Some t"
proof -
  have l: "kbd_last t = key_of p"
    using assms press_eq [OF assms(1)] by (auto simp: key_pressed_def ordinary_def split: if_splits)
  then have "kbd_isr spill p t = Some t"
    using assms(2,3) press_eq [OF assms(1), of spill t] by (simp add: key_pressed_def ordinary_def)
  then show ?thesis using l by (induction n) auto
qed

theorem held_key_once_witness:
  "\<exists>s t. kbd_isr demo_spill 0x1E s = Some t \<and> kbd_isr demo_spill 0x1E t = Some t"
proof -
  have k: "key_of 0x1E = 0x61" by (simp add: key_of_def scan1_normal_def str_bytes_def)
  have o: "ordinary (key_of 0x1E)" by (simp add: k ordinary_def is_shift_def is_ctrl_def is_alt_def is_fkey_def)
  let ?f = "\<lambda>c. c\<lparr>current_input := \<lparr>buffer_length = 0, buffer = None, next_pos = 0, complete = True\<rparr>\<rparr>"
  let ?s = "upd_con 0 ?f (demo_console 0)"
  have l: "length (vterms (demo_console 0)) = 3" by (simp add: demo_console_def)
  have "cwf ?s" "settled ?s" using upd_input_wf [of "demo_console 0" 0 ?f] demo_ok [of 0] by simp_all
  moreover have "input_step (mods (kbd_state ?s)) 0x61 (current_input (vterms ?s ! 0)) = Some (current_input (vterms ?s ! 0))"
    using l by (simp add: input_step_def input_char_def printable_char_def)
  ultimately obtain t where "console_inputhandler demo_spill 0x61 ?s = Some t"
    using inputhandler_eq [of ?s 0 demo_spill "0x61"] demo_fields(1) demo_spill_ok by auto
  moreover have "kbd_last ?s = 0" by (simp add: demo_console_def)
  ultimately have "kbd_isr demo_spill 0x1E ?s = Some (t\<lparr>kbd_last := 0x61\<rparr>)"
    using press_eq [of "0x1E" demo_spill ?s] o by (simp add: key_pressed_def ordinary_def k)
  from held_key_once [OF _ o _ this, of 1] show ?thesis using \<open>kbd_isr demo_spill 0x1E ?s = _\<close> by (auto simp: k)
qed

text \<open>
  C31: with Alt held, the function keys F1 to F3 switch to the terminals 0 to 2 and return normally, while
  F4 to F10 read the terminal array out of bounds, because the bound is tested on a negative number.
\<close>

theorem alt_function_keys:
  assumes "cwf s" "settled s" "alt (mods (kbd_state s))" "\<forall>k<3. present (vterms s ! k)" "1 \<le> i" "i \<le> 10"
  shows "if i \<le> 3 then \<exists>t. kbd_isr spill (of_nat (0x3A + i)) s = Some t \<and> cwf t \<and> current_console t = Some (i - 1)
         else kbd_isr spill (of_nat (0x3A + i)) s = None"
proof -
  obtain c where c: "current_console s = Some c" using cwfD(3) [OF assms(1)] by blast
  have len: "length (vterms s) = 3" using cwfD(1) [OF assms(1)] .
  have i: "i \<in> {1, 2, 3, 4, 5, 6, 7, 8, 9, 10}" using assms(5,6) by (simp add: insert_iff) arith
  then have code: "(of_nat (0x3A + i) :: u8) < 0x58" "key_of (of_nat (0x3A + i)) = 0xF0 + of_nat i"
    by (auto simp: key_of_def scan1_normal_def str_bytes_def)
  have kk: "is_fkey (0xF0 + of_nat i)" "\<not> is_shift (0xF0 + of_nat i)" "\<not> is_ctrl (0xF0 + of_nat i)" "\<not> is_alt (0xF0 + of_nat i)"
    "(0xF0 + of_nat i :: u8) \<noteq> 8" "sint (0xF0 + of_nat i :: u8) < 3" "unat (((0xF0 + of_nat i :: u8) AND 0x0F) - 1) = i - 1"
    using i by (auto simp: is_fkey_def is_shift_def is_ctrl_def is_alt_def)
  have e: "kbd_isr spill (of_nat (0x3A + i)) s = fkey_pressed (0xF0 + of_nat i) s"
    using press_eq [OF code(1), of spill s] kk code(2) by (simp add: key_pressed_def)
  show ?thesis
  proof (cases "i \<le> 3")
    case True
    then have "i - 1 < 3" "present (vterms s ! (i - 1))" using assms(4,5) by auto
    then show ?thesis
      using swap_eq [OF assms(1,2) c, of "i - 1"] True kk(6,7) assms(3) len unfolding e
      by (auto simp: fkey_pressed_def MAX_VTERMS_def Let_def)
  next
    case False
    then have "\<not> i - 1 < 3" by simp
    then show ?thesis unfolding e using False kk(6,7) assms(3) len by (simp only: fkey_pressed_def MAX_VTERMS_def Let_def) simp
  qed
qed

theorem alt_function_keys_witness:
  "(\<exists>t. kbd_isr demo_spill 0x3C (set_mods (\<lambda>m. m\<lparr>alt := True\<rparr>) (demo_console 0)) = Some t \<and> current_console t = Some 1)
   \<and> kbd_isr demo_spill 0x3E (set_mods (\<lambda>m. m\<lparr>alt := True\<rparr>) (demo_console 0)) = None"
proof -
  let ?s = "set_mods (\<lambda>m. m\<lparr>alt := True\<rparr>) (demo_console 0)"
  have "cwf ?s" "settled ?s" using demo_ok [of 0] by (auto simp: cwf_def settled_def set_mods_def)
  moreover have "\<forall>k<3. present (vterms ?s ! k)" by (simp add: set_mods_def demo_console_def demo_con_nth del: list.map) (simp add: demo_con_def)
  ultimately show ?thesis
    using alt_function_keys [of ?s 2 demo_spill] alt_function_keys [of ?s 4 demo_spill] by (auto simp: set_mods_def)
qed

end
