(* ===== verification/Idt.thy ===== *)
theory Idt
  imports KLib
begin

text \<open>
  The interrupt descriptor table, \<open>mp3/student-distrib/interrupts.c\<close> (and the descriptor of
  \<open>x86_desc.h\<close>). The table is a list of 256 descriptors; a store outside it is \<open>None\<close>. The addresses
  the linker gives to the handlers are the parameter \<open>addr\<close>. The handlers of the exceptions print a
  message and then stop in a loop; only the one for assertions returns.
\<close>

datatype handler = divide_exception | nmi_handler | bound_exception | invinstr_exception | nomath_exception
  | df_exception | tss_exception | noseg_exception | ss_exception | gp_exception | page_fault | unknown_fault
  | assertion_fault | fpu_exception | unhandled_int | syscall_handler

record idt_desc =
  offset_15_00 :: u16
  seg_selector :: u16
  zero :: u8
  gate_type :: "4 word"
  s_bit :: bool
  dpl :: "2 word"
  gate_present :: bool
  offset_31_16 :: u16

definition NUM_VEC :: nat where "NUM_VEC = 256"
definition KERNEL_SEGMENT :: u16 where "KERNEL_SEGMENT = 0x0010"
definition IDT_DESCRIPTOR_TYPE :: "4 word" where "IDT_DESCRIPTOR_TYPE = 0xE"
definition TRAP_DESCRIPTOR_TYPE :: "4 word" where "TRAP_DESCRIPTOR_TYPE = 0xF"
definition SYSCALL_INT :: nat where "SYSCALL_INT = 0x80"

text \<open>
  \<open>load_int\<close> and \<open>load_trap\<close>: the descriptor is stored not present, then its present bit is set.
\<close>

definition gate :: "4 word \<Rightarrow> u32 \<Rightarrow> u16 \<Rightarrow> u16 \<Rightarrow> idt_desc" where
  "gate type offset seg dp =
     \<lparr>offset_15_00 = ucast (offset AND 0x0000FFFF), seg_selector = seg, zero = 0, gate_type = type, s_bit = False,
      dpl = ucast dp, gate_present = False, offset_31_16 = ucast (drop_bit 16 (offset AND 0xFFFF0000))\<rparr>"

definition load_gate :: "4 word \<Rightarrow> nat \<Rightarrow> u32 \<Rightarrow> u16 \<Rightarrow> u16 \<Rightarrow> idt_desc list \<Rightarrow> idt_desc list option" where
  "load_gate type num offset seg dp idt =
     (case store idt num (gate type offset seg dp) of
        None \<Rightarrow> None
      | Some t \<Rightarrow> store t num ((t ! num)\<lparr>gate_present := True\<rparr>))"

definition load_int :: "nat \<Rightarrow> u32 \<Rightarrow> u16 \<Rightarrow> u16 \<Rightarrow> idt_desc list \<Rightarrow> idt_desc list option" where
  "load_int = load_gate IDT_DESCRIPTOR_TYPE"

definition load_trap :: "nat \<Rightarrow> u32 \<Rightarrow> u16 \<Rightarrow> u16 \<Rightarrow> idt_desc list \<Rightarrow> idt_desc list option" where
  "load_trap = load_gate TRAP_DESCRIPTOR_TYPE"

text \<open>The interrupt gates of \<open>init_idt\<close>, in the order of its calls.\<close>

definition int_gates :: "(nat \<times> handler) list" where
  "int_gates =
     [(0, divide_exception), (1, unknown_fault), (2, nmi_handler), (3, unknown_fault), (4, unknown_fault),
      (5, bound_exception), (6, invinstr_exception), (7, nomath_exception), (8, df_exception), (9, unknown_fault),
      (10, tss_exception), (11, noseg_exception), (12, ss_exception), (13, gp_exception), (14, page_fault),
      (15, assertion_fault), (16, fpu_exception),
      (0x20, unhandled_int), (0x21, unhandled_int), (0x23, unhandled_int), (0x24, unhandled_int), (0x25, unhandled_int),
      (0x26, unhandled_int), (0x27, unhandled_int), (0x28, unhandled_int), (0x29, unhandled_int), (0x2A, unhandled_int),
      (0x2B, unhandled_int), (0x2C, unhandled_int), (0x2D, unhandled_int), (0x2E, unhandled_int), (0x2F, unhandled_int)]"

fun load_ints :: "(handler \<Rightarrow> u32) \<Rightarrow> (nat \<times> handler) list \<Rightarrow> idt_desc list \<Rightarrow> idt_desc list option" where
  "load_ints addr [] idt = Some idt"
| "load_ints addr ((num, h) # gs) idt =
     (case load_int num (addr h) KERNEL_SEGMENT 0 idt of None \<Rightarrow> None | Some t \<Rightarrow> load_ints addr gs t)"

text \<open>The result has the table and the operand of \<open>lidt\<close>: the limit and the address of the table.\<close>

definition init_idt :: "(handler \<Rightarrow> u32) \<Rightarrow> u32 \<Rightarrow> idt_desc list \<Rightarrow> (idt_desc list \<times> u16 \<times> u32) option" where
  "init_idt addr idt_at idt =
     (case load_ints addr int_gates idt of
        None \<Rightarrow> None
      | Some t \<Rightarrow>
          map_option (\<lambda>t2. (t2, of_nat (NUM_VEC * 8 - 1), idt_at))
            (load_trap SYSCALL_INT (addr syscall_handler) KERNEL_SEGMENT 3 t))"

section \<open>The exception handlers\<close>

definition message :: "handler \<Rightarrow> string" where
  "message h =
     (case h of
        divide_exception \<Rightarrow> ''DIVIDE BY 0 EXCEPTION!''
      | nmi_handler \<Rightarrow> ''Non-maskable interrupt!''
      | bound_exception \<Rightarrow> ''BOUND EXCEPTION!''
      | invinstr_exception \<Rightarrow> ''INVALID INSTRUCTION FAULT!''
      | nomath_exception \<Rightarrow> ''NO FPU PRESENT FAULT! (how..?)''
      | df_exception \<Rightarrow> ''DOUBLE FAULT!''
      | tss_exception \<Rightarrow> ''TSS FAULT!''
      | noseg_exception \<Rightarrow> ''NO SEGMENT FAULT!''
      | ss_exception \<Rightarrow> ''STACK SEGMENT FAULT!''
      | gp_exception \<Rightarrow> ''GENERAL PROTECTION FAULT!''
      | page_fault \<Rightarrow> ''PAGE FAULT!''
      | unknown_fault \<Rightarrow> ''UNKNOWN FAULT!''
      | assertion_fault \<Rightarrow> ''ASSERTION FAILED!''
      | fpu_exception \<Rightarrow> ''FPU FAULT!''
      | unhandled_int \<Rightarrow> ''UNHANDLED PIC INTERRUPT!''
      | syscall_handler \<Rightarrow> [])"

text \<open>
  What an exception handler prints (\<open>cr2\<close> is the faulting address the page-fault handler reads,
  \<open>junk\<close> the uninitialised conversion buffer of \<open>printf\<close>) and whether it returns.
\<close>

definition run_handler :: "u8 list \<Rightarrow> u32 \<Rightarrow> handler \<Rightarrow> (u8 list \<times> bool) option" where
  "run_handler junk cr2 h =
     (case printf junk (str_bytes (message h) @ [0x0A, 0]) [] of
        None \<Rightarrow> None
      | Some (out, _) \<Rightarrow>
          (if h = page_fault
           then map_option (\<lambda>(out2, _). (out @ out2, False))
                  (printf junk (str_bytes ''Page fault line: %x'' @ [0x0A, 0]) [Num cr2])
           else Some (out, h = assertion_fault)))"

section \<open>Facts\<close>

text \<open>The address a processor takes from a gate.\<close>

definition gate_offset :: "idt_desc \<Rightarrow> u32" where
  "gate_offset d = push_bit 16 (ucast (offset_31_16 d)) OR ucast (offset_15_00 d)"

definition gate_ok :: "4 word \<Rightarrow> u32 \<Rightarrow> 2 word \<Rightarrow> idt_desc \<Rightarrow> bool" where
  "gate_ok type a dp d \<longleftrightarrow> gate_present d \<and> gate_type d = type \<and> gate_offset d = a \<and> seg_selector d = KERNEL_SEGMENT \<and> dpl d = dp"

lemma bit_halves: "bit (0xFFFF :: u16) n \<longleftrightarrow> n < 16" "bit (0xFFFF :: u32) n \<longleftrightarrow> n < 16" "bit (0xFFFF0000 :: u32) n \<longleftrightarrow> 16 \<le> n \<and> n < 32"
proof -
  have "(0xFFFF :: u32) = mask 16" "(0xFFFF0000 :: u32) = push_bit 16 (mask 16)" by (simp_all add: mask_eq_exp_minus_1)
  note m = this
  have u: "(0xFFFF :: u16) = mask 16" by (simp add: mask_eq_exp_minus_1)
  show "bit (0xFFFF :: u16) n \<longleftrightarrow> n < 16" unfolding u bit_mask_iff by auto
  show "bit (0xFFFF :: u32) n \<longleftrightarrow> n < 16" unfolding m(1) bit_mask_iff by auto
  show "bit (0xFFFF0000 :: u32) n \<longleftrightarrow> 16 \<le> n \<and> n < 32" unfolding m(2) bit_push_bit_iff bit_mask_iff by auto
qed

lemma gate_offset_gate: "gate_offset (gate type a seg dp) = a"
proof (rule bit_eqI)
  fix n
  assume "possible_bit TYPE(32 word) n"
  then have n: "n < 32" by simp
  have lo: "bit (ucast (a AND 0xFFFF) :: u16) j \<longleftrightarrow> j < 16 \<and> bit a j" for j
    by (simp only: bit_unsigned_iff bit_and_iff bit_halves) (auto dest: bit_imp_le_length)
  have hi: "bit (ucast (drop_bit 16 (a AND 0xFFFF0000)) :: u16) j \<longleftrightarrow> j < 16 \<and> bit a (16 + j)" for j
    by (simp only: bit_unsigned_iff bit_drop_bit_eq o_def bit_and_iff bit_halves) (auto dest: bit_imp_le_length)
  show "bit (gate_offset (gate type a seg dp)) n = bit a n"
    using n unfolding gate_offset_def gate_def idt_desc.select_convs
    by (simp only: bit_or_iff bit_push_bit_iff bit_unsigned_iff [where ?'b = 16] lo hi) auto
qed

lemma load_gate_eq:
  "num < length idt \<Longrightarrow> load_gate type num a seg dp idt = Some (idt[num := (gate type a seg dp)\<lparr>gate_present := True\<rparr>])"
  by (simp add: load_gate_def store_def)

lemma load_ints_eq:
  assumes "\<forall>g\<in>set gs. fst g < length idt" "distinct (map fst gs)"
  shows "\<exists>t. load_ints addr gs idt = Some t \<and> length t = length idt
    \<and> (\<forall>i. i \<notin> fst ` set gs \<longrightarrow> t ! i = idt ! i)
    \<and> (\<forall>(num, h)\<in>set gs. gate_ok IDT_DESCRIPTOR_TYPE (addr h) 0 (t ! num))"
  using assms
proof (induction gs arbitrary: idt)
  case (Cons g gs)
  obtain num h where g: "g = (num, h)" by (cases g)
  let ?d = "(gate IDT_DESCRIPTOR_TYPE (addr h) KERNEL_SEGMENT 0)\<lparr>gate_present := True\<rparr>"
  have n: "num < length idt" "num \<notin> fst ` set gs" using Cons.prems g by auto
  obtain t where t: "load_ints addr gs (idt[num := ?d]) = Some t" "length t = length idt"
    "\<forall>i. i \<notin> fst ` set gs \<longrightarrow> t ! i = idt[num := ?d] ! i"
    "\<forall>(num, h)\<in>set gs. gate_ok IDT_DESCRIPTOR_TYPE (addr h) 0 (t ! num)"
    using Cons.IH [of "idt[num := ?d]"] Cons.prems by auto
  have "gate_ok IDT_DESCRIPTOR_TYPE (addr h) 0 (t ! num)"
    using t(3) n gate_offset_gate [of IDT_DESCRIPTOR_TYPE "addr h" KERNEL_SEGMENT 0]
    by (simp add: gate_ok_def gate_offset_def gate_def)
  moreover have "load_ints addr (g # gs) idt = Some t"
    using t(1) n(1) by (simp add: g load_int_def load_gate_eq)
  ultimately show ?case using t g by auto
qed simp

section \<open>Properties\<close>

text \<open>
  \<open>init_idt\<close> fills a table of 256 descriptors without an access out of bounds. Every vector it
  loads has a present gate into the kernel segment whose two offset halves give back the
  handler's address: interrupt gates of privilege 0 for the exceptions 0 to 16 and the lines of the
  interrupt controllers, and a trap gate of privilege 3 for the system-call vector. Every other
  descriptor is as it was; vector \<open>0x22\<close> is one of them, although the lines are said to be all loaded.
\<close>

theorem init_idt_gates:
  assumes "length idt = NUM_VEC"
  shows "\<exists>t. init_idt addr at idt = Some (t, 2047, at) \<and> length t = NUM_VEC
    \<and> (\<forall>(num, h)\<in>set int_gates. gate_ok IDT_DESCRIPTOR_TYPE (addr h) 0 (t ! num))
    \<and> gate_ok TRAP_DESCRIPTOR_TYPE (addr syscall_handler) 3 (t ! 0x80)
    \<and> (\<forall>i. i \<notin> {0..16} \<union> ({0x20..0x2F} - {0x22}) \<union> {0x80} \<longrightarrow> t ! i = idt ! i)"
proof -
  have g: "\<forall>g\<in>set int_gates. fst g < length idt" "distinct (map fst int_gates)" using assms by (simp_all add: int_gates_def NUM_VEC_def)
  obtain t where t: "load_ints addr int_gates idt = Some t" "length t = length idt"
    "\<forall>i. i \<notin> fst ` set int_gates \<longrightarrow> t ! i = idt ! i" "\<forall>(num, h)\<in>set int_gates. gate_ok IDT_DESCRIPTOR_TYPE (addr h) 0 (t ! num)"
    using load_ints_eq [OF g, of addr] by blast
  let ?d = "(gate TRAP_DESCRIPTOR_TYPE (addr syscall_handler) KERNEL_SEGMENT 3)\<lparr>gate_present := True\<rparr>"
  have r: "init_idt addr at idt = Some (t[0x80 := ?d], 2047, at)"
    using t(1,2) assms by (simp add: init_idt_def load_trap_def load_gate_eq SYSCALL_INT_def NUM_VEC_def)
  have s: "fst ` set int_gates \<subseteq> {0..16} \<union> ({0x20..0x2F} - {0x22})" "0x80 \<notin> fst ` set int_gates"
    by (simp_all add: int_gates_def)
  have "t[0x80 := ?d] ! i = idt ! i" if "i \<notin> {0..16} \<union> ({0x20..0x2F} - {0x22}) \<union> {0x80}" for i
  proof -
    have "i \<notin> fst ` set int_gates" using that s(1) by blast
    then show ?thesis using t(3) that by simp
  qed
  moreover have "gate_ok IDT_DESCRIPTOR_TYPE (addr h) 0 (t[0x80 := ?d] ! num)" if "(num, h) \<in> set int_gates" for num h
    using that s(2) t(4) by (subst nth_list_update_neq) force+
  moreover have "gate_ok TRAP_DESCRIPTOR_TYPE (addr syscall_handler) 3 (t[0x80 := ?d] ! 0x80)"
    using t(2) assms gate_offset_gate [of TRAP_DESCRIPTOR_TYPE "addr syscall_handler" KERNEL_SEGMENT 3]
    by (simp add: gate_ok_def gate_offset_def gate_def NUM_VEC_def)
  ultimately show ?thesis using r t(2) assms by (intro exI [of _ "t[0x80 := ?d]"]) fastforce
qed

theorem init_idt_gates_witness:
  "\<exists>t. init_idt (\<lambda>_. 0x00401234) 0x1000 (replicate 256 (gate 0 0 0 0)) = Some (t, 2047, 0x1000)
     \<and> gate_offset (t ! 0x80) = 0x00401234"
  using init_idt_gates [of "replicate 256 (gate 0 0 0 0)" "\<lambda>_. 0x00401234" "0x1000"] by (auto simp: NUM_VEC_def gate_ok_def)

end
