(* ===== verification/Syscall.thy ===== *)
theory Syscall
  imports Kernel Keyboard Idt
begin

text \<open>
  The system-call layer, \<open>mp3/student-distrib/syscall.c\<close>, with \<open>rtc_open\<close> of \<open>rtc.c\<close>: the jump table and
  its dispatcher, the four file operations that go through a descriptor's operation table, \<open>getargs\<close>
  and the video mapping. The state is the whole machine: kernel, console and clock. The
  console sees the terminal of the current process. A NULL operation table, a missing current
  process or a descriptor outside the file array is \<open>None\<close>.
\<close>

record machine =
  kern :: kstate
  cons :: cstate
  clock :: rtc

text \<open>What the surroundings supply while a call runs: the interrupts and what the clock's registers read.\<close>

record world =
  keyboard :: "isr list"
  ticks :: "bool list"
  reg_a :: u8
  spill_of :: spill

definition cur_process :: "machine \<Rightarrow> nat option" where
  "cur_process m = cur_pcb (kern m)"

definition cur_files :: "machine \<Rightarrow> filedesc list option" where
  "cur_files m = map_option (\<lambda>n. file_array (pcbs (kern m) n)) (cur_process m)"

definition set_files :: "filedesc list \<Rightarrow> machine \<Rightarrow> machine" where
  "set_files fa m =
     (case cur_process m of None \<Rightarrow> m
      | Some n \<Rightarrow> m\<lparr>kern := update_pcb n (\<lambda>p. p\<lparr>file_array := fa\<rparr>) (kern m)\<rparr>)"

definition proc_console :: "machine \<Rightarrow> cstate" where
  "proc_console m = (cons m)\<lparr>proc_con := map_option (\<lambda>n. nat (con (pcbs (kern m) n))) (cur_process m)\<rparr>"

section \<open>The jump table\<close>

datatype syscall = SysHalt | SysExecute | SysRead | SysWrite | SysOpen | SysClose | SysGetargs | SysVidmap

type_synonym jumptbl = "syscall option list"

text \<open>\<open>syscall_add\<close>: index 16 passes the test of a table of 16 entries.\<close>

definition syscall_add :: "nat \<Rightarrow> syscall option \<Rightarrow> jumptbl \<Rightarrow> (int \<times> jumptbl) option" where
  "syscall_add i fx tbl =
     (if i > 16 then Some (1, tbl) else map_option (Pair 0) (store tbl i fx))"

definition syscall_init :: "jumptbl \<Rightarrow> int \<times> jumptbl" where
  "syscall_init tbl =
     (0, tbl[1 := Some SysHalt, 2 := Some SysExecute, 3 := Some SysRead, 4 := Some SysWrite,
             5 := Some SysOpen, 6 := Some SysClose, 7 := Some SysGetargs, 8 := Some SysVidmap])"

text \<open>The assembly of \<open>syscall_handler\<close>: the function to call, or \<open>None\<close> for the return value \<open>-1\<close>.\<close>

definition dispatch :: "u32 \<Rightarrow> jumptbl \<Rightarrow> syscall option" where
  "dispatch eax tbl = (if sint eax \<le> 0 then None else if sint eax > 10 then None else tbl ! unat eax)"

section \<open>Files\<close>

definition fill_buf :: "u8 list \<Rightarrow> u8 list \<Rightarrow> u8 list option" where
  "fill_buf bytes buf = (if length bytes \<le> length buf then Some (bytes @ drop (length bytes) buf) else None)"

definition read_op :: "world \<Rightarrow> file_optbl \<Rightarrow> int \<Rightarrow> u8 list \<Rightarrow> int \<Rightarrow> machine \<Rightarrow> (int \<times> u8 list \<times> machine) option" where
  "read_op w tbl fd buf nbytes m =
     do { fa \<leftarrow> cur_files m;
          let k = kern m;
          case tbl of
            RegfileOptbl \<Rightarrow> do { (bytes, fa') \<leftarrow> file_read (image k) (filesys_addr k) fd nbytes fa;
                                 buf' \<leftarrow> fill_buf bytes buf;
                                 Some (int (length bytes), buf', set_files fa' m) }
          | DirOptbl \<Rightarrow> do { (v, buf', fa') \<leftarrow> dir_read (image k) (filesys_addr k) fd buf nbytes fa;
                             Some (v, buf', set_files fa' m) }
          | RtcOptbl \<Rightarrow> do { (v, r, _) \<leftarrow> rtc_read (ticks w) (clock m); Some (v, buf, m\<lparr>clock := r\<rparr>) }
          | StdioOptbl \<Rightarrow> do { (v, buf', c, _) \<leftarrow> console_readline_w (keyboard w) fd buf nbytes (proc_console m);
                               Some (v, buf', m\<lparr>cons := c\<rparr>) } }"

text \<open>The clock is set from the 32-bit little-endian value at the buffer.\<close>

definition int32_at :: "u8 list \<Rightarrow> int option" where
  "int32_at buf =
     (if 4 \<le> length buf
      then Some (sint (ucast (buf ! 0) OR push_bit 8 (ucast (buf ! 1)) OR push_bit 16 (ucast (buf ! 2)) OR push_bit 24 (ucast (buf ! 3)) :: u32))
      else None)"

definition write_op :: "world \<Rightarrow> file_optbl \<Rightarrow> int \<Rightarrow> u8 list \<Rightarrow> int \<Rightarrow> machine \<Rightarrow> (int \<times> machine) option" where
  "write_op w tbl fd buf nbytes m =
     (case tbl of
        RegfileOptbl \<Rightarrow> Some (file_write fd buf nbytes, m)
      | DirOptbl \<Rightarrow> Some (dir_write fd buf nbytes, m)
      | RtcOptbl \<Rightarrow>
          (if nbytes \<noteq> 4 then Some (-1, m)
           else do { f \<leftarrow> int32_at buf;
                     let (v, p, _) = rtc_write (Some f) nbytes (reg_a w) (rtc_pic (clock m));
                     Some (v, m\<lparr>clock := (clock m)\<lparr>rtc_pic := p\<rparr>\<rparr>) })
      | StdioOptbl \<Rightarrow> do { (v, c) \<leftarrow> console_write_w (spill_of w) fd buf nbytes (proc_console m); Some (v, m\<lparr>cons := c\<rparr>) })"

definition close_op :: "file_optbl \<Rightarrow> int \<Rightarrow> filedesc list \<Rightarrow> int \<times> filedesc list" where
  "close_op tbl fd fa =
     (case tbl of
        RegfileOptbl \<Rightarrow> file_close fd fa
      | DirOptbl \<Rightarrow> dir_close fd fa
      | RtcOptbl \<Rightarrow> (rtc_close fd, fa)
      | StdioOptbl \<Rightarrow> (console_close fd, fa))"

definition sys_read :: "world \<Rightarrow> int \<Rightarrow> u8 list \<Rightarrow> int \<Rightarrow> machine \<Rightarrow> (int \<times> u8 list \<times> machine) option" where
  "sys_read w fd buf nbytes m =
     do { fa \<leftarrow> cur_files m;
          f \<leftarrow> syscall_getfdptr fa fd;
          if \<not> in_use f then Some (-1, buf, m)
          else do { tbl \<leftarrow> optbl f; read_op w tbl fd buf nbytes m } }"

definition sys_write :: "world \<Rightarrow> int \<Rightarrow> u8 list \<Rightarrow> int \<Rightarrow> machine \<Rightarrow> (int \<times> machine) option" where
  "sys_write w fd buf nbytes m =
     do { fa \<leftarrow> cur_files m;
          f \<leftarrow> syscall_getfdptr fa fd;
          if \<not> in_use f then Some (-1, m)
          else do { tbl \<leftarrow> optbl f; write_op w tbl fd buf nbytes m } }"

definition sys_close :: "int \<Rightarrow> machine \<Rightarrow> (int \<times> machine) option" where
  "sys_close fd m =
     do { fa \<leftarrow> cur_files m;
          f \<leftarrow> syscall_getfdptr fa fd;
          if \<not> in_use f then Some (-1, m)
          else do { tbl \<leftarrow> optbl f;
                    let (v, fa') = close_op tbl fd fa;
                    Some (if v = -1 then (-1, set_files fa' m)
                          else (0, set_files (fa'[nat fd := (fa' ! nat fd)\<lparr>in_use := False\<rparr>]) m)) } }"

definition rtc_open :: "world \<Rightarrow> machine \<Rightarrow> (int \<times> machine) option" where
  "rtc_open w m =
     do { fa \<leftarrow> cur_files m;
          case get_free_fd fa of
            None \<Rightarrow> Some (-1, m)
          | Some n \<Rightarrow>
              (let m1 = set_files (fa[n := (fa ! n)\<lparr>in_use := True, optbl := Some RtcOptbl\<rparr>]) m;
                   (v, p, _) = rtc_set_frequency 2 (reg_a w) (rtc_pic (clock m1))
               in Some (int n, m1\<lparr>clock := (clock m1)\<lparr>rtc_pic := p\<rparr>\<rparr>)) }"

text \<open>\<open>open\<close>; \<open>None\<close> as the file name stands for NULL.\<close>

definition sys_open :: "world \<Rightarrow> u8 list option \<Rightarrow> machine \<Rightarrow> (int \<times> machine) option" where
  "sys_open w filename m =
     (case filename of
        None \<Rightarrow> Some (-1, m)
      | Some name \<Rightarrow>
          do { fa \<leftarrow> cur_files m;
               let k = kern m;
               r \<leftarrow> read_dentry_by_name (image k) (filesys_addr k) name;
               case r of
                 None \<Rightarrow> Some (-1, m)
               | Some d \<Rightarrow>
                   (if ftype d = 0 then rtc_open w m
                    else if ftype d = 1
                    then do { (v, fa') \<leftarrow> dir_open (image k) (filesys_addr k) name fa; Some (v, set_files fa' m) }
                    else if ftype d = 2
                    then do { (v, fa') \<leftarrow> file_open (image k) (filesys_addr k) name fa; Some (v, set_files fa' m) }
                    else Some (-1, m)) })"

section \<open>Arguments and video memory\<close>

text \<open>\<open>getargs\<close> on a user buffer given by its address and contents.\<close>

definition getargs :: "u32 \<Rightarrow> u8 list \<Rightarrow> int \<Rightarrow> machine \<Rightarrow> (int \<times> u8 list) option" where
  "getargs at buf nbytes m =
     (if at = 0 \<or> nbytes = 0 \<or> at < USER_LOC \<or> at > USER_LOC + MB_8 div 2 then Some (-1, buf)
      else do { n \<leftarrow> cur_process m;
                len \<leftarrow> strlen (args (pcbs (kern m) n));
                if len = 0 \<or> nbytes < int len then Some (-1, buf)
                else if nat nbytes \<le> length buf
                then map_option (Pair 0) (strncpy (replicate (nat nbytes) 0 @ drop (nat nbytes) buf) (args (pcbs (kern m) n)) len)
                else None })"

text \<open>\<open>vidmap\<close>: the result, what is stored at \<open>screen_start\<close> (\<open>None\<close> when nothing is) and the new state.\<close>

definition vidmap :: "u32 \<Rightarrow> machine \<Rightarrow> (int \<times> u32 option \<times> machine) option" where
  "vidmap screen_start m =
     (if screen_start = 0 \<or> screen_start = VIDEO_LOC \<or> screen_start = KENREL_LOC then Some (-1, None, m)
      else do { n \<leftarrow> cur_process m;
                let k = kern m;
                let p = pid (pcbs k n);
                if 0 \<le> p \<and> nat p < length (vmem_table2 (kpaging k))
                then (let k1 = k\<lparr>kpaging := (kpaging k)\<lparr>vmem_table2 :=
                              (vmem_table2 (kpaging k))[nat p := (VIDEO_LOC + VMEMPT_BITS) OR 4]\<rparr>\<rparr>
                      in if vidmap_check (pcbs k1 n) then Some (-1, None, m\<lparr>kern := k1\<rparr>)
                         else Some (0, Some (USER_LOC - MB_8 + of_int p * 0x1000),
                                    m\<lparr>kern := update_pcb n (\<lambda>q. q\<lparr>vidmap_check := True\<rparr>) k1\<rparr>))
                else None })"

definition nonactive_vidmap :: "u32 \<Rightarrow> machine \<Rightarrow> (int \<times> machine) option" where
  "nonactive_vidmap target m =
     (if target = 0 then Some (-1, m)
      else do { n \<leftarrow> cur_process m;
                let k = kern m;
                let p = pid (pcbs k n);
                if 0 \<le> p \<and> nat p < length (vmem_table2 (kpaging k))
                then Some (0, m\<lparr>kern := k\<lparr>kpaging := (kpaging k)\<lparr>vmem_table2 :=
                       (vmem_table2 (kpaging k))[nat p := ((target AND ADDR_MASK) + VMEMPT_BITS) OR 4]\<rparr>\<rparr>\<rparr>)
                else None })"

section \<open>Halt on the machine\<close>

text \<open>\<open>halt\<close> clears the screen before it restarts a process without a parent.\<close>

definition sys_halt :: "layout \<Rightarrow> exec_regs \<Rightarrow> task \<Rightarrow> machine \<Rightarrow> (outcome \<times> cstate) option" where
  "sys_halt l rg fresh m =
     do { c \<leftarrow> cur_process m;
          cs \<leftarrow> (if parent_pid (pcbs (kern m) c) = -1 \<or> pid (pcbs (kern m) c) = 0 then console_clrsc (cons m) else Some (cons m));
          out \<leftarrow> halt l rg fresh (kern m);
          Some (out, cs) }"

section \<open>The descriptor table\<close>

text \<open>
  Between calls the two standard descriptors are in use, every descriptor in use has its
  operations, and no other descriptor is the console.
\<close>

definition files_ok :: "filedesc list \<Rightarrow> bool" where
  "files_ok fa \<longleftrightarrow> length fa = 8
     \<and> (\<forall>i<8. in_use (fa ! i) \<longrightarrow> optbl (fa ! i) \<noteq> None \<and> (optbl (fa ! i) = Some StdioOptbl \<longleftrightarrow> i < 2))
     \<and> in_use (fa ! 0) \<and> in_use (fa ! 1)"

definition mfiles_ok :: "machine \<Rightarrow> bool" where
  "mfiles_ok m \<longleftrightarrow> (\<exists>fa. cur_files m = Some fa \<and> files_ok fa)"

lemma set_files_sel [simp]:
  "cur_process (set_files fa m) = cur_process m" "cons (set_files fa m) = cons m" "clock (set_files fa m) = clock m"
  "image (kern (set_files fa m)) = image (kern m)" "filesys_addr (kern (set_files fa m)) = filesys_addr (kern m)"
  "cur_files m = Some fa0 \<Longrightarrow> cur_files (set_files fa m) = Some fa"
  by (auto simp: set_files_def cur_process_def cur_files_def update_pcb_def split: option.splits)

lemma clock_files [simp]: "cur_files (m\<lparr>clock := r\<rparr>) = cur_files m" "cur_files (m\<lparr>cons := c\<rparr>) = cur_files m"
  by (simp_all add: cur_files_def cur_process_def)

lemma set_same_files: "cur_files m = Some fa \<Longrightarrow> set_files fa m = m"
  by (auto simp: cur_files_def set_files_def update_pcb_def cur_process_def)

lemma files_ok_close:
  assumes "files_ok fa" "2 \<le> n" "n < 8"
  shows "files_ok (fa[n := (fa ! n)\<lparr>in_use := False\<rparr>])"
  using assms by (auto simp: files_ok_def nth_list_update)

lemma files_ok_open:
  assumes "files_ok fa" "get_free_fd fa = Some n" "in_use f" "optbl f \<noteq> None" "optbl f \<noteq> Some StdioOptbl"
  shows "files_ok (fa[n := f])"
  using assms get_free_fd_Some(1,2) [OF assms(2)] by (auto simp: files_ok_def nth_list_update)

lemma files_ok_pos:
  assumes "files_ok fa" "i < 8"
  shows "files_ok (fa[i := (fa ! i)\<lparr>fd_pos := p\<rparr>])"
  using assms by (auto simp: files_ok_def nth_list_update)

lemma close_cases:
  assumes "cur_files m = Some fa" "files_ok fa" "0 \<le> fd" "fd < 8"
  shows "sys_close fd m =
    (if fd < 2 \<or> \<not> in_use (fa ! nat fd) then Some (-1, m)
     else Some (0, set_files (fa[nat fd := (fa ! nat fd)\<lparr>in_use := False\<rparr>]) m))"
proof -
  have n: "nat fd < 8" "fd = int (nat fd)" "length fa = 8" using assms by (auto simp: files_ok_def)
  have g: "syscall_getfdptr fa fd = Some (fa ! nat fd)" using n assms(3) by (simp add: syscall_getfdptr_def)
  show ?thesis
  proof (cases "in_use (fa ! nat fd)")
    case True
    then obtain tbl where t: "optbl (fa ! nat fd) = Some tbl" "tbl = StdioOptbl \<longleftrightarrow> nat fd < 2"
      using assms(2) n by (auto simp: files_ok_def)
    have "\<not> bad_close_fd fd" if "\<not> fd < 2" using that assms(3,4) by (simp add: bad_close_fd_def)
    then show ?thesis
      using True t g assms n set_same_files [OF assms(1)]
      by (cases tbl) (auto simp: sys_close_def close_op_def file_close_def dir_close_def rtc_close_def console_close_def Let_def)
  qed (use g assms in \<open>simp add: sys_close_def\<close>)
qed

lemma rtc_open_cases:
  assumes "cur_files m = Some fa"
  shows "\<exists>r. rtc_open w m = Some (case get_free_fd fa of None \<Rightarrow> (-1, m)
    | Some n \<Rightarrow> (int n, (set_files (fa[n := (fa ! n)\<lparr>in_use := True, optbl := Some RtcOptbl\<rparr>]) m)\<lparr>clock := r\<rparr>))"
  using assms by (auto simp: rtc_open_def case_prod_unfold Let_def split: option.splits)

text \<open>Opening a file that exists takes the lowest free descriptor, whatever the kind of the file.\<close>

lemma open_cases:
  assumes "cur_files m = Some fa" "files_ok fa"
    and "read_dentry_by_name (image (kern m)) (filesys_addr (kern m)) name = Some (Some d)" "ftype d < 3"
  shows "case get_free_fd fa of
      None \<Rightarrow> sys_open w (Some name) m = Some (-1, m)
    | Some n \<Rightarrow> \<exists>f r. sys_open w (Some name) m = Some (int n, (set_files (fa[n := f]) m)\<lparr>clock := r\<rparr>)
        \<and> in_use f \<and> optbl f \<noteq> None \<and> optbl f \<noteq> Some StdioOptbl
        \<and> (ftype d = 2 \<longrightarrow> f = (fa ! n)\<lparr>in_use := True, optbl := Some RegfileOptbl, fd_inode := inode_num d, fd_pos := 0\<rparr> \<and> r = clock m)"
proof -
  have e: "(set_files x m)\<lparr>clock := clock m\<rparr> = set_files x m" for x
    using set_files_sel(3) [of x m] by (metis machine.surjective machine.update_convs(3))
  consider "ftype d = 0" | "ftype d = 1" | "ftype d = 2" using assms(4) by linarith
  then show ?thesis
  proof cases
    case 1
    then show ?thesis
      using rtc_open_cases [OF assms(1), of w] assms by (auto simp: sys_open_def split: option.splits)
  next
    case 2
    let ?f = "\<lambda>n. (fa ! n)\<lparr>in_use := True, optbl := Some DirOptbl\<rparr>"
    have "sys_open w (Some name) m = Some (case get_free_fd fa of None \<Rightarrow> (-1, m) | Some n \<Rightarrow> (int n, set_files (fa[n := ?f n]) m))"
      using 2 assms set_same_files [OF assms(1)] by (simp add: sys_open_def dir_open_def Let_def split: option.split)
    then show ?thesis
    proof (cases "get_free_fd fa")
      case (Some n)
      then show ?thesis
        using 2 e [of "fa[n := ?f n]"] \<open>sys_open w (Some name) m = _\<close> by (auto intro!: exI [of _ "?f n"] exI [of _ "clock m"])
    qed simp
  next
    case 3
    let ?f = "\<lambda>n. (fa ! n)\<lparr>in_use := True, optbl := Some RegfileOptbl, fd_inode := inode_num d, fd_pos := 0\<rparr>"
    have "sys_open w (Some name) m = Some (case get_free_fd fa of None \<Rightarrow> (-1, m) | Some n \<Rightarrow> (int n, set_files (fa[n := ?f n]) m))"
      using 3 assms set_same_files [OF assms(1)] by (simp add: sys_open_def file_open_def Let_def split: option.split)
    then show ?thesis
    proof (cases "get_free_fd fa")
      case (Some n)
      then show ?thesis
        using e [of "fa[n := ?f n]"] \<open>sys_open w (Some name) m = _\<close> by (auto intro!: exI [of _ "?f n"] exI [of _ "clock m"])
    qed simp
  qed
qed

section \<open>Descriptors as slots\<close>

text \<open>
  The open and close calls of one process on a file of the image allocate slots 2 to 7 of its table: a
  failed open is no slot.
\<close>

definition open_slot :: "world \<Rightarrow> u8 list \<Rightarrow> machine \<Rightarrow> (nat \<times> machine) option" where
  "open_slot w name m =
     (case sys_open w (Some name) m of None \<Rightarrow> None | Some (v, m') \<Rightarrow> if v = -1 then None else Some (nat v, m'))"

definition close_slot :: "nat \<Rightarrow> machine \<Rightarrow> machine" where
  "close_slot i m = (case sys_close (int i) m of None \<Rightarrow> m | Some (v, m') \<Rightarrow> m')"

definition open_fds :: "machine \<Rightarrow> nat set" where
  "open_fds m = {i. 2 \<le> i \<and> i < 8 \<and> (\<exists>fa. cur_files m = Some fa \<and> in_use (fa ! i))}"

definition can_open :: "u8 list \<Rightarrow> machine \<Rightarrow> bool" where
  "can_open name m \<longleftrightarrow> mfiles_ok m
     \<and> (\<exists>d. read_dentry_by_name (image (kern m)) (filesys_addr (kern m)) name = Some (Some d) \<and> ftype d < 3)"

lemma open_slot_cases:
  assumes "can_open name m" "open_slot w name m = Some (i, m')"
  shows "\<exists>fa f. cur_files m = Some fa \<and> get_free_fd fa = Some i \<and> cur_files m' = Some (fa[i := f]) \<and> in_use f
    \<and> files_ok fa \<and> files_ok (fa[i := f]) \<and> can_open name m'"
proof -
  obtain fa d where fa: "cur_files m = Some fa" "files_ok fa"
    and d: "read_dentry_by_name (image (kern m)) (filesys_addr (kern m)) name = Some (Some d)" "ftype d < 3"
    using assms(1) by (auto simp: can_open_def mfiles_ok_def)
  note c = open_cases [OF fa d, of w]
  obtain n where n: "get_free_fd fa = Some n" using c assms(2) by (cases "get_free_fd fa") (auto simp: open_slot_def)
  then obtain f r where f: "sys_open w (Some name) m = Some (int n, (set_files (fa[n := f]) m)\<lparr>clock := r\<rparr>)"
    "in_use f" "optbl f \<noteq> None" "optbl f \<noteq> Some StdioOptbl" using c by auto
  have ok: "files_ok (fa[n := f])" using files_ok_open [OF fa(2) n f(2-4)] .
  have im: "i = n" "m' = (set_files (fa[n := f]) m)\<lparr>clock := r\<rparr>" using assms(2) f(1) by (auto simp: open_slot_def)
  show ?thesis using im n fa ok f(2) d by (auto simp: can_open_def mfiles_ok_def)
qed

lemma open_slot_None:
  assumes "can_open name m"
  shows "open_slot w name m = None \<longleftrightarrow> open_fds m = {2..<8}"
proof -
  obtain fa d where fa: "cur_files m = Some fa" "files_ok fa"
    and d: "read_dentry_by_name (image (kern m)) (filesys_addr (kern m)) name = Some (Some d)" "ftype d < 3"
    using assms(1) by (auto simp: can_open_def mfiles_ok_def)
  have "open_slot w name m = None \<longleftrightarrow> get_free_fd fa = None"
    using open_cases [OF fa d, of w] by (cases "get_free_fd fa") (auto simp: open_slot_def)
  moreover have "open_fds m = {2..<8} \<longleftrightarrow> (\<forall>k. 2 \<le> k \<and> k < 8 \<longrightarrow> in_use (fa ! k))"
    using fa(1) unfolding open_fds_def by (simp add: set_eq_iff) blast
  ultimately show ?thesis by (simp only: get_free_fd_None)
qed

lemma close_slot_files:
  assumes "can_open name m" "i \<in> {2..<8}"
  shows "\<exists>fa. cur_files m = Some fa \<and> files_ok fa \<and> cur_files (close_slot i m) = Some (fa[i := (fa ! i)\<lparr>in_use := False\<rparr>])
    \<and> can_open name (close_slot i m)"
proof -
  obtain fa where fa: "cur_files m = Some fa" "files_ok fa" using assms(1) by (auto simp: can_open_def mfiles_ok_def)
  have "fa[i := (fa ! i)\<lparr>in_use := False\<rparr>] = fa" if "\<not> in_use (fa ! i)"
  proof -
    have "(fa ! i)\<lparr>in_use := False\<rparr> = fa ! i" using that by (cases "fa ! i") simp
    then show ?thesis by simp
  qed
  then have "close_slot i m = set_files (fa[i := (fa ! i)\<lparr>in_use := False\<rparr>]) m"
    using close_cases [OF fa, of "int i"] assms(2) set_same_files [OF fa(1)] by (cases "in_use (fa ! i)") (simp_all add: close_slot_def)
  moreover have "files_ok (fa[i := (fa ! i)\<lparr>in_use := False\<rparr>])" using files_ok_close [OF fa(2), of i] assms(2) by simp
  ultimately show ?thesis
    using fa assms(1) by (simp add: can_open_def mfiles_ok_def)
qed

interpretation fds: slot_allocator "open_slot w name" close_slot open_fds "can_open name" 2 8
proof
  fix s s' :: machine and i k :: nat
  assume c: "can_open name s"
  show "open_fds s \<subseteq> {2..<8}" by (auto simp: open_fds_def)
  show "open_slot w name s = None \<longleftrightarrow> open_fds s = {2..<8}" using open_slot_None [OF c] .
  {
    assume o: "open_slot w name s = Some (i, s')"
    obtain fa f where f: "cur_files s = Some fa" "get_free_fd fa = Some i" "cur_files s' = Some (fa[i := f])" "in_use f"
      "can_open name s'" "length fa = 8"
      using open_slot_cases [OF c o] by (auto simp: files_ok_def)
    note g = get_free_fd_Some [OF f(2)]
    show "i \<in> {2..<8} - open_fds s" "can_open name s'" using f g by (auto simp: open_fds_def)
    show "k \<in> open_fds s" if "2 \<le> k" "k < i" using that f(1) g by (auto simp: open_fds_def)
    show "open_fds s' = insert i (open_fds s)" using f g by (auto simp: open_fds_def nth_list_update)
  }
  assume i: "i \<in> {2..<8}"
  obtain fa where "cur_files s = Some fa" "files_ok fa" "cur_files (close_slot i s) = Some (fa[i := (fa ! i)\<lparr>in_use := False\<rparr>])"
    "can_open name (close_slot i s)"
    using close_slot_files [OF c i] by blast
  then show "open_fds (close_slot i s) = open_fds s - {i}" "can_open name (close_slot i s)"
    using i by (auto simp: open_fds_def files_ok_def nth_list_update)
qed

section \<open>Sequences of file calls\<close>

datatype file_call = Open "u8 list option" | Read int "u8 list" int | Write int "u8 list" int | Close int

definition file_call :: "world \<Rightarrow> file_call \<Rightarrow> machine \<Rightarrow> machine option" where
  "file_call w c m =
     (case c of
        Open name \<Rightarrow> map_option snd (sys_open w name m)
      | Read fd buf nbytes \<Rightarrow> map_option (snd \<circ> snd) (sys_read w fd buf nbytes m)
      | Write fd buf nbytes \<Rightarrow> map_option snd (sys_write w fd buf nbytes m)
      | Close fd \<Rightarrow> map_option snd (sys_close fd m))"

fun file_calls :: "(world \<times> file_call) list \<Rightarrow> machine \<Rightarrow> machine option" where
  "file_calls [] m = Some m"
| "file_calls ((w, c) # cs) m = Option.bind (file_call w c m) (file_calls cs)"

text \<open>A descriptor outside the array: the code computes the address of an entry that is not there.\<close>

lemma bad_descriptor:
  assumes "mfiles_ok m" "fd < 0 \<or> 8 \<le> fd"
  shows "sys_read w fd buf n m = None" "sys_write w fd buf n m = None" "sys_close fd m = None"
proof -
  obtain fa where fa: "cur_files m = Some fa" "length fa = 8" using assms(1) by (auto simp: mfiles_ok_def files_ok_def)
  have "syscall_getfdptr fa fd = None" using assms(2) fa(2) by (auto simp: syscall_getfdptr_def)
  then show "sys_read w fd buf n m = None" "sys_write w fd buf n m = None" "sys_close fd m = None"
    using fa(1) by (simp_all add: sys_read_def sys_write_def sys_close_def)
qed

lemma read_files:
  assumes "mfiles_ok m" "0 \<le> fd" "fd < 8" "sys_read w fd buf nbytes m = Some (v, buf', m')"
  shows "mfiles_ok m'"
proof -
  obtain fa where fa: "cur_files m = Some fa" "files_ok fa" using assms(1) by (auto simp: mfiles_ok_def)
  have n: "nat fd < 8" "length fa = 8" using assms(2,3) fa(2) by (auto simp: files_ok_def)
  have g: "syscall_getfdptr fa fd = Some (fa ! nat fd)" using n assms(2) by (simp add: syscall_getfdptr_def)
  have p: "mfiles_ok (set_files (fa[nat fd := (fa ! nat fd)\<lparr>fd_pos := q\<rparr>]) m)" for q
    using fa files_ok_pos [OF fa(2) n(1)] by (auto simp: mfiles_ok_def)
  show ?thesis
  proof (cases "in_use (fa ! nat fd)")
    case True
    then obtain tbl where t: "optbl (fa ! nat fd) = Some tbl" "read_op w tbl fd buf nbytes m = Some (v, buf', m')"
      using assms(4) fa(1) g by (auto simp: sys_read_def Option.bind_eq_Some_conv)
    show ?thesis
    proof (cases tbl)
      case RegfileOptbl
      then show ?thesis using t(2) fa(1) g p
        by (auto simp: read_op_def file_read_def Let_def Option.bind_eq_Some_conv)
    next
      case DirOptbl
      then show ?thesis using t(2) fa(1) g p assms(1) set_same_files [OF fa(1)]
        by (auto simp: read_op_def dir_read_def Let_def Option.bind_eq_Some_conv split: if_splits option.splits)
    qed (use t(2) fa assms(1) in \<open>auto simp: read_op_def mfiles_ok_def Option.bind_eq_Some_conv\<close>)
  qed (use assms(1,4) fa(1) g in \<open>auto simp: sys_read_def\<close>)
qed

lemma write_files:
  assumes "mfiles_ok m" "sys_write w fd buf nbytes m = Some (v, m')"
  shows "mfiles_ok m'"
proof -
  obtain fa f where f: "cur_files m = Some fa" "syscall_getfdptr fa fd = Some f"
    using assms(2) by (auto simp: sys_write_def Option.bind_eq_Some_conv)
  show ?thesis
  proof (cases "in_use f")
    case True
    then obtain tbl where "write_op w tbl fd buf nbytes m = Some (v, m')"
      using assms(2) f by (auto simp: sys_write_def Option.bind_eq_Some_conv)
    then show ?thesis
      using assms(1) by (cases tbl) (auto simp: write_op_def mfiles_ok_def case_prod_unfold Let_def Option.bind_eq_Some_conv split: if_splits)
  qed (use assms f in \<open>auto simp: sys_write_def\<close>)
qed

lemma open_files:
  assumes "mfiles_ok m" "terminated name"
  shows "\<exists>v m'. sys_open w (Some name) m = Some (v, m') \<and> mfiles_ok m' \<and> (v = -1 \<or> 2 \<le> v \<and> v < 8)"
proof -
  obtain fa where fa: "cur_files m = Some fa" "files_ok fa" using assms(1) by (auto simp: mfiles_ok_def)
  obtain r where r: "read_dentry_by_name (image (kern m)) (filesys_addr (kern m)) name = Some r"
    using read_dentry_by_name_total [OF assms(2)] by blast
  show ?thesis
  proof (cases "\<exists>d. r = Some d \<and> ftype d < 3")
    case True
    then obtain d where d: "r = Some d" "ftype d < 3" by blast
    note c = open_cases [OF fa r [unfolded d(1)] d(2), of w]
    show ?thesis
    proof (cases "get_free_fd fa")
      case None
      then show ?thesis using c assms(1) by simp
    next
      case (Some n)
      then obtain f rr where f: "sys_open w (Some name) m = Some (int n, (set_files (fa[n := f]) m)\<lparr>clock := rr\<rparr>)"
        "in_use f" "optbl f \<noteq> None" "optbl f \<noteq> Some StdioOptbl" using c by auto
      then show ?thesis using files_ok_open [OF fa(2) Some f(2-4)] fa(1) get_free_fd_Some(1,2) [OF Some] by (auto simp: mfiles_ok_def)
    qed
  next
    case False
    then have "sys_open w (Some name) m = Some (-1, m)"
      using r fa(1) by (cases r) (auto simp: sys_open_def Let_def)
    then show ?thesis using assms(1) by simp
  qed
qed

lemma close_files:
  assumes "mfiles_ok m" "sys_close fd m = Some (v, m')"
  shows "mfiles_ok m'"
proof -
  obtain fa where fa: "cur_files m = Some fa" "files_ok fa" using assms(1) by (auto simp: mfiles_ok_def)
  have "\<not> (fd < 0 \<or> 8 \<le> fd)" using bad_descriptor(3) [OF assms(1), of fd] assms(2) by auto
  then have "0 \<le> fd" "fd < 8" by simp_all
  then show ?thesis
    using assms close_cases [OF fa] files_ok_close [OF fa(2), of "nat fd"] fa(1)
    by (auto simp: mfiles_ok_def split: if_splits)
qed

lemma file_call_files:
  assumes "mfiles_ok m" "file_call w c m = Some m'"
  shows "mfiles_ok m'"
proof (cases c)
  case (Open name)
  show ?thesis
  proof (cases name)
    case None
    then show ?thesis using assms Open by (simp add: file_call_def sys_open_def)
  next
    case (Some nm)
    obtain fa where "cur_files m = Some fa" using assms(1) by (auto simp: mfiles_ok_def)
    then have "strlen nm \<noteq> None"
      using assms(2) Open Some by (cases "strlen nm") (auto simp: file_call_def sys_open_def read_dentry_by_name_def Let_def)
    then have "terminated nm" by (auto simp: strlen_eq terminated_def split: if_splits)
    then show ?thesis using open_files [OF assms(1), of nm w] assms(2) Open Some by (auto simp: file_call_def)
  qed
next
  case (Read fd buf n)
  then obtain v buf' where r: "sys_read w fd buf n m = Some (v, buf', m')" using assms(2) by (auto simp: file_call_def)
  then have "\<not> (fd < 0 \<or> 8 \<le> fd)" using bad_descriptor(1) [OF assms(1), of fd w buf n] by auto
  then have "0 \<le> fd" "fd < 8" by simp_all
  then show ?thesis using read_files [OF assms(1) _ _ r] by simp
next
  case (Write fd buf n)
  then show ?thesis using write_files [OF assms(1)] assms(2) by (auto simp: file_call_def)
next
  case (Close fd)
  then show ?thesis using close_files [OF assms(1)] assms(2) by (auto simp: file_call_def)
qed

lemma file_calls_files: "file_calls cs m = Some m' \<Longrightarrow> mfiles_ok m \<Longrightarrow> mfiles_ok m'"
  by (induction cs m rule: file_calls.induct) (auto simp: Option.bind_eq_Some_conv intro: file_call_files)

text \<open>A new process has its two standard descriptors and no others, when its slot had none in use.\<close>

lemma started_files:
  assumes "execute l esp ebp fresh fbuf abuf str s = Some (ToUser e (kern m))" "kinv s" "fds_free s"
  shows "mfiles_ok m"
proof -
  obtain r s1 where b: "exec_begin l fbuf abuf str s = Some (r, s1)"
    using assms(1) by (auto simp: execute_def split: option.splits)
  from b show ?thesis
  proof (cases rule: exec_begin_cases)
    case fails
    then show ?thesis using assms(1) b by (simp add: execute_def)
  next
    case (starts st n f)
    have x: "exec_end esp ebp fresh st s1 = Some (ToUser e (kern m))" using assms(1) b starts(1) by (simp add: execute_def)
    let ?fa = "file_array (pcbs s n)"
    have e: "executed l fresh n s (kern m)" "file_array (pcbs (kern m) n) =
        ?fa[0 := (?fa ! 0)\<lparr>optbl := Some StdioOptbl, in_use := True\<rparr>, 1 := (?fa ! 1)\<lparr>optbl := Some StdioOptbl, in_use := True\<rparr>]"
      using exec_end_cases [OF x starts(2,5,6)] by (auto simp: Let_def)
    have "alloc_slot_of l (kpaging s) = Some (n, kpaging s1)" using starts(2) by (simp add: loaded_def)
    then have "n \<notin> slots_used (kpaging s)" using slots.alloc_slot [OF kinvD(2) [OF assms(2)]] by blast
    then have "\<not> in_use (?fa ! i)" if "i < 8" for i using assms(3) that kinvD(7) [OF assms(2), of n] by (auto simp: fds_free_def)
    then have "files_ok (file_array (pcbs (kern m) n))"
      unfolding files_ok_def e(2) using kinvD(7) [OF assms(2), of n] by (auto simp: nth_list_update)
    then show ?thesis using e(1) by (simp add: mfiles_ok_def cur_files_def cur_process_def executed_def)
  qed
qed

section \<open>Arguments of a new process\<close>

lemma execute_process:
  assumes "execute l esp ebp fresh fbuf abuf str s = Some (ToUser e s')"
  shows "\<exists>f a n. parse_exec str fbuf abuf = Some (f, a) \<and> cur_pcb s' = Some n \<and> \<not> vidmap_check (pcbs s' n)
    \<and> strcpy (args (pcbs s n)) a = Some (args (pcbs s' n))"
proof -
  obtain r s1 where b: "exec_begin l fbuf abuf str s = Some (r, s1)"
    using assms by (auto simp: execute_def split: option.splits)
  from b show ?thesis
  proof (cases rule: exec_begin_cases)
    case fails
    then show ?thesis using assms b by (simp add: execute_def)
  next
    case (starts st n f)
    have "exec_end esp ebp fresh st s1 = Some (ToUser e s')" using assms b starts(1) by (simp add: execute_def)
    from exec_end_cases [OF this starts(2,5,6)] starts(3) show ?thesis by (auto simp: executed_def)
  qed
qed

lemma init_paging_table2: "length (vmem_table2 (init_paging l p)) = length (vmem_table2 p)"
proof -
  have "length (fold init_vmem2_step is t) = length t" for "is" t
    by (induction "is" arbitrary: t) (auto simp: init_vmem2_step_def Let_def)
  then show ?thesis by (simp add: init_paging_def load_cr3_def Let_def)
qed

section \<open>An example machine\<close>

definition demo_machine :: machine where
  "demo_machine = \<lparr>kern = booted\<lparr>cur_pcb := Some 0, pcbs := (\<lambda>_. empty_pcb\<lparr>file_array := free_fds\<rparr>)\<rparr>, cons = demo_console 0,
     clock = \<lparr>rtc_pic = \<lparr>master_mask = 0xFB, slave_mask = 0xFF\<rparr>, rtc_interrupt_flag = False\<rparr>\<rparr>"

definition demo_world :: world where
  "demo_world = \<lparr>keyboard = [], ticks = [], reg_a = 0x26, spill_of = demo_spill\<rparr>"

lemma demo_machine_files: "cur_files demo_machine = Some free_fds" "files_ok free_fds" "open_fds demo_machine = {}"
proof -
  show f: "cur_files demo_machine = Some free_fds" by (simp add: demo_machine_def cur_files_def cur_process_def booted_def empty_pcb_def)
  show "files_ok free_fds" by (auto simp: files_ok_def free_fds_def nth_append)
  show "open_fds demo_machine = {}" using f by (auto simp: open_fds_def free_fds_def nth_append)
qed

lemma demo_shell_entry:
  "\<exists>d. read_dentry_by_name shell_image 4096 shell_str = Some (Some d) \<and> ftype d = 2 \<and> inode_num d = 0"
proof -
  have "terminated shell_str" "cstr shell_str = str_bytes ''shell''" "length (cstr shell_str) \<le> 32" by (simp_all add: shell_bytes)
  with read_dentry_by_name_eq [of shell_str shell_image 4096] shell_name
  obtain j d where d: "read_dentry_by_name shell_image 4096 shell_str = Some (Some d)" "dentry_matches shell_image 4096 shell_str j d"
    by (auto simp: shell_counts)
  then have "inode_num d = 0 \<and> ftype d = 2"
    by (simp add: dentry_matches_def shell_counts dentry_addr_def addr32_def load32_def shell_image_def)
  then show ?thesis using d(1) by blast
qed

lemma demo_can_open: "can_open shell_str demo_machine"
  using demo_machine_files demo_shell_entry by (auto simp: can_open_def mfiles_ok_def demo_machine_def booted_def)

section \<open>Properties\<close>

text \<open>
  after initialisation the dispatcher calls a function exactly for the eight call numbers 1
  to 8, in the order of the table; for every other value of the register, negative ones included,
  it returns \<open>-1\<close>.
\<close>

theorem syscall_dispatch:
  "dispatch eax (snd (syscall_init (replicate 16 None))) =
     (if 1 \<le> sint eax \<and> sint eax \<le> 8
      then Some ([SysHalt, SysExecute, SysRead, SysWrite, SysOpen, SysClose, SysGetargs, SysVidmap] ! (unat eax - 1))
      else None)"
proof (cases "1 \<le> sint eax \<and> sint eax \<le> 10")
  case True
  then have "uint eax = sint eax" by (simp add: uint_sint take_bit_int_eq_self)
  then have n: "sint eax = int (unat eax)" using True by (simp add: unat_eq_nat_uint)
  then have "1 \<le> unat eax" "unat eax \<le> 10" using True n by linarith+
  then have u: "unat eax \<in> {1, 2, 3, 4, 5, 6, 7, 8, 9, 10}" "sint eax = int (unat eax)" using n by (simp_all add: insert_iff) arith
  define i where "i = unat eax"
  show ?thesis
    using True u(1) unfolding dispatch_def u(2) syscall_init_def i_def [symmetric] by (auto simp: nth_list_update)
qed (auto simp: dispatch_def)

text \<open>
  C13: the descriptor table of a process is sound from its start on. After \<open>execute\<close> in any state the kernel
  reaches, and after any opens, reads, writes and closes the process then makes without a fault, its
  standard descriptors are open, each descriptor in use has its operations and only the first two are
  the console; a close of a standard descriptor is refused and changes nothing; an open of any string
  and a close of any of the eight descriptors do not fault. A number outside the table is not checked: a
  read, write or close with it goes behind the array (\<open>None\<close>).
\<close>

theorem descriptors_invariant:
  assumes "kreachable l s" "sound_programs (image s) (filesys_addr s)"
    and "execute l esp ebp fresh fbuf abuf str s = Some (ToUser e (kern m))" "file_calls cs m = Some m'"
  shows "mfiles_ok m' \<and> sys_close 0 m' = Some (-1, m') \<and> sys_close 1 m' = Some (-1, m')
    \<and> (terminated name \<longrightarrow> sys_open w (Some name) m' \<noteq> None)
    \<and> (sys_close fd m' = None \<longleftrightarrow> fd < 0 \<or> 8 \<le> fd)
    \<and> (fd < 0 \<or> 8 \<le> fd \<longrightarrow> sys_read w fd buf nbytes m' = None \<and> sys_write w fd buf nbytes m' = None)"
proof -
  have "mfiles_ok m" using started_files [OF assms(3)] kreachable_ok [OF assms(1,2)] by simp
  then have ok: "mfiles_ok m'" using file_calls_files [OF assms(4)] by simp
  then obtain fa where fa: "cur_files m' = Some fa" "files_ok fa" by (auto simp: mfiles_ok_def)
  have "sys_close fd m' = None \<longleftrightarrow> fd < 0 \<or> 8 \<le> fd"
    using close_cases [OF fa, of fd] bad_descriptor(3) [OF ok, of fd] by (cases "0 \<le> fd \<and> fd < 8") auto
  then show ?thesis
    using ok close_cases [OF fa, of 0] close_cases [OF fa, of 1] open_files [OF ok, of name w] bad_descriptor [OF ok, of fd] by auto
qed

theorem descriptors_invariant_witness:
  "\<exists>e m m'. run_shell booted = Some (ToUser e (kern m)) \<and> file_calls [(demo_world, Open (Some shell_str))] m = Some m'
     \<and> mfiles_ok m' \<and> sys_close 8 m' = None \<and> sys_close 7 m' \<noteq> None"
proof -
  have r: "kreachable demo_layout booted" using kreachable.boot [OF booted_boot] .
  have b: "image booted = shell_image" "filesys_addr booted = 4096" by (simp_all add: booted_def)
  have "length (ents booted) = 0"
    using init_task_queue_empty(2) [of "replicate 16 idle_task"] by (simp add: ents_def booted_def QUEUE_SIZE_def)
  then obtain s' where s': "run_shell booted = Some (ToUser 0x8048000 s')" using run_shell_step [OF r b] by auto
  define m where "m = demo_machine\<lparr>kern := s'\<rparr>"
  have x: "run_shell booted = Some (ToUser 0x8048000 (kern m))" using s' by (simp add: m_def)
  have snd: "sound_programs (image booted) (filesys_addr booted)" using shell_sound b by simp
  have "mfiles_ok m" using started_files [OF x] kreachable_ok [OF r snd] by simp
  moreover have "terminated shell_str" by (simp add: shell_bytes)
  ultimately obtain m' where m': "file_calls [(demo_world, Open (Some shell_str))] m = Some m'"
    using open_files [of m shell_str demo_world] by (auto simp: file_call_def)
  show ?thesis
    using x m' descriptors_invariant [OF r snd x m', where fd = 8] descriptors_invariant [OF r snd x m', where fd = 7] by auto
qed

text \<open>
  C26: a process that has \<open>k\<close> files open besides the standard two can open a file of the image \<open>n\<close> more
  times, without closing any, exactly when \<open>n + k \<le> 6\<close>; an open after a close of the descriptor got
  last gives the same number again.
\<close>

theorem open_limit:
  assumes "can_open name m"
  shows "(alloc_n (open_slot w name) n m \<noteq> None \<longleftrightarrow> n + card (open_fds m) \<le> 6)
    \<and> (open_slot w name m = Some (i, m') \<longrightarrow> (\<exists>m''. open_slot w name (close_slot i m') = Some (i, m'')))"
  using fds.alloc_count [OF assms, of w n] fds.reuse_released [OF assms, of w i m'] by auto

theorem open_limit_witness:
  "alloc_n (open_slot demo_world shell_str) 6 demo_machine \<noteq> None \<and> alloc_n (open_slot demo_world shell_str) 7 demo_machine = None"
  using open_limit [OF demo_can_open, of demo_world 6, THEN conjunct1] open_limit [OF demo_can_open, of demo_world 7, THEN conjunct1]
    demo_machine_files(3) by (metis add_0_right card.empty eval_nat_numeral(3) lessI linorder_not_le order_refl)

text \<open>
  C12: open, read and close together: on a well-formed image, opening a regular file, reading up to
  \<open>n\<close> bytes and closing it delivers to the caller's buffer, and returns as the number read, the first \<open>n\<close>
  bytes of the file when it has as many, otherwise all its bytes and one more that lies behind
  its recorded length; the set of open descriptors is as it was.
\<close>

theorem open_read_close:
  assumes "can_open name m" "open_fds m \<noteq> {2..<8}"
    and "read_dentry_by_name (image (kern m)) (filesys_addr (kern m)) name = Some (Some d)" "ftype d = 2"
    and "fs_image_ok (image (kern m)) (filesys_addr (kern m))" "inode_num d \<le> get_num_inodes (image (kern m)) (filesys_addr (kern m))"
    and "blocks_ok (image (kern m)) (filesys_addr (kern m)) (inode_addr (filesys_addr (kern m)) (inode_num d)) n" "n < 2 ^ 31" "n \<le> length buf"
  shows "\<exists>fd m1 m2 m3. sys_open w (Some name) m = Some (fd, m1)
    \<and> (let bytes = map (file_byte (image (kern m)) (filesys_addr (kern m)) (inode_addr (filesys_addr (kern m)) (inode_num d)))
                     [0..<min n (get_inode_len (image (kern m)) (filesys_addr (kern m)) (inode_num d) + 1)]
       in sys_read w fd buf (int n) m1 = Some (int (length bytes), bytes @ drop (length bytes) buf, m2))
    \<and> sys_close fd m2 = Some (0, m3) \<and> open_fds m3 = open_fds m"
proof -
  obtain fa where fa: "cur_files m = Some fa" "files_ok fa" using assms(1) by (auto simp: can_open_def mfiles_ok_def)
  obtain i where i: "get_free_fd fa = Some i"
    using assms(2) fa(1) by (cases "get_free_fd fa") (auto simp: get_free_fd_None open_fds_def)
  note g = get_free_fd_Some [OF i]
  let ?f = "(fa ! i)\<lparr>in_use := True, optbl := Some RegfileOptbl, fd_inode := inode_num d, fd_pos := 0\<rparr>"
  obtain m1 where m1: "sys_open w (Some name) m = Some (int i, m1)" "cur_files m1 = Some (fa[i := ?f])" "kern m1 = kern (set_files (fa[i := ?f]) m)"
    using open_cases [OF fa assms(3), of w] i fa(1) assms(4) by auto
  have l: "length fa = 8" using fa(2) by (simp add: files_ok_def)
  let ?bytes = "map (file_byte (image (kern m)) (filesys_addr (kern m)) (inode_addr (filesys_addr (kern m)) (inode_num d)))
                     [0..<min n (get_inode_len (image (kern m)) (filesys_addr (kern m)) (inode_num d) + 1)]"
  have rd: "read_data (image (kern m)) (filesys_addr (kern m)) (inode_num d) 0 n = ?bytes"
    using read_data_eq [OF assms(5,6), of 0 n] assms(7,8) by simp
  let ?fa2 = "fa[i := ?f\<lparr>fd_pos := addr32 (length ?bytes)\<rparr>]"
  have im: "image (kern m1) = image (kern m)" "filesys_addr (kern m1) = filesys_addr (kern m)" using m1(3) by simp_all
  have gp: "syscall_getfdptr (fa[i := ?f]) (int i) = Some ?f" using g l by (simp add: syscall_getfdptr_def)
  have "sys_read w (int i) buf (int n) m1 = Some (int (length ?bytes), ?bytes @ drop (length ?bytes) buf, set_files ?fa2 m1)"
    using gp rd m1(2) assms(8,9) im by (simp add: sys_read_def read_op_def file_read_def fill_buf_def)
  moreover have f2: "files_ok ?fa2" using files_ok_open [OF fa(2) i] by simp
  moreover have c2: "cur_files (set_files ?fa2 m1) = Some ?fa2" using m1(2) by simp
  then have "sys_close (int i) (set_files ?fa2 m1) = Some (0, set_files (?fa2[i := (?fa2 ! i)\<lparr>in_use := False\<rparr>]) (set_files ?fa2 m1))"
    using close_cases [OF c2 f2, of "int i"] g l by simp
  moreover have "open_fds (set_files (?fa2[i := (?fa2 ! i)\<lparr>in_use := False\<rparr>]) (set_files ?fa2 m1)) = open_fds m"
    using fa(1) c2 g l by (auto simp: open_fds_def nth_list_update)
  ultimately show ?thesis using m1(1) by (auto simp: Let_def)
qed

theorem open_read_close_witness:
  "\<exists>fd m1 m2 m3. sys_open demo_world (Some shell_str) demo_machine = Some (fd, m1)
    \<and> sys_read demo_world fd [9, 9, 9, 9, 9] 4 m1 = Some (4, [0x7F, 0x45, 0x4C, 0x46, 9], m2)
    \<and> sys_close fd m2 = Some (0, m3)"
proof -
  obtain d where d: "read_dentry_by_name shell_image 4096 shell_str = Some (Some d)" "ftype d = 2" "inode_num d = 0"
    using demo_shell_entry by blast
  have i: "image (kern demo_machine) = shell_image" "filesys_addr (kern demo_machine) = 4096"
    by (simp_all add: demo_machine_def booted_def)
  have b: "blocks_ok shell_image 4096 8192 4" by (simp add: blocks_ok_def shell_counts BLOCK_SIZE_def)
  have "map (file_byte shell_image 4096 8192) [0..<4] = [0x7F, 0x45, 0x4C, 0x46]"
    by (simp add: upt_rec file_byte_def shell_counts BLOCK_SIZE_def shell_image_def)
  then show ?thesis
    using open_read_close [OF demo_can_open, of d 4 "[9, 9, 9, 9, 9]" demo_world] d b demo_machine_files(3) shell_counts
    by (simp add: i Let_def) blast
qed

text \<open>
  C18: the words after the program's name on the command line reach the new process: when \<open>execute\<close> starts a
  program, \<open>getargs\<close> with a user buffer of at least their length (and inside the user page) returns
  success and fills the buffer with them, less one trailing space, padded with zeros; with no
  arguments it fails.
\<close>

theorem execute_getargs:
  assumes "kinv s" "0 \<notin> set nm" "0x20 \<notin> set nm" "length nm < 32" "0 \<notin> set ws" "length ws < 128" "ws \<noteq> [] \<longrightarrow> 0 < k \<and> hd ws \<noteq> 0x20"
    and "length fbuf = 32" "length abuf = 128"
    and "execute l esp ebp fresh fbuf abuf (nm @ replicate k 0x20 @ ws @ [0]) s = Some (ToUser e s')"
    and "0x08000000 \<le> at" "at \<le> 0x08400000" "0 < n" "n \<le> length buf" "kern m = s'"
  shows "getargs at buf (int n) m =
    (if drop_trailing ws = [] \<or> n < length (drop_trailing ws) then Some (-1, buf)
     else Some (0, drop_trailing ws @ replicate (n - length (drop_trailing ws)) 0 @ drop n buf))"
proof -
  let ?a = "drop_trailing ws"
  have z: "0 \<notin> set ?a" "length ?a < 128"
    using assms(5,6) by (auto simp: drop_trailing_def dest: in_set_butlastD)
  obtain f a p where p: "parse_exec (nm @ replicate k 0x20 @ ws @ [0]) fbuf abuf = Some (f, a)" "cur_pcb s' = Some p"
    "strcpy (args (pcbs s p)) a = Some (args (pcbs s' p))"
    using execute_process [OF assms(10)] by blast
  have a: "a = ?a @ 0 # drop (length ?a + 1) abuf" using p(1) parse_exec_eq [OF assms(2-9)] by simp
  then have ca: "cstr a = ?a" "terminated a" using z(1) by (simp_all add: terminated_def)
  have "args (pcbs s' p) = ?a @ 0 # drop (length ?a + 1) (args (pcbs s p))"
    using strcpy_eq [OF ca(2), of "args (pcbs s p)"] ca(1) p(3) z(2) kinvD(8) [OF assms(1), of p] by simp
  then have c: "cstr (args (pcbs s' p)) = ?a" "terminated (args (pcbs s' p))" using z(1) by (simp_all add: terminated_def)
  have g: "\<not> (at = 0 \<or> int n = 0 \<or> at < USER_LOC \<or> at > USER_LOC + MB_8 div 2)"
    using assms(11-13) by (auto simp: USER_LOC_def MB_8_def)
  have cp: "cur_process m = Some p" "args (pcbs (kern m) p) = args (pcbs s' p)" using p(2) assms(15) by (simp_all add: cur_process_def)
  have sc: "strncpy (replicate n 0 @ drop n buf) (args (pcbs s' p)) (length ?a) = Some (?a @ replicate (n - length ?a) 0 @ drop n buf)"
    if "length ?a \<le> n"
    using strncpy_eq [of "args (pcbs s' p)" "length ?a" "replicate n 0 @ drop n buf"] c that assms(14) by simp
  show ?thesis
    using g cp c assms(14) sc unfolding getargs_def by (auto simp: strlen_eq)
qed

theorem execute_getargs_witness:
  "\<exists>e s'. execute demo_layout 0 0 idle_task (replicate 32 0) (replicate 128 0) (str_bytes ''shell'' @ replicate 1 0x20 @ [0x61, 0x62] @ [0]) booted
      = Some (ToUser e s') \<and> getargs 0x08300000 [1, 2, 3, 4] 3 (demo_machine\<lparr>kern := s'\<rparr>) = Some (0, [0x61, 0x62, 0, 4])"
proof -
  let ?str = "str_bytes ''shell'' @ replicate 1 0x20 @ [0x61, 0x62] @ [0 :: u8]"
  have p: "parse_exec ?str (replicate 32 0) (replicate 128 0)
      = Some (str_bytes ''shell'' @ 0 # replicate 26 0, [0x61, 0x62] @ 0 # replicate 125 0)"
    using parse_exec_eq [of "str_bytes ''shell''" "[0x61, 0x62]" 1 "replicate 32 0" "replicate 128 0"]
    by (simp add: shell_bytes drop_trailing_def)
  have k: "kinv booted" using boot_kinv [OF booted_boot] .
  have "runnable_file booted (str_bytes ''shell'' @ 0 # replicate 26 0) 0x8048000" by (rule shell_runnable) (simp_all add: booted_def)
  moreover have "card (slots_used (kpaging booted)) < 6" by (simp add: booted_def init_slots)
  ultimately obtain s' where e: "execute demo_layout 0 0 idle_task (replicate 32 0) (replicate 128 0) ?str booted = Some (ToUser 0x8048000 s')"
    using execute_runs [OF k _ p, of 134512640 demo_layout 0 0 idle_task] by auto
  then show ?thesis
    using execute_getargs [of booted "str_bytes ''shell''" "[0x61, 0x62]" 1 "replicate 32 0" "replicate 128 0" demo_layout 0 0 idle_task
        "0x8048000" s' "0x08300000" 3 "[1, 2, 3, 4]" "demo_machine\<lparr>kern := s'\<rparr>"] k
    by (auto simp: shell_bytes drop_trailing_def)
qed

text \<open>
  \<open>vidmap\<close> gives each process its own page for video memory: the address it stores lies in
  page-directory entry 30 and selects the page-table entry of the caller's \<open>pid\<close>, that entry maps the
  text screen with the user bit, no other entry changes, and addresses of different processes
  differ. A second call fails, although it writes the entry again first.
\<close>

theorem vidmap_page:
  assumes "cur_process m = Some n" "pid (pcbs (kern m) n) = int n" "n < 6" "\<not> vidmap_check (pcbs (kern m) n)"
    and "length (vmem_table2 (kpaging (kern m))) = 1024" "start \<notin> {0, 0xB8000, 0x400000}"
  shows "\<exists>a m'. vidmap start m = Some (0, Some a, m') \<and> a = 0x07800000 + 0x1000 * of_nat n
    \<and> drop_bit 22 a = 30 \<and> drop_bit 12 a AND 0x3FF = of_nat n
    \<and> vmem_table2 (kpaging (kern m')) = (vmem_table2 (kpaging (kern m)))[n := 0xB8107]
    \<and> (\<exists>m''. vidmap start m' = Some (-1, None, m'') \<and> vmem_table2 (kpaging (kern m'')) = vmem_table2 (kpaging (kern m')))"
proof -
  let ?k = "(kern m)\<lparr>kpaging := (kpaging (kern m))\<lparr>vmem_table2 := (vmem_table2 (kpaging (kern m)))[n := 0xB8107]\<rparr>\<rparr>"
  let ?a = "0x07800000 + 0x1000 * of_nat n :: u32"
  let ?m = "m\<lparr>kern := update_pcb n (\<lambda>q. q\<lparr>vidmap_check := True\<rparr>) ?k\<rparr>"
  have v: "(VIDEO_LOC + VMEMPT_BITS) OR 4 = 0xB8107" "USER_LOC - MB_8 = 0x07800000"
    by (simp_all add: VIDEO_LOC_def VMEMPT_BITS_def USER_LOC_def MB_8_def)
  have s: "\<not> (start = 0 \<or> start = VIDEO_LOC \<or> start = KENREL_LOC)" using assms(6) by (simp add: VIDEO_LOC_def KENREL_LOC_def)
  have r: "vidmap start m = Some (0, Some ?a, ?m)"
    using assms s by (simp add: vidmap_def v Let_def)
  have "vidmap start ?m = Some (-1, None, ?m)"
    using assms(1,2,3,5) s by (simp add: vidmap_def v Let_def cur_process_def update_pcb_def)
  moreover have "n \<in> {0, 1, 2, 3, 4, 5}" using assms(3) by auto
  then have "drop_bit 22 ?a = 30" "drop_bit 12 ?a AND 0x3FF = of_nat n" by (auto simp: drop_bit_eq_div)
  ultimately show ?thesis using r by (auto simp: update_pcb_def)
qed

theorem vidmap_page_witness:
  "\<exists>m'. vidmap 0x08300000 demo_machine = Some (0, Some 0x07800000, m')"
proof -
  have "cur_process demo_machine = Some 0" "pid (pcbs (kern demo_machine) 0) = int 0" "\<not> vidmap_check (pcbs (kern demo_machine) 0)"
    "length (vmem_table2 (kpaging (kern demo_machine))) = 1024"
    by (simp_all add: demo_machine_def cur_process_def booted_def empty_pcb_def init_paging_table2 demo_paging_def)
  then show ?thesis using vidmap_page [of demo_machine 0 "0x08300000"] by auto
qed

end
