(* ===== verification/Photo.thy ===== *)
theory Photo
  imports Prelude "HOL-Library.Monad_Syntax"
begin

text \<open>
  Room photos and object images: the readers of \<open>mp2/photo.c\<close> and the converter
  \<open>mp2/mp2photo.c\<close> that produces the files they read. A file is the list of its bytes, the file
  system a map from names to files; a parameter says which requests for memory are granted. The
  palette of a photo is neither written nor read by the code and has no field here.
\<close>

section \<open>Data\<close>

record photo_header =
  hdr_width :: u16
  hdr_height :: u16

record image =
  img_hdr :: photo_header
  img_img :: "u8 list"

record photo =
  photo_hdr :: photo_header
  photo_img :: "u8 list"

type_synonym files = "string \<Rightarrow> u8 list option"

definition MAX_PHOTO_WIDTH :: nat where "MAX_PHOTO_WIDTH = 1024"
definition MAX_PHOTO_HEIGHT :: nat where "MAX_PHOTO_HEIGHT = 1024"
definition MAX_OBJECT_WIDTH :: nat where "MAX_OBJECT_WIDTH = 160"
definition MAX_OBJECT_HEIGHT :: nat where "MAX_OBJECT_HEIGHT = 100"
definition OBJ_CLR_TRANSP :: u8 where "OBJ_CLR_TRANSP = 0x40"

definition image_height :: "image \<Rightarrow> u32" where "image_height im = ucast (hdr_height (img_hdr im))"
definition image_width :: "image \<Rightarrow> u32" where "image_width im = ucast (hdr_width (img_hdr im))"
definition photo_height :: "photo \<Rightarrow> u32" where "photo_height p = ucast (hdr_height (photo_hdr p))"
definition photo_width :: "photo \<Rightarrow> u32" where "photo_width p = ucast (hdr_width (photo_hdr p))"

section \<open>Reading\<close>

definition le16 :: "u8 \<Rightarrow> u8 \<Rightarrow> u16" where
  "le16 lo hi = ucast lo OR push_bit 8 (ucast hi)"

fun fread16 :: "u8 list \<Rightarrow> (u16 \<times> u8 list) option" where
  "fread16 (a # b # bs) = Some (le16 a b, bs)"
| "fread16 _ = None"

fun fread8 :: "u8 list \<Rightarrow> (u8 \<times> u8 list) option" where
  "fread8 (b # bs) = Some (b, bs)"
| "fread8 [] = None"

definition read_header :: "u8 list \<Rightarrow> (photo_header \<times> u8 list) option" where
  "read_header bs =
     do { (w, bs) \<leftarrow> fread16 bs; (h, bs) \<leftarrow> fread16 bs; Some (\<lparr>hdr_width = w, hdr_height = h\<rparr>, bs) }"

text \<open>The 5:6:5 pixel of a photo file, reduced to two bits a colour.\<close>

definition pixel_222 :: "u16 \<Rightarrow> u8" where
  "pixel_222 pixel =
     ucast (push_bit 4 (drop_bit 14 pixel) OR push_bit 2 (drop_bit 9 pixel AND 3) OR (drop_bit 3 pixel AND 3))"

definition read_photo_pixel :: "u8 list \<Rightarrow> (u8 \<times> u8 list) option" where
  "read_photo_pixel bs = map_option (\<lambda>(p, bs). (pixel_222 p, bs)) (fread16 bs)"

text \<open>The loops over the columns of row \<open>y\<close> and over the rows, from the last to the first.\<close>

fun read_cols :: "(u8 list \<Rightarrow> (u8 \<times> u8 list) option) \<Rightarrow> nat \<Rightarrow> nat \<Rightarrow> nat \<Rightarrow> nat \<Rightarrow> u8 list \<Rightarrow> u8 list \<Rightarrow> (u8 list \<times> u8 list) option" where
  "read_cols rd w y x 0 bs img = Some (bs, img)"
| "read_cols rd w y x (Suc n) bs img =
     do { (p, bs) \<leftarrow> rd bs; read_cols rd w y (Suc x) n bs (img[w * y + x := p]) }"

fun read_rows :: "(u8 list \<Rightarrow> (u8 \<times> u8 list) option) \<Rightarrow> nat \<Rightarrow> nat \<Rightarrow> u8 list \<Rightarrow> u8 list \<Rightarrow> u8 list option" where
  "read_rows rd w 0 bs img = Some img"
| "read_rows rd w (Suc y) bs img =
     do { (bs, img) \<leftarrow> read_cols rd w y 0 w bs img; read_rows rd w y bs img }"

definition read_pixels :: "(u8 list \<Rightarrow> (u8 \<times> u8 list) option) \<Rightarrow> photo_header \<Rightarrow> u8 list \<Rightarrow> u8 list option" where
  "read_pixels rd hdr bs =
     (let w = unat (hdr_width hdr); h = unat (hdr_height hdr) in read_rows rd w h bs (replicate (w * h) 0))"

definition read_obj_image :: "(nat \<Rightarrow> bool) \<Rightarrow> files \<Rightarrow> string \<Rightarrow> image option" where
  "read_obj_image malloc fs fname =
     do { bs \<leftarrow> fs fname;
          if \<not> malloc 8 then None
          else do { (hdr, bs) \<leftarrow> read_header bs;
                    if MAX_OBJECT_WIDTH < unat (hdr_width hdr) \<or> MAX_OBJECT_HEIGHT < unat (hdr_height hdr)
                       \<or> \<not> malloc (unat (hdr_width hdr) * unat (hdr_height hdr)) then None
                    else do { px \<leftarrow> read_pixels fread8 hdr bs; Some \<lparr>img_hdr = hdr, img_img = px\<rparr> } } }"

definition read_photo :: "(nat \<Rightarrow> bool) \<Rightarrow> files \<Rightarrow> string \<Rightarrow> photo option" where
  "read_photo malloc fs fname =
     do { bs \<leftarrow> fs fname;
          if \<not> malloc 584 then None
          else do { (hdr, bs) \<leftarrow> read_header bs;
                    if MAX_PHOTO_WIDTH < unat (hdr_width hdr) \<or> MAX_PHOTO_HEIGHT < unat (hdr_height hdr)
                       \<or> \<not> malloc (unat (hdr_width hdr) * unat (hdr_height hdr)) then None
                    else do { px \<leftarrow> read_pixels read_photo_pixel hdr bs; Some \<lparr>photo_hdr = hdr, photo_img = px\<rparr> } } }"

section \<open>The converter\<close>

record bmp_header =
  file_size :: u32
  bmp_reserved :: u32
  pixel_offset :: u32
  dib_header_size :: u32
  img_width :: u32
  img_height :: u32
  planes :: u16
  bits_per_pixel :: u16
  compression_type :: u32
  img_size :: u32

fun fread32 :: "u8 list \<Rightarrow> (u32 \<times> u8 list) option" where
  "fread32 (a # b # c # d # bs) =
     Some (ucast a OR push_bit 8 (ucast b) OR push_bit 16 (ucast c) OR push_bit 24 (ucast d), bs)"
| "fread32 _ = None"

definition read_bmp_header :: "u8 list \<Rightarrow> (bmp_header \<times> u8 list) option" where
  "read_bmp_header bs =
     do { (fsz, bs) \<leftarrow> fread32 bs; (res, bs) \<leftarrow> fread32 bs; (off, bs) \<leftarrow> fread32 bs; (dib, bs) \<leftarrow> fread32 bs;
          (w, bs) \<leftarrow> fread32 bs; (h, bs) \<leftarrow> fread32 bs; (pl, bs) \<leftarrow> fread16 bs; (bpp, bs) \<leftarrow> fread16 bs;
          (cmp, bs) \<leftarrow> fread32 bs; (isz, bs) \<leftarrow> fread32 bs;
          Some (\<lparr>file_size = fsz, bmp_reserved = res, pixel_offset = off, dib_header_size = dib,
                 img_width = w, img_height = h, planes = pl, bits_per_pixel = bpp,
                 compression_type = cmp, img_size = isz\<rparr>, bs) }"

definition bmp_row_width :: "bmp_header \<Rightarrow> u32" where
  "bmp_row_width h = 4 * ((3 * img_width h + 3) div 4)"

text \<open>The header of a file that passes every check; \<open>None\<close> is the return value 0.\<close>

definition bmp_header_check :: "u8 list \<Rightarrow> bmp_header option" where
  "bmp_header_check bs =
     (case bs of
        m0 # m1 # bs \<Rightarrow>
          if \<not> (m0 = 0x42 \<and> m1 = 0x4D) then None
          else do { (h, _) \<leftarrow> read_bmp_header bs;
                    if 4096 < img_width h \<or> 4096 < img_height h \<or> planes h \<noteq> 1 \<or> bits_per_pixel h \<noteq> 24
                       \<or> compression_type h \<noteq> 0 then None
                    else if img_size h \<noteq> bmp_row_width h * img_height h then None
                    else Some h }
      | _ \<Rightarrow> None)"

text \<open>Reading a single item of no bytes does not count as one item read.\<close>

definition read_bmp_image_data :: "(nat \<Rightarrow> bool) \<Rightarrow> u8 list \<Rightarrow> bmp_header \<Rightarrow> u8 list option" where
  "read_bmp_image_data malloc bs h =
     (let n = unat (img_size h); data = drop (unat (pixel_offset h)) bs in
      if \<not> malloc n \<or> n = 0 \<or> length data < n then None else Some (take n data))"

text \<open>Output goes to a device that takes \<open>cap\<close> bytes.\<close>

definition fwrite :: "nat \<Rightarrow> u8 list \<Rightarrow> u8 list \<Rightarrow> u8 list option" where
  "fwrite cap bs out = (if length out + length bs \<le> cap then Some (out @ bs) else None)"

definition bytes16 :: "u16 \<Rightarrow> u8 list" where
  "bytes16 v = [ucast v, ucast (drop_bit 8 v)]"

definition vga_222 :: "u8 \<Rightarrow> u8 \<Rightarrow> u8 \<Rightarrow> u8" where
  "vga_222 b g r =
     (let c = push_bit 4 (drop_bit 6 r) OR push_bit 2 (drop_bit 6 g) OR drop_bit 6 b in
      if c = 0x3C then OBJ_CLR_TRANSP else c)"

definition vga_565 :: "u8 \<Rightarrow> u8 \<Rightarrow> u8 \<Rightarrow> u16" where
  "vga_565 b g r =
     push_bit 11 (ucast (drop_bit 3 r)) OR push_bit 5 (ucast (drop_bit 2 g)) OR ucast (drop_bit 3 b)"

definition out_pixel :: "bool \<Rightarrow> u8 list \<Rightarrow> nat \<Rightarrow> u8 list" where
  "out_pixel obj img i =
     (if obj then [vga_222 (img ! i) (img ! (i + 1)) (img ! (i + 2))]
      else bytes16 (vga_565 (img ! i) (img ! (i + 1)) (img ! (i + 2))))"

fun write_cols :: "bool \<Rightarrow> nat \<Rightarrow> u8 list \<Rightarrow> nat \<Rightarrow> nat \<Rightarrow> nat \<Rightarrow> u8 list \<Rightarrow> u8 list option" where
  "write_cols obj cap img base x 0 out = Some out"
| "write_cols obj cap img base x (Suc n) out =
     do { out \<leftarrow> fwrite cap (out_pixel obj img (base + 3 * x)) out; write_cols obj cap img base (Suc x) n out }"

fun write_rows :: "bool \<Rightarrow> nat \<Rightarrow> u8 list \<Rightarrow> nat \<Rightarrow> nat \<Rightarrow> nat \<Rightarrow> nat \<Rightarrow> u8 list \<Rightarrow> u8 list option" where
  "write_rows obj cap img rw w y 0 out = Some out"
| "write_rows obj cap img rw w y (Suc n) out =
     do { out \<leftarrow> write_cols obj cap img (rw * y) 0 w out; write_rows obj cap img rw w (Suc y) n out }"

definition write_output_file :: "bool \<Rightarrow> nat \<Rightarrow> bmp_header \<Rightarrow> u8 list \<Rightarrow> u8 list option" where
  "write_output_file obj cap h img =
     do { out \<leftarrow> fwrite cap (bytes16 (ucast (img_width h)) @ bytes16 (ucast (img_height h))) [];
          write_rows obj cap img (unat (bmp_row_width h)) (unat (img_width h)) 0 (unat (img_height h)) out }"

text \<open>
  The program: exit code and file system. Opening the output empties it before the input is read.
  What a failed run leaves in the output file is not kept.
\<close>

definition mp2photo :: "bool \<Rightarrow> (nat \<Rightarrow> bool) \<Rightarrow> nat \<Rightarrow> string list \<Rightarrow> files \<Rightarrow> int \<times> files" where
  "mp2photo obj malloc cap argv fs =
     (if length argv \<noteq> 3 then (2, fs)
      else if fs (argv ! 1) = None then (2, fs)
      else let fs = fs(argv ! 2 \<mapsto> []); bs = the (fs (argv ! 1)) in
        case do { h \<leftarrow> bmp_header_check bs; d \<leftarrow> read_bmp_image_data malloc bs h; Some (h, d) } of
          None \<Rightarrow> (2, fs)
        | Some (h, d) \<Rightarrow>
            (case write_output_file obj cap h d of
               None \<Rightarrow> (3, fs)
             | Some out \<Rightarrow> (0, fs(argv ! 2 \<mapsto> out))))"

section \<open>Pixels in file order\<close>

fun take_pixels :: "(u8 list \<Rightarrow> (u8 \<times> u8 list) option) \<Rightarrow> nat \<Rightarrow> u8 list \<Rightarrow> (u8 list \<times> u8 list) option" where
  "take_pixels rd 0 bs = Some ([], bs)"
| "take_pixels rd (Suc n) bs = do { (p, bs) \<leftarrow> rd bs; (ps, bs) \<leftarrow> take_pixels rd n bs; Some (p # ps, bs) }"

text \<open>Rows of \<open>w\<close> pixels in the reverse order.\<close>

fun flip_rows :: "nat \<Rightarrow> nat \<Rightarrow> 'a list \<Rightarrow> 'a list" where
  "flip_rows w 0 ps = []"
| "flip_rows w (Suc h) ps = flip_rows w h (drop w ps) @ take w ps"

lemma take_pixels_add:
  "take_pixels rd (m + n) bs =
     do { (ps, bs) \<leftarrow> take_pixels rd m bs; (qs, bs) \<leftarrow> take_pixels rd n bs; Some (ps @ qs, bs) }"
proof (induction m arbitrary: bs)
  case 0
  show ?case by (cases "take_pixels rd n bs") auto
next
  case (Suc m)
  show ?case using Suc.IH by (cases "rd bs") (auto split: Option.bind_splits)
qed

lemma length_take_pixels: "take_pixels rd n bs = Some (ps, bs') \<Longrightarrow> length ps = n"
  by (induction n arbitrary: bs ps) (auto split: Option.bind_splits)

lemma read_cols_spec:
  assumes "w * y + x + n \<le> length img"
  shows "read_cols rd w y x n bs img =
    map_option (\<lambda>(ps, bs). (bs, take (w * y + x) img @ ps @ drop (w * y + x + n) img)) (take_pixels rd n bs)"
  using assms
proof (induction n arbitrary: x bs img)
  case (Suc n)
  show ?case
  proof (cases "rd bs")
    case (Some pb)
    obtain p bs1 where pb: "pb = (p, bs1)" by (cases pb)
    let ?k = "w * y + x"
    have "take (Suc ?k) (img[?k := p]) = take ?k img @ [p]" "drop (Suc ?k + n) (img[?k := p]) = drop (?k + Suc n) img"
      using Suc.prems by (auto simp: take_Suc_conv_app_nth)
    then show ?thesis using Suc.IH [of "Suc x" "img[?k := p]" bs1] Suc.prems Some pb
      by (cases "take_pixels rd n bs1") auto
  qed simp
qed simp

lemma read_rows_spec:
  assumes "w * h \<le> length img"
  shows "read_rows rd w h bs img =
    map_option (\<lambda>(ps, bs). flip_rows w h ps @ drop (w * h) img) (take_pixels rd (w * h) bs)"
  using assms
proof (induction h arbitrary: bs img)
  case (Suc h)
  have tp: "take_pixels rd (w * Suc h) bs =
     do { (ps, bs) \<leftarrow> take_pixels rd w bs; (qs, bs) \<leftarrow> take_pixels rd (w * h) bs; Some (ps @ qs, bs) }"
    using take_pixels_add [of rd w "w * h" bs] by simp
  show ?case
  proof (cases "take_pixels rd w bs")
    case None
    then show ?thesis using Suc.prems tp by (simp add: read_cols_spec)
  next
    case (Some r)
    obtain ps bs1 where r: "r = (ps, bs1)" by (cases r)
    have len: "length ps = w" using Some r length_take_pixels by blast
    let ?img = "take (w * h) img @ ps @ drop (w * h + w) img"
    have "read_rows rd w h bs1 ?img =
      map_option (\<lambda>(qs, bs). flip_rows w h qs @ drop (w * h) ?img) (take_pixels rd (w * h) bs1)"
      using Suc.prems len by (intro Suc.IH) simp
    moreover have "drop (w * h) ?img = ps @ drop (w * Suc h) img" using Suc.prems len by (simp add: algebra_simps)
    ultimately show ?thesis
      using Suc.prems Some r tp len by (cases "take_pixels rd (w * h) bs1") (auto simp: read_cols_spec)
  qed
qed simp

lemma length_flip_rows [simp]: "length ps = w * h \<Longrightarrow> length (flip_rows w h ps) = w * h"
  by (induction h arbitrary: ps) auto

lemma nth_flip_rows:
  assumes "length ps = w * h" "x < w" "y < h"
  shows "flip_rows w h ps ! (w * y + x) = ps ! (w * (h - 1 - y) + x)"
  using assms
proof (induction h arbitrary: ps)
  case (Suc h)
  show ?case
  proof (cases "y = h")
    case False
    then have "y < h" using Suc.prems by simp
    then have "w * Suc y \<le> w * h" by (intro mult_le_mono) auto
    then have "w * y + x < w * h" using Suc.prems by simp
    moreover have e: "w * (h - y) + x = w + (w * (h - 1 - y) + x)"
      using Suc_diff_Suc [OF \<open>y < h\<close>] by (metis add.assoc diff_Suc_eq_diff_pred mult_Suc_right)
    ultimately show ?thesis
      using Suc.IH [of "drop w ps"] Suc.prems \<open>y < h\<close> by (simp add: nth_append e)
  qed (use Suc.prems in \<open>simp add: nth_append\<close>)
qed simp

lemma read_pixels_spec:
  "read_pixels rd hdr bs =
     map_option (\<lambda>(ps, bs). flip_rows (unat (hdr_width hdr)) (unat (hdr_height hdr)) ps)
       (take_pixels rd (unat (hdr_width hdr) * unat (hdr_height hdr)) bs)"
  by (simp add: read_pixels_def read_rows_spec Let_def)

section \<open>Writers and readers of pixels\<close>

text \<open>A reader that takes back what a writer of pixels put out, up to a change of the colour.\<close>

locale pixel_codec =
  fixes enc :: "'a \<Rightarrow> u8 list"
    and rd :: "u8 list \<Rightarrow> (u8 \<times> u8 list) option"
    and dec :: "'a \<Rightarrow> u8"
  assumes read_enc: "rd (enc v @ bs) = Some (dec v, bs)"
begin

lemma take_written: "take_pixels rd (length vs) (concat (map enc vs) @ bs) = Some (map dec vs, bs)"
  by (induction vs) (simp_all add: read_enc)

lemma read_pixels_written:
  assumes "length vs = unat (hdr_width hdr) * unat (hdr_height hdr)"
  shows "\<exists>px. read_pixels rd hdr (concat (map enc vs)) = Some px
    \<and> (\<forall>x < unat (hdr_width hdr). \<forall>y < unat (hdr_height hdr).
         px ! (unat (hdr_width hdr) * y + x) = dec (vs ! (unat (hdr_width hdr) * (unat (hdr_height hdr) - 1 - y) + x)))"
proof -
  let ?w = "unat (hdr_width hdr)" and ?h = "unat (hdr_height hdr)"
  have t: "take_pixels rd (?w * ?h) (concat (map enc vs)) = Some (map dec vs, [])"
    using take_written [of vs "[]"] assms by simp
  have "flip_rows ?w ?h (map dec vs) ! (?w * y + x) = dec (vs ! (?w * (?h - 1 - y) + x))"
    if "x < ?w" "y < ?h" for x y
  proof -
    have "?w * Suc (?h - 1 - y) \<le> ?w * ?h" using that by (intro mult_le_mono) auto
    then have "?w * (?h - 1 - y) + x < length vs" using that assms by simp
    then show ?thesis using nth_flip_rows [of "map dec vs" ?w ?h x y] that assms by simp
  qed
  then show ?thesis using t by (simp add: read_pixels_spec)
qed

end

definition rgb_222 :: "u8 \<times> u8 \<times> u8 \<Rightarrow> u8" where
  "rgb_222 = (\<lambda>(b, g, r). push_bit 4 (drop_bit 6 r) OR push_bit 2 (drop_bit 6 g) OR drop_bit 6 b)"

definition rgb_transp :: "u8 \<times> u8 \<times> u8 \<Rightarrow> u8" where
  "rgb_transp c = (if rgb_222 c = 0x3C then OBJ_CLR_TRANSP else rgb_222 c)"

lemma no_high_bit: "8 \<le> n \<Longrightarrow> \<not> bit (w :: u8) n"
  by (auto dest: bit_imp_le_length)

lemma pixel_222_565: "pixel_222 (vga_565 b g r) = rgb_222 (b, g, r)"
proof (rule bit_word_eqI)
  fix n assume "n < LENGTH(8)"
  then consider "n = 0" | "n = 1" | "n = 2" | "n = 3" | "n = 4" | "n = 5" | "n = 6" | "n = 7" by fastforce
  then show "bit (pixel_222 (vga_565 b g r)) n = bit (rgb_222 (b, g, r)) n"
    by cases (simp_all add: pixel_222_def vga_565_def rgb_222_def bit_simps no_high_bit)
qed

lemma le16_bytes16 [simp]: "le16 (ucast v) (ucast (drop_bit 8 v)) = (v :: u16)"
proof (rule bit_word_eqI)
  fix n assume "n < LENGTH(16)"
  then show "bit (le16 (ucast v) (ucast (drop_bit 8 v))) n = bit v n"
    by (cases "n < 8") (auto simp: le16_def bit_simps)
qed

interpretation room_photo: pixel_codec "\<lambda>(b, g, r). bytes16 (vga_565 b g r)" read_photo_pixel rgb_222
  by unfold_locales (auto simp: read_photo_pixel_def bytes16_def pixel_222_565)

interpretation object_image: pixel_codec "\<lambda>(b, g, r). [vga_222 b g r]" fread8 rgb_transp
  by unfold_locales (auto simp: vga_222_def rgb_transp_def rgb_222_def Let_def)

section \<open>From a bitmap to a photo\<close>

lemma write_cols_out:
  "write_cols obj cap img base x n out = Some out' \<Longrightarrow>
     out' = out @ concat (map (\<lambda>j. out_pixel obj img (base + 3 * j)) [x..<x + n])"
proof (induction n arbitrary: x out)
  case (Suc n)
  then show ?case using Suc.IH [of "Suc x" "out @ out_pixel obj img (base + 3 * x)"]
    by (simp add: fwrite_def upt_conv_Cons del: upt_Suc split: if_splits)
qed simp

lemma write_rows_out:
  "write_rows obj cap img rw w y n out = Some out' \<Longrightarrow>
     out' = out @ concat (map (\<lambda>j. concat (map (\<lambda>i. out_pixel obj img (rw * j + 3 * i)) [0..<w])) [y..<y + n])"
proof (induction n arbitrary: y out)
  case (Suc n)
  then obtain o1 where "write_cols obj cap img (rw * y) 0 w out = Some o1" "write_rows obj cap img rw w (Suc y) n o1 = Some out'"
    by (auto split: Option.bind_splits)
  then show ?case using Suc.IH [of "Suc y" o1] write_cols_out by (fastforce simp: upt_conv_Cons simp del: upt_Suc)
qed simp

text \<open>A table written row by row.\<close>

definition table :: "nat \<Rightarrow> nat \<Rightarrow> (nat \<Rightarrow> nat \<Rightarrow> 'a) \<Rightarrow> 'a list" where
  "table w h f = concat (map (\<lambda>j. map (f j) [0..<w]) [0..<h])"

lemma length_table [simp]: "length (table w h f) = w * h"
  by (induction h) (simp_all add: table_def)

lemma nth_table:
  assumes "i < w" "j < h"
  shows "table w h f ! (w * j + i) = f j i"
  using assms(2)
proof (induction h)
  case (Suc h)
  have t: "table w (Suc h) f = table w h f @ map (f h) [0..<w]" by (simp add: table_def)
  show ?case
  proof (cases "j = h")
    case False
    then have "w * Suc j \<le> w * h" using Suc.prems by (intro mult_le_mono) auto
    then have "w * j + i < length (table w h f)" using assms(1) by simp
    then show ?thesis using Suc.IH Suc.prems False t by (simp add: nth_append)
  qed (use t assms(1) in \<open>simp add: nth_append\<close>)
qed simp

lemma concat_map_table:
  "concat (map f (table w h g)) = concat (map (\<lambda>j. concat (map (\<lambda>i. f (g j i)) [0..<w])) [0..<h])"
  by (induction h) (simp_all add: table_def comp_def)

definition triple :: "u8 list \<Rightarrow> nat \<Rightarrow> u8 \<times> u8 \<times> u8" where
  "triple img i = (img ! i, img ! (i + 1), img ! (i + 2))"

text \<open>The colour (blue, green, red) of column \<open>x\<close> in row \<open>y\<close> of a bitmap file, rows from the bottom.\<close>

definition bmp_pixel :: "u8 list \<Rightarrow> bmp_header \<Rightarrow> nat \<Rightarrow> nat \<Rightarrow> u8 \<times> u8 \<times> u8" where
  "bmp_pixel bmp h x y = triple bmp (unat (pixel_offset h) + unat (bmp_row_width h) * y + 3 * x)"

lemma write_output_bytes:
  assumes "write_output_file obj cap h d = Some out"
  shows "out = bytes16 (ucast (img_width h)) @ bytes16 (ucast (img_height h)) @
    concat (map (if obj then (\<lambda>(b, g, r). [vga_222 b g r]) else (\<lambda>(b, g, r). bytes16 (vga_565 b g r)))
      (table (unat (img_width h)) (unat (img_height h)) (\<lambda>y x. triple d (unat (bmp_row_width h) * y + 3 * x))))"
proof -
  let ?enc = "if obj then (\<lambda>(b, g, r). [vga_222 b g r]) else (\<lambda>(b, g, r). bytes16 (vga_565 b g r))"
  have e: "out_pixel obj d i = ?enc (triple d i)" for i
    by (auto simp: out_pixel_def triple_def)
  show ?thesis
    unfolding concat_map_table e [symmetric]
    using assms by (auto simp: write_output_file_def fwrite_def dest!: write_rows_out split: if_splits)
qed

lemma row_width_ok:
  assumes "bmp_header_check bmp = Some h"
  shows "3 * unat (img_width h) \<le> unat (bmp_row_width h)" "unat (img_width h) \<le> 4096" "unat (img_height h) \<le> 4096"
    "unat (img_size h) = unat (bmp_row_width h) * unat (img_height h)"
proof -
  have le: "img_width h \<le> 4096" "img_height h \<le> 4096" and sz: "img_size h = bmp_row_width h * img_height h"
    using assms by (auto simp: bmp_header_check_def not_less split: list.splits if_splits Option.bind_splits)
  show w: "unat (img_width h) \<le> 4096" "unat (img_height h) \<le> 4096"
    using le by (simp_all add: word_le_nat_alt)
  have "unat (3 * img_width h + 3) = 3 * unat (img_width h) + 3"
    using w(1) by (simp add: unat_word_ariths)
  then have rw: "unat (bmp_row_width h) = 4 * ((3 * unat (img_width h) + 3) div 4)"
    using w(1) by (simp add: bmp_row_width_def unat_word_ariths unat_div)
  then show "3 * unat (img_width h) \<le> unat (bmp_row_width h)" by presburger
  have "unat (bmp_row_width h) \<le> 12288" using rw w(1) by presburger
  then have "unat (bmp_row_width h) * unat (img_height h) \<le> 12288 * 4096" using w(2) by (intro mult_le_mono)
  then show "unat (img_size h) = unat (bmp_row_width h) * unat (img_height h)"
    using sz by (simp add: unat_word_ariths)
qed

lemma mp2photo_success:
  assumes "mp2photo obj malloc cap [prog, a, b] fs = (0, fs')"
  obtains bmp h d out where "fs a = Some bmp" "a \<noteq> b" "bmp_header_check bmp = Some h"
    "read_bmp_image_data malloc bmp h = Some d" "write_output_file obj cap h d = Some out" "fs' b = Some out"
proof -
  have "a \<noteq> b" using assms by (auto simp: mp2photo_def Let_def bmp_header_check_def split: if_splits)
  then show ?thesis using assms that
    by (auto simp: mp2photo_def Let_def split: if_splits option.splits Option.bind_splits prod.splits)
qed

lemma data_pixel:
  assumes "bmp_header_check bmp = Some h" "read_bmp_image_data malloc bmp h = Some d"
    "x < unat (img_width h)" "y < unat (img_height h)"
  shows "triple d (unat (bmp_row_width h) * y + 3 * x) = bmp_pixel bmp h x y"
proof -
  let ?rw = "unat (bmp_row_width h)"
  have "?rw * Suc y \<le> ?rw * unat (img_height h)" using assms(4) by (intro mult_le_mono) auto
  then have "?rw * y + 3 * x + 2 < unat (img_size h)"
    using row_width_ok [OF assms(1)] assms(3) by simp
  then show ?thesis
    using assms(2) by (auto simp: read_bmp_image_data_def Let_def bmp_pixel_def triple_def add.assoc split: if_splits)
qed

lemma read_header_written:
  assumes "w \<le> 4096" "v \<le> 4096"
  shows "read_header (bytes16 (ucast w) @ bytes16 (ucast v) @ bs) = Some (\<lparr>hdr_width = ucast (w :: u32), hdr_height = ucast (v :: u32)\<rparr>, bs)"
    "unat (ucast w :: u16) = unat w" "ucast (ucast w :: u16) = w"
proof -
  show "read_header (bytes16 (ucast w) @ bytes16 (ucast v) @ bs) = Some (\<lparr>hdr_width = ucast w, hdr_height = ucast v\<rparr>, bs)"
    by (simp add: read_header_def bytes16_def)
  have "unat w \<le> 4096" using assms(1) by (simp add: word_le_nat_alt)
  then show u: "unat (ucast w :: u16) = unat w" by (simp only: unsigned_ucast_eq) (simp add: take_bit_eq_mod)
  show "ucast (ucast w :: u16) = w"
    using \<open>unat w \<le> 4096\<close> by (intro word_unat_eq_iff [THEN iffD2]) (simp only: unsigned_ucast_eq, simp add: take_bit_eq_mod unat_mod)
qed

text \<open>
  C32: A bitmap that the converter accepts is what the game shows: the photo read back from the
  converter's output has the size of the bitmap and at every position the colour of the bitmap's
  pixel there, cut to two bits each; for an object image bright yellow is transparent.
\<close>

theorem photo_pipeline:
  assumes "mp2photo obj malloc cap [prog, a, b] fs = (0, fs')" "fs a = Some bmp"
    and "bmp_header_check bmp = Some h" "\<forall>n. malloc' n"
    and "w = unat (img_width h)" "ht = unat (img_height h)"
  shows "(\<not> obj \<and> w \<le> MAX_PHOTO_WIDTH \<and> ht \<le> MAX_PHOTO_HEIGHT \<longrightarrow>
      (\<exists>p. read_photo malloc' fs' b = Some p \<and> photo_width p = img_width h \<and> photo_height p = img_height h
         \<and> (\<forall>x < w. \<forall>y < ht. photo_img p ! (w * y + x) = rgb_222 (bmp_pixel bmp h x (ht - 1 - y)))))
    \<and> (obj \<and> w \<le> MAX_OBJECT_WIDTH \<and> ht \<le> MAX_OBJECT_HEIGHT \<longrightarrow>
      (\<exists>im. read_obj_image malloc' fs' b = Some im \<and> image_width im = img_width h \<and> image_height im = img_height h
         \<and> (\<forall>x < w. \<forall>y < ht. img_img im ! (w * y + x) = rgb_transp (bmp_pixel bmp h x (ht - 1 - y)))))"
    (is "?A \<and> ?B")
proof -
  from assms(1) obtain d out where d: "read_bmp_image_data malloc bmp h = Some d"
    and out: "write_output_file obj cap h d = Some out" "fs' b = Some out"
    by (rule mp2photo_success) (use assms(2,3) in auto)
  let ?hdr = "\<lparr>hdr_width = ucast (img_width h), hdr_height = ucast (img_height h)\<rparr> :: photo_header"
  let ?cs = "table w ht (\<lambda>y x. triple d (unat (bmp_row_width h) * y + 3 * x))"
  have "img_width h \<le> 4096" "img_height h \<le> 4096"
    using row_width_ok(2,3) [OF assms(3)] by (simp_all add: word_le_nat_alt)
  note hd = read_header_written [OF this] read_header_written(2,3) [OF this(2) this(1)]
  have cs: "?cs ! (w * (ht - 1 - y) + x) = bmp_pixel bmp h x (ht - 1 - y)" if "x < w" "y < ht" for x y
    using that data_pixel [OF assms(3) d] assms(5,6) by (subst nth_table) auto
  have len: "length ?cs = unat (hdr_width ?hdr) * unat (hdr_height ?hdr)" using hd assms(5,6) by simp
  have ?A
    using room_photo.read_pixels_written [OF len] write_output_bytes [OF out(1)] out(2) hd cs assms(4-6)
    by (auto simp: read_photo_def photo_width_def photo_height_def)
  moreover have ?B
    using object_image.read_pixels_written [OF len] write_output_bytes [OF out(1)] out(2) hd cs assms(4-6)
    by (auto simp: read_obj_image_def image_width_def image_height_def)
  ultimately show ?thesis by blast
qed

definition demo_bmp :: "u8 list" where
  "demo_bmp = [0x42, 0x4D] @ replicate 8 0 @ [38, 0, 0, 0] @ [40, 0, 0, 0] @ [2, 0, 0, 0] @ [2, 0, 0, 0]
     @ [1, 0] @ [24, 0] @ [0, 0, 0, 0] @ [16, 0, 0, 0]
     @ [0xFF, 0, 0x80, 0, 0xFF, 0xFF, 0, 0] @ [0x40, 0x40, 0x40, 0, 0, 0xC0, 0, 0]"

definition demo_header :: bmp_header where
  "demo_header = the (bmp_header_check demo_bmp)"

lemma demo_header_check: "bmp_header_check demo_bmp = Some demo_header"
  by code_simp

lemma demo_run:
  "mp2photo False (\<lambda>n. True) 100 [''mp2photo'', ''in'', ''out''] [''in'' \<mapsto> demo_bmp] =
     (0, [''in'' \<mapsto> demo_bmp, ''out'' \<mapsto> [2, 0, 2, 0, 31, 128, 224, 255, 8, 66, 0, 192]])"
proof -
  have r: "read_bmp_image_data (\<lambda>n. True) demo_bmp demo_header = Some (drop 38 demo_bmp)" by code_simp
  have w: "write_output_file False 100 demo_header (drop 38 demo_bmp) = Some [2, 0, 2, 0, 31, 128, 224, 255, 8, 66, 0, 192]"
    by code_simp
  show ?thesis by (simp add: mp2photo_def demo_header_check r w)
qed

theorem photo_pipeline_witness:
  "\<exists>p. read_photo (\<lambda>n. True) [''in'' \<mapsto> demo_bmp, ''out'' \<mapsto> [2, 0, 2, 0, 31, 128, 224, 255, 8, 66, 0, 192]] ''out'' = Some p
     \<and> photo_img p ! 0 = 0x15 \<and> photo_img p ! 3 = 0x3C"
proof -
  have h: "img_width demo_header = 2" "img_height demo_header = 2"
    "rgb_222 (bmp_pixel demo_bmp demo_header 0 1) = 0x15" "rgb_222 (bmp_pixel demo_bmp demo_header 1 0) = 0x3C"
    by code_simp+
  have c: "\<not> False \<and> 2 \<le> MAX_PHOTO_WIDTH \<and> 2 \<le> MAX_PHOTO_HEIGHT"
    by (simp add: MAX_PHOTO_WIDTH_def MAX_PHOTO_HEIGHT_def)
  have pre: "[''in'' \<mapsto> demo_bmp] ''in'' = Some demo_bmp" "\<forall>n::nat. True" "2 = unat (img_width demo_header)" "2 = unat (img_height demo_header)"
    by (simp_all add: h)
  from photo_pipeline [OF demo_run pre(1) demo_header_check pre(2-4), THEN conjunct1, THEN mp, OF c]
  obtain p where p: "read_photo (\<lambda>n. True) [''in'' \<mapsto> demo_bmp, ''out'' \<mapsto> [2, 0, 2, 0, 31, 128, 224, 255, 8, 66, 0, 192]] ''out'' = Some p"
    and px: "\<forall>x < 2. \<forall>y < 2. photo_img p ! (2 * y + x) = rgb_222 (bmp_pixel demo_bmp demo_header x (2 - 1 - y))"
    by blast
  have "photo_img p ! 0 = 0x15" "photo_img p ! 3 = 0x3C"
    using px [rule_format, of 0 0] px [rule_format, of 1 1] h by simp_all
  then show ?thesis using p by blast
qed

end
