(* ===== verification/World.thy ===== *)
theory World
  imports Photo
begin

text \<open>
  The game world of \<open>mp2/world.c\<close>: rooms, the objects in them, the player's flags, and one
  function per button and typed command. The arrays \<open>room\<close>, \<open>object\<close> and \<open>swap_photo\<close> are maps
  from the enumerators that index them, and a pointer into such an array is the enumerator or
  \<open>None\<close> for \<open>NULL\<close>. The contents of a room are the linked list of the code: the first object is
  in the room, the next one in the object. \<open>None\<close> as a result stands for a \<open>NULL\<close> pointer that is
  followed or a list walk that does not end.

  \<open>rand\<close> takes the next number of a given sequence. The status line that \<open>show_status\<close> of
  \<open>adventure.c\<close> writes is part of the state.
\<close>

section \<open>Enumerations\<close>

datatype (plugins only: code size) room_id =
    R_INVENTORY | R_IN_391LAB | R_BY_391LAB | R_IN_IEEE | R_BY_IEEE | R_IN_395LAB | R_BY_395LAB | R_EVT_STAIR
  | R_IN_CLEANR | R_BY_CLEANR | R_EVRT_VEND | R_ALMAMATER | R_IN_COCOMR | R_BY_COCOMR | R_BY_ZAS | R_EAST_EVRT
  | R_EVRT_BSMT | R_WEST_BONE | R_CIRCLE_N | R_CIRCLE_SW | R_EAST_BONE | R_BARDEEN | R_LIB_BACK | R_RESERVE
  | R_TALBOT_NW | R_TALBOT_SW | R_TALBOT | R_SPRINGFLD | R_CARIBOU | R_KENNEY | R_DCL | R_LIB_FRONT
  | R_KENNEY_E | R_NEWMARK | R_MNTL_NW | R_MNTL_SW | R_MNTLLOBBY | R_MNTL_LAB1 | R_MNTL_LAB2 | R_MNTL_LAB3
  | R_CSL_VIEW | R_CSL_DOOR | R_CSL_LOBBY | R_CSL_UPPER | R_CSLLOUNGE | R_BECK_LOT | R_BECKMAN | R_BECK_DOOR
  | R_BECKLOBBY | R_BECK_MRI | R_GARAGE | R_CAR_SITE | R_ALLERTON | R_FU_DOGS | R_STATUE | R_SUNSINGER
  | R_WILLARD | R_WILL_SIDE | R_REM_PLANE | R_COCKPIT | R_OVER_WILL | R_AIR_RIO | R_REM_ICE | R_REM_LAB

datatype (plugins only: code size) obj_id =
    O_BOARD | O_JETPACK | O_TUX | O_MP2 | O_BOOK_C | O_BOOK_WODE | O_GPS_BAD | O_GPS_GOOD
  | O_GPS_SPEC | O_BUNNYSUIT | O_BATT_EMPTY | O_BATT_FULL | O_BATT_CAR | O_MTN_DEW | O_FISH | O_ICARD
  | O_CAR_KEY | O_ROBOT_DEAD | O_ROBOT_LIVE | O_MIMO_CARD

datatype flag_id = FLAG_HAS_EATEN | FLAG_WEARING_SUIT | FLAG_CAR_OPEN | FLAG_CAR_FIXED | FLAG_LURED_TUX

primrec flag_num :: "flag_id \<Rightarrow> nat" where
  "flag_num FLAG_HAS_EATEN = 0"
| "flag_num FLAG_WEARING_SUIT = 1"
| "flag_num FLAG_CAR_OPEN = 2"
| "flag_num FLAG_CAR_FIXED = 3"
| "flag_num FLAG_LURED_TUX = 4"

datatype swap_id = SWAP_CIRCLE | SWAP_CAR

datatype tc_action = TC_ALLOW_EDIT | TC_DISCARD_TEXT | TC_REDRAW_ROOM | TC_CHANGE_ROOM

section \<open>Data\<close>

record room =
  rname :: "string option"
  view :: "photo option"
  contents :: "obj_id option"
  left :: "room_id option"
  enter :: "room_id option"
  right :: "room_id option"

record object =
  oname :: "string option"
  nxt :: "obj_id option"
  loc :: "room_id option"
  pos_x :: u16
  pos_y :: u16
  img :: "image option"

record game =
  room :: "room_id \<Rightarrow> room"
  object :: "obj_id \<Rightarrow> object"
  player_flags :: "u32 list"
  swap_photo :: "swap_id \<Rightarrow> photo option"
  rng :: "nat \<Rightarrow> nat"
  status_msg :: string

datatype room_data = RoomData (rd_id: room_id) (rd_name: string) (rd_filename: string)
  (rd_left: "room_id option") (rd_enter: "room_id option") (rd_right: "room_id option")

definition room_data :: "room_data list" where
  "room_data = [
     RoomData R_INVENTORY ''Inventory'' ''images/backpack.photo'' None None None,
     RoomData R_IN_391LAB ''391 Lab'' ''images/391lab.photo'' None (Some R_BY_391LAB) None,
     RoomData R_BY_391LAB ''Outside of 391'' ''images/outside391.photo'' (Some R_BY_ZAS) (Some R_IN_391LAB) (Some R_BY_IEEE),
     RoomData R_IN_IEEE ''IEEE Office'' ''images/ieee.photo'' None (Some R_BY_IEEE) None,
     RoomData R_BY_IEEE ''Outside IEEE'' ''images/byieee.photo'' (Some R_BY_391LAB) (Some R_IN_IEEE) (Some R_BY_395LAB),
     RoomData R_IN_395LAB ''395 Lab'' ''images/395lab.photo'' None (Some R_BY_395LAB) None,
     RoomData R_BY_395LAB ''Outside of 395'' ''images/outside395.photo'' (Some R_BY_IEEE) None (Some R_EVT_STAIR),
     RoomData R_EVT_STAIR ''Everitt Stairs'' ''images/evtstair.photo'' (Some R_BY_395LAB) (Some R_EAST_EVRT) (Some R_BY_CLEANR),
     RoomData R_IN_CLEANR ''In Cleanroom'' ''images/cleanr.photo'' None (Some R_BY_CLEANR) None,
     RoomData R_BY_CLEANR ''By the Cleanroom'' ''images/outclean.photo'' (Some R_EVT_STAIR) None (Some R_EVRT_VEND),
     RoomData R_EVRT_VEND ''Vending Machine'' ''images/vend.photo'' (Some R_BY_CLEANR) (Some R_EVRT_BSMT) None,
     RoomData R_ALMAMATER ''Alma Mater'' ''images/almamater.photo'' (Some R_EAST_EVRT) (Some R_EAST_EVRT) (Some R_BY_COCOMR),
     RoomData R_IN_COCOMR ''Cocomero'' ''images/incoco.photo'' None (Some R_BY_COCOMR) None,
     RoomData R_BY_COCOMR ''Near Cocomero'' ''images/bycoco.photo'' (Some R_ALMAMATER) (Some R_IN_COCOMR) (Some R_BY_ZAS),
     RoomData R_BY_ZAS ''The Ruins'' ''images/ruins.photo'' (Some R_BY_COCOMR) None None,
     RoomData R_EAST_EVRT ''East of Everitt'' ''images/eeast.photo'' (Some R_ALMAMATER) (Some R_EVT_STAIR) (Some R_EVRT_BSMT),
     RoomData R_EVRT_BSMT ''Basement Entry'' ''images/basement.photo'' (Some R_EAST_EVRT) (Some R_EVRT_VEND) (Some R_CIRCLE_SW),
     RoomData R_WEST_BONE ''Boneyard Creek'' ''images/bonew.photo'' (Some R_CIRCLE_SW) None (Some R_CIRCLE_N),
     RoomData R_CIRCLE_N ''Boneyard Bridge'' ''images/circlen1.photo'' (Some R_WEST_BONE) (Some R_TALBOT_NW) (Some R_EAST_BONE),
     RoomData R_CIRCLE_SW ''Boneyard Bridge'' ''images/circlesw.photo'' (Some R_EAST_BONE) (Some R_EVRT_BSMT) (Some R_CIRCLE_N),
     RoomData R_EAST_BONE ''Boneyard Creek'' ''images/bonee.photo'' (Some R_CIRCLE_N) None (Some R_CIRCLE_SW),
     RoomData R_BARDEEN ''Bardeen Quad'' ''images/bardeen.photo'' (Some R_LIB_BACK) (Some R_EAST_BONE) (Some R_TALBOT_SW),
     RoomData R_LIB_BACK ''Grainger Library'' ''images/graingerback.photo'' (Some R_DCL) (Some R_RESERVE) (Some R_BARDEEN),
     RoomData R_RESERVE ''Grainger Reserves'' ''images/reserve.photo'' None (Some R_LIB_BACK) (Some R_LIB_FRONT),
     RoomData R_TALBOT_NW ''Talbot Lab'' ''images/talbotnw.photo'' (Some R_CIRCLE_SW) (Some R_TALBOT) (Some R_TALBOT_SW),
     RoomData R_TALBOT_SW ''Talbot Lab'' ''images/talbotsw.photo'' (Some R_TALBOT_NW) (Some R_TALBOT) (Some R_SPRINGFLD),
     RoomData R_TALBOT ''Talbot Lab'' ''images/talbot.photo'' None (Some R_TALBOT_NW) None,
     RoomData R_SPRINGFLD ''Springfield Avenue'' ''images/springfield.photo'' (Some R_TALBOT_SW) (Some R_CARIBOU) (Some R_KENNEY),
     RoomData R_CARIBOU ''Caribou'' ''images/caribou.photo'' None (Some R_SPRINGFLD) None,
     RoomData R_KENNEY ''Kenney Gym'' ''images/kenney.photo'' (Some R_SPRINGFLD) None (Some R_DCL),
     RoomData R_DCL ''DCL'' ''images/dcl.photo'' (Some R_KENNEY) (Some R_KENNEY_E) (Some R_LIB_FRONT),
     RoomData R_LIB_FRONT ''Grainger Library'' ''images/graingerfront.photo'' (Some R_DCL) (Some R_RESERVE) (Some R_TALBOT_SW),
     RoomData R_KENNEY_E ''East of Kenney'' ''images/kenneye.photo'' (Some R_DCL) (Some R_DCL) (Some R_NEWMARK),
     RoomData R_NEWMARK ''Newmark Lab'' ''images/newmark.photo'' (Some R_MNTL_NW) None (Some R_KENNEY_E),
     RoomData R_MNTL_NW ''MNTL'' ''images/mntlnw.photo'' (Some R_NEWMARK) (Some R_MNTLLOBBY) (Some R_CSL_VIEW),
     RoomData R_MNTL_SW ''MNTL'' ''images/mntlsw.photo'' (Some R_MNTL_NW) (Some R_MNTLLOBBY) (Some R_BECKMAN),
     RoomData R_MNTLLOBBY ''Lobby of MNTL'' ''images/mntllobby.photo'' (Some R_MNTL_LAB1) (Some R_MNTL_SW) (Some R_MNTL_LAB2),
     RoomData R_MNTL_LAB1 ''Kevin's Lab in MNTL'' ''images/mntllab1.photo'' None None (Some R_MNTLLOBBY),
     RoomData R_MNTL_LAB2 ''MNTL Laser Lab'' ''images/mntllab2.photo'' (Some R_MNTLLOBBY) (Some R_MNTL_LAB3) None,
     RoomData R_MNTL_LAB3 ''MNTL Laser Lab'' ''images/mntllab3.photo'' None (Some R_MNTL_LAB2) None,
     RoomData R_CSL_VIEW ''CSL'' ''images/csl.photo'' (Some R_BECK_LOT) (Some R_CSL_DOOR) (Some R_MNTL_NW),
     RoomData R_CSL_DOOR ''CSL Main Entrance'' ''images/csldoor.photo'' (Some R_BECK_LOT) None (Some R_MNTL_NW),
     RoomData R_CSL_LOBBY ''CSL Lobby'' ''images/csllobby.photo'' (Some R_CSL_UPPER) (Some R_CSL_DOOR) None,
     RoomData R_CSL_UPPER ''Upper Floor of CSL'' ''images/cslupper.photo'' None (Some R_CSLLOUNGE) (Some R_CSL_LOBBY),
     RoomData R_CSLLOUNGE ''CSL Lounge'' ''images/csllounge.photo'' None (Some R_CSL_UPPER) None,
     RoomData R_BECK_LOT ''Beckman Circle Lot'' ''images/becklot.photo'' (Some R_BECKMAN) (Some R_GARAGE) (Some R_CSL_VIEW),
     RoomData R_BECKMAN ''Beckman Institute'' ''images/beckman.photo'' (Some R_MNTL_SW) (Some R_BECK_DOOR) (Some R_BECK_LOT),
     RoomData R_BECK_DOOR ''Beckman Institute'' ''images/beckdoor.photo'' (Some R_MNTL_SW) None (Some R_BECK_LOT),
     RoomData R_BECKLOBBY ''Beckman Lobby'' ''images/becklobby.photo'' None (Some R_BECK_MRI) (Some R_BECK_DOOR),
     RoomData R_BECK_MRI ''An MRI Lab'' ''images/beckmri.photo'' None (Some R_BECKLOBBY) None,
     RoomData R_GARAGE ''Campus Parking'' ''images/garage.photo'' (Some R_BECK_LOT) (Some R_CAR_SITE) None,
     RoomData R_CAR_SITE ''Use Someone's Car?'' ''images/carclosed.photo'' None (Some R_GARAGE) None,
     RoomData R_ALLERTON ''Allerton Mansion'' ''images/allerton.photo'' (Some R_FU_DOGS) None (Some R_SUNSINGER),
     RoomData R_FU_DOGS ''Fu Dog Statues'' ''images/fudogs.photo'' None (Some R_STATUE) (Some R_ALLERTON),
     RoomData R_STATUE ''A Tall Statue'' ''images/statue.photo'' None (Some R_FU_DOGS) None,
     RoomData R_SUNSINGER ''The Sun Singer'' ''images/sunsinger.photo'' (Some R_ALLERTON) None None,
     RoomData R_WILLARD ''Willard Airport'' ''images/willard.photo'' None (Some R_WILL_SIDE) None,
     RoomData R_WILL_SIDE ''Willard Tower'' ''images/willardside.photo'' (Some R_REM_PLANE) None (Some R_WILLARD),
     RoomData R_REM_PLANE ''Sensor-Laden Plane'' ''images/rsenseplane.photo'' (Some R_COCKPIT) None (Some R_WILL_SIDE),
     RoomData R_COCKPIT ''Plane Cockpit'' ''images/cockpit.photo'' None None (Some R_REM_PLANE),
     RoomData R_OVER_WILL ''Flying over Willard'' ''images/overwillard.photo'' None (Some R_COCKPIT) (Some R_AIR_RIO),
     RoomData R_AIR_RIO ''Rio de Janeiro'' ''images/riofromair.photo'' (Some R_OVER_WILL) None (Some R_REM_ICE),
     RoomData R_REM_ICE ''Ice Fields'' ''images/rsenseice.photo'' (Some R_AIR_RIO) (Some R_REM_LAB) None,
     RoomData R_REM_LAB ''Remote Sensing Lab'' ''images/rsenselab.photo'' None (Some R_REM_ICE) None]"

datatype obj_data = ObjData (od_id: obj_id) (od_name: string) (od_filename: string)
  (od_room: "room_id option") (od_x: int) (od_y: int)

definition obj_data :: "obj_data list" where
  "obj_data = [
     ObjData O_BOARD ''board'' ''images/board.obj'' (Some R_IN_IEEE) (-1) (-1),
     ObjData O_JETPACK ''jetpack'' ''images/jetpack.obj'' (Some R_TALBOT) (-1) (-1),
     ObjData O_TUX ''tux'' ''images/tux.obj'' (Some R_REM_LAB) 250 100,
     ObjData O_MP2 ''mp2'' ''images/mp2.obj'' (Some R_CSLLOUNGE) (-1) (-1),
     ObjData O_BOOK_C ''book'' ''images/book.obj'' None (-1) (-1),
     ObjData O_BOOK_WODE ''book'' ''images/book2.obj'' None (-1) (-1),
     ObjData O_GPS_BAD ''gps'' ''images/gpsbad.obj'' (Some R_TALBOT) (-1) (-1),
     ObjData O_GPS_GOOD ''gps'' ''images/gpsgood.obj'' None (-1) (-1),
     ObjData O_GPS_SPEC ''spec'' ''images/gpsspec.obj'' (Some R_CSL_UPPER) (-1) (-1),
     ObjData O_BUNNYSUIT ''bunnysuit'' ''images/bunnysuit.obj'' (Some R_ALMAMATER) 230 250,
     ObjData O_BATT_EMPTY ''battery'' ''images/battery.obj'' None (-1) (-1),
     ObjData O_BATT_FULL ''battery'' ''images/battery.obj'' None (-1) (-1),
     ObjData O_BATT_CAR ''battery'' ''images/batteryincar.obj'' None (-1) (-1),
     ObjData O_MTN_DEW ''dew'' ''images/dew.obj'' None (-1) (-1),
     ObjData O_FISH ''fish'' ''images/fish.obj'' (Some R_EAST_BONE) 80 260,
     ObjData O_ICARD ''Icard'' ''images/icard.obj'' (Some R_BARDEEN) (-1) (-1),
     ObjData O_CAR_KEY ''key'' ''images/key.obj'' (Some R_CARIBOU) (-1) (-1),
     ObjData O_ROBOT_DEAD ''robot'' ''images/robot.obj'' (Some R_MNTL_LAB3) (-1) (-1),
     ObjData O_ROBOT_LIVE ''robot'' ''images/robot.obj'' None (-1) (-1),
     ObjData O_MIMO_CARD ''mimo'' ''images/mimo.obj'' (Some R_STATUE) (-1) (-1)]"

definition swap_data :: "(swap_id \<times> string) list" where
  "swap_data = [(SWAP_CIRCLE, ''images/circlen2.photo''), (SWAP_CAR, ''images/caropen.photo'')]"

section \<open>Library functions\<close>

definition STATUS_MSG_LEN :: nat where "STATUS_MSG_LEN = 40"

definition show_status :: "string \<Rightarrow> game \<Rightarrow> game" where
  "show_status s g = g\<lparr>status_msg := take STATUS_MSG_LEN s\<rparr>"

definition rand :: "game \<Rightarrow> nat \<times> game" where
  "rand g = (rng g 0, g\<lparr>rng := \<lambda>n. rng g (Suc n)\<rparr>)"

definition tolower :: "char \<Rightarrow> char" where
  "tolower c = (let n = of_char c :: nat in if 65 \<le> n \<and> n \<le> 90 then char_of (n + 32) else c)"

definition strcaseeq :: "string \<Rightarrow> string \<Rightarrow> bool" where
  "strcaseeq a b \<longleftrightarrow> map tolower a = map tolower b"

section \<open>Objects and rooms\<close>

definition upd_room :: "room_id \<Rightarrow> (room \<Rightarrow> room) \<Rightarrow> game \<Rightarrow> game" where
  "upd_room r f g = g\<lparr>room := (room g)(r := f (room g r))\<rparr>"

definition upd_object :: "obj_id \<Rightarrow> (object \<Rightarrow> object) \<Rightarrow> game \<Rightarrow> game" where
  "upd_object ob f g = g\<lparr>object := (object g)(ob := f (object g ob))\<rparr>"

definition do_photo_swap :: "room_id \<Rightarrow> swap_id \<Rightarrow> game \<Rightarrow> game" where
  "do_photo_swap r which g =
     (let tmp = view (room g r); g = upd_room r (\<lambda>x. x\<lparr>view := swap_photo g which\<rparr>) g
      in g\<lparr>swap_photo := (swap_photo g)(which := tmp)\<rparr>)"

partial_function (option) find_from :: "game \<Rightarrow> obj_id option \<Rightarrow> string \<Rightarrow> obj_id option option" where
  "find_from g p arg =
     (case p of
        None \<Rightarrow> Some None
      | Some ob \<Rightarrow>
          (case oname (object g ob) of
             None \<Rightarrow> None
           | Some n \<Rightarrow> if strcaseeq arg n then Some (Some ob) else find_from g (nxt (object g ob)) arg))"

definition find_in_room :: "room_id \<Rightarrow> string \<Rightarrow> game \<Rightarrow> obj_id option option" where
  "find_in_room r arg g = find_from g (contents (room g r)) arg"

text \<open>The pointer variables that \<open>find\<close> of \<open>remove_object\<close> points to.\<close>

datatype link = ContentsOf room_id | NextOf obj_id

definition get_link :: "game \<Rightarrow> link \<Rightarrow> obj_id option" where
  "get_link g l = (case l of ContentsOf r \<Rightarrow> contents (room g r) | NextOf ob \<Rightarrow> nxt (object g ob))"

definition set_link :: "link \<Rightarrow> obj_id option \<Rightarrow> game \<Rightarrow> game" where
  "set_link l p g =
     (case l of ContentsOf r \<Rightarrow> upd_room r (\<lambda>x. x\<lparr>contents := p\<rparr>) g | NextOf ob \<Rightarrow> upd_object ob (\<lambda>x. x\<lparr>nxt := p\<rparr>) g)"

partial_function (option) unlink :: "obj_id \<Rightarrow> link \<Rightarrow> game \<Rightarrow> game option" where
  "unlink ob l g =
     (case get_link g l of
        None \<Rightarrow> Some g
      | Some p \<Rightarrow> if p = ob then Some (set_link l (nxt (object g ob)) g) else unlink ob (NextOf p) g)"

definition remove_object :: "obj_id \<Rightarrow> game \<Rightarrow> game option" where
  "remove_object ob g =
     (case loc (object g ob) of
        None \<Rightarrow> Some g
      | Some r \<Rightarrow> map_option (upd_object ob (\<lambda>x. x\<lparr>loc := None\<rparr>)) (unlink ob (ContentsOf r) g))"

definition insert_object_at :: "obj_id \<Rightarrow> room_id \<Rightarrow> int \<Rightarrow> int \<Rightarrow> game \<Rightarrow> game option" where
  "insert_object_at ob r x y g =
     do { g \<leftarrow> remove_object ob g;
          let g = upd_object ob (\<lambda>o'. o'\<lparr>pos_x := word_of_int x, pos_y := word_of_int y\<rparr>) g;
          let g = upd_object ob (\<lambda>o'. o'\<lparr>loc := Some r\<rparr>) g;
          let g = upd_object ob (\<lambda>o'. o'\<lparr>nxt := contents (room g r)\<rparr>) g;
          Some (upd_room r (\<lambda>x. x\<lparr>contents := Some ob\<rparr>) g) }"

definition rand_below :: "int \<Rightarrow> game \<Rightarrow> int \<times> game" where
  "rand_below rg g = (if 0 \<ge> rg then (0, g) else let (v, g) = rand g in (int v mod rg, g))"

definition insert_object :: "obj_id \<Rightarrow> room_id \<Rightarrow> game \<Rightarrow> game option" where
  "insert_object ob r g =
     do { v \<leftarrow> view (room g r);
          im \<leftarrow> img (object g ob);
          let (xpos, g) = rand_below (sint (photo_width v - image_width im)) g;
          let space = sint (photo_height v);
          let img_ht = sint (image_height im);
          let (ypos, g) =
            (if 0 \<ge> space div 4 - img_ht then rand_below (space - img_ht) g
             else let (y, g) = rand_below (space div 4 - img_ht) g in (y + 3 * space div 4, g));
          insert_object_at ob r xpos ypos g }"

partial_function (option) occupied :: "game \<Rightarrow> obj_id option \<Rightarrow> int \<Rightarrow> int \<Rightarrow> bool option" where
  "occupied g p x y =
     (case p of
        None \<Rightarrow> Some False
      | Some conf \<Rightarrow>
          if x = uint (pos_x (object g conf)) \<and> y = uint (pos_y (object g conf)) then Some True
          else occupied g (nxt (object g conf)) x y)"

text \<open>The grid positions in the order of the two loops.\<close>

definition grid :: "(int \<times> int) list" where
  "grid = concat (map (\<lambda>y. map (\<lambda>x. (x, y)) [10, 110, 210]) [10, 60, 110, 160])"

fun place_on_grid :: "(int \<times> int) list \<Rightarrow> obj_id \<Rightarrow> game \<Rightarrow> game option" where
  "place_on_grid [] ob g = insert_object ob R_INVENTORY g"
| "place_on_grid ((x, y) # ps) ob g =
     do { conf \<leftarrow> occupied g (contents (room g R_INVENTORY)) x y;
          if \<not> conf then insert_object_at ob R_INVENTORY x y g else place_on_grid ps ob g }"

definition move_object_to_inventory :: "obj_id \<Rightarrow> game \<Rightarrow> game option" where
  "move_object_to_inventory ob g = place_on_grid grid ob g"

definition player_flag_is_set :: "flag_id \<Rightarrow> game \<Rightarrow> bool" where
  "player_flag_is_set f g \<longleftrightarrow> player_flags g ! (flag_num f div 32) AND push_bit (flag_num f mod 32) 1 \<noteq> 0"

definition player_set_flag :: "flag_id \<Rightarrow> game \<Rightarrow> game" where
  "player_set_flag f g =
     (let i = flag_num f div 32 in g\<lparr>player_flags := (player_flags g)[i := player_flags g ! i OR push_bit (flag_num f mod 32) 1]\<rparr>)"

text \<open>The object found and the state; \<open>Some (None, g)\<close> is the return value \<open>NULL\<close>.\<close>

definition obj_special_get :: "room_id \<Rightarrow> string \<Rightarrow> game \<Rightarrow> (obj_id option \<times> game) option" where
  "obj_special_get r arg g =
     (if r = R_RESERVE \<and> strcaseeq ''book'' arg \<and> player_flag_is_set FLAG_HAS_EATEN g \<and> loc (object g O_BOOK_C) = None
      then Some (Some O_BOOK_C, show_status ''You check out the C book.'' g)
      else if r = R_RESERVE \<and> strcaseeq ''book'' arg \<and> \<not> player_flag_is_set FLAG_HAS_EATEN g \<and> loc (object g O_BOOK_WODE) = None
      then Some (Some O_BOOK_WODE, show_status ''Here's a nice Wodehouse collection.'' g)
      else if r = R_CAR_SITE \<and> loc (object g O_BATT_CAR) = Some r
      then map_option (Pair (Some O_BATT_EMPTY)) (remove_object O_BATT_CAR g)
      else Some (None, g))"

section \<open>Accessors\<close>

definition obj_get_x :: "obj_id \<Rightarrow> game \<Rightarrow> u16" where "obj_get_x ob g = pos_x (object g ob)"
definition obj_get_y :: "obj_id \<Rightarrow> game \<Rightarrow> u16" where "obj_get_y ob g = pos_y (object g ob)"
definition obj_image :: "obj_id \<Rightarrow> game \<Rightarrow> image option" where "obj_image ob g = img (object g ob)"
definition obj_next :: "obj_id \<Rightarrow> game \<Rightarrow> obj_id option" where "obj_next ob g = nxt (object g ob)"
definition room_contents_iterate :: "room_id \<Rightarrow> game \<Rightarrow> obj_id option" where "room_contents_iterate r g = contents (room g r)"
definition room_name :: "room_id \<Rightarrow> game \<Rightarrow> string option" where "room_name r g = rname (room g r)"
definition room_photo :: "room_id \<Rightarrow> game \<Rightarrow> photo option" where "room_photo r g = view (room g r)"
definition room_photo_height :: "room_id \<Rightarrow> game \<Rightarrow> u32 option" where "room_photo_height r g = map_option photo_height (room_photo r g)"
definition room_photo_width :: "room_id \<Rightarrow> game \<Rightarrow> u32 option" where "room_photo_width r g = map_option photo_width (room_photo r g)"
definition start_in_room :: room_id where "start_in_room = R_EAST_EVRT"
definition player_has_board :: "game \<Rightarrow> bool" where "player_has_board g \<longleftrightarrow> loc (object g O_BOARD) = Some R_INVENTORY"
definition player_has_jetpack :: "game \<Rightarrow> bool" where "player_has_jetpack g \<longleftrightarrow> loc (object g O_JETPACK) = Some R_INVENTORY"

section \<open>Building the world\<close>

datatype build_error = DuplicateRoom room_id | NoRoomPhoto string | DuplicateObject obj_id | NoObjectImage string
  | DuplicateSwap swap_id | NoSwapPhoto string

definition empty_room :: room where
  "empty_room = \<lparr>rname = None, view = None, contents = None, left = None, enter = None, right = None\<rparr>"

definition empty_object :: object where
  "empty_object = \<lparr>oname = None, nxt = None, loc = None, pos_x = 0, pos_y = 0, img = None\<rparr>"

fun build_rooms :: "(string \<Rightarrow> photo option) \<Rightarrow> room_data list \<Rightarrow> game \<Rightarrow> build_error + game" where
  "build_rooms rp [] g = Inr g"
| "build_rooms rp (d # ds) g =
     (if rname (room g (rd_id d)) \<noteq> None then Inl (DuplicateRoom (rd_id d))
      else case rp (rd_filename d) of
        None \<Rightarrow> Inl (NoRoomPhoto (rd_filename d))
      | Some p \<Rightarrow>
          build_rooms rp ds (upd_room (rd_id d)
            (\<lambda>_. \<lparr>rname = Some (rd_name d), view = Some p, contents = None,
                  left = rd_left d, enter = rd_enter d, right = rd_right d\<rparr>) g))"

definition place_initially :: "obj_data \<Rightarrow> game \<Rightarrow> game option" where
  "place_initially d g =
     (case od_room d of
        None \<Rightarrow> Some g
      | Some r \<Rightarrow> if od_x d \<noteq> -1 then insert_object_at (od_id d) r (od_x d) (od_y d) g else insert_object (od_id d) r g)"

fun build_objects :: "(string \<Rightarrow> image option) \<Rightarrow> obj_data list \<Rightarrow> game \<Rightarrow> (build_error + game) option" where
  "build_objects ri [] g = Some (Inr g)"
| "build_objects ri (d # ds) g =
     (if oname (object g (od_id d)) \<noteq> None then Some (Inl (DuplicateObject (od_id d)))
      else case ri (od_filename d) of
        None \<Rightarrow> Some (Inl (NoObjectImage (od_filename d)))
      | Some im \<Rightarrow>
          do { g \<leftarrow> place_initially d (upd_object (od_id d)
                     (\<lambda>_. \<lparr>oname = Some (od_name d), nxt = None, loc = None, pos_x = 0, pos_y = 0, img = Some im\<rparr>) g);
               build_objects ri ds g })"

fun build_swaps :: "(string \<Rightarrow> photo option) \<Rightarrow> (swap_id \<times> string) list \<Rightarrow> game \<Rightarrow> build_error + game" where
  "build_swaps rp [] g = Inr g"
| "build_swaps rp ((which, fname) # ds) g =
     (if swap_photo g which \<noteq> None then Inl (DuplicateSwap which)
      else case rp fname of
        None \<Rightarrow> Inl (NoSwapPhoto fname)
      | Some p \<Rightarrow> build_swaps rp ds (g\<lparr>swap_photo := (swap_photo g)(which := Some p)\<rparr>))"

definition build_world :: "(nat \<Rightarrow> bool) \<Rightarrow> files \<Rightarrow> game \<Rightarrow> (build_error + game) option" where
  "build_world malloc fs g =
     (let g = g\<lparr>player_flags := [0], room := \<lambda>_. empty_room\<rparr> in
      case build_rooms (read_photo malloc fs) room_data g of
        Inl e \<Rightarrow> Some (Inl e)
      | Inr g \<Rightarrow>
          do { res \<leftarrow> build_objects (read_obj_image malloc fs) obj_data (g\<lparr>object := \<lambda>_. empty_object\<rparr>);
               case res of
                 Inl e \<Rightarrow> Some (Inl e)
               | Inr g \<Rightarrow> Some (build_swaps (read_photo malloc fs) swap_data (g\<lparr>swap_photo := \<lambda>_. None\<rparr>)) })"

end
