(* ===== verification/Commands.thy ===== *)
theory Commands
  imports World
begin

text \<open>
  The actions of the player in \<open>mp2/world.c\<close>: the three moves bound to buttons and the fourteen
  typed commands. Each takes the player's room and the world and returns the kind of action, the new
  room (\<open>None\<close> is the \<open>NULL\<close> that ends the game) and the new world.
\<close>

type_synonym outcome = "(tc_action \<times> room_id option \<times> game) option"

text \<open>\<open>show_status (msg); return act;\<close>\<close>

definition say :: "tc_action \<Rightarrow> string \<Rightarrow> room_id \<Rightarrow> game \<Rightarrow> outcome" where
  "say act msg r g = Some (act, Some r, show_status msg g)"

definition at :: "obj_id \<Rightarrow> room_id \<Rightarrow> game \<Rightarrow> bool" where
  "at ob r g \<longleftrightarrow> loc (object g ob) = Some r"

section \<open>Moving\<close>

definition enter_circle :: "room_id \<Rightarrow> game \<Rightarrow> game" where
  "enter_circle r g =
     (if r = R_CIRCLE_N then let (v, g) = rand g in if v mod 2 = 0 then do_photo_swap r SWAP_CIRCLE g else g
      else g)"

definition try_to_move_left :: "room_id \<Rightarrow> game \<Rightarrow> outcome" where
  "try_to_move_left r g =
     (case left (room g r) of
        Some r' \<Rightarrow> Some (TC_CHANGE_ROOM, Some r', enter_circle r' g)
      | None \<Rightarrow>
          if r = R_INVENTORY then say TC_ALLOW_EDIT ''Push 'home' or type 'inventory'.'' r g
          else say TC_ALLOW_EDIT ''You can't go that way.'' r g)"

definition try_to_move_right :: "room_id \<Rightarrow> game \<Rightarrow> outcome" where
  "try_to_move_right r g =
     (case right (room g r) of
        Some r' \<Rightarrow> Some (TC_CHANGE_ROOM, Some r', enter_circle r' g)
      | None \<Rightarrow>
          if r = R_INVENTORY then say TC_ALLOW_EDIT ''Push 'home' or type 'inventory'.'' r g
          else say TC_ALLOW_EDIT ''You can't go that way.'' r g)"

definition advice :: "string list" where
  "advice =
     [''Kevin says, \"Andres' board is FAST!\"'',
      ''Kevin asks, \"Got a jetpack?\"'',
      ''Kevin: \"You can flash hardware in 395.\"'',
      ''Kevin suggests, \"Always carry a fish.\"'',
      ''Kevin asks, \"Have you done your MP2?\"'',
      ''Kevin says, \"Cocomero sells yogurt.\"'',
      ''Kevin asks, \"Maybe you need a Dew?\"'',
      ''Kevin: \"A magnet can charge a battery.\"'']"

definition try_to_enter :: "room_id \<Rightarrow> game \<Rightarrow> outcome" where
  "try_to_enter r g =
     (case enter (room g r) of
        Some r' \<Rightarrow> Some (TC_CHANGE_ROOM, Some r', enter_circle r' g)
      | None \<Rightarrow>
          if r = R_BY_CLEANR then
            (if player_flag_is_set FLAG_WEARING_SUIT g then Some (TC_CHANGE_ROOM, Some R_IN_CLEANR, g)
             else say TC_ALLOW_EDIT ''You're not wearing a bunnysuit!'' r g)
          else if r = R_BY_395LAB then
            (if at O_ICARD R_INVENTORY g then say TC_CHANGE_ROOM ''You swiped your Icard.'' R_IN_395LAB g
             else say TC_ALLOW_EDIT ''You need a valid Icard.'' r g)
          else if r = R_CSL_DOOR then
            (if at O_ICARD R_INVENTORY g then say TC_CHANGE_ROOM ''You swiped your Icard.'' R_CSL_LOBBY g
             else say TC_ALLOW_EDIT ''You need a valid Icard.'' r g)
          else if r = R_BECK_DOOR then
            (if at O_ROBOT_LIVE R_INVENTORY g then say TC_CHANGE_ROOM ''The robot hand picked the lock!'' R_BECKLOBBY g
             else if at O_ROBOT_DEAD R_INVENTORY g then say TC_ALLOW_EDIT ''Flash the robot's code again.'' r g
             else say TC_ALLOW_EDIT ''Complex lock!  Find a nanotech robot.'' r g)
          else if r = R_MNTL_LAB1 then
            (let (v, g) = rand g in say TC_ALLOW_EDIT (advice ! (v mod 8)) r g)
          else if r = R_COCKPIT then say TC_ALLOW_EDIT ''A MIMO transmitter card is missing!'' r g
          else say TC_ALLOW_EDIT ''You can't go that way.'' r g)"

section \<open>Typed commands\<close>

definition typed_cmd_buy :: "room_id \<Rightarrow> string \<Rightarrow> game \<Rightarrow> outcome" where
  "typed_cmd_buy r arg g =
     (if strcaseeq ''dew'' arg then
        (if r \<noteq> R_EVRT_VEND then say TC_DISCARD_TEXT ''Great idea!  But ... where?'' r g
         else if at O_MTN_DEW R_INVENTORY g \<or> at O_MTN_DEW r g then say TC_DISCARD_TEXT ''Slow down!  One at a time...'' r g
         else
           let g = (if loc (object g O_MTN_DEW) \<noteq> None then show_status ''Last one get stolen?  Ok...here we go...'' g
                    else show_status ''You buy a Dew.'' g)
           in do { g \<leftarrow> move_object_to_inventory O_MTN_DEW g; Some (TC_REDRAW_ROOM, Some r, g) })
      else if strcaseeq ''yogurt'' arg then
        (if r \<noteq> R_IN_COCOMR then say TC_DISCARD_TEXT ''Cocomero doesn't deliver here.'' r g
         else if player_flag_is_set FLAG_HAS_EATEN g then say TC_DISCARD_TEXT ''You're not hungry.'' r g
         else say TC_DISCARD_TEXT ''So tasty and delicious!'' r (player_set_flag FLAG_HAS_EATEN g))
      else say TC_ALLOW_EDIT ''Sorry, purchasing options are limited.'' r g)"

definition typed_cmd_charge :: "room_id \<Rightarrow> string \<Rightarrow> game \<Rightarrow> outcome" where
  "typed_cmd_charge r arg g =
     (if \<not> strcaseeq ''battery'' arg then say TC_ALLOW_EDIT ''Electronic devices aren't (always) toys!'' r g
      else if \<not> at O_BATT_EMPTY R_INVENTORY g \<and> \<not> at O_BATT_EMPTY r g \<and> \<not> at O_BATT_FULL R_INVENTORY g \<and> \<not> at O_BATT_FULL r g
      then say TC_DISCARD_TEXT ''What battery?'' r g
      else if r \<noteq> R_BECK_MRI then say TC_DISCARD_TEXT ''Find a bigger magnet.'' r g
      else if at O_BATT_FULL R_INVENTORY g \<or> at O_BATT_FULL r g then say TC_DISCARD_TEXT ''Don't overdo it.'' r g
      else do { g \<leftarrow> remove_object O_BATT_EMPTY g;
                g \<leftarrow> move_object_to_inventory O_BATT_FULL g;
                say TC_REDRAW_ROOM ''Wow!  That's a strong magnet!'' r g })"

definition typed_cmd_do :: "room_id \<Rightarrow> string \<Rightarrow> game \<Rightarrow> outcome" where
  "typed_cmd_do r arg g =
     (if r \<noteq> R_IN_391LAB then say TC_ALLOW_EDIT ''You can't 'do' anything here.'' r g
      else if \<not> strcaseeq ''391'' arg \<and> \<not> strcaseeq ''mp2'' arg then say TC_ALLOW_EDIT ''Doing the 391 MP2 is more important!'' r g
      else if \<not> at O_BOOK_C R_INVENTORY g then say TC_DISCARD_TEXT ''You'd better get a book from Grainger.'' r g
      else if \<not> at O_MP2 R_INVENTORY g then say TC_DISCARD_TEXT ''Web's down.  Bring your own MP2.'' r g
      else if \<not> at O_TUX R_IN_391LAB g then say TC_DISCARD_TEXT ''You'd have better luck if Tux were here.'' r g
      else Some (TC_CHANGE_ROOM, None, g))"

definition typed_cmd_drink :: "room_id \<Rightarrow> string \<Rightarrow> game \<Rightarrow> outcome" where
  "typed_cmd_drink r arg g =
     (if \<not> strcaseeq ''dew'' arg then say TC_ALLOW_EDIT ''That sounds less refreshing than Dew.'' r g
      else if \<not> at O_MTN_DEW R_INVENTORY g \<and> \<not> at O_MTN_DEW r g then say TC_DISCARD_TEXT ''Uh-oh.  Hadewcinations.  Buy one soon!'' r g
      else do { g \<leftarrow> remove_object O_MTN_DEW g; say TC_REDRAW_ROOM ''Ahhhhhhhhhhhhhhhh...........nother?'' r g })"

text \<open>Dropping or getting while the inventory is shown acts on the room the player stands in.\<close>

definition standing_in :: "room_id \<Rightarrow> game \<Rightarrow> room_id option" where
  "standing_in r g = (if r = R_INVENTORY then enter (room g R_INVENTORY) else Some r)"

definition typed_cmd_drop :: "room_id \<Rightarrow> string \<Rightarrow> game \<Rightarrow> outcome" where
  "typed_cmd_drop r arg g =
     do { found \<leftarrow> find_in_room R_INVENTORY arg g;
          case found of
            None \<Rightarrow> say TC_ALLOW_EDIT ''You have no such thing.'' r g
          | Some ob \<Rightarrow>
              let g = (if ob = O_BATT_FULL \<and> r = R_CAR_SITE \<or> ob = O_MIMO_CARD \<and> r = R_REM_PLANE
                       then show_status ''You may want to install it instead.'' g else g)
              in do { dest \<leftarrow> standing_in r g; g \<leftarrow> insert_object ob dest g; Some (TC_REDRAW_ROOM, Some r, g) } }"

definition typed_cmd_fix :: "room_id \<Rightarrow> string \<Rightarrow> game \<Rightarrow> outcome" where
  "typed_cmd_fix r arg g =
     (if \<not> strcaseeq ''gps'' arg then say TC_ALLOW_EDIT ''In the game, you're not as capable.'' r g
      else if at O_GPS_GOOD R_INVENTORY g \<or> at O_GPS_GOOD r g then say TC_DISCARD_TEXT ''It's working fine.'' r g
      else if \<not> at O_GPS_BAD R_INVENTORY g \<and> \<not> at O_GPS_BAD r g then say TC_DISCARD_TEXT ''Do you have a GPS?'' r g
      else if r \<noteq> R_IN_CLEANR then say TC_DISCARD_TEXT ''You'd better go to the cleanroom.'' r g
      else if \<not> at O_GPS_SPEC R_INVENTORY g \<and> \<not> at O_GPS_SPEC r g then say TC_DISCARD_TEXT ''Maybe you'd better get a spec?'' r g
      else do { g \<leftarrow> remove_object O_GPS_BAD g;
                g \<leftarrow> remove_object O_GPS_SPEC g;
                g \<leftarrow> move_object_to_inventory O_GPS_GOOD g;
                say TC_CHANGE_ROOM ''All done--wow, you're good!'' r g })"

definition typed_cmd_flash :: "room_id \<Rightarrow> string \<Rightarrow> game \<Rightarrow> outcome" where
  "typed_cmd_flash r arg g =
     (if \<not> strcaseeq ''robot'' arg then say TC_ALLOW_EDIT ''Don't waste your time.'' r g
      else if \<not> at O_ROBOT_DEAD R_INVENTORY g \<and> \<not> at O_ROBOT_DEAD r g \<and> \<not> at O_ROBOT_LIVE R_INVENTORY g \<and> \<not> at O_ROBOT_LIVE r g
      then say TC_DISCARD_TEXT ''Maybe get the robot first?'' r g
      else if r \<noteq> R_IN_395LAB then say TC_DISCARD_TEXT ''With spit and a lemon?  Try the lab.'' r g
      else if at O_ROBOT_LIVE R_INVENTORY g \<or> at O_ROBOT_LIVE r g then say TC_DISCARD_TEXT ''You flash the robot's ROM again.'' r g
      else do { g \<leftarrow> remove_object O_ROBOT_DEAD g;
                g \<leftarrow> move_object_to_inventory O_ROBOT_LIVE g;
                say TC_REDRAW_ROOM ''You flash it with a lockpicking code.'' r g })"

definition typed_cmd_get :: "room_id \<Rightarrow> string \<Rightarrow> game \<Rightarrow> outcome" where
  "typed_cmd_get r arg g =
     do { src \<leftarrow> standing_in r g;
          (special, g) \<leftarrow> obj_special_get src arg g;
          found \<leftarrow> (case special of Some ob \<Rightarrow> Some (Some ob) | None \<Rightarrow> find_in_room src arg g);
          case found of
            None \<Rightarrow> say TC_ALLOW_EDIT ''You see no such thing here.'' r g
          | Some ob \<Rightarrow>
              if ob = O_TUX \<and> \<not> player_flag_is_set FLAG_LURED_TUX g
              then say TC_DISCARD_TEXT ''Tux must choose you!  Try using a fish.'' r g
              else do { g \<leftarrow> move_object_to_inventory ob g; Some (TC_REDRAW_ROOM, Some r, g) } }"

definition car_state :: "game \<Rightarrow> string" where
  "car_state g = (if player_flag_is_set FLAG_CAR_OPEN g then ''The car isn't working.'' else ''Do you want to use that car?'')"

definition typed_cmd_go :: "room_id \<Rightarrow> string \<Rightarrow> game \<Rightarrow> outcome" where
  "typed_cmd_go r arg g =
     (if strcaseeq ''allerton'' arg then
        (if r = R_ALLERTON then say TC_DISCARD_TEXT ''Kazam!  You're at Allerton!'' r g
         else if r \<noteq> R_WILLARD \<and> r \<noteq> R_CAR_SITE then say TC_DISCARD_TEXT ''That's quite a hike.'' r g
         else if \<not> player_flag_is_set FLAG_CAR_FIXED g then say TC_DISCARD_TEXT (car_state g) r g
         else if \<not> at O_GPS_GOOD R_INVENTORY g then
           say TC_DISCARD_TEXT (if at O_GPS_BAD R_INVENTORY g then ''That's a long road with a broken GPS.''
                                else ''You'll need a GPS to find that place.'') r g
         else say TC_CHANGE_ROOM ''You drive to Allerton Park.'' R_ALLERTON g)
      else if strcaseeq ''willard'' arg \<or> strcaseeq ''airport'' arg then
        (if r = R_WILLARD then say TC_DISCARD_TEXT ''Kazap!  You're at Willard!'' r g
         else if r \<noteq> R_ALLERTON \<and> r \<noteq> R_CAR_SITE then say TC_DISCARD_TEXT ''That's quite a hike.'' r g
         else if \<not> player_flag_is_set FLAG_CAR_FIXED g then say TC_DISCARD_TEXT (car_state g) r g
         else say TC_CHANGE_ROOM ''You drive to Willard Airport.'' R_WILLARD g)
      else if strcaseeq ''campus'' arg then
        (if r = R_CAR_SITE then say TC_DISCARD_TEXT ''Kazar!  You're on campus!'' r g
         else if r \<noteq> R_ALLERTON \<and> r \<noteq> R_WILLARD then say TC_DISCARD_TEXT ''That's quite a hike.'' r g
         else say TC_CHANGE_ROOM ''You drive back to campus.'' R_CAR_SITE g)
      else say TC_ALLOW_EDIT ''The game map lacks certain places.'' r g)"

definition typed_cmd_install :: "room_id \<Rightarrow> string \<Rightarrow> game \<Rightarrow> outcome" where
  "typed_cmd_install r arg g =
     (if strcaseeq ''battery'' arg then
        (if \<not> at O_BATT_EMPTY R_INVENTORY g \<and> \<not> at O_BATT_EMPTY r g \<and> \<not> at O_BATT_FULL R_INVENTORY g \<and> \<not> at O_BATT_FULL r g
         then say TC_DISCARD_TEXT ''What battery?'' r g
         else if r \<noteq> R_CAR_SITE then say TC_DISCARD_TEXT ''Do you see the car?'' r g
         else if at O_BATT_EMPTY R_INVENTORY g \<or> at O_BATT_EMPTY r g then say TC_DISCARD_TEXT ''You want to install a dead battery?'' r g
         else do { g \<leftarrow> remove_object O_BATT_FULL g;
                   say TC_CHANGE_ROOM ''Nice work!  Now you can use it!'' r (do_photo_swap r SWAP_CAR (player_set_flag FLAG_CAR_FIXED g)) })
      else if strcaseeq ''mimo'' arg \<or> strcaseeq ''card'' arg \<or> strcaseeq ''transmitter'' arg then
        (if \<not> at O_MIMO_CARD R_INVENTORY g \<and> \<not> at O_MIMO_CARD r g then say TC_DISCARD_TEXT ''Do you have one of those?'' r g
         else if r \<noteq> R_COCKPIT then say TC_DISCARD_TEXT ''Nothing here needs that.'' r g
         else do { g \<leftarrow> remove_object O_MIMO_CARD g;
                   say TC_REDRAW_ROOM ''Ready for takeoff, captain!'' r (upd_room R_COCKPIT (\<lambda>x. x\<lparr>enter := Some R_OVER_WILL\<rparr>) g) })
      else say TC_ALLOW_EDIT ''What are you playing at?'' r g)"

definition typed_cmd_inventory :: "room_id \<Rightarrow> string \<Rightarrow> game \<Rightarrow> outcome" where
  "typed_cmd_inventory r arg g =
     (if r = R_INVENTORY then Some (TC_CHANGE_ROOM, enter (room g R_INVENTORY), g)
      else Some (TC_CHANGE_ROOM, Some R_INVENTORY, upd_room R_INVENTORY (\<lambda>x. x\<lparr>enter := Some r\<rparr>) g))"

definition typed_cmd_sigh :: "room_id \<Rightarrow> string \<Rightarrow> game \<Rightarrow> outcome" where
  "typed_cmd_sigh r arg g =
     (if r \<noteq> R_BY_ZAS then say TC_DISCARD_TEXT ''MP2 got you down?  Take a break!'' r g
      else Some (TC_DISCARD_TEXT, Some r, player_set_flag FLAG_HAS_EATEN (show_status ''So sad... you lose your appetite.'' g)))"

definition typed_cmd_use :: "room_id \<Rightarrow> string \<Rightarrow> game \<Rightarrow> outcome" where
  "typed_cmd_use r arg g =
     (if strcaseeq ''car'' arg then
        (if r = R_ALLERTON then say TC_DISCARD_TEXT ''Go to campus or Willard Airport?'' r g
         else if r = R_WILLARD then say TC_DISCARD_TEXT ''Go to Allerton or campus?'' r g
         else if r \<noteq> R_CAR_SITE then say TC_DISCARD_TEXT ''You have a car?'' r g
         else if player_flag_is_set FLAG_CAR_FIXED g then say TC_DISCARD_TEXT ''Go to Allerton or Willard Airport?'' r g
         else if player_flag_is_set FLAG_CAR_OPEN g then say TC_DISCARD_TEXT ''You'll have to charge the battery.'' r g
         else if \<not> at O_CAR_KEY R_INVENTORY g then say TC_DISCARD_TEXT ''Perhaps you can find a key?'' r g
         else do { g \<leftarrow> remove_object O_CAR_KEY (do_photo_swap r SWAP_CAR g);
                   g \<leftarrow> insert_object_at O_BATT_CAR r 265 122 g;
                   say TC_CHANGE_ROOM ''The key works, but the battery's dead.'' r (player_set_flag FLAG_CAR_OPEN g) })
      else if strcaseeq ''fish'' arg then
        (if \<not> at O_FISH R_INVENTORY g \<and> \<not> at O_FISH r g then say TC_DISCARD_TEXT ''Using the invisible fish...no effect!'' r g
         else if r \<noteq> R_REM_LAB then say TC_DISCARD_TEXT ''I don't think that's sanitary.'' r g
         else do { g \<leftarrow> remove_object O_FISH g;
                   g \<leftarrow> move_object_to_inventory O_TUX g;
                   say TC_REDRAW_ROOM ''Tux likes you!'' r (player_set_flag FLAG_LURED_TUX g) })
      else say TC_ALLOW_EDIT ''You want to use what!?'' r g)"

definition typed_cmd_wear :: "room_id \<Rightarrow> string \<Rightarrow> game \<Rightarrow> outcome" where
  "typed_cmd_wear r arg g =
     (if \<not> strcaseeq ''bunnysuit'' arg then say TC_ALLOW_EDIT ''Big Brother forbids fashion statements.'' r g
      else if \<not> at O_BUNNYSUIT R_INVENTORY g \<and> \<not> at O_BUNNYSUIT r g then say TC_DISCARD_TEXT ''Do you have a bunnysuit?'' r g
      else do { g \<leftarrow> remove_object O_BUNNYSUIT g;
                say TC_REDRAW_ROOM ''You look good in pink!'' r (player_set_flag FLAG_WEARING_SUIT g) })"

text \<open>The verbs and the call that \<open>handle_typing\<close> makes for each of them.\<close>

datatype cmd_id = TC_BUY | TC_CHARGE | TC_DO | TC_DRINK | TC_DROP | TC_FIX | TC_FLASH | TC_GET | TC_GO
  | TC_INSTALL | TC_INVENTORY | TC_SIGH | TC_USE | TC_WEAR

primrec run_cmd :: "cmd_id \<Rightarrow> room_id \<Rightarrow> string \<Rightarrow> game \<Rightarrow> outcome" where
  "run_cmd TC_BUY = typed_cmd_buy"
| "run_cmd TC_CHARGE = typed_cmd_charge"
| "run_cmd TC_DO = typed_cmd_do"
| "run_cmd TC_DRINK = typed_cmd_drink"
| "run_cmd TC_DROP = typed_cmd_drop"
| "run_cmd TC_FIX = typed_cmd_fix"
| "run_cmd TC_FLASH = typed_cmd_flash"
| "run_cmd TC_GET = typed_cmd_get"
| "run_cmd TC_GO = typed_cmd_go"
| "run_cmd TC_INSTALL = typed_cmd_install"
| "run_cmd TC_INVENTORY = typed_cmd_inventory"
| "run_cmd TC_SIGH = typed_cmd_sigh"
| "run_cmd TC_USE = typed_cmd_use"
| "run_cmd TC_WEAR = typed_cmd_wear"

end
