(* ===== verification/WorldLists.thy ===== *)
theory WorldLists
  imports World
begin

text \<open>
  The linked lists of \<open>mp2/world.c\<close> read as lists. \<open>repr g L\<close> says that \<open>L r\<close> is the list of the
  objects in room \<open>r\<close>, that no object occurs twice and that every object's \<open>loc\<close> is the room whose
  list it is in. Under it every walk of the code ends, and \<open>remove_object\<close>, \<open>insert_object_at\<close>,
  \<open>insert_object\<close> and \<open>move_object_to_inventory\<close> are list operations.
\<close>

section \<open>Field updates\<close>

lemma upd_room_simps [simp]:
  "room (upd_room r f g) q = (if q = r then f (room g r) else room g q)"
  "object (upd_room r f g) = object g" "player_flags (upd_room r f g) = player_flags g"
  "swap_photo (upd_room r f g) = swap_photo g" "rng (upd_room r f g) = rng g" "status_msg (upd_room r f g) = status_msg g"
  by (simp_all add: upd_room_def)

lemma upd_object_simps [simp]:
  "object (upd_object ob f g) q = (if q = ob then f (object g ob) else object g q)"
  "room (upd_object ob f g) = room g" "player_flags (upd_object ob f g) = player_flags g"
  "swap_photo (upd_object ob f g) = swap_photo g" "rng (upd_object ob f g) = rng g" "status_msg (upd_object ob f g) = status_msg g"
  by (simp_all add: upd_object_def)

lemma show_status_simps [simp]:
  "room (show_status s g) = room g" "object (show_status s g) = object g" "player_flags (show_status s g) = player_flags g"
  "swap_photo (show_status s g) = swap_photo g" "rng (show_status s g) = rng g"
  by (simp_all add: show_status_def)

section \<open>Chains\<close>

fun chain :: "game \<Rightarrow> obj_id option \<Rightarrow> obj_id list \<Rightarrow> bool" where
  "chain g p [] \<longleftrightarrow> p = None"
| "chain g p (x # xs) \<longleftrightarrow> p = Some x \<and> chain g (nxt (object g x)) xs"

lemma chain_cong: "(\<And>x. x \<in> set xs \<Longrightarrow> nxt (object g' x) = nxt (object g x)) \<Longrightarrow> chain g' p xs = chain g p xs"
  by (induction xs arbitrary: p) auto

lemma chain_unique: "chain g p xs \<Longrightarrow> chain g p ys \<Longrightarrow> xs = ys"
  by (induction xs arbitrary: p ys) (case_tac ys; auto)+

lemma chain_suffix: "chain g p (ys @ ob # zs) \<Longrightarrow> chain g (nxt (object g ob)) zs"
  by (induction ys arbitrary: p) auto

text \<open>Taking an object out of a chain by redirecting its predecessor.\<close>

lemma chain_skip:
  assumes "chain g q (vs @ y # ob # zs)" "distinct (vs @ y # ob # zs)"
    "nxt (object g' y) = nxt (object g ob)" "\<And>x. x \<noteq> y \<Longrightarrow> nxt (object g' x) = nxt (object g x)"
  shows "chain g' q (vs @ y # zs)"
  using assms(1,2)
proof (induction vs arbitrary: q)
  case Nil
  have "chain g' (nxt (object g ob)) zs = chain g (nxt (object g ob)) zs"
    using Nil by (intro chain_cong assms(4)) auto
  then show ?case using Nil assms(3) by simp
qed (use assms(4) in simp)

lemma find_from_chain:
  assumes "chain g p xs" "\<And>x. x \<in> set xs \<Longrightarrow> oname (object g x) = Some (nm x)"
  shows "find_from g p arg = Some (find (\<lambda>x. strcaseeq arg (nm x)) xs)"
  using assms by (induction xs arbitrary: p) (auto simp: find_from.simps)

lemma occupied_chain:
  assumes "chain g p xs"
  shows "occupied g p x y = Some (\<exists>ob \<in> set xs. x = uint (pos_x (object g ob)) \<and> y = uint (pos_y (object g ob)))"
  using assms by (induction xs arbitrary: p) (auto simp: occupied.simps)

lemma unlink_chain:
  assumes "chain g (get_link g l) (ys @ ob # zs)" "ob \<notin> set ys"
  shows "unlink ob l g = Some (set_link (if ys = [] then l else NextOf (last ys)) (nxt (object g ob)) g)"
  using assms
proof (induction ys arbitrary: l)
  case (Cons y ys)
  have "get_link g l = Some y" "y \<noteq> ob" "chain g (get_link g (NextOf y)) (ys @ ob # zs)"
    using Cons.prems by (auto simp: get_link_def)
  then show ?case using Cons.IH [of "NextOf y"] Cons.prems by (simp add: unlink.simps)
qed (simp add: unlink.simps)

section \<open>The lists of the rooms\<close>

definition repr :: "game \<Rightarrow> (room_id \<Rightarrow> obj_id list) \<Rightarrow> bool" where
  "repr g L \<longleftrightarrow>
     (\<forall>r. chain g (contents (room g r)) (L r) \<and> distinct (L r)) \<and> (\<forall>r ob. ob \<in> set (L r) \<longleftrightarrow> loc (object g ob) = Some r)"

lemma reprD:
  assumes "repr g L"
  shows "chain g (contents (room g r)) (L r)" "distinct (L r)" "ob \<in> set (L r) \<longleftrightarrow> loc (object g ob) = Some r"
  using assms by (auto simp: repr_def)

lemma repr_unique: "repr g L \<Longrightarrow> repr g L' \<Longrightarrow> L = L'"
  by (rule ext) (meson chain_unique reprD(1))

lemma repr_disjoint: "repr g L \<Longrightarrow> ob \<in> set (L r) \<Longrightarrow> ob \<in> set (L q) \<Longrightarrow> q = r"
  by (simp add: reprD(3))

lemma repr_cong:
  assumes "repr g L" "\<And>r. contents (room g' r) = contents (room g r)"
    "\<And>ob. nxt (object g' ob) = nxt (object g ob)" "\<And>ob. loc (object g' ob) = loc (object g ob)"
  shows "repr g' L"
  using assms chain_cong [of _ g' g] by (simp add: repr_def)

text \<open>What the list operations leave alone: everything but the lists, the places and the random numbers.\<close>

definition same_base :: "game \<Rightarrow> game \<Rightarrow> bool" where
  "same_base g g' \<longleftrightarrow>
     (\<forall>r. rname (room g' r) = rname (room g r) \<and> view (room g' r) = view (room g r) \<and> left (room g' r) = left (room g r)
        \<and> enter (room g' r) = enter (room g r) \<and> right (room g' r) = right (room g r))
     \<and> (\<forall>ob. oname (object g' ob) = oname (object g ob) \<and> img (object g' ob) = img (object g ob))
     \<and> player_flags g' = player_flags g \<and> swap_photo g' = swap_photo g \<and> status_msg g' = status_msg g"

lemma same_base_refl [simp]: "same_base g g" by (simp add: same_base_def)

lemma same_base_trans: "same_base g g' \<Longrightarrow> same_base g' g'' \<Longrightarrow> same_base g g''"
  by (simp add: same_base_def)

lemma same_base_set_link: "same_base g (set_link l p g)"
  by (cases l) (simp_all add: same_base_def set_link_def)

definition taken :: "obj_id \<Rightarrow> (room_id \<Rightarrow> obj_id list) \<Rightarrow> room_id \<Rightarrow> obj_id list" where
  "taken ob L = (\<lambda>r. removeAll ob (L r))"

definition moved :: "obj_id \<Rightarrow> room_id \<Rightarrow> (room_id \<Rightarrow> obj_id list) \<Rightarrow> room_id \<Rightarrow> obj_id list" where
  "moved ob r L = (taken ob L)(r := ob # taken ob L r)"

lemma remove_object_repr:
  assumes "repr g L"
  obtains g' where "remove_object ob g = Some g'" "repr g' (taken ob L)" "same_base g g'" "rng g' = rng g"
    "loc (object g' ob) = None"
proof (cases "loc (object g ob)")
  case None
  then have "\<And>r. ob \<notin> set (L r)" using reprD(3) [OF assms] by auto
  then have "taken ob L = L" by (simp add: taken_def)
  then show ?thesis using that [of g] None assms by (simp add: remove_object_def)
next
  case (Some r)
  then have "ob \<in> set (L r)" by (simp add: reprD(3) [OF assms])
  then obtain ys zs where L: "L r = ys @ ob # zs" "ob \<notin> set ys" by (meson split_list_first)
  have d: "distinct (L r)" by (rule reprD(2) [OF assms])
  let ?l = "if ys = [] then ContentsOf r else NextOf (last ys)"
  let ?g = "set_link ?l (nxt (object g ob)) g" and ?h = "upd_object ob (\<lambda>x. x\<lparr>loc := None\<rparr>)"
  have u: "unlink ob (ContentsOf r) g = Some ?g"
    using unlink_chain [of g "ContentsOf r" ys ob zs] reprD(1) [OF assms, of r] L by (simp add: get_link_def)
  have other: "q \<noteq> r \<Longrightarrow> x \<in> set (L q) \<Longrightarrow> x \<notin> set (L r)" for q x using repr_disjoint [OF assms] by blast
  have tk: "taken ob L r = ys @ zs" "q \<noteq> r \<Longrightarrow> taken ob L q = L q" for q
    using L d other [of q ob] by (auto simp: taken_def intro!: removeAll_id)
  have c0: "chain g (contents (room g r)) (ys @ ob # zs)" using reprD(1) [OF assms, of r] L(1) by simp
  have zs: "chain g (nxt (object g ob)) zs" by (rule chain_suffix [OF c0])
  have mine: "chain (?h ?g) (contents (room ?g r)) (ys @ zs)"
  proof (cases ys rule: rev_cases)
    case Nil
    have "chain (?h ?g) p zs = chain g p zs" for p by (rule chain_cong) (simp add: Nil set_link_def)
    then show ?thesis using zs Nil by (simp add: set_link_def)
  next
    case (snoc us y)
    have "chain (?h ?g) (contents (room g r)) (us @ y # zs)"
      using c0 snoc d L by (intro chain_skip [of g _ us y ob zs]) (auto simp: set_link_def)
    then show ?thesis using snoc by (simp add: set_link_def)
  qed
  have "chain (?h ?g) (contents (room ?g q)) (taken ob L q)" for q
  proof (cases "q = r")
    case False
    have "chain (?h ?g) (contents (room g q)) (L q) = chain g (contents (room g q)) (L q)"
    proof (rule chain_cong)
      fix x assume x: "x \<in> set (L q)"
      then have "x \<notin> set (L r)" using other False by blast
      then have "ys \<noteq> [] \<Longrightarrow> x \<noteq> last ys" using L(1) by auto
      then show "nxt (object (?h ?g) x) = nxt (object g x)" by (auto simp: set_link_def)
    qed
    moreover have "contents (room ?g q) = contents (room g q)" using False by (auto simp: set_link_def)
    ultimately show ?thesis using reprD(1) [OF assms, of q] tk False by simp
  qed (use mine tk in simp)
  moreover have "loc (object (?h ?g) x) = (if x = ob then None else loc (object g x))" for x by (auto simp: set_link_def)
  ultimately have "repr (?h ?g) (taken ob L)"
    using reprD(2,3) [OF assms] by (auto simp: repr_def taken_def distinct_removeAll)
  moreover have "same_base ?g (?h ?g)" by (simp add: same_base_def)
  moreover have "rng (?h ?g) = rng g" by (auto simp: set_link_def)
  ultimately show ?thesis
    using that [of "?h ?g"] u Some same_base_trans [OF same_base_set_link] by (simp add: remove_object_def)
qed

lemma insert_object_at_repr:
  assumes "repr g L"
  obtains g' where "insert_object_at ob r x y g = Some g'" "repr g' (moved ob r L)" "same_base g g'"
proof -
  obtain h where h: "remove_object ob g = Some h" "repr h (taken ob L)" "same_base g h" "loc (object h ob) = None"
    using remove_object_repr [OF assms] by metis
  let ?T = "taken ob L"
  let ?h = "upd_object ob (\<lambda>o'. o'\<lparr>pos_x := word_of_int x, pos_y := word_of_int y\<rparr>) h"
  let ?h = "upd_object ob (\<lambda>o'. o'\<lparr>loc := Some r\<rparr>) ?h"
  let ?h = "upd_object ob (\<lambda>o'. o'\<lparr>nxt := contents (room h r)\<rparr>) ?h"
  let ?g = "upd_room r (\<lambda>x. x\<lparr>contents := Some ob\<rparr>) ?h"
  have ins: "insert_object_at ob r x y g = Some ?g" by (simp add: insert_object_at_def h(1) Let_def)
  have out: "ob \<notin> set (?T q)" for q by (simp add: taken_def)
  have same: "chain ?g p (?T q) = chain h p (?T q)" for p q using out by (intro chain_cong) auto
  have "chain ?g (contents (room ?g q)) (moved ob r L q) \<and> distinct (moved ob r L q)" for q
    using reprD(1,2) [OF h(2), of q] reprD(1,2) [OF h(2), of r] same out by (simp add: moved_def)
  moreover have "ob' \<in> set (moved ob r L q) \<longleftrightarrow> loc (object ?g ob') = Some q" for ob' q
    using reprD(3) [OF h(2), of ob'] out by (auto simp: moved_def)
  ultimately have "repr ?g (moved ob r L)" by (simp add: repr_def)
  moreover have "same_base h ?g" by (simp add: same_base_def)
  ultimately show thesis using that ins same_base_trans [OF h(3)] by blast
qed

lemma rand_below_simps [simp]:
  "room (snd (rand_below k g)) = room g" "object (snd (rand_below k g)) = object g" "player_flags (snd (rand_below k g)) = player_flags g"
  "swap_photo (snd (rand_below k g)) = swap_photo g" "status_msg (snd (rand_below k g)) = status_msg g"
  by (simp_all add: rand_below_def rand_def case_prod_unfold)

lemma rand_below_repr: "repr g L \<Longrightarrow> repr (snd (rand_below k g)) L" "same_base g (snd (rand_below k g))"
  by (auto intro: repr_cong simp: same_base_def)

lemma insert_object_repr:
  assumes "repr g L" "view (room g r) \<noteq> None" "img (object g ob) \<noteq> None"
  obtains g' where "insert_object ob r g = Some g'" "repr g' (moved ob r L)" "same_base g g'"
proof -
  obtain v im where vi: "view (room g r) = Some v" "img (object g ob) = Some im" using assms(2,3) by auto
  obtain k where k: "\<And>g1. \<exists>y g2. (if 0 \<ge> sint (photo_height v) div 4 - sint (image_height im) then rand_below (sint (photo_height v) - sint (image_height im)) g1
             else let (y, g) = rand_below (sint (photo_height v) div 4 - sint (image_height im)) g1 in (y + 3 * sint (photo_height v) div 4, g)) = (y, g2)
             \<and> g2 = snd (rand_below k g1)"
    by (metis (no_types, lifting) case_prod_unfold prod.collapse snd_conv)
  let ?g1 = "snd (rand_below (sint (photo_width v - image_width im)) g)"
  have g2: "repr (snd (rand_below k ?g1)) L" "same_base g (snd (rand_below k ?g1))"
    using rand_below_repr assms(1) same_base_trans by blast+
  obtain y where "insert_object ob r g = insert_object_at ob r (fst (rand_below (sint (photo_width v - image_width im)) g)) y (snd (rand_below k ?g1))"
    using k [of ?g1] vi by (auto simp: insert_object_def case_prod_unfold Let_def)
  moreover obtain g' where "insert_object_at ob r (fst (rand_below (sint (photo_width v - image_width im)) g)) y (snd (rand_below k ?g1)) = Some g'"
    "repr g' (moved ob r L)" "same_base (snd (rand_below k ?g1)) g'"
    using insert_object_at_repr [OF g2(1)] by blast
  ultimately show thesis using that same_base_trans [OF g2(2)] by auto
qed

lemma move_object_to_inventory_repr:
  assumes "repr g L" "view (room g R_INVENTORY) \<noteq> None" "img (object g ob) \<noteq> None"
  obtains g' where "move_object_to_inventory ob g = Some g'" "repr g' (moved ob R_INVENTORY L)" "same_base g g'"
proof -
  have "\<exists>g'. place_on_grid ps ob g = Some g' \<and> repr g' (moved ob R_INVENTORY L) \<and> same_base g g'" for ps
  proof (induction ps)
    case Nil
    show ?case using insert_object_repr [OF assms] by (metis place_on_grid.simps(1))
  next
    case (Cons xy ps)
    obtain x y where xy: "xy = (x, y)" by (cases xy)
    show ?case
      using Cons insert_object_at_repr [OF assms(1), of ob R_INVENTORY x y] xy
      by (auto simp: occupied_chain [OF reprD(1) [OF assms(1)]])
  qed
  then show thesis using that by (auto simp: move_object_to_inventory_def)
qed

lemma find_in_room_repr:
  assumes "repr g L" "\<And>x. x \<in> set (L r) \<Longrightarrow> oname (object g x) = Some (nm x)"
  shows "find_in_room r arg g = Some (find (\<lambda>x. strcaseeq arg (nm x)) (L r))"
  unfolding find_in_room_def by (rule find_from_chain [OF reprD(1) [OF assms(1)] assms(2)])

end
