(* ===== verification/Quest.thy ===== *)
theory Quest
  imports Commands WorldLists
begin

text \<open>
  What the game is about, without lists, positions, pictures and messages: which objects are in
  which room, what the player has achieved, and the rules of every action. The commands of
  \<open>mp2/world.c\<close> implement these rules; that the game can be won, and only by solving its
  riddles, is shown on them.
\<close>

section \<open>The rules\<close>

record agame =
  things :: "room_id \<Rightarrow> obj_id list"
  achieved :: "flag_id \<Rightarrow> bool"
  behind :: "room_id option"
  fly :: bool

definition door :: "(room_data \<Rightarrow> room_id option) \<Rightarrow> room_id \<Rightarrow> room_id option" where
  "door sel r = (case find (\<lambda>d. rd_id d = r) room_data of None \<Rightarrow> None | Some d \<Rightarrow> sel d)"

definition name_of :: "obj_id \<Rightarrow> string" where
  "name_of ob = (case find (\<lambda>d. od_id d = ob) obj_data of None \<Rightarrow> [] | Some d \<Rightarrow> od_name d)"

definition door_enter :: "agame \<Rightarrow> room_id \<Rightarrow> room_id option" where
  "door_enter a r =
     (if r = R_INVENTORY then behind a
      else if r = R_COCKPIT then (if fly a then Some R_OVER_WILL else None) else door rd_enter r)"

definition has :: "obj_id \<Rightarrow> room_id \<Rightarrow> agame \<Rightarrow> bool" where "has ob r a \<longleftrightarrow> ob \<in> set (things a r)"

definition reach :: "obj_id \<Rightarrow> room_id \<Rightarrow> agame \<Rightarrow> bool" where "reach ob r a \<longleftrightarrow> has ob R_INVENTORY a \<or> has ob r a"

definition atake :: "obj_id \<Rightarrow> agame \<Rightarrow> agame" where "atake ob a = a\<lparr>things := taken ob (things a)\<rparr>"
definition amove :: "obj_id \<Rightarrow> room_id \<Rightarrow> agame \<Rightarrow> agame" where "amove ob r a = a\<lparr>things := moved ob r (things a)\<rparr>"
definition achieve :: "flag_id \<Rightarrow> agame \<Rightarrow> agame" where "achieve f a = a\<lparr>achieved := (achieved a)(f := True)\<rparr>"

definition lost :: "obj_id \<Rightarrow> agame \<Rightarrow> bool" where "lost ob a \<longleftrightarrow> (\<forall>r. \<not> has ob r a)"

definition stand :: "room_id \<Rightarrow> agame \<Rightarrow> room_id" where
  "stand r a = (if r = R_INVENTORY then the (behind a) else r)"

definition pick :: "string \<Rightarrow> room_id \<Rightarrow> agame \<Rightarrow> obj_id option" where
  "pick arg r a = find (\<lambda>ob. strcaseeq arg (name_of ob)) (things a r)"

definition grab :: "obj_id \<Rightarrow> agame \<Rightarrow> agame" where
  "grab ob a = (if ob = O_TUX \<and> \<not> achieved a FLAG_LURED_TUX then a else amove ob R_INVENTORY a)"

fun rule :: "cmd_id \<Rightarrow> room_id \<Rightarrow> string \<Rightarrow> agame \<Rightarrow> room_id option \<times> agame" where
  "rule TC_BUY r arg a =
     (Some r,
      if strcaseeq ''dew'' arg then (if r = R_EVRT_VEND \<and> \<not> reach O_MTN_DEW r a then amove O_MTN_DEW R_INVENTORY a else a)
      else if strcaseeq ''yogurt'' arg \<and> r = R_IN_COCOMR then achieve FLAG_HAS_EATEN a else a)"
| "rule TC_CHARGE r arg a =
     (Some r,
      if strcaseeq ''battery'' arg \<and> r = R_BECK_MRI \<and> reach O_BATT_EMPTY r a \<and> \<not> reach O_BATT_FULL r a
      then amove O_BATT_FULL R_INVENTORY (atake O_BATT_EMPTY a) else a)"
| "rule TC_DO r arg a =
     (if r = R_IN_391LAB \<and> (strcaseeq ''391'' arg \<or> strcaseeq ''mp2'' arg)
         \<and> has O_BOOK_C R_INVENTORY a \<and> has O_MP2 R_INVENTORY a \<and> has O_TUX R_IN_391LAB a
      then None else Some r, a)"
| "rule TC_DRINK r arg a = (Some r, if strcaseeq ''dew'' arg \<and> reach O_MTN_DEW r a then atake O_MTN_DEW a else a)"
| "rule TC_DROP r arg a =
     (Some r, case pick arg R_INVENTORY a of None \<Rightarrow> a | Some ob \<Rightarrow> amove ob (stand r a) a)"
| "rule TC_FIX r arg a =
     (Some r,
      if strcaseeq ''gps'' arg \<and> r = R_IN_CLEANR \<and> reach O_GPS_BAD r a \<and> reach O_GPS_SPEC r a \<and> \<not> reach O_GPS_GOOD r a
      then amove O_GPS_GOOD R_INVENTORY (atake O_GPS_SPEC (atake O_GPS_BAD a)) else a)"
| "rule TC_FLASH r arg a =
     (Some r,
      if strcaseeq ''robot'' arg \<and> r = R_IN_395LAB \<and> reach O_ROBOT_DEAD r a \<and> \<not> reach O_ROBOT_LIVE r a
      then amove O_ROBOT_LIVE R_INVENTORY (atake O_ROBOT_DEAD a) else a)"
| "rule TC_GET r arg a =
     (Some r,
      let s = stand r a; book = (if achieved a FLAG_HAS_EATEN then O_BOOK_C else O_BOOK_WODE) in
      if s = R_RESERVE \<and> strcaseeq ''book'' arg \<and> lost book a then grab book a
      else if s = R_CAR_SITE \<and> has O_BATT_CAR s a then grab O_BATT_EMPTY (atake O_BATT_CAR a)
      else case pick arg s a of None \<Rightarrow> a | Some ob \<Rightarrow> grab ob a)"
| "rule TC_GO r arg a =
     (Some (if strcaseeq ''allerton'' arg then
              (if (r = R_WILLARD \<or> r = R_CAR_SITE) \<and> achieved a FLAG_CAR_FIXED \<and> has O_GPS_GOOD R_INVENTORY a then R_ALLERTON else r)
            else if strcaseeq ''willard'' arg \<or> strcaseeq ''airport'' arg then
              (if (r = R_ALLERTON \<or> r = R_CAR_SITE) \<and> achieved a FLAG_CAR_FIXED then R_WILLARD else r)
            else if strcaseeq ''campus'' arg \<and> (r = R_ALLERTON \<or> r = R_WILLARD) then R_CAR_SITE else r), a)"
| "rule TC_INSTALL r arg a =
     (Some r,
      if strcaseeq ''battery'' arg then
        (if r = R_CAR_SITE \<and> reach O_BATT_FULL r a \<and> \<not> reach O_BATT_EMPTY r a
         then achieve FLAG_CAR_FIXED (atake O_BATT_FULL a) else a)
      else if (strcaseeq ''mimo'' arg \<or> strcaseeq ''card'' arg \<or> strcaseeq ''transmitter'' arg) \<and> r = R_COCKPIT \<and> reach O_MIMO_CARD r a
      then (atake O_MIMO_CARD a)\<lparr>fly := True\<rparr> else a)"
| "rule TC_INVENTORY r arg a =
     (if r = R_INVENTORY then (behind a, a) else (Some R_INVENTORY, a\<lparr>behind := Some r\<rparr>))"
| "rule TC_SIGH r arg a = (Some r, if r = R_BY_ZAS then achieve FLAG_HAS_EATEN a else a)"
| "rule TC_USE r arg a =
     (Some r,
      if strcaseeq ''car'' arg then
        (if r = R_CAR_SITE \<and> \<not> achieved a FLAG_CAR_FIXED \<and> \<not> achieved a FLAG_CAR_OPEN \<and> has O_CAR_KEY R_INVENTORY a
         then achieve FLAG_CAR_OPEN (amove O_BATT_CAR r (atake O_CAR_KEY a)) else a)
      else if strcaseeq ''fish'' arg \<and> r = R_REM_LAB \<and> reach O_FISH r a
      then achieve FLAG_LURED_TUX (amove O_TUX R_INVENTORY (atake O_FISH a)) else a)"
| "rule TC_WEAR r arg a =
     (Some r, if strcaseeq ''bunnysuit'' arg \<and> reach O_BUNNYSUIT r a then achieve FLAG_WEARING_SUIT (atake O_BUNNYSUIT a) else a)"

definition way_in :: "room_id \<Rightarrow> agame \<Rightarrow> room_id option" where
  "way_in r a =
     (case door_enter a r of
        Some r' \<Rightarrow> Some r'
      | None \<Rightarrow>
          if r = R_BY_CLEANR \<and> achieved a FLAG_WEARING_SUIT then Some R_IN_CLEANR
          else if r = R_BY_395LAB \<and> has O_ICARD R_INVENTORY a then Some R_IN_395LAB
          else if r = R_CSL_DOOR \<and> has O_ICARD R_INVENTORY a then Some R_CSL_LOBBY
          else if r = R_BECK_DOOR \<and> has O_ROBOT_LIVE R_INVENTORY a then Some R_BECKLOBBY
          else None)"

datatype action = GoLeft | GoIn | GoRight | Typed cmd_id string

fun astep :: "action \<Rightarrow> room_id \<Rightarrow> agame \<Rightarrow> room_id option \<times> agame" where
  "astep GoLeft r a = (Some (case door rd_left r of None \<Rightarrow> r | Some r' \<Rightarrow> r'), a)"
| "astep GoIn r a = (Some (case way_in r a of None \<Rightarrow> r | Some r' \<Rightarrow> r'), a)"
| "astep GoRight r a = (Some (case door rd_right r of None \<Rightarrow> r | Some r' \<Rightarrow> r'), a)"
| "astep (Typed c arg) r a = rule c r arg a"

text \<open>The same actions on the world of the code.\<close>

fun step :: "action \<Rightarrow> room_id \<Rightarrow> game \<Rightarrow> outcome" where
  "step GoLeft r g = try_to_move_left r g"
| "step GoIn r g = try_to_enter r g"
| "step GoRight r g = try_to_move_right r g"
| "step (Typed c arg) r g = run_cmd c r arg g"

text \<open>Playing a list of actions; the game is over when the room is \<open>None\<close>.\<close>

fun play :: "action list \<Rightarrow> room_id option \<times> game \<Rightarrow> (room_id option \<times> game) option" where
  "play [] s = Some s"
| "play (x # xs) (None, g) = Some (None, g)"
| "play (x # xs) (Some r, g) = do { (act, r', g') \<leftarrow> step x r g; play xs (r', g') }"

fun aplay :: "action list \<Rightarrow> room_id option \<times> agame \<Rightarrow> room_id option \<times> agame" where
  "aplay [] s = s"
| "aplay (x # xs) (None, a) = (None, a)"
| "aplay (x # xs) (Some r, a) = aplay xs (astep x r a)"

section \<open>The world of the code implements the rules\<close>

definition absr :: "game \<Rightarrow> agame \<Rightarrow> bool" where
  "absr g a \<longleftrightarrow> repr g (things a)
     \<and> (\<forall>r. left (room g r) = door rd_left r \<and> right (room g r) = door rd_right r \<and> enter (room g r) = door_enter a r \<and> view (room g r) \<noteq> None)
     \<and> (\<forall>ob. oname (object g ob) = Some (name_of ob) \<and> img (object g ob) \<noteq> None)
     \<and> (\<forall>f. player_flag_is_set f g = achieved a f) \<and> length (player_flags g) = 1 \<and> (\<forall>w. swap_photo g w \<noteq> None)"

lemma absrD:
  assumes "absr g a"
  shows "repr g (things a)" "left (room g r) = door rd_left r" "right (room g r) = door rd_right r"
    "enter (room g r) = door_enter a r" "view (room g r) \<noteq> None" "oname (object g ob) = Some (name_of ob)"
    "img (object g ob) \<noteq> None" "player_flag_is_set f g = achieved a f" "length (player_flags g) = 1"
    "swap_photo g w \<noteq> None" "at ob r g \<longleftrightarrow> has ob r a"
  using assms reprD(3) by (auto simp: absr_def at_def has_def)

lemma flag_is_set: "player_flag_is_set f g \<longleftrightarrow> bit (player_flags g ! 0) (flag_num f)"
  by (cases f) (simp_all add: player_flag_is_set_def bit_iff_and_push_bit_not_eq_0)

lemma flag_num_inj: "flag_num f = flag_num f' \<longleftrightarrow> f = f'"
  by (cases f; cases f') simp_all

lemma flag_set_other [simp]:
  "room (player_set_flag f g) = room g" "object (player_set_flag f g) = object g" "swap_photo (player_set_flag f g) = swap_photo g"
  "length (player_flags (player_set_flag f g)) = length (player_flags g)"
  by (simp_all add: player_set_flag_def Let_def)

lemma flag_set:
  assumes "length (player_flags g) = 1"
  shows "player_flag_is_set f (player_set_flag f' g) \<longleftrightarrow> f = f' \<or> player_flag_is_set f g"
proof -
  have n: "flag_num f' < 32" "flag_num f < 32" by (cases f'; simp) (cases f; simp)
  then have "player_flags (player_set_flag f' g) ! 0 = player_flags g ! 0 OR push_bit (flag_num f') 1"
    using assms by (simp add: player_set_flag_def Let_def)
  then show ?thesis using n by (simp add: flag_is_set bit_simps flag_num_inj) (metis flag_num_inj)
qed

lemma absr_base:
  assumes "absr g a" "same_base g g'" "repr g' T"
  shows "absr g' (a\<lparr>things := T\<rparr>)"
  using assms by (auto simp: absr_def same_base_def flag_is_set door_enter_def)

lemma absr_same:
  assumes "absr g a" "\<And>r. contents (room g' r) = contents (room g r)" "object g' = object g"
    "\<And>r. left (room g' r) = left (room g r) \<and> right (room g' r) = right (room g r) \<and> enter (room g' r) = enter (room g r) \<and> view (room g' r) \<noteq> None"
    "player_flags g' = player_flags g" "\<And>w. swap_photo g' w \<noteq> None"
  shows "absr g' a"
  using assms repr_cong [of g "things a" g'] by (auto simp: absr_def flag_is_set)

lemma absr_status [simp, intro]: "absr g a \<Longrightarrow> absr (show_status s g) a"
  by (rule absr_same) (auto simp: absr_def)

lemma absr_rand: "absr g a \<Longrightarrow> absr (snd (rand g)) a"
  by (rule absr_same) (auto simp: absr_def rand_def)

lemma absr_swap: "absr g a \<Longrightarrow> absr (do_photo_swap r w g) a"
  by (rule absr_same) (auto simp: absr_def do_photo_swap_def Let_def)

lemma absr_circle: "absr g a \<Longrightarrow> absr (enter_circle r g) a"
  using absr_rand absr_swap by (auto simp: enter_circle_def case_prod_unfold Let_def)

lemma absr_achieve: "absr g a \<Longrightarrow> absr (player_set_flag f g) (achieve f a)"
  using repr_cong [of g "things a" "player_set_flag f g"]
  by (auto simp: absr_def achieve_def flag_set door_enter_def)

section \<open>Simulation\<close>

definition sim :: "outcome \<Rightarrow> room_id option \<times> agame \<Rightarrow> bool" where
  "sim out s \<longleftrightarrow> (\<exists>act g'. out = Some (act, fst s, g') \<and> absr g' (snd s))"

lemma sim_now: "absr g a \<Longrightarrow> sim (Some (act, r, g)) (r, a)"
  by (auto simp: sim_def)

lemma sim_say: "absr g a \<Longrightarrow> sim (say act msg r g) (Some r, a)"
  by (auto simp: sim_def say_def)

lemma sim_take:
  assumes "absr g a" "\<And>g'. absr g' (atake ob a) \<Longrightarrow> sim (f g') s"
  shows "sim (remove_object ob g \<bind> f) s"
  by (rule remove_object_repr [OF absrD(1) [OF assms(1)], of ob])
    (use assms absr_base [OF assms(1)] in \<open>auto simp: atake_def\<close>)

lemma sim_inventory:
  assumes "absr g a" "\<And>g'. absr g' (amove ob R_INVENTORY a) \<Longrightarrow> sim (f g') s"
  shows "sim (move_object_to_inventory ob g \<bind> f) s"
  by (rule move_object_to_inventory_repr [OF absrD(1,5,7) [OF assms(1)], of ob])
    (use assms absr_base [OF assms(1)] in \<open>auto simp: amove_def\<close>)

lemma sim_insert:
  assumes "absr g a" "\<And>g'. absr g' (amove ob r a) \<Longrightarrow> sim (f g') s"
  shows "sim (insert_object ob r g \<bind> f) s"
  by (rule insert_object_repr [OF absrD(1,5,7) [OF assms(1)], of ob r])
    (use assms absr_base [OF assms(1)] in \<open>auto simp: amove_def\<close>)

lemma sim_insert_at:
  assumes "absr g a" "\<And>g'. absr g' (amove ob r a) \<Longrightarrow> sim (f g') s"
  shows "sim (insert_object_at ob r x y g \<bind> f) s"
  by (rule insert_object_at_repr [OF absrD(1) [OF assms(1)], of ob r x y])
    (use assms absr_base [OF assms(1)] in \<open>auto simp: amove_def\<close>)

lemmas sims = sim_now sim_say sim_take sim_inventory sim_insert sim_insert_at absr_status absr_achieve absr_swap absr_circle absr_rand

lemma absr_lost: "absr g a \<Longrightarrow> loc (object g ob) = None \<longleftrightarrow> lost ob a"
  using reprD(3) [OF absrD(1), of g a ob] by (auto simp: lost_def has_def not_Some_eq [symmetric] simp del: not_Some_eq)

lemma absr_find: "absr g a \<Longrightarrow> find_in_room r arg g = Some (pick arg r a)"
  unfolding pick_def by (rule find_in_room_repr [OF absrD(1)]) (simp_all add: absrD)

lemma achieve_idem: "achieved a f \<Longrightarrow> achieve f a = a"
  by (cases a) (auto simp: achieve_def fun_upd_idem)

lemma sim_buy: "absr g a \<Longrightarrow> sim (typed_cmd_buy r arg g) (rule TC_BUY r arg a)"
  by (auto simp: typed_cmd_buy_def reach_def absrD Let_def achieve_idem intro!: sims)

lemma sim_charge: "absr g a \<Longrightarrow> sim (typed_cmd_charge r arg g) (rule TC_CHARGE r arg a)"
  by (auto simp: typed_cmd_charge_def reach_def absrD intro!: sims)

lemma sim_do: "absr g a \<Longrightarrow> sim (typed_cmd_do r arg g) (rule TC_DO r arg a)"
  by (auto simp: typed_cmd_do_def absrD intro!: sims)

lemma sim_drink: "absr g a \<Longrightarrow> sim (typed_cmd_drink r arg g) (rule TC_DRINK r arg a)"
  by (auto simp: typed_cmd_drink_def reach_def absrD intro!: sims)

lemma sim_fix: "absr g a \<Longrightarrow> sim (typed_cmd_fix r arg g) (rule TC_FIX r arg a)"
  by (auto simp: typed_cmd_fix_def reach_def absrD intro!: sims)

lemma sim_flash: "absr g a \<Longrightarrow> sim (typed_cmd_flash r arg g) (rule TC_FLASH r arg a)"
  by (auto simp: typed_cmd_flash_def reach_def absrD intro!: sims)

lemma sim_go: "absr g a \<Longrightarrow> sim (typed_cmd_go r arg g) (rule TC_GO r arg a)"
  by (auto simp: typed_cmd_go_def absrD intro!: sims)

lemma sim_sigh: "absr g a \<Longrightarrow> sim (typed_cmd_sigh r arg g) (rule TC_SIGH r arg a)"
  by (auto simp: typed_cmd_sigh_def intro!: sims)

lemma sim_wear: "absr g a \<Longrightarrow> sim (typed_cmd_wear r arg g) (rule TC_WEAR r arg a)"
  by (auto simp: typed_cmd_wear_def reach_def absrD intro!: sims)

lemma sim_open_car:
  assumes "absr g a"
  shows "sim (do { g \<leftarrow> remove_object O_CAR_KEY (do_photo_swap r SWAP_CAR g);
                  g \<leftarrow> insert_object_at O_BATT_CAR r 265 122 g;
                  say TC_CHANGE_ROOM msg r (player_set_flag FLAG_CAR_OPEN g) })
    (Some r, achieve FLAG_CAR_OPEN (amove O_BATT_CAR r (atake O_CAR_KEY a)))"
  by (rule sim_take [OF absr_swap [OF assms]]) (erule sim_insert_at, intro sim_say absr_achieve)

lemma sim_use: "absr g a \<Longrightarrow> sim (typed_cmd_use r arg g) (rule TC_USE r arg a)"
  by (cases "strcaseeq ''car'' arg") (auto simp: typed_cmd_use_def reach_def absrD intro!: sim_open_car sims)

lemma sim_install: "absr g a \<Longrightarrow> sim (typed_cmd_install r arg g) (rule TC_INSTALL r arg a)"
proof (cases "strcaseeq ''battery'' arg")
  case False
  assume a: "absr g a"
  have "absr (upd_room R_COCKPIT (\<lambda>x. x\<lparr>enter := Some R_OVER_WILL\<rparr>) g') (b\<lparr>fly := True\<rparr>)" if "absr g' b" for g' b
    using that repr_cong [of g' "things b" "upd_room R_COCKPIT (\<lambda>x. x\<lparr>enter := Some R_OVER_WILL\<rparr>) g'"]
    by (auto simp: absr_def door_enter_def flag_is_set)
  then show ?thesis using False a by (auto simp: typed_cmd_install_def reach_def absrD intro!: sims)
qed (auto simp: typed_cmd_install_def reach_def absrD intro!: sims)

text \<open>The room behind the inventory is known when the inventory is shown.\<close>

definition placed :: "room_id \<Rightarrow> agame \<Rightarrow> bool" where
  "placed r a \<longleftrightarrow> (r = R_INVENTORY \<longrightarrow> behind a \<noteq> None) \<and> behind a \<noteq> Some R_INVENTORY"

lemma standing_in_stand: "absr g a \<Longrightarrow> placed r a \<Longrightarrow> standing_in r g = Some (stand r a)"
  by (auto simp: standing_in_def stand_def absrD door_enter_def placed_def)

lemma standing_in_status [simp]: "standing_in r (show_status s g) = standing_in r g"
  by (simp add: standing_in_def)

lemma sim_inventory_cmd: "absr g a \<Longrightarrow> sim (typed_cmd_inventory r arg g) (rule TC_INVENTORY r arg a)"
proof (cases "r = R_INVENTORY")
  case False
  assume a: "absr g a"
  have "absr (upd_room R_INVENTORY (\<lambda>x. x\<lparr>enter := Some r\<rparr>) g) (a\<lparr>behind := Some r\<rparr>)"
    using a repr_cong [of g "things a" "upd_room R_INVENTORY (\<lambda>x. x\<lparr>enter := Some r\<rparr>) g"]
    by (auto simp: absr_def door_enter_def flag_is_set)
  then show ?thesis using False by (auto simp: typed_cmd_inventory_def intro!: sims)
qed (auto simp: typed_cmd_inventory_def absrD door_enter_def sim_def)

lemma sim_drop: "absr g a \<Longrightarrow> placed r a \<Longrightarrow> sim (typed_cmd_drop r arg g) (rule TC_DROP r arg a)"
  by (auto simp: typed_cmd_drop_def absr_find standing_in_stand Let_def intro!: sims split: option.splits)

definition grab_object :: "obj_id \<Rightarrow> room_id \<Rightarrow> game \<Rightarrow> outcome" where
  "grab_object ob r g =
     (if ob = O_TUX \<and> \<not> player_flag_is_set FLAG_LURED_TUX g
      then say TC_DISCARD_TEXT ''Tux must choose you!  Try using a fish.'' r g
      else do { g \<leftarrow> move_object_to_inventory ob g; Some (TC_REDRAW_ROOM, Some r, g) })"

lemma sim_grab: "absr g a \<Longrightarrow> sim (grab_object ob r g) (Some r, grab ob a)"
  by (auto simp: grab_object_def grab_def absrD intro!: sims)

lemma sim_get:
  assumes "absr g a" "placed r a"
  shows "sim (typed_cmd_get r arg g) (rule TC_GET r arg a)"
proof -
  let ?s = "stand r a" and ?book = "if achieved a FLAG_HAS_EATEN then O_BOOK_C else O_BOOK_WODE"
  note st = standing_in_stand [OF assms]
  consider (book) "?s = R_RESERVE" "strcaseeq ''book'' arg" "lost ?book a"
    | (car) "?s = R_CAR_SITE" "has O_BATT_CAR ?s a"
    | (plain) "\<not> (?s = R_RESERVE \<and> strcaseeq ''book'' arg \<and> lost ?book a)" "\<not> (?s = R_CAR_SITE \<and> has O_BATT_CAR ?s a)"
    by blast
  then show ?thesis
  proof cases
    case book
    have "\<exists>msg. typed_cmd_get r arg g = grab_object ?book r (show_status msg g)"
      using book by (auto simp: typed_cmd_get_def st obj_special_get_def absrD [OF assms(1)] absr_lost [OF assms(1)] grab_object_def)
    then show ?thesis using book sim_grab [OF absr_status [OF assms(1)]] by (auto simp: Let_def)
  next
    case car
    have "typed_cmd_get r arg g = remove_object O_BATT_CAR g \<bind> grab_object O_BATT_EMPTY r"
      using car absrD(11) [OF assms(1), of O_BATT_CAR R_CAR_SITE]
      by (cases "remove_object O_BATT_CAR g") (auto simp: typed_cmd_get_def st obj_special_get_def grab_object_def at_def)
    then show ?thesis using car sim_take [OF assms(1)] sim_grab by (auto simp: Let_def)
  next
    case plain
    have "typed_cmd_get r arg g =
        (case pick arg ?s a of None \<Rightarrow> say TC_ALLOW_EDIT ''You see no such thing here.'' r g | Some ob \<Rightarrow> grab_object ob r g)"
      using plain absrD(11) [OF assms(1), of O_BATT_CAR R_CAR_SITE]
      by (auto simp: typed_cmd_get_def st obj_special_get_def absrD(8) [OF assms(1)] absr_lost [OF assms(1)] absr_find [OF assms(1)]
          at_def grab_object_def split: option.splits)
    then show ?thesis using plain sim_grab [OF assms(1)] assms(1) by (auto simp: Let_def intro!: sims split: option.splits)
  qed
qed

lemma sim_moves:
  assumes "absr g a"
  shows "sim (try_to_move_left r g) (astep GoLeft r a)" "sim (try_to_move_right r g) (astep GoRight r a)"
    "sim (try_to_enter r g) (astep GoIn r a)"
proof -
  show "sim (try_to_move_left r g) (astep GoLeft r a)" "sim (try_to_move_right r g) (astep GoRight r a)"
    using assms by (auto simp: try_to_move_left_def try_to_move_right_def absrD intro!: sims split: option.splits)
  have "absr (snd (rand g)) a" using assms by (rule absr_rand)
  then show "sim (try_to_enter r g) (astep GoIn r a)"
    using assms by (cases "door_enter a r")
      (auto simp: try_to_enter_def absrD way_in_def case_prod_unfold Let_def intro!: sims split: if_splits)
qed

theorem step_refines:
  assumes "absr g a" "placed r a"
  shows "sim (step x r g) (astep x r a)"
proof (cases x)
  case (Typed c arg)
  then show ?thesis
    using assms by (cases c) (simp_all only: step.simps astep.simps run_cmd.simps sim_buy sim_charge sim_do sim_drink sim_drop sim_fix
        sim_flash sim_get sim_go sim_install sim_inventory_cmd sim_sigh sim_use sim_wear)
qed (use assms sim_moves in simp_all)

end
