(* ===== verification/Play.thy ===== *)
theory Play
  imports Quest
begin

text \<open>
  Whole games: the world that \<open>build_world\<close> sets up obeys the rules of the game, every list of
  actions can be played on it, the game can be won, and nobody wins without having solved the
  riddles.
\<close>

section \<open>The initial world\<close>

definition aplace :: "obj_data \<Rightarrow> (room_id \<Rightarrow> obj_id list) \<Rightarrow> room_id \<Rightarrow> obj_id list" where
  "aplace d T = (case od_room d of None \<Rightarrow> T | Some r \<Rightarrow> moved (od_id d) r T)"

definition start :: agame where
  "start = \<lparr>things = fold aplace obj_data (\<lambda>r. []), achieved = \<lambda>f. False, behind = None, fly = False\<rparr>"

text \<open>The rooms and their doors without names and files.\<close>

definition edges :: "(room_id \<times> room_id option \<times> room_id option \<times> room_id option) list" where
  "edges = [
     (R_INVENTORY, None, None, None), (R_IN_391LAB, None, Some R_BY_391LAB, None),
     (R_BY_391LAB, Some R_BY_ZAS, Some R_IN_391LAB, Some R_BY_IEEE), (R_IN_IEEE, None, Some R_BY_IEEE, None),
     (R_BY_IEEE, Some R_BY_391LAB, Some R_IN_IEEE, Some R_BY_395LAB), (R_IN_395LAB, None, Some R_BY_395LAB, None),
     (R_BY_395LAB, Some R_BY_IEEE, None, Some R_EVT_STAIR), (R_EVT_STAIR, Some R_BY_395LAB, Some R_EAST_EVRT, Some R_BY_CLEANR),
     (R_IN_CLEANR, None, Some R_BY_CLEANR, None), (R_BY_CLEANR, Some R_EVT_STAIR, None, Some R_EVRT_VEND),
     (R_EVRT_VEND, Some R_BY_CLEANR, Some R_EVRT_BSMT, None), (R_ALMAMATER, Some R_EAST_EVRT, Some R_EAST_EVRT, Some R_BY_COCOMR),
     (R_IN_COCOMR, None, Some R_BY_COCOMR, None), (R_BY_COCOMR, Some R_ALMAMATER, Some R_IN_COCOMR, Some R_BY_ZAS),
     (R_BY_ZAS, Some R_BY_COCOMR, None, None), (R_EAST_EVRT, Some R_ALMAMATER, Some R_EVT_STAIR, Some R_EVRT_BSMT),
     (R_EVRT_BSMT, Some R_EAST_EVRT, Some R_EVRT_VEND, Some R_CIRCLE_SW), (R_WEST_BONE, Some R_CIRCLE_SW, None, Some R_CIRCLE_N),
     (R_CIRCLE_N, Some R_WEST_BONE, Some R_TALBOT_NW, Some R_EAST_BONE), (R_CIRCLE_SW, Some R_EAST_BONE, Some R_EVRT_BSMT, Some R_CIRCLE_N),
     (R_EAST_BONE, Some R_CIRCLE_N, None, Some R_CIRCLE_SW), (R_BARDEEN, Some R_LIB_BACK, Some R_EAST_BONE, Some R_TALBOT_SW),
     (R_LIB_BACK, Some R_DCL, Some R_RESERVE, Some R_BARDEEN), (R_RESERVE, None, Some R_LIB_BACK, Some R_LIB_FRONT),
     (R_TALBOT_NW, Some R_CIRCLE_SW, Some R_TALBOT, Some R_TALBOT_SW), (R_TALBOT_SW, Some R_TALBOT_NW, Some R_TALBOT, Some R_SPRINGFLD),
     (R_TALBOT, None, Some R_TALBOT_NW, None), (R_SPRINGFLD, Some R_TALBOT_SW, Some R_CARIBOU, Some R_KENNEY),
     (R_CARIBOU, None, Some R_SPRINGFLD, None), (R_KENNEY, Some R_SPRINGFLD, None, Some R_DCL),
     (R_DCL, Some R_KENNEY, Some R_KENNEY_E, Some R_LIB_FRONT), (R_LIB_FRONT, Some R_DCL, Some R_RESERVE, Some R_TALBOT_SW),
     (R_KENNEY_E, Some R_DCL, Some R_DCL, Some R_NEWMARK), (R_NEWMARK, Some R_MNTL_NW, None, Some R_KENNEY_E),
     (R_MNTL_NW, Some R_NEWMARK, Some R_MNTLLOBBY, Some R_CSL_VIEW), (R_MNTL_SW, Some R_MNTL_NW, Some R_MNTLLOBBY, Some R_BECKMAN),
     (R_MNTLLOBBY, Some R_MNTL_LAB1, Some R_MNTL_SW, Some R_MNTL_LAB2), (R_MNTL_LAB1, None, None, Some R_MNTLLOBBY),
     (R_MNTL_LAB2, Some R_MNTLLOBBY, Some R_MNTL_LAB3, None), (R_MNTL_LAB3, None, Some R_MNTL_LAB2, None),
     (R_CSL_VIEW, Some R_BECK_LOT, Some R_CSL_DOOR, Some R_MNTL_NW), (R_CSL_DOOR, Some R_BECK_LOT, None, Some R_MNTL_NW),
     (R_CSL_LOBBY, Some R_CSL_UPPER, Some R_CSL_DOOR, None), (R_CSL_UPPER, None, Some R_CSLLOUNGE, Some R_CSL_LOBBY),
     (R_CSLLOUNGE, None, Some R_CSL_UPPER, None), (R_BECK_LOT, Some R_BECKMAN, Some R_GARAGE, Some R_CSL_VIEW),
     (R_BECKMAN, Some R_MNTL_SW, Some R_BECK_DOOR, Some R_BECK_LOT), (R_BECK_DOOR, Some R_MNTL_SW, None, Some R_BECK_LOT),
     (R_BECKLOBBY, None, Some R_BECK_MRI, Some R_BECK_DOOR), (R_BECK_MRI, None, Some R_BECKLOBBY, None),
     (R_GARAGE, Some R_BECK_LOT, Some R_CAR_SITE, None), (R_CAR_SITE, None, Some R_GARAGE, None),
     (R_ALLERTON, Some R_FU_DOGS, None, Some R_SUNSINGER), (R_FU_DOGS, None, Some R_STATUE, Some R_ALLERTON),
     (R_STATUE, None, Some R_FU_DOGS, None), (R_SUNSINGER, Some R_ALLERTON, None, None),
     (R_WILLARD, None, Some R_WILL_SIDE, None), (R_WILL_SIDE, Some R_REM_PLANE, None, Some R_WILLARD),
     (R_REM_PLANE, Some R_COCKPIT, None, Some R_WILL_SIDE), (R_COCKPIT, None, None, Some R_REM_PLANE),
     (R_OVER_WILL, None, Some R_COCKPIT, Some R_AIR_RIO), (R_AIR_RIO, Some R_OVER_WILL, None, Some R_REM_ICE),
     (R_REM_ICE, Some R_AIR_RIO, Some R_REM_LAB, None), (R_REM_LAB, None, Some R_REM_ICE, None)]"

lemma edges: "map (\<lambda>d. (rd_id d, rd_left d, rd_enter d, rd_right d)) room_data = edges"
  by (simp only: room_data_def edges_def list.map room_data.sel)

definition doors :: "room_id \<Rightarrow> room_id option \<times> room_id option \<times> room_id option" where
  "doors r = (case map_of edges r of None \<Rightarrow> (None, None, None) | Some p \<Rightarrow> p)"

lemma map_of_find: "map_of (map (\<lambda>d. (k d, f d)) ds) r = map_option f (find (\<lambda>d. k d = r) ds)"
  by (induction ds) auto

lemma doors_eq: "doors r = (door rd_left r, door rd_enter r, door rd_right r)"
  unfolding doors_def edges [symmetric] by (simp add: map_of_find door_def split: option.splits)

lemma door_doors [code_unfold]:
  "door rd_left r = fst (doors r)" "door rd_enter r = fst (snd (doors r))" "door rd_right r = snd (snd (doors r))"
  by (simp_all add: doors_eq)

lemma room_ids: "map rd_id room_data = map fst edges"
  unfolding edges [symmetric] by simp

lemma all_rooms: "\<exists>d \<in> set room_data. rd_id d = r"
proof -
  have "r \<in> set (map rd_id room_data)" unfolding room_ids edges_def by (cases r) simp_all
  then show ?thesis by auto
qed

lemma distinct_rooms: "distinct (map rd_id room_data)"
  unfolding room_ids edges_def by simp

lemma object_ids: "map od_id obj_data =
    [O_BOARD, O_JETPACK, O_TUX, O_MP2, O_BOOK_C, O_BOOK_WODE, O_GPS_BAD, O_GPS_GOOD,
     O_GPS_SPEC, O_BUNNYSUIT, O_BATT_EMPTY, O_BATT_FULL, O_BATT_CAR, O_MTN_DEW, O_FISH, O_ICARD,
     O_CAR_KEY, O_ROBOT_DEAD, O_ROBOT_LIVE, O_MIMO_CARD]"
  by (simp only: obj_data_def list.map obj_data.sel)

lemma all_objects: "\<exists>d \<in> set obj_data. od_id d = ob"
proof -
  have "ob \<in> set (map od_id obj_data)" unfolding object_ids by (cases ob) simp_all
  then show ?thesis by auto
qed

lemma distinct_objects: "distinct (map od_id obj_data)"
  unfolding object_ids by simp

lemma find_key:
  assumes "distinct (map k ds)" "d \<in> set ds"
  shows "find (\<lambda>x. k x = k d) ds = Some d"
  using assms by (induction ds) (auto simp: rev_image_eqI)

lemma door_at: "d \<in> set room_data \<Longrightarrow> door sel (rd_id d) = sel d"
  by (simp add: door_def find_key [OF distinct_rooms])

lemma name_at: "d \<in> set obj_data \<Longrightarrow> name_of (od_id d) = od_name d"
  by (simp add: name_of_def find_key [OF distinct_objects])

lemma build_rooms_spec:
  assumes "\<And>d. d \<in> set ds \<Longrightarrow> rname (room g (rd_id d)) = None" "distinct (map rd_id ds)"
  shows "case build_rooms rp ds g of
      Inl e \<Rightarrow> \<exists>f. e = NoRoomPhoto f \<and> rp f = None
    | Inr g' \<Rightarrow> (\<forall>d \<in> set ds. \<exists>p. room g' (rd_id d) = \<lparr>rname = Some (rd_name d), view = Some p, contents = None,
          left = rd_left d, enter = rd_enter d, right = rd_right d\<rparr>)
        \<and> (\<forall>r. r \<notin> rd_id ` set ds \<longrightarrow> room g' r = room g r) \<and> player_flags g' = player_flags g"
  using assms
proof (induction ds arbitrary: g)
  case (Cons d ds)
  show ?case
  proof (cases "rp (rd_filename d)")
    case (Some p)
    let ?g = "upd_room (rd_id d) (\<lambda>_. \<lparr>rname = Some (rd_name d), view = Some p, contents = None,
          left = rd_left d, enter = rd_enter d, right = rd_right d\<rparr>) g"
    have "rname (room ?g (rd_id x)) = None" if "x \<in> set ds" for x
      using Cons.prems(1) [of x] Cons.prems(2) that by (auto simp: rev_image_eqI)
    then show ?thesis using Cons.IH [of ?g] Cons.prems Some by (auto split: sum.splits)
  qed (use Cons.prems in auto)
qed simp

lemma place_initially_repr:
  assumes "repr g T" "\<And>r. view (room g r) \<noteq> None" "img (object g (od_id d)) \<noteq> None"
  obtains g' where "place_initially d g = Some g'" "repr g' (aplace d T)" "same_base g g'"
proof (cases "od_room d")
  case (Some r)
  then show ?thesis
    using that insert_object_repr [OF assms(1) assms(2) assms(3), of r] insert_object_at_repr [OF assms(1)]
    by (cases "od_x d = -1") (auto simp: place_initially_def aplace_def, blast+)
qed (use that [of g] assms in \<open>simp add: place_initially_def aplace_def\<close>)

lemma aplace_loc:
  assumes "repr g T" "repr g' (aplace d T)" "ob \<noteq> od_id d" "loc (object g ob) = None"
  shows "loc (object g' ob) = None"
proof (rule ccontr)
  assume "loc (object g' ob) \<noteq> None"
  then obtain r where "ob \<in> set (aplace d T r)" using reprD(3) [OF assms(2)] by auto
  then have "ob \<in> set (T r)" using assms(3) by (auto simp: aplace_def moved_def taken_def split: option.splits if_splits)
  then show False using reprD(3) [OF assms(1)] assms(4) by auto
qed

lemma repr_fresh:
  assumes "repr g T" "loc (object g ob) = None" "loc x = None"
  shows "repr (upd_object ob (\<lambda>_. x) g) T"
proof -
  have "ob \<notin> set (T r)" for r using assms(2) reprD(3) [OF assms(1)] by auto
  then have "chain (upd_object ob (\<lambda>_. x) g) p (T r) = chain g p (T r)" for p r by (intro chain_cong) auto
  then show ?thesis using assms by (auto simp: repr_def)
qed

text \<open>What the object loop leaves alone.\<close>

definition same_rooms :: "game \<Rightarrow> game \<Rightarrow> bool" where
  "same_rooms g g' \<longleftrightarrow> player_flags g' = player_flags g \<and>
     (\<forall>r. view (room g' r) = view (room g r) \<and> left (room g' r) = left (room g r)
        \<and> enter (room g' r) = enter (room g r) \<and> right (room g' r) = right (room g r))"

lemma build_objects_spec:
  assumes "repr g T" "\<And>r. view (room g r) \<noteq> None" "distinct (map od_id ds)"
    "\<And>d. d \<in> set ds \<Longrightarrow> oname (object g (od_id d)) = None \<and> loc (object g (od_id d)) = None"
  shows "\<exists>res. build_objects ri ds g = Some res \<and> (case res of
      Inl e \<Rightarrow> \<exists>f. e = NoObjectImage f \<and> ri f = None
    | Inr g' \<Rightarrow> repr g' (fold aplace ds T) \<and> same_rooms g g'
        \<and> (\<forall>d \<in> set ds. oname (object g' (od_id d)) = Some (od_name d) \<and> img (object g' (od_id d)) \<noteq> None)
        \<and> (\<forall>ob. ob \<notin> od_id ` set ds \<longrightarrow> oname (object g' ob) = oname (object g ob) \<and> img (object g' ob) = img (object g ob)))"
  using assms
proof (induction ds arbitrary: g T)
  case (Cons d ds)
  show ?case
  proof (cases "ri (od_filename d)")
    case (Some im)
    let ?x = "\<lparr>oname = Some (od_name d), nxt = None, loc = None, pos_x = 0, pos_y = 0, img = Some im\<rparr>"
    let ?g = "upd_object (od_id d) (\<lambda>_. ?x) g"
    have r1: "repr ?g T" using Cons.prems by (intro repr_fresh) auto
    moreover have "view (room ?g r) \<noteq> None" for r using Cons.prems(2) by simp
    ultimately obtain h where h: "place_initially d ?g = Some h" "repr h (aplace d T)" "same_base ?g h"
      using place_initially_repr [of ?g T d] by auto
    have other: "oname (object h ob) = oname (object g ob) \<and> img (object h ob) = img (object g ob)" if "ob \<noteq> od_id d" for ob
      using h(3) that by (simp add: same_base_def)
    have mine: "oname (object h (od_id d)) = Some (od_name d)" "img (object h (od_id d)) = Some im"
      using h(3) by (simp_all add: same_base_def)
    have rooms: "same_rooms g h" using h(3) by (simp add: same_rooms_def same_base_def)
    have "oname (object h (od_id c)) = None \<and> loc (object h (od_id c)) = None" if "c \<in> set ds" for c
    proof -
      have ne: "od_id c \<noteq> od_id d" using Cons.prems(3) that by (auto simp: rev_image_eqI)
      then show ?thesis using Cons.prems(4) [of c] that other aplace_loc [OF r1 h(2) ne] by simp
    qed
    moreover have "view (room h r) \<noteq> None" for r using rooms Cons.prems(2) by (simp add: same_rooms_def)
    ultimately obtain res where "build_objects ri ds h = Some res" and res: "case res of
        Inl e \<Rightarrow> \<exists>f. e = NoObjectImage f \<and> ri f = None
      | Inr g' \<Rightarrow> repr g' (fold aplace ds (aplace d T)) \<and> same_rooms h g'
          \<and> (\<forall>d \<in> set ds. oname (object g' (od_id d)) = Some (od_name d) \<and> img (object g' (od_id d)) \<noteq> None)
          \<and> (\<forall>ob. ob \<notin> od_id ` set ds \<longrightarrow> oname (object g' ob) = oname (object h ob) \<and> img (object g' ob) = img (object h ob))"
      using Cons.IH [OF h(2)] Cons.prems(3) by fastforce
    then have "build_objects ri (d # ds) g = Some res" using Cons.prems(4) [of d] Some h(1) by simp
    moreover have "od_id d \<notin> od_id ` set ds" using Cons.prems(3) by simp
    ultimately show ?thesis using res other mine rooms
      by (intro exI [of _ res]) (auto simp: same_rooms_def split: sum.splits)
  qed (use Cons.prems in auto)
qed (simp add: same_rooms_def)

lemma build_swaps_spec:
  assumes "swap_photo g = (\<lambda>w. None)"
  shows "case build_swaps rp swap_data g of
      Inl e \<Rightarrow> \<exists>f. e = NoSwapPhoto f \<and> rp f = None
    | Inr g' \<Rightarrow> \<exists>sp. g' = g\<lparr>swap_photo := sp\<rparr> \<and> (\<forall>w. sp w \<noteq> None)"
proof (cases "rp ''images/circlen2.photo'' = None \<or> rp ''images/caropen.photo'' = None")
  case False
  then obtain p q where "rp ''images/circlen2.photo'' = Some p" "rp ''images/caropen.photo'' = Some q" by auto
  then have "build_swaps rp swap_data g = Inr (g\<lparr>swap_photo := (\<lambda>w. None)(SWAP_CIRCLE := Some p, SWAP_CAR := Some q)\<rparr>)"
    using assms by (simp add: swap_data_def)
  moreover have "((\<lambda>w. None)(SWAP_CIRCLE := Some p, SWAP_CAR := Some q)) w \<noteq> None" for w by (cases w) simp_all
  ultimately show ?thesis by auto
qed (use assms in \<open>auto simp: swap_data_def split: option.splits\<close>)

lemma start_simps [simp]: "achieved start f = False" "behind start = None" "fly start = False"
    "things start = fold aplace obj_data (\<lambda>r. [])"
  by (simp_all add: start_def)

text \<open>The only errors of \<open>build_world\<close> are files it cannot read; otherwise the world is the initial one of the rules.\<close>

definition file_missing :: "(nat \<Rightarrow> bool) \<Rightarrow> files \<Rightarrow> build_error \<Rightarrow> bool" where
  "file_missing malloc fs e \<longleftrightarrow>
     (\<exists>f. (e = NoRoomPhoto f \<or> e = NoSwapPhoto f) \<and> read_photo malloc fs f = None \<or> e = NoObjectImage f \<and> read_obj_image malloc fs f = None)"

lemma door_enter_start: "d \<in> set room_data \<Longrightarrow> door_enter start (rd_id d) = rd_enter d"
proof -
  assume d: "d \<in> set room_data"
  have "doors R_INVENTORY = (None, None, None)" "doors R_COCKPIT = (None, None, Some R_REM_PLANE)" by code_simp+
  then have "door rd_enter R_INVENTORY = None" "door rd_enter R_COCKPIT = None" by (simp_all add: door_doors)
  then show ?thesis using d door_at [of d rd_enter] by (auto simp: door_enter_def start_def)
qed

lemma build_world_start:
  "\<exists>res. build_world malloc fs g = Some res \<and>
     (case res of Inl e \<Rightarrow> file_missing malloc fs e | Inr g' \<Rightarrow> absr g' start)"
proof -
  let ?g = "g\<lparr>player_flags := [0], room := \<lambda>_. empty_room\<rparr>"
  have rooms: "case build_rooms (read_photo malloc fs) room_data ?g of
      Inl e \<Rightarrow> \<exists>f. e = NoRoomPhoto f \<and> read_photo malloc fs f = None
    | Inr g' \<Rightarrow> (\<forall>d \<in> set room_data. \<exists>p. room g' (rd_id d) = \<lparr>rname = Some (rd_name d), view = Some p, contents = None,
          left = rd_left d, enter = rd_enter d, right = rd_right d\<rparr>)
        \<and> (\<forall>r. r \<notin> rd_id ` set room_data \<longrightarrow> room g' r = room ?g r) \<and> player_flags g' = player_flags ?g"
    by (rule build_rooms_spec [OF _ distinct_rooms]) (simp add: empty_room_def)
  show ?thesis
  proof (cases "build_rooms (read_photo malloc fs) room_data ?g")
    case (Inl e)
    then show ?thesis using rooms by (auto simp: build_world_def Let_def file_missing_def)
  next
    case (Inr g1)
    let ?h = "g1\<lparr>object := \<lambda>_. empty_object\<rparr>"
    have r: "\<exists>p. contents (room g1 r) = None \<and> view (room g1 r) = Some p \<and> left (room g1 r) = door rd_left r
        \<and> right (room g1 r) = door rd_right r \<and> enter (room g1 r) = door_enter start r" for r
      using rooms Inr all_rooms [of r] by (auto simp: door_at door_enter_start)
    have "repr ?h (\<lambda>r. [])" using r by (auto simp: repr_def empty_object_def)
    moreover have "view (room ?h r) \<noteq> None" for r using r [of r] by auto
    ultimately obtain res where res: "build_objects (read_obj_image malloc fs) obj_data ?h = Some res"
      and spec: "case res of
          Inl e \<Rightarrow> \<exists>f. e = NoObjectImage f \<and> read_obj_image malloc fs f = None
        | Inr g' \<Rightarrow> repr g' (fold aplace obj_data (\<lambda>r. [])) \<and> same_rooms ?h g'
            \<and> (\<forall>d \<in> set obj_data. oname (object g' (od_id d)) = Some (od_name d) \<and> img (object g' (od_id d)) \<noteq> None)"
      using build_objects_spec [of ?h "\<lambda>r. []" obj_data "read_obj_image malloc fs"] distinct_objects
      by (fastforce simp: empty_object_def split: sum.splits)
    show ?thesis
    proof (cases res)
      case (Inl e)
      then show ?thesis using res spec Inr by (auto simp: build_world_def Let_def file_missing_def)
    next
      case R: (Inr g2)
      let ?k = "g2\<lparr>swap_photo := \<lambda>_. None\<rparr>"
      have obj: "oname (object g2 ob) = Some (name_of ob) \<and> img (object g2 ob) \<noteq> None" for ob
        using spec R all_objects [of ob] by (auto simp: name_at)
      have room2: "view (room g2 r) \<noteq> None \<and> left (room g2 r) = door rd_left r \<and> right (room g2 r) = door rd_right r
          \<and> enter (room g2 r) = door_enter start r" for r
        using r [of r] spec R by (auto simp: same_rooms_def)
      have "player_flags g2 = [0]" using spec R rooms Inr by (auto simp: same_rooms_def)
      moreover have rp: "repr g2 (things start)" using spec R by simp
      have "repr (g2\<lparr>swap_photo := sp\<rparr>) (things start)" for sp by (rule repr_cong [OF rp]) simp_all
      ultimately have "absr (g2\<lparr>swap_photo := sp\<rparr>) start" if "\<forall>w. sp w \<noteq> None" for sp
        using that obj room2 by (simp add: absr_def flag_is_set)
      then show ?thesis
        using res Inr R build_swaps_spec [of ?k "read_photo malloc fs"]
        by (auto simp: build_world_def Let_def file_missing_def split: sum.splits)
    qed
  qed
qed

section \<open>Runs\<close>

lemma no_door_to_inventory: "door rd_left r \<noteq> Some R_INVENTORY" "door rd_enter r \<noteq> Some R_INVENTORY" "door rd_right r \<noteq> Some R_INVENTORY"
proof -
  have "\<forall>(q, l, e, r) \<in> set edges. l \<noteq> Some R_INVENTORY \<and> e \<noteq> Some R_INVENTORY \<and> r \<noteq> Some R_INVENTORY"
    by code_simp
  then show "door rd_left r \<noteq> Some R_INVENTORY" "door rd_enter r \<noteq> Some R_INVENTORY" "door rd_right r \<noteq> Some R_INVENTORY"
    by (auto simp: door_doors doors_def split: option.splits dest!: map_of_SomeD)
qed

text \<open>Every action keeps the player in a known place.\<close>

lemma agame_simps [simp]:
  "behind (amove ob q a) = behind a" "behind (atake ob a) = behind a" "behind (achieve f a) = behind a" "behind (grab ob a) = behind a"
  "fly (amove ob q a) = fly a" "fly (atake ob a) = fly a" "fly (achieve f a) = fly a" "fly (grab ob a) = fly a"
  "achieved (amove ob q a) = achieved a" "achieved (atake ob a) = achieved a" "achieved (achieve f a) = (achieved a)(f := True)"
  "achieved (grab ob a) = achieved a" "things (amove ob q a) = moved ob q (things a)" "things (atake ob a) = taken ob (things a)"
  "things (achieve f a) = things a"
  by (simp_all add: amove_def atake_def achieve_def grab_def)

lemma placed_other: "placed r a \<Longrightarrow> q \<noteq> R_INVENTORY \<Longrightarrow> placed q a"
  by (simp add: placed_def)

lemma placed_step:
  assumes "placed r a" "astep x r a = (Some r', a')"
  shows "placed r' a'"
proof (cases x)
  case (Typed c arg)
  then show ?thesis using assms
    by (cases c) (auto simp: Let_def placed_def split: if_splits option.splits)
next
  case GoIn
  have "way_in r a = Some q \<Longrightarrow> q \<noteq> R_INVENTORY" for q
    using assms(1) no_door_to_inventory(2) by (auto simp: way_in_def door_enter_def placed_def split: option.splits if_splits)
  then show ?thesis using GoIn assms by (auto intro: placed_other split: option.splits)
next
  case GoLeft
  then show ?thesis using assms no_door_to_inventory(1) by (auto intro: placed_other split: option.splits)
next
  case GoRight
  then show ?thesis using assms no_door_to_inventory(3) by (auto intro: placed_other split: option.splits)
qed

definition refines :: "(room_id option \<times> game) option \<Rightarrow> room_id option \<times> agame \<Rightarrow> bool" where
  "refines out s \<longleftrightarrow> (\<exists>g'. out = Some (fst s, g') \<and> absr g' (snd s))"

lemma play_refines:
  assumes "absr g a" "placed r a"
  shows "refines (play xs (Some r, g)) (aplay xs (Some r, a))"
  using assms
proof (induction xs arbitrary: g a r)
  case Nil
  then show ?case by (simp add: refines_def)
next
  case (Cons x xs)
  obtain r1 a1 where s: "astep x r a = (r1, a1)" by (cases "astep x r a")
  obtain act g1 where g1: "step x r g = Some (act, r1, g1)" "absr g1 a1"
    using step_refines [OF Cons.prems, of x] s by (auto simp: sim_def)
  show ?case
  proof (cases r1)
    case None
    then show ?thesis using s g1 by (cases xs) (simp_all add: refines_def)
  next
    case (Some r2)
    then show ?thesis using Cons.IH [OF g1(2) placed_step [OF Cons.prems(2)]] s g1(1) by simp
  qed
qed

lemma placed_start: "placed R_EAST_EVRT start"
  by (simp add: placed_def start_def)

section \<open>Winning\<close>

lemma edges_all: "set (map fst edges) = UNIV"
proof -
  have "r \<in> set (map rd_id room_data)" for r using all_rooms [of r] by auto
  then show ?thesis unfolding room_ids by blast
qed

lemma lost_code [code]: "lost ob a \<longleftrightarrow> (\<forall>r \<in> set (map fst edges). \<not> has ob r a)"
  unfolding edges_all by (simp add: lost_def)

definition winning_game :: "action list" where
  "winning_game =
    [GoLeft, GoRight, GoRight, Typed TC_SIGH '''', GoLeft, GoLeft, Typed TC_WEAR ''bunnysuit'', GoLeft,
     GoRight, GoRight, GoLeft, Typed TC_GET ''fish'', GoLeft, GoIn, GoIn, Typed TC_GET ''gps'', GoIn,
     GoRight, GoRight, GoIn, Typed TC_GET ''key'', GoIn, GoRight, GoRight, GoRight, GoIn,
     Typed TC_GET ''book'', GoIn, GoRight, Typed TC_GET ''Icard'', GoLeft, GoLeft, GoIn, GoRight, GoLeft,
     GoIn, GoRight, GoIn, Typed TC_GET ''robot'', GoIn, GoLeft, GoIn, GoLeft, GoRight, GoIn, GoIn,
     GoLeft, Typed TC_GET ''spec'', GoIn, Typed TC_GET ''mp2'', GoIn, GoRight, GoIn, GoRight, GoLeft,
     GoRight, GoLeft, GoRight, GoRight, GoLeft, GoLeft, GoIn, GoLeft, GoIn, GoLeft, GoIn,
     Typed TC_FLASH ''robot'', GoIn, GoRight, GoRight, GoIn, Typed TC_FIX ''gps'', GoIn, GoRight, GoIn,
     GoRight, GoRight, GoIn, GoRight, GoRight, GoRight, GoRight, GoIn, GoRight, GoLeft, GoRight, GoLeft,
     GoIn, GoIn, Typed TC_USE ''car'', Typed TC_GET ''battery'', GoIn, GoLeft, GoLeft, GoIn, GoIn, GoIn,
     Typed TC_CHARGE ''battery'', GoIn, GoRight, GoRight, GoIn, GoIn, Typed TC_INSTALL ''battery'',
     Typed TC_GO ''allerton'', GoLeft, GoIn, Typed TC_GET ''mimo'', GoIn, GoRight,
     Typed TC_GO ''airport'', GoIn, GoLeft, GoLeft, Typed TC_INSTALL ''mimo'', GoIn, GoRight, GoRight,
     GoIn, Typed TC_USE ''fish'', GoIn, GoLeft, GoLeft, GoIn, GoRight, GoRight, GoRight,
     Typed TC_GO ''campus'', GoIn, GoLeft, GoRight, GoRight, GoLeft, GoRight, GoLeft, GoRight, GoRight,
     GoLeft, GoLeft, GoIn, GoLeft, GoIn, GoLeft, GoLeft, GoLeft, GoIn, Typed TC_DROP ''tux'',
     Typed TC_DO ''mp2'']"

lemma winning_game_wins: "fst (aplay winning_game (Some R_EAST_EVRT, start)) = None"
  by code_simp

section \<open>Nothing is won for free\<close>

lemma has_simps [simp]:
  "has ob q (amove ob' r a) \<longleftrightarrow> (if ob = ob' then q = r else has ob q a)"
  "has ob q (atake ob' a) \<longleftrightarrow> ob \<noteq> ob' \<and> has ob q a" "has ob q (achieve f a) \<longleftrightarrow> has ob q a"
  "has ob q (a\<lparr>behind := b\<rparr>) \<longleftrightarrow> has ob q a" "has ob q (a\<lparr>fly := f'\<rparr>) \<longleftrightarrow> has ob q a"
  by (auto simp: has_def amove_def atake_def achieve_def moved_def taken_def)

lemma lost_simps [simp]:
  "lost ob (amove ob' r a) \<longleftrightarrow> ob \<noteq> ob' \<and> lost ob a" "lost ob (atake ob' a) \<longleftrightarrow> ob = ob' \<or> lost ob a"
  "lost ob (achieve f a) \<longleftrightarrow> lost ob a" "lost ob (a\<lparr>behind := b\<rparr>) \<longleftrightarrow> lost ob a" "lost ob (a\<lparr>fly := f'\<rparr>) \<longleftrightarrow> lost ob a"
  by (auto simp: lost_def)

lemma has_not_lost: "has ob q a \<Longrightarrow> \<not> lost ob a"
  by (auto simp: lost_def)

lemma reach_not_lost: "reach ob q a \<Longrightarrow> \<not> lost ob a"
  by (auto simp: lost_def reach_def)

lemma pick_has: "pick arg r a = Some ob \<Longrightarrow> has ob r a"
  by (auto simp: pick_def has_def find_Some_iff)

text \<open>Parts of the world that only the car, the GPS and the plane lead to.\<close>

definition allerton_park :: "room_id list" where "allerton_park = [R_ALLERTON, R_FU_DOGS, R_STATUE, R_SUNSINGER]"
definition airport :: "room_id list" where "airport = [R_WILLARD, R_WILL_SIDE, R_REM_PLANE, R_COCKPIT]"
definition by_plane :: "room_id list" where "by_plane = [R_OVER_WILL, R_AIR_RIO, R_REM_ICE, R_REM_LAB]"

text \<open>What must have been achieved to be in a room, for an object to be in a room, and before a flag is set.\<close>

definition needed_at :: "room_id \<Rightarrow> flag_id list" where
  "needed_at p =
     (if p = R_IN_CLEANR then [FLAG_WEARING_SUIT]
      else if p \<in> set allerton_park \<or> p \<in> set by_plane then [FLAG_WEARING_SUIT, FLAG_CAR_FIXED]
      else if p \<in> set airport then [FLAG_CAR_FIXED] else [])"

definition needed_for :: "obj_id \<Rightarrow> room_id \<Rightarrow> flag_id list" where
  "needed_for ob q =
     (if ob = O_BOOK_C then [FLAG_HAS_EATEN] else if ob = O_GPS_GOOD then [FLAG_WEARING_SUIT]
      else if ob = O_BATT_CAR \<or> ob = O_BATT_EMPTY \<or> ob = O_BATT_FULL then [FLAG_CAR_OPEN]
      else if ob = O_MIMO_CARD then (if q = R_STATUE then [] else [FLAG_WEARING_SUIT])
      else if ob = O_TUX then (if q = R_REM_LAB then [] else [FLAG_LURED_TUX])
      else [])"

definition needed_before :: "flag_id \<Rightarrow> flag_id list" where
  "needed_before f =
     (if f = FLAG_CAR_FIXED then [FLAG_CAR_OPEN] else if f = FLAG_LURED_TUX then [FLAG_WEARING_SUIT, FLAG_CAR_FIXED] else [])"

definition got :: "flag_id list \<Rightarrow> agame \<Rightarrow> bool" where
  "got fs a \<longleftrightarrow> (\<forall>f \<in> set fs. achieved a f)"

definition earned :: "room_id \<Rightarrow> agame \<Rightarrow> bool" where
  "earned p a \<longleftrightarrow> got (needed_at p) a \<and> (\<forall>ob q. has ob q a \<longrightarrow> got (needed_for ob q) a)
     \<and> (\<forall>f. achieved a f \<longrightarrow> got (needed_before f) a) \<and> (fly a \<longrightarrow> achieved a FLAG_WEARING_SUIT)"

definition all_achieved :: "agame \<Rightarrow> bool" where
  "all_achieved a \<longleftrightarrow> (\<forall>f. achieved a f)"

lemma earnedD:
  assumes "earned p a"
  shows "got (needed_at p) a" "has ob q a \<Longrightarrow> got (needed_for ob q) a" "achieved a f \<Longrightarrow> got (needed_before f) a"
    "fly a \<Longrightarrow> achieved a FLAG_WEARING_SUIT"
  using assms by (auto simp: earned_def)

lemma got_simps [simp]:
  "got [] a" "got (f # fs) a \<longleftrightarrow> achieved a f \<and> got fs a" "got fs (amove ob q a) = got fs a" "got fs (atake ob a) = got fs a"
  "got fs (a\<lparr>behind := b\<rparr>) = got fs a" "got fs (a\<lparr>fly := f'\<rparr>) = got fs a"
  by (auto simp: got_def)

lemma got_achieve: "got fs a \<Longrightarrow> got fs (achieve f a)"
  by (auto simp: got_def)

lemma earned_at: "earned q a \<Longrightarrow> got (needed_at p) a \<Longrightarrow> earned p a"
  by (simp add: earned_def)

lemma earned_start: "earned R_EAST_EVRT start"
proof -
  have "\<forall>d \<in> set obj_data. \<forall>q \<in> set (map fst edges). has (od_id d) q start \<longrightarrow> needed_for (od_id d) q = []" by code_simp
  then have "has ob q start \<longrightarrow> needed_for ob q = []" for ob q
    using all_objects [of ob] unfolding edges_all by auto
  moreover have "needed_at R_EAST_EVRT = []" by code_simp
  ultimately show ?thesis by (simp add: earned_def del: start_simps(4))
qed

lemma zone_doors:
  assumes "Some p \<in> {door rd_left q, door rd_enter q, door rd_right q}"
  shows "set (needed_at p) \<subseteq> set (needed_at q)"
proof -
  have "\<forall>(q, l, e, r) \<in> set edges. \<forall>y \<in> set [l, e, r]. case y of None \<Rightarrow> True | Some p \<Rightarrow> (\<forall>f \<in> set (needed_at p). f \<in> set (needed_at q))"
    by code_simp
  moreover have "map_of edges q \<noteq> None" using edges_all by (metis UNIV_I list.set_map map_of_eq_None_iff)
  then obtain l e r where "map_of edges q = Some (l, e, r)" by auto
  then have m: "(q, l, e, r) \<in> set edges" "doors q = (l, e, r)" by (auto simp: doors_def dest: map_of_SomeD)
  moreover have "Some p \<in> set [l, e, r]" using assms m(2) by (simp add: door_doors)
  ultimately have "(\<forall>f \<in> set (needed_at p). f \<in> set (needed_at q))" by fastforce
  then show ?thesis by blast
qed

lemma earned_walk:
  assumes "earned (stand r a) a" "placed r a" "astep x r a = (Some r', a')" "x \<in> {GoLeft, GoIn, GoRight}"
  shows "earned (stand r' a') a'"
proof -
  have a: "a' = a" and r': "r' = r \<or> Some r' \<in> {door rd_left r, door rd_right r} \<or> way_in r a = Some r'"
    using assms(3,4) by (auto split: option.splits)
  have inv: "doors R_INVENTORY = (None, None, None)" by code_simp
  show ?thesis
  proof (cases "r = R_INVENTORY")
    case True
    then have "stand r' a = stand r a"
      using r' assms(2) inv by (auto simp: doors_eq way_in_def door_enter_def stand_def placed_def split: option.splits)
    then show ?thesis using assms(1) a by simp
  next
    case False
    then have e: "earned r a" using assms(1) by (simp add: stand_def)
    consider "r' = r" | "Some r' \<in> {door rd_left r, door rd_enter r, door rd_right r}"
      | "r = R_COCKPIT" "fly a" "r' = R_OVER_WILL" | "r' = R_IN_CLEANR" "achieved a FLAG_WEARING_SUIT"
      | "r' \<in> {R_IN_395LAB, R_CSL_LOBBY, R_BECKLOBBY}"
      using r' False by (auto simp: way_in_def door_enter_def split: option.splits if_splits)
    then have "r' \<noteq> R_INVENTORY \<and> got (needed_at r') a"
    proof cases
      case 2
      then show ?thesis using zone_doors [OF 2] earnedD(1) [OF e] no_door_to_inventory [of r] by (auto simp: got_def)
    next
      case 3
      have "needed_at R_COCKPIT = [FLAG_CAR_FIXED]" "needed_at R_OVER_WILL = [FLAG_WEARING_SUIT, FLAG_CAR_FIXED]" by code_simp+
      then show ?thesis using 3 earnedD(1,4) [OF e] by simp
    next
      case 4
      then show ?thesis by (simp add: needed_at_def)
    next
      case 5
      have "needed_at R_IN_395LAB = []" "needed_at R_CSL_LOBBY = []" "needed_at R_BECKLOBBY = []" by code_simp+
      then show ?thesis using 5 by auto
    qed (use e False in \<open>simp add: earned_def\<close>)
    then show ?thesis using earned_at [OF e] a by (simp add: stand_def)
  qed
qed

lemma earned_move: "earned p a \<Longrightarrow> got (needed_for ob q) a \<Longrightarrow> earned p (amove ob q a)"
  by (auto simp: earned_def split: if_splits)

lemma earned_take: "earned p a \<Longrightarrow> earned p (atake ob a)"
  by (auto simp: earned_def)

lemma earned_achieve: "earned p a \<Longrightarrow> got (needed_before f) a \<Longrightarrow> earned p (achieve f a)"
  by (auto simp: earned_def got_achieve)

lemma needed_has:
  assumes "earned p a" "has ob q' a" "ob = O_MIMO_CARD \<and> q' = R_STATUE \<longrightarrow> achieved a FLAG_WEARING_SUIT"
    "ob = O_TUX \<and> q' = R_REM_LAB \<longrightarrow> achieved a FLAG_LURED_TUX"
  shows "got (needed_for ob q) a"
  using earnedD(2) [OF assms(1,2)] assms(3,4) by (auto simp: needed_for_def split: if_splits)

lemma reach_needed: "earned p a \<Longrightarrow> reach ob r a \<Longrightarrow> (\<And>q. needed_for ob q = fs) \<Longrightarrow> got fs a"
  using earnedD(2) by (metis reach_def)

lemma stand_simps [simp]:
  "stand r (amove ob q a) = stand r a" "stand r (atake ob a) = stand r a" "stand r (achieve f a) = stand r a"
  "stand r (grab ob a) = stand r a" "stand r (a\<lparr>fly := b\<rparr>) = stand r a"
  by (simp_all add: stand_def)

lemma earned_grab:
  assumes "earned p a" "has ob p a"
  shows "earned p (grab ob a)"
proof (cases "ob = O_TUX \<and> \<not> achieved a FLAG_LURED_TUX")
  case False
  have "needed_at R_STATUE = [FLAG_WEARING_SUIT, FLAG_CAR_FIXED]" by code_simp
  then have "ob = O_MIMO_CARD \<and> p = R_STATUE \<longrightarrow> achieved a FLAG_WEARING_SUIT" using earnedD(1) [OF assms(1)] by auto
  then show ?thesis
    using False earned_move [OF assms(1) needed_has [OF assms]] by (auto simp: grab_def)
qed (use assms in \<open>simp add: grab_def\<close>)

lemma earned_get:
  assumes "earned (stand r a) a"
  shows "earned (stand r a) (snd (rule TC_GET r arg a))"
proof -
  let ?s = "stand r a" and ?book = "if achieved a FLAG_HAS_EATEN then O_BOOK_C else O_BOOK_WODE"
  have "earned ?s (grab ?book a)"
    using earned_move [OF assms, of ?book R_INVENTORY] by (simp add: grab_def needed_for_def)
  moreover have "earned ?s (grab O_BATT_EMPTY (atake O_BATT_CAR a))" if "has O_BATT_CAR ?s a"
    using earned_move [OF earned_take [OF assms], of O_BATT_EMPTY R_INVENTORY O_BATT_CAR] earnedD(2) [OF assms that]
    by (simp add: grab_def needed_for_def)
  ultimately show ?thesis
    using assms earned_grab [OF assms pick_has] by (auto simp: Let_def split: option.splits)
qed

lemma earned_rule:
  assumes "earned (stand r a) a" "placed r a" "rule c r arg a = (r', a')"
  shows "case r' of None \<Rightarrow> all_achieved a' | Some q \<Rightarrow> earned (stand q a') a'"
proof (cases c)
  case TC_BUY
  then show ?thesis using assms by (auto simp: needed_for_def needed_before_def intro!: earned_move earned_achieve)
next
  case TC_CHARGE
  have "reach O_BATT_EMPTY r a \<Longrightarrow> got [FLAG_CAR_OPEN] a"
    using reach_needed [OF assms(1), of O_BATT_EMPTY r "[FLAG_CAR_OPEN]"] by (simp add: needed_for_def)
  then show ?thesis using TC_CHARGE assms by (auto simp: needed_for_def intro!: earned_move earned_take)
next
  case TC_DO
  have "achieved a f" if b: "has O_BOOK_C R_INVENTORY a" and t: "has O_TUX R_IN_391LAB a" for f
  proof -
    have l: "achieved a FLAG_HAS_EATEN" "achieved a FLAG_LURED_TUX"
      using earnedD(2) [OF assms(1) b] earnedD(2) [OF assms(1) t] by (simp_all add: needed_for_def)
    moreover have fx: "achieved a FLAG_WEARING_SUIT" "achieved a FLAG_CAR_FIXED"
      using earnedD(3) [OF assms(1) l(2)] by (simp_all add: needed_before_def)
    moreover have "achieved a FLAG_CAR_OPEN" using earnedD(3) [OF assms(1) fx(2)] by (simp add: needed_before_def)
    ultimately show ?thesis by (cases f) simp_all
  qed
  then show ?thesis using TC_DO assms by (auto simp: all_achieved_def split: if_splits)
next
  case TC_DRINK
  then show ?thesis using assms by (auto intro: earned_take)
next
  case TC_DROP
  have "got (needed_for ob q) a" if "has ob R_INVENTORY a" for ob q by (rule needed_has [OF assms(1) that]) auto
  then show ?thesis using TC_DROP assms by (auto dest: pick_has intro!: earned_move split: option.splits)
next
  case TC_FIX
  have "r = R_IN_CLEANR \<Longrightarrow> achieved a FLAG_WEARING_SUIT" using earnedD(1) [OF assms(1)] by (simp add: stand_def needed_at_def)
  then show ?thesis using TC_FIX assms by (auto simp: needed_for_def intro!: earned_move earned_take)
next
  case TC_FLASH
  then show ?thesis using assms by (auto simp: needed_for_def intro!: earned_move earned_take)
next
  case TC_GET
  then have "r' = Some r" "a' = snd (rule TC_GET r arg a)" using assms(3) by (auto simp del: rule.simps simp: rule.simps(8))
  moreover have "stand r (snd (rule TC_GET r arg a)) = stand r a" by (simp add: Let_def split: option.splits)
  ultimately show ?thesis using earned_get [OF assms(1)] by simp
next
  case TC_GO
  have n: "needed_at R_ALLERTON = [FLAG_WEARING_SUIT, FLAG_CAR_FIXED]" "needed_at R_WILLARD = [FLAG_CAR_FIXED]" "needed_at R_CAR_SITE = []"
    by code_simp+
  have "has O_GPS_GOOD R_INVENTORY a \<Longrightarrow> achieved a FLAG_WEARING_SUIT"
    using earnedD(2) [OF assms(1), of O_GPS_GOOD R_INVENTORY] by (simp add: needed_for_def)
  then have "achieved a FLAG_CAR_FIXED \<Longrightarrow> has O_GPS_GOOD R_INVENTORY a \<Longrightarrow> earned R_ALLERTON a"
    "achieved a FLAG_CAR_FIXED \<Longrightarrow> earned R_WILLARD a" "earned R_CAR_SITE a"
    using n by (auto intro: earned_at [OF assms(1)])
  moreover have "stand R_ALLERTON a = R_ALLERTON" "stand R_WILLARD a = R_WILLARD" "stand R_CAR_SITE a = R_CAR_SITE"
    by (simp_all add: stand_def)
  ultimately show ?thesis using TC_GO assms by (auto split: if_splits)
next
  case TC_INSTALL
  have "reach O_BATT_FULL r a \<Longrightarrow> got [FLAG_CAR_OPEN] a"
    using reach_needed [OF assms(1), of O_BATT_FULL r "[FLAG_CAR_OPEN]"] by (simp add: needed_for_def)
  moreover have "earned p ((atake O_MIMO_CARD a)\<lparr>fly := True\<rparr>)" if "r = R_COCKPIT" "reach O_MIMO_CARD r a" "earned p a" for p
  proof -
    have "achieved a FLAG_WEARING_SUIT"
      using that(1,2) earnedD(2) [OF assms(1), of O_MIMO_CARD R_INVENTORY] earnedD(2) [OF assms(1), of O_MIMO_CARD R_COCKPIT]
      by (auto simp: reach_def needed_for_def)
    then show ?thesis using that(3) by (auto simp: earned_def)
  qed
  ultimately show ?thesis using TC_INSTALL assms by (auto simp: needed_before_def intro!: earned_achieve earned_take split: if_splits)
next
  case TC_INVENTORY
  have "earned p (a\<lparr>behind := b\<rparr>) = earned p a" for p b by (simp add: earned_def)
  then show ?thesis using TC_INVENTORY assms by (auto simp: stand_def placed_def split: if_splits)
next
  case TC_SIGH
  then show ?thesis using assms by (auto simp: needed_before_def intro!: earned_achieve)
next
  case TC_USE
  have swap: "achieve f (amove ob q b) = amove ob q (achieve f b)" for f ob q b by (cases b) (simp add: achieve_def amove_def)
  have "earned (stand r a) (achieve FLAG_CAR_OPEN (amove O_BATT_CAR r (atake O_CAR_KEY a)))"
    unfolding swap using assms(1) by (intro earned_move earned_achieve earned_take) (simp_all add: needed_for_def needed_before_def)
  moreover have "earned (stand r a) (achieve FLAG_LURED_TUX (amove O_TUX R_INVENTORY (atake O_FISH a)))" if "r = R_REM_LAB"
  proof -
    have "needed_at R_REM_LAB = [FLAG_WEARING_SUIT, FLAG_CAR_FIXED]" by code_simp
    then have "got (needed_before FLAG_LURED_TUX) a" using earnedD(1) [OF assms(1)] that by (simp add: stand_def needed_before_def)
    then show ?thesis
      unfolding swap using assms(1) by (intro earned_move earned_achieve earned_take) (simp_all add: needed_for_def)
  qed
  ultimately show ?thesis using TC_USE assms by (auto split: if_splits)
next
  case TC_WEAR
  then show ?thesis using assms by (auto simp: needed_before_def intro!: earned_take earned_achieve)
qed

lemma earned_play:
  assumes "earned (stand r a) a" "placed r a"
  shows "case aplay xs (Some r, a) of (None, a') \<Rightarrow> all_achieved a' | (Some q, a') \<Rightarrow> earned (stand q a') a' \<and> placed q a'"
  using assms
proof (induction xs arbitrary: r a)
  case (Cons x xs)
  obtain r1 a1 where s: "astep x r a = (r1, a1)" by (cases "astep x r a")
  have "case r1 of None \<Rightarrow> all_achieved a1 | Some q \<Rightarrow> earned (stand q a1) a1"
  proof (cases "x \<in> {GoLeft, GoIn, GoRight}")
    case True
    then obtain q where "r1 = Some q" using s by auto
    then show ?thesis using earned_walk [OF Cons.prems _ True] s by simp
  next
    case False
    then obtain c arg where "x = Typed c arg" by (cases x) auto
    then show ?thesis using earned_rule [OF Cons.prems] s by simp
  qed
  then show ?case
    using Cons.IH s placed_step [OF Cons.prems(2)] by (cases r1; cases xs) auto
qed simp

section \<open>Properties\<close>

text \<open>What a game played from a freshly built world has come to.\<close>

definition game_state :: "action list \<Rightarrow> room_id option \<times> agame" where
  "game_state xs = aplay xs (Some R_EAST_EVRT, start)"

lemma build_then_play:
  assumes "build_world malloc fs g0 = Some (Inr g)"
  shows "refines (play xs (Some start_in_room, g)) (game_state xs)"
proof -
  have "absr g start" using build_world_start [of malloc fs g0] assms by (auto split: sum.splits)
  then show ?thesis using play_refines [OF _ placed_start] by (simp add: game_state_def start_in_room_def)
qed

text \<open>
  C4: Building the world ends, and either reports a file it could not read - never a duplicate entry
  of its tables - or gives a world on which every list of moves and typed commands can be carried
  out, without following a \<open>NULL\<close> pointer or an endless list, with the result the rules of the
  game prescribe.
\<close>

theorem world_plays_by_the_rules:
  "\<exists>res. build_world malloc fs g0 = Some res \<and>
     (case res of
        Inl e \<Rightarrow> file_missing malloc fs e
      | Inr g \<Rightarrow> \<forall>xs. \<exists>g'. play xs (Some start_in_room, g) = Some (fst (game_state xs), g') \<and> absr g' (snd (game_state xs)))"
  using build_world_start [of malloc fs g0] build_then_play [of malloc fs g0]
  by (fastforce simp: refines_def split: sum.splits)

text \<open>A set of one-pixel pictures, on which the world is built.\<close>

definition dots :: files where
  "dots = (\<lambda>f. Some [1, 0, 1, 0, 0, 0])"

definition unbuilt :: game where
  "unbuilt = \<lparr>room = \<lambda>_. empty_room, object = \<lambda>_. empty_object, player_flags = [0], swap_photo = \<lambda>_. None, rng = \<lambda>_. 0, status_msg = []\<rparr>"

lemma dots_readable: "\<not> file_missing (\<lambda>_. True) dots e"
proof -
  have "read_photo (\<lambda>_. True) dots f = read_photo (\<lambda>_. True) dots []" "read_obj_image (\<lambda>_. True) dots f = read_obj_image (\<lambda>_. True) dots []" for f
    by (simp_all add: read_photo_def read_obj_image_def dots_def)
  moreover have "read_photo (\<lambda>_. True) dots [] \<noteq> None" "read_obj_image (\<lambda>_. True) dots [] \<noteq> None" by code_simp+
  ultimately show ?thesis unfolding file_missing_def by metis
qed

lemma dots_build: "\<exists>g. build_world (\<lambda>_. True) dots unbuilt = Some (Inr g)"
proof -
  obtain res where res: "build_world (\<lambda>_. True) dots unbuilt = Some res" "case res of Inl e \<Rightarrow> file_missing (\<lambda>_. True) dots e | Inr g \<Rightarrow> absr g start"
    using build_world_start by blast
  then show ?thesis using dots_readable by (cases res) auto
qed

lemma build_then_win:
  assumes "build_world malloc fs g0 = Some (Inr g)"
  shows "\<exists>g'. play winning_game (Some start_in_room, g) = Some (None, g')"
  using build_then_play [OF assms, of winning_game] winning_game_wins by (auto simp: refines_def game_state_def)

text \<open>
  C6: In every state of a game each object is in exactly one room's list, once, or in none, and its
  location says which; so the objects the player carries and those lying in rooms are never
  duplicated or lost by the list operations.
\<close>

theorem objects_in_one_place:
  assumes "build_world malloc fs g0 = Some (Inr g)" "play xs (Some start_in_room, g) = Some (r, g')"
  shows "\<exists>L. (\<forall>q. chain g' (contents (room g' q)) (L q) \<and> distinct (L q)) \<and>
    (\<forall>ob q. ob \<in> set (L q) \<longleftrightarrow> loc (object g' ob) = Some q)"
proof -
  have "absr g' (snd (game_state xs))" using build_then_play [OF assms(1), of xs] assms(2) by (auto simp: refines_def)
  then show ?thesis using reprD [OF absrD(1)] by blast
qed

theorem objects_in_one_place_witness:
  "\<exists>g g' L. build_world (\<lambda>_. True) dots unbuilt = Some (Inr g) \<and> play winning_game (Some start_in_room, g) = Some (None, g') \<and>
     (\<forall>q. chain g' (contents (room g' q)) (L q) \<and> distinct (L q)) \<and> (\<forall>ob q. ob \<in> set (L q) \<longleftrightarrow> loc (object g' ob) = Some q)"
  using dots_build build_then_win objects_in_one_place by meson

text \<open>
  C10: The game can be won, whatever the pictures look like and whatever the random numbers are.
\<close>

theorem game_winnable:
  assumes "build_world malloc fs g0 = Some (Inr g)"
  shows "\<exists>xs g'. play xs (Some start_in_room, g) = Some (None, g')"
  using build_then_win [OF assms] by blast

theorem game_winnable_witness:
  "\<exists>g xs g'. build_world (\<lambda>_. True) dots unbuilt = Some (Inr g) \<and> play xs (Some start_in_room, g) = Some (None, g')"
  using dots_build game_winnable by blast

text \<open>
  C5: Nobody wins without having eaten, put on the bunnysuit, opened and repaired the car and lured
  Tux: a won game has all five flags set.
\<close>

theorem victory_earned:
  assumes "build_world malloc fs g0 = Some (Inr g)" "play xs (Some start_in_room, g) = Some (None, g')"
  shows "player_flag_is_set f g'"
proof -
  have a: "fst (game_state xs) = None" "absr g' (snd (game_state xs))"
    using build_then_play [OF assms(1), of xs] assms(2) by (auto simp: refines_def)
  have "earned (stand R_EAST_EVRT start) start" using earned_start by (simp add: stand_def)
  then have "all_achieved (snd (game_state xs))"
    using earned_play [OF _ placed_start, of xs] a(1) by (auto simp: game_state_def split: prod.splits option.splits)
  then show ?thesis using absrD(8) [OF a(2)] by (simp add: all_achieved_def)
qed

theorem victory_earned_witness:
  "\<exists>g g'. build_world (\<lambda>_. True) dots unbuilt = Some (Inr g) \<and> play winning_game (Some start_in_room, g) = Some (None, g') \<and>
     player_flag_is_set FLAG_CAR_FIXED g'"
  using dots_build build_then_win victory_earned by meson

end
