(* ===== verification/RoomView.thy ===== *)
theory RoomView
  imports WorldLists
begin

text \<open>
  The line drawing callbacks of \<open>mp2/photo.c\<close>: \<open>fill_horiz_buffer\<close> and \<open>fill_vert_buffer\<close> give one
  row or one column of the current room, photo and objects together. Coordinates are the C
  \<open>int\<close>s of the code, far from overflow for the sizes and positions that occur (16 bit values
  and screen dimensions); reading outside the pixels of a picture is \<open>None\<close>.

  \<open>scene\<close> is what they are meant to show: the colour of one pixel of the room, an object in front
  of the photo and of the objects before it in the room's list, its transparent pixels left out.
  Both callbacks are shown to be cuts through it, so a picture put together of rows and columns
  has no seams.
\<close>

section \<open>Code\<close>

definition SCROLL_X_DIM :: int where "SCROLL_X_DIM = 320"
definition SCROLL_Y_DIM :: int where "SCROLL_Y_DIM = 200"
definition OBJ_CLR_TRANSP :: u8 where "OBJ_CLR_TRANSP = 0x40"

definition at :: "'a list \<Rightarrow> int \<Rightarrow> 'a option" where
  "at xs i = (if 0 \<le> i \<and> i < int (length xs) then Some (xs ! nat i) else None)"

definition img_w :: "image \<Rightarrow> int" where "img_w im = uint (hdr_width (img_hdr im))"
definition img_h :: "image \<Rightarrow> int" where "img_h im = uint (hdr_height (img_hdr im))"
definition view_w :: "photo \<Rightarrow> int" where "view_w v = uint (hdr_width (photo_hdr v))"
definition view_h :: "photo \<Rightarrow> int" where "view_h v = uint (hdr_height (photo_hdr v))"

text \<open>The loop that copies the pixels of one line of an object; \<open>px\<close> reads the object's pixel.\<close>

function copy_pixels :: "(int \<Rightarrow> u8 option) \<Rightarrow> int \<Rightarrow> int \<Rightarrow> int \<Rightarrow> int \<Rightarrow> u8 list \<Rightarrow> u8 list option" where
  "copy_pixels px dim len idx i buf =
     (if dim > idx \<and> len > i
      then do { pixel \<leftarrow> px i;
                copy_pixels px dim len (idx + 1) (i + 1) (if OBJ_CLR_TRANSP \<noteq> pixel then buf[nat idx := pixel] else buf) }
      else Some buf)"
  by pat_completeness auto
termination by (relation "measure (\<lambda>(px, dim, len, idx, i, buf). nat (dim - idx))") auto

declare copy_pixels.simps [simp del]

definition horiz_photo :: "photo \<Rightarrow> int \<Rightarrow> int \<Rightarrow> u8 list option" where
  "horiz_photo v x y =
     those (map (\<lambda>idx. if 0 \<le> x + idx \<and> view_w v > x + idx then at (photo_img v) (view_w v * y + x + idx) else Some 0)
       [0..SCROLL_X_DIM - 1])"

definition vert_photo :: "photo \<Rightarrow> int \<Rightarrow> int \<Rightarrow> u8 list option" where
  "vert_photo v x y =
     those (map (\<lambda>idx. if 0 \<le> y + idx \<and> view_h v > y + idx then at (photo_img v) (view_w v * (y + idx) + x) else Some 0)
       [0..SCROLL_Y_DIM - 1])"

definition horiz_object :: "int \<Rightarrow> int \<Rightarrow> int \<Rightarrow> int \<Rightarrow> image \<Rightarrow> u8 list \<Rightarrow> u8 list option" where
  "horiz_object x y obj_x obj_y im buf =
     (if y < obj_y \<or> y \<ge> obj_y + img_h im \<or> x + SCROLL_X_DIM \<le> obj_x \<or> x \<ge> obj_x + img_w im then Some buf
      else let yoff = (y - obj_y) * img_w im;
               (idx, imgx) = (if x \<le> obj_x then (obj_x - x, 0) else (0, x - obj_x))
           in copy_pixels (\<lambda>imgx. at (img_img im) (yoff + imgx)) SCROLL_X_DIM (img_w im) idx imgx buf)"

definition vert_object :: "int \<Rightarrow> int \<Rightarrow> int \<Rightarrow> int \<Rightarrow> image \<Rightarrow> u8 list \<Rightarrow> u8 list option" where
  "vert_object x y obj_x obj_y im buf =
     (if x < obj_x \<or> x \<ge> obj_x + img_w im \<or> y + SCROLL_Y_DIM \<le> obj_y \<or> y \<ge> obj_y + img_h im then Some buf
      else let xoff = x - obj_x;
               (idx, imgy) = (if y \<le> obj_y then (obj_y - y, 0) else (0, y - obj_y))
           in copy_pixels (\<lambda>imgy. at (img_img im) (xoff + img_w im * imgy)) SCROLL_Y_DIM (img_h im) idx imgy buf)"

text \<open>The loop over the objects of the room; \<open>draw\<close> is the body of either function.\<close>

partial_function (option) draw_objects ::
  "(int \<Rightarrow> int \<Rightarrow> image \<Rightarrow> u8 list \<Rightarrow> u8 list option) \<Rightarrow> game \<Rightarrow> obj_id option \<Rightarrow> u8 list \<Rightarrow> u8 list option" where
  "draw_objects draw g obj buf =
     (case obj of
        None \<Rightarrow> Some buf
      | Some ob \<Rightarrow>
          do { im \<leftarrow> obj_image ob g;
               buf \<leftarrow> draw (uint (obj_get_x ob g)) (uint (obj_get_y ob g)) im buf;
               draw_objects draw g (obj_next ob g) buf })"

definition fill_horiz_buffer :: "room_id \<Rightarrow> game \<Rightarrow> int \<Rightarrow> int \<Rightarrow> u8 list option" where
  "fill_horiz_buffer cur_room g x y =
     do { v \<leftarrow> room_photo cur_room g;
          buf \<leftarrow> horiz_photo v x y;
          draw_objects (horiz_object x y) g (room_contents_iterate cur_room g) buf }"

definition fill_vert_buffer :: "room_id \<Rightarrow> game \<Rightarrow> int \<Rightarrow> int \<Rightarrow> u8 list option" where
  "fill_vert_buffer cur_room g x y =
     do { v \<leftarrow> room_photo cur_room g;
          buf \<leftarrow> vert_photo v x y;
          draw_objects (vert_object x y) g (room_contents_iterate cur_room g) buf }"

section \<open>The scene\<close>

definition photo_ok :: "photo \<Rightarrow> bool" where
  "photo_ok v \<longleftrightarrow> int (length (photo_img v)) = view_w v * view_h v"

definition image_ok :: "image \<Rightarrow> bool" where
  "image_ok im \<longleftrightarrow> int (length (img_img im)) = img_w im * img_h im"

definition photo_at :: "photo \<Rightarrow> int \<Rightarrow> int \<Rightarrow> u8" where
  "photo_at v x y = (if 0 \<le> x \<and> x < view_w v \<and> 0 \<le> y \<and> y < view_h v then photo_img v ! nat (view_w v * y + x) else 0)"

definition covers :: "int \<Rightarrow> int \<Rightarrow> image \<Rightarrow> int \<Rightarrow> int \<Rightarrow> bool" where
  "covers ox oy im x y \<longleftrightarrow> ox \<le> x \<and> x < ox + img_w im \<and> oy \<le> y \<and> y < oy + img_h im"

definition image_over :: "int \<Rightarrow> int \<Rightarrow> image \<Rightarrow> int \<Rightarrow> int \<Rightarrow> u8 \<Rightarrow> u8" where
  "image_over ox oy im x y c =
     (if covers ox oy im x y
      then let p = img_img im ! nat ((y - oy) * img_w im + (x - ox)) in if p = OBJ_CLR_TRANSP then c else p
      else c)"

definition object_over :: "game \<Rightarrow> int \<Rightarrow> int \<Rightarrow> obj_id \<Rightarrow> u8 \<Rightarrow> u8" where
  "object_over g x y ob c = image_over (uint (obj_get_x ob g)) (uint (obj_get_y ob g)) (the (obj_image ob g)) x y c"

definition scene :: "game \<Rightarrow> photo \<Rightarrow> obj_id list \<Rightarrow> int \<Rightarrow> int \<Rightarrow> u8" where
  "scene g v obs x y = fold (object_over g x y) obs (photo_at v x y)"

section \<open>Lines of the scene\<close>

lemma those_map: "(\<And>x. x \<in> set xs \<Longrightarrow> f x = Some (h x)) \<Longrightarrow> those (map f xs) = Some (map h xs)"
  by (induction xs) auto

lemma at_in: "0 \<le> i \<Longrightarrow> i < int (length xs) \<Longrightarrow> at xs i = Some (xs ! nat i)"
  by (simp add: at_def)

text \<open>Row-major indices stay inside the pixels.\<close>

lemma row_major:
  assumes "0 \<le> x" "x < w" "0 \<le> y" "y < h"
  shows "0 \<le> w * y + x" "w * y + x < w * (h :: int)"
proof -
  have "w * y + x < w * (y + 1)" using assms by (simp add: distrib_left)
  also have "\<dots> \<le> w * h" using assms by (intro mult_left_mono) auto
  finally show "w * y + x < w * h" .
qed (use assms in simp)

lemma horiz_photo_scene:
  assumes "photo_ok v" "0 \<le> y" "y < view_h v"
  shows "horiz_photo v x y = Some (map (\<lambda>i. photo_at v (x + i) y) [0..SCROLL_X_DIM - 1])"
  unfolding horiz_photo_def
  using assms row_major [of "x + _" "view_w v" y "view_h v"]
  by (intro those_map) (auto simp: photo_at_def photo_ok_def at_in add.assoc)

lemma vert_photo_scene:
  assumes "photo_ok v" "0 \<le> x" "x < view_w v"
  shows "vert_photo v x y = Some (map (\<lambda>i. photo_at v x (y + i)) [0..SCROLL_Y_DIM - 1])"
  unfolding vert_photo_def
  using assms row_major [of x "view_w v" "y + _" "view_h v"]
  by (intro those_map) (auto simp: photo_at_def photo_ok_def at_in)

text \<open>The copy loop changes the pixels from \<open>idx\<close> on, as long as both the line and the object last.\<close>

lemma copy_pixels_run:
  assumes "0 \<le> idx" "int (length buf) = dim" "\<And>k. i \<le> k \<Longrightarrow> k < len \<Longrightarrow> px k = Some (q k)"
  shows "copy_pixels px dim len idx i buf =
    Some (map (\<lambda>j. if idx \<le> j \<and> i + (j - idx) < len \<and> q (i + (j - idx)) \<noteq> OBJ_CLR_TRANSP then q (i + (j - idx)) else buf ! nat j) [0..dim - 1])"
  using assms
proof (induction px dim len idx i buf rule: copy_pixels.induct)
  case (1 px dim len idx i buf)
  have len: "length [0..dim - 1] = length buf" using "1.prems"(2) by simp
  show ?case
  proof (cases "dim > idx \<and> len > i")
    case True
    define b where "b = (if OBJ_CLR_TRANSP \<noteq> q i then buf[nat idx := q i] else buf)"
    have "copy_pixels px dim len idx i buf = copy_pixels px dim len (idx + 1) (i + 1) b"
      using True "1.prems"(3) [of i] by (subst copy_pixels.simps) (simp add: b_def)
    also have "\<dots> = Some (map (\<lambda>j. if idx + 1 \<le> j \<and> i + 1 + (j - (idx + 1)) < len \<and> q (i + 1 + (j - (idx + 1))) \<noteq> OBJ_CLR_TRANSP
        then q (i + 1 + (j - (idx + 1))) else b ! nat j) [0..dim - 1])"
      using "1.IH" [of "q i"] True "1.prems" by (simp add: b_def)
    also have "\<dots> = Some (map (\<lambda>j. if idx \<le> j \<and> i + (j - idx) < len \<and> q (i + (j - idx)) \<noteq> OBJ_CLR_TRANSP then q (i + (j - idx)) else buf ! nat j) [0..dim - 1])"
    proof -
      have "(if idx + 1 \<le> j \<and> i + 1 + (j - (idx + 1)) < len \<and> q (i + 1 + (j - (idx + 1))) \<noteq> OBJ_CLR_TRANSP
          then q (i + 1 + (j - (idx + 1))) else b ! nat j) =
        (if idx \<le> j \<and> i + (j - idx) < len \<and> q (i + (j - idx)) \<noteq> OBJ_CLR_TRANSP then q (i + (j - idx)) else buf ! nat j)"
        if "0 \<le> j" for j
        using that True "1.prems"(1,2) by (cases j idx rule: linorder_cases) (auto simp: b_def nth_list_update)
      then show ?thesis by simp
    qed
    finally show ?thesis .
  next
    case False
    then show ?thesis using "1.prems"(1,2) len
      by (subst copy_pixels.simps) (auto intro!: nth_equalityI simp: nth_upto)
  qed
qed

lemma copy_object_line:
  assumes "o0 < x0 + dim" "x0 < o0 + len" "0 \<le> dim" "\<And>k. 0 \<le> k \<Longrightarrow> k < len \<Longrightarrow> px k = Some (q k)"
  shows "(let (idx, i) = (if x0 \<le> o0 then (o0 - x0, 0) else (0, x0 - o0)) in copy_pixels px dim len idx i (map f [0..dim - 1])) =
    Some (map (\<lambda>j. if o0 \<le> x0 + j \<and> x0 + j < o0 + len \<and> q (x0 + j - o0) \<noteq> OBJ_CLR_TRANSP then q (x0 + j - o0) else f j) [0..dim - 1])"
proof (cases "x0 \<le> o0")
  case True
  have "copy_pixels px dim len (o0 - x0) 0 (map f [0..dim - 1]) = Some (map (\<lambda>j. if o0 - x0 \<le> j \<and> 0 + (j - (o0 - x0)) < len
      \<and> q (0 + (j - (o0 - x0))) \<noteq> OBJ_CLR_TRANSP then q (0 + (j - (o0 - x0))) else map f [0..dim - 1] ! nat j) [0..dim - 1])"
    using True assms by (intro copy_pixels_run) auto
  then show ?thesis using True by (auto simp: algebra_simps nth_map)
next
  case False
  have "copy_pixels px dim len 0 (x0 - o0) (map f [0..dim - 1]) = Some (map (\<lambda>j. if 0 \<le> j \<and> x0 - o0 + (j - 0) < len
      \<and> q (x0 - o0 + (j - 0)) \<noteq> OBJ_CLR_TRANSP then q (x0 - o0 + (j - 0)) else map f [0..dim - 1] ! nat j) [0..dim - 1])"
    using False assms by (intro copy_pixels_run) auto
  then show ?thesis using False by (auto simp: algebra_simps nth_map)
qed

lemma horiz_object_over:
  assumes "image_ok im"
  shows "horiz_object x y ox oy im (map f [0..SCROLL_X_DIM - 1]) = Some (map (\<lambda>i. image_over ox oy im (x + i) y (f i)) [0..SCROLL_X_DIM - 1])"
proof (cases "y < oy \<or> y \<ge> oy + img_h im \<or> x + SCROLL_X_DIM \<le> ox \<or> x \<ge> ox + img_w im")
  case True
  then have "image_over ox oy im (x + i) y c = c" if "0 \<le> i" "i < SCROLL_X_DIM" for i c
    using that by (auto simp: image_over_def covers_def)
  then show ?thesis using True by (simp add: horiz_object_def)
next
  case False
  define q where "q k = img_img im ! nat ((y - oy) * img_w im + k)" for k
  have px: "at (img_img im) ((y - oy) * img_w im + k) = Some (q k)" if "0 \<le> k" "k < img_w im" for k
    using row_major [of k "img_w im" "y - oy" "img_h im"] that False assms by (auto simp: at_in q_def image_ok_def mult.commute)
  have "horiz_object x y ox oy im (map f [0..SCROLL_X_DIM - 1]) =
      Some (map (\<lambda>j. if ox \<le> x + j \<and> x + j < ox + img_w im \<and> q (x + j - ox) \<noteq> OBJ_CLR_TRANSP then q (x + j - ox) else f j) [0..SCROLL_X_DIM - 1])"
    using False copy_object_line [of ox x SCROLL_X_DIM "img_w im" _ q f, OF _ _ _ px] by (simp add: horiz_object_def SCROLL_X_DIM_def)
  also have "\<dots> = Some (map (\<lambda>i. image_over ox oy im (x + i) y (f i)) [0..SCROLL_X_DIM - 1])"
    using False by (auto simp: image_over_def covers_def q_def Let_def)
  finally show ?thesis .
qed

lemma vert_object_over:
  assumes "image_ok im"
  shows "vert_object x y ox oy im (map f [0..SCROLL_Y_DIM - 1]) = Some (map (\<lambda>i. image_over ox oy im x (y + i) (f i)) [0..SCROLL_Y_DIM - 1])"
proof (cases "x < ox \<or> x \<ge> ox + img_w im \<or> y + SCROLL_Y_DIM \<le> oy \<or> y \<ge> oy + img_h im")
  case True
  then have "image_over ox oy im x (y + i) c = c" if "0 \<le> i" "i < SCROLL_Y_DIM" for i c
    using that by (auto simp: image_over_def covers_def)
  then show ?thesis using True by (simp add: vert_object_def)
next
  case False
  define q where "q k = img_img im ! nat (x - ox + img_w im * k)" for k
  have px: "at (img_img im) (x - ox + img_w im * k) = Some (q k)" if "0 \<le> k" "k < img_h im" for k
    using row_major [of "x - ox" "img_w im" k "img_h im"] that False assms by (auto simp: at_in q_def image_ok_def add.commute)
  have "vert_object x y ox oy im (map f [0..SCROLL_Y_DIM - 1]) =
      Some (map (\<lambda>j. if oy \<le> y + j \<and> y + j < oy + img_h im \<and> q (y + j - oy) \<noteq> OBJ_CLR_TRANSP then q (y + j - oy) else f j) [0..SCROLL_Y_DIM - 1])"
    using False copy_object_line [of oy y SCROLL_Y_DIM "img_h im" _ q f, OF _ _ _ px] by (simp add: vert_object_def SCROLL_Y_DIM_def)
  also have "\<dots> = Some (map (\<lambda>i. image_over ox oy im x (y + i) (f i)) [0..SCROLL_Y_DIM - 1])"
    using False by (auto simp: image_over_def covers_def q_def Let_def algebra_simps)
  finally show ?thesis .
qed

text \<open>The objects of a list are drawn over each other in its order.\<close>

lemma draw_objects_chain:
  assumes "chain g p obs" "\<And>ob. ob \<in> set obs \<Longrightarrow> \<exists>im. obj_image ob g = Some im \<and> image_ok im"
    "\<And>im ox oy f. image_ok im \<Longrightarrow> draw ox oy im (map f is) = Some (map (\<lambda>i. image_over ox oy im (X i) (Y i) (f i)) is)"
  shows "draw_objects draw g p (map f is) = Some (map (\<lambda>i. fold (object_over g (X i) (Y i)) obs (f i)) is)"
  using assms(1,2)
proof (induction obs arbitrary: p f)
  case (Cons ob obs)
  obtain im where im: "obj_image ob g = Some im" "image_ok im" using Cons.prems(2) [of ob] by auto
  have "draw_objects draw g (obj_next ob g) (map (\<lambda>i. object_over g (X i) (Y i) ob (f i)) is) =
      Some (map (\<lambda>i. fold (object_over g (X i) (Y i)) obs (object_over g (X i) (Y i) ob (f i))) is)"
    using Cons.IH [of "obj_next ob g"] Cons.prems by (auto simp: obj_next_def)
  moreover have "object_over g x y ob c = image_over (uint (obj_get_x ob g)) (uint (obj_get_y ob g)) im x y c" for x y c
    using im(1) by (simp add: object_over_def)
  ultimately show ?case using Cons.prems(1) im assms(3) by (subst draw_objects.simps) simp
qed (simp add: draw_objects.simps)

definition room_ok :: "game \<Rightarrow> room_id \<Rightarrow> photo \<Rightarrow> obj_id list \<Rightarrow> bool" where
  "room_ok g r v obs \<longleftrightarrow>
     room_photo r g = Some v \<and> photo_ok v \<and> chain g (room_contents_iterate r g) obs
     \<and> (\<forall>ob \<in> set obs. \<exists>im. obj_image ob g = Some im \<and> image_ok im)"

lemma fill_horiz_scene:
  assumes "room_ok g r v obs" "0 \<le> y" "y < view_h v"
  shows "fill_horiz_buffer r g x y = Some (map (\<lambda>i. scene g v obs (x + i) y) [0..SCROLL_X_DIM - 1])"
  using assms draw_objects_chain [OF _ _ horiz_object_over, of g _ obs]
  by (auto simp: room_ok_def fill_horiz_buffer_def horiz_photo_scene scene_def)

lemma fill_vert_scene:
  assumes "room_ok g r v obs" "0 \<le> x" "x < view_w v"
  shows "fill_vert_buffer r g x y = Some (map (\<lambda>i. scene g v obs x (y + i)) [0..SCROLL_Y_DIM - 1])"
  using assms draw_objects_chain [OF _ _ vert_object_over, of g _ obs]
  by (auto simp: room_ok_def fill_vert_buffer_def vert_photo_scene scene_def)

text \<open>A photo of two pixels with a fish in front of the right one.\<close>

definition demo_view :: photo where
  "demo_view = \<lparr>photo_hdr = \<lparr>hdr_width = 2, hdr_height = 1\<rparr>, photo_img = [5, 6]\<rparr>"

definition demo_room :: game where
  "demo_room =
     \<lparr>room = \<lambda>_. empty_room\<lparr>view := Some demo_view, contents := Some O_FISH\<rparr>,
      object = \<lambda>_. empty_object\<lparr>pos_x := 1, img := Some \<lparr>img_hdr = \<lparr>hdr_width = 1, hdr_height = 1\<rparr>, img_img = [7]\<rparr>\<rparr>,
      player_flags = [0], swap_photo = \<lambda>_. None, rng = \<lambda>_. 0, status_msg = []\<rparr>"

lemma demo_room_ok: "room_ok demo_room R_STATUE demo_view [O_FISH]"
  by (simp add: room_ok_def demo_room_def demo_view_def photo_ok_def image_ok_def view_w_def view_h_def img_w_def img_h_def
      room_photo_def room_contents_iterate_def obj_image_def empty_room_def empty_object_def)

section \<open>Properties\<close>

text \<open>
  C33: A row and a column of a room are cuts through one scene: wherever they are taken inside the
  photo, \<open>fill_horiz_buffer\<close> and \<open>fill_vert_buffer\<close> stay inside all pictures and give the colours
  of the scene, the parts of objects that reach over the edges of the line included.
\<close>

theorem fill_buffers_scene:
  assumes "room_ok g r v obs"
  shows "(0 \<le> y \<and> y < view_h v \<longrightarrow> fill_horiz_buffer r g x y = Some (map (\<lambda>i. scene g v obs (x + i) y) [0..SCROLL_X_DIM - 1])) \<and>
    (0 \<le> x \<and> x < view_w v \<longrightarrow> fill_vert_buffer r g x y = Some (map (\<lambda>i. scene g v obs x (y + i)) [0..SCROLL_Y_DIM - 1]))"
  using fill_horiz_scene [OF assms] fill_vert_scene [OF assms] by blast

theorem fill_buffers_scene_witness:
  "fill_horiz_buffer R_STATUE demo_room 0 0 = Some (map (\<lambda>i. scene demo_room demo_view [O_FISH] (0 + i) 0) [0..SCROLL_X_DIM - 1]) \<and>
   scene demo_room demo_view [O_FISH] 0 0 = 5 \<and> scene demo_room demo_view [O_FISH] 1 0 = 7"
proof -
  have "scene demo_room demo_view [O_FISH] 0 0 = 5" "scene demo_room demo_view [O_FISH] 1 0 = 7"
    by (simp_all add: scene_def object_over_def image_over_def covers_def photo_at_def demo_room_def demo_view_def view_w_def
        view_h_def img_w_def img_h_def obj_image_def obj_get_x_def obj_get_y_def empty_object_def OBJ_CLR_TRANSP_def)
  then show ?thesis using fill_buffers_scene [OF demo_room_ok, of 0 0] by (simp add: demo_view_def view_h_def)
qed

end
