(* ===== verification/TextGfx.thy ===== *)
theory TextGfx
  imports Prelude
begin

text \<open>
  The text of the status bar (\<open>mp2/text.c\<close>): the VGA font and \<open>text_to_graphics\<close>, which lays out a
  message, or the place and the typed command, in a line of forty characters and draws it into
  the four planes of an 18 pixel high bar. Storing outside a buffer or looking up a character
  code that is negative as a C \<open>char\<close> is \<open>None\<close>.
\<close>

section \<open>Font\<close>

definition font_data_0 :: "u8 list list" where
  "font_data_0 = [
     [0x00, 0x00, 0x00, 0x00, 0x00, 0x00, 0x00, 0x00, 0x00, 0x00, 0x00, 0x00, 0x00, 0x00, 0x00, 0x00],
     [0x00, 0x00, 0x7E, 0x81, 0xA5, 0x81, 0x81, 0xBD, 0x99, 0x81, 0x81, 0x7E, 0x00, 0x00, 0x00, 0x00],
     [0x00, 0x00, 0x7E, 0xFF, 0xDB, 0xFF, 0xFF, 0xC3, 0xE7, 0xFF, 0xFF, 0x7E, 0x00, 0x00, 0x00, 0x00],
     [0x00, 0x00, 0x00, 0x00, 0x6C, 0xFE, 0xFE, 0xFE, 0xFE, 0x7C, 0x38, 0x10, 0x00, 0x00, 0x00, 0x00],
     [0x00, 0x00, 0x00, 0x00, 0x10, 0x38, 0x7C, 0xFE, 0x7C, 0x38, 0x10, 0x00, 0x00, 0x00, 0x00, 0x00],
     [0x00, 0x00, 0x00, 0x18, 0x3C, 0x3C, 0xE7, 0xE7, 0xE7, 0x18, 0x18, 0x3C, 0x00, 0x00, 0x00, 0x00],
     [0x00, 0x00, 0x00, 0x18, 0x3C, 0x7E, 0xFF, 0xFF, 0x7E, 0x18, 0x18, 0x3C, 0x00, 0x00, 0x00, 0x00],
     [0x00, 0x00, 0x00, 0x00, 0x00, 0x00, 0x18, 0x3C, 0x3C, 0x18, 0x00, 0x00, 0x00, 0x00, 0x00, 0x00],
     [0xFF, 0xFF, 0xFF, 0xFF, 0xFF, 0xFF, 0xE7, 0xC3, 0xC3, 0xE7, 0xFF, 0xFF, 0xFF, 0xFF, 0xFF, 0xFF],
     [0x00, 0x00, 0x00, 0x00, 0x00, 0x3C, 0x66, 0x42, 0x42, 0x66, 0x3C, 0x00, 0x00, 0x00, 0x00, 0x00],
     [0xFF, 0xFF, 0xFF, 0xFF, 0xFF, 0xC3, 0x99, 0xBD, 0xBD, 0x99, 0xC3, 0xFF, 0xFF, 0xFF, 0xFF, 0xFF],
     [0x00, 0x00, 0x1E, 0x0E, 0x1A, 0x32, 0x78, 0xCC, 0xCC, 0xCC, 0xCC, 0x78, 0x00, 0x00, 0x00, 0x00],
     [0x00, 0x00, 0x3C, 0x66, 0x66, 0x66, 0x66, 0x3C, 0x18, 0x7E, 0x18, 0x18, 0x00, 0x00, 0x00, 0x00],
     [0x00, 0x00, 0x3F, 0x33, 0x3F, 0x30, 0x30, 0x30, 0x30, 0x70, 0xF0, 0xE0, 0x00, 0x00, 0x00, 0x00],
     [0x00, 0x00, 0x7F, 0x63, 0x7F, 0x63, 0x63, 0x63, 0x63, 0x67, 0xE7, 0xE6, 0xC0, 0x00, 0x00, 0x00],
     [0x00, 0x00, 0x00, 0x18, 0x18, 0xDB, 0x3C, 0xE7, 0x3C, 0xDB, 0x18, 0x18, 0x00, 0x00, 0x00, 0x00],
     [0x00, 0x80, 0xC0, 0xE0, 0xF0, 0xF8, 0xFE, 0xF8, 0xF0, 0xE0, 0xC0, 0x80, 0x00, 0x00, 0x00, 0x00],
     [0x00, 0x02, 0x06, 0x0E, 0x1E, 0x3E, 0xFE, 0x3E, 0x1E, 0x0E, 0x06, 0x02, 0x00, 0x00, 0x00, 0x00],
     [0x00, 0x00, 0x18, 0x3C, 0x7E, 0x18, 0x18, 0x18, 0x7E, 0x3C, 0x18, 0x00, 0x00, 0x00, 0x00, 0x00],
     [0x00, 0x00, 0x66, 0x66, 0x66, 0x66, 0x66, 0x66, 0x66, 0x00, 0x66, 0x66, 0x00, 0x00, 0x00, 0x00],
     [0x00, 0x00, 0x7F, 0xDB, 0xDB, 0xDB, 0x7B, 0x1B, 0x1B, 0x1B, 0x1B, 0x1B, 0x00, 0x00, 0x00, 0x00],
     [0x00, 0x7C, 0xC6, 0x60, 0x38, 0x6C, 0xC6, 0xC6, 0x6C, 0x38, 0x0C, 0xC6, 0x7C, 0x00, 0x00, 0x00],
     [0x00, 0x00, 0x00, 0x00, 0x00, 0x00, 0x00, 0x00, 0xFE, 0xFE, 0xFE, 0xFE, 0x00, 0x00, 0x00, 0x00],
     [0x00, 0x00, 0x18, 0x3C, 0x7E, 0x18, 0x18, 0x18, 0x7E, 0x3C, 0x18, 0x7E, 0x00, 0x00, 0x00, 0x00],
     [0x00, 0x00, 0x18, 0x3C, 0x7E, 0x18, 0x18, 0x18, 0x18, 0x18, 0x18, 0x18, 0x00, 0x00, 0x00, 0x00],
     [0x00, 0x00, 0x18, 0x18, 0x18, 0x18, 0x18, 0x18, 0x18, 0x7E, 0x3C, 0x18, 0x00, 0x00, 0x00, 0x00],
     [0x00, 0x00, 0x00, 0x00, 0x00, 0x18, 0x0C, 0xFE, 0x0C, 0x18, 0x00, 0x00, 0x00, 0x00, 0x00, 0x00],
     [0x00, 0x00, 0x00, 0x00, 0x00, 0x30, 0x60, 0xFE, 0x60, 0x30, 0x00, 0x00, 0x00, 0x00, 0x00, 0x00],
     [0x00, 0x00, 0x00, 0x00, 0x00, 0x00, 0xC0, 0xC0, 0xC0, 0xFE, 0x00, 0x00, 0x00, 0x00, 0x00, 0x00],
     [0x00, 0x00, 0x00, 0x00, 0x00, 0x28, 0x6C, 0xFE, 0x6C, 0x28, 0x00, 0x00, 0x00, 0x00, 0x00, 0x00],
     [0x00, 0x00, 0x00, 0x00, 0x10, 0x38, 0x38, 0x7C, 0x7C, 0xFE, 0xFE, 0x00, 0x00, 0x00, 0x00, 0x00],
     [0x00, 0x00, 0x00, 0x00, 0xFE, 0xFE, 0x7C, 0x7C, 0x38, 0x38, 0x10, 0x00, 0x00, 0x00, 0x00, 0x00],
     [0x00, 0x00, 0x00, 0x00, 0x00, 0x00, 0x00, 0x00, 0x00, 0x00, 0x00, 0x00, 0x00, 0x00, 0x00, 0x00],
     [0x00, 0x00, 0x18, 0x3C, 0x3C, 0x3C, 0x18, 0x18, 0x18, 0x00, 0x18, 0x18, 0x00, 0x00, 0x00, 0x00],
     [0x00, 0x66, 0x66, 0x66, 0x24, 0x00, 0x00, 0x00, 0x00, 0x00, 0x00, 0x00, 0x00, 0x00, 0x00, 0x00],
     [0x00, 0x00, 0x00, 0x6C, 0x6C, 0xFE, 0x6C, 0x6C, 0x6C, 0xFE, 0x6C, 0x6C, 0x00, 0x00, 0x00, 0x00],
     [0x18, 0x18, 0x7C, 0xC6, 0xC2, 0xC0, 0x7C, 0x06, 0x06, 0x86, 0xC6, 0x7C, 0x18, 0x18, 0x00, 0x00],
     [0x00, 0x00, 0x00, 0x00, 0xC2, 0xC6, 0x0C, 0x18, 0x30, 0x60, 0xC6, 0x86, 0x00, 0x00, 0x00, 0x00],
     [0x00, 0x00, 0x38, 0x6C, 0x6C, 0x38, 0x76, 0xDC, 0xCC, 0xCC, 0xCC, 0x76, 0x00, 0x00, 0x00, 0x00],
     [0x00, 0x30, 0x30, 0x30, 0x60, 0x00, 0x00, 0x00, 0x00, 0x00, 0x00, 0x00, 0x00, 0x00, 0x00, 0x00],
     [0x00, 0x00, 0x0C, 0x18, 0x30, 0x30, 0x30, 0x30, 0x30, 0x30, 0x18, 0x0C, 0x00, 0x00, 0x00, 0x00],
     [0x00, 0x00, 0x30, 0x18, 0x0C, 0x0C, 0x0C, 0x0C, 0x0C, 0x0C, 0x18, 0x30, 0x00, 0x00, 0x00, 0x00],
     [0x00, 0x00, 0x00, 0x00, 0x00, 0x66, 0x3C, 0xFF, 0x3C, 0x66, 0x00, 0x00, 0x00, 0x00, 0x00, 0x00],
     [0x00, 0x00, 0x00, 0x00, 0x00, 0x18, 0x18, 0x7E, 0x18, 0x18, 0x00, 0x00, 0x00, 0x00, 0x00, 0x00],
     [0x00, 0x00, 0x00, 0x00, 0x00, 0x00, 0x00, 0x00, 0x00, 0x18, 0x18, 0x18, 0x30, 0x00, 0x00, 0x00],
     [0x00, 0x00, 0x00, 0x00, 0x00, 0x00, 0x00, 0xFE, 0x00, 0x00, 0x00, 0x00, 0x00, 0x00, 0x00, 0x00],
     [0x00, 0x00, 0x00, 0x00, 0x00, 0x00, 0x00, 0x00, 0x00, 0x00, 0x18, 0x18, 0x00, 0x00, 0x00, 0x00],
     [0x00, 0x00, 0x00, 0x00, 0x02, 0x06, 0x0C, 0x18, 0x30, 0x60, 0xC0, 0x80, 0x00, 0x00, 0x00, 0x00],
     [0x00, 0x00, 0x38, 0x6C, 0xC6, 0xC6, 0xC6, 0xC6, 0xC6, 0xC6, 0x6C, 0x38, 0x00, 0x00, 0x00, 0x00],
     [0x00, 0x00, 0x18, 0x38, 0x78, 0x18, 0x18, 0x18, 0x18, 0x18, 0x18, 0x7E, 0x00, 0x00, 0x00, 0x00],
     [0x00, 0x00, 0x7C, 0xC6, 0x06, 0x0C, 0x18, 0x30, 0x60, 0xC0, 0xC6, 0xFE, 0x00, 0x00, 0x00, 0x00],
     [0x00, 0x00, 0x7C, 0xC6, 0x06, 0x06, 0x3C, 0x06, 0x06, 0x06, 0xC6, 0x7C, 0x00, 0x00, 0x00, 0x00],
     [0x00, 0x00, 0x0C, 0x1C, 0x3C, 0x6C, 0xCC, 0xFE, 0x0C, 0x0C, 0x0C, 0x1E, 0x00, 0x00, 0x00, 0x00],
     [0x00, 0x00, 0xFE, 0xC0, 0xC0, 0xC0, 0xFC, 0x06, 0x06, 0x06, 0xC6, 0x7C, 0x00, 0x00, 0x00, 0x00],
     [0x00, 0x00, 0x38, 0x60, 0xC0, 0xC0, 0xFC, 0xC6, 0xC6, 0xC6, 0xC6, 0x7C, 0x00, 0x00, 0x00, 0x00],
     [0x00, 0x00, 0xFE, 0xC6, 0x06, 0x06, 0x0C, 0x18, 0x30, 0x30, 0x30, 0x30, 0x00, 0x00, 0x00, 0x00],
     [0x00, 0x00, 0x7C, 0xC6, 0xC6, 0xC6, 0x7C, 0xC6, 0xC6, 0xC6, 0xC6, 0x7C, 0x00, 0x00, 0x00, 0x00],
     [0x00, 0x00, 0x7C, 0xC6, 0xC6, 0xC6, 0x7E, 0x06, 0x06, 0x06, 0x0C, 0x78, 0x00, 0x00, 0x00, 0x00],
     [0x00, 0x00, 0x00, 0x00, 0x18, 0x18, 0x00, 0x00, 0x00, 0x18, 0x18, 0x00, 0x00, 0x00, 0x00, 0x00],
     [0x00, 0x00, 0x00, 0x00, 0x18, 0x18, 0x00, 0x00, 0x00, 0x18, 0x18, 0x30, 0x00, 0x00, 0x00, 0x00],
     [0x00, 0x00, 0x00, 0x06, 0x0C, 0x18, 0x30, 0x60, 0x30, 0x18, 0x0C, 0x06, 0x00, 0x00, 0x00, 0x00],
     [0x00, 0x00, 0x00, 0x00, 0x00, 0x7E, 0x00, 0x00, 0x7E, 0x00, 0x00, 0x00, 0x00, 0x00, 0x00, 0x00],
     [0x00, 0x00, 0x00, 0x60, 0x30, 0x18, 0x0C, 0x06, 0x0C, 0x18, 0x30, 0x60, 0x00, 0x00, 0x00, 0x00],
     [0x00, 0x00, 0x7C, 0xC6, 0xC6, 0x0C, 0x18, 0x18, 0x18, 0x00, 0x18, 0x18, 0x00, 0x00, 0x00, 0x00]]"

definition font_data_1 :: "u8 list list" where
  "font_data_1 = [
     [0x00, 0x00, 0x00, 0x7C, 0xC6, 0xC6, 0xDE, 0xDE, 0xDE, 0xDC, 0xC0, 0x7C, 0x00, 0x00, 0x00, 0x00],
     [0x00, 0x00, 0x10, 0x38, 0x6C, 0xC6, 0xC6, 0xFE, 0xC6, 0xC6, 0xC6, 0xC6, 0x00, 0x00, 0x00, 0x00],
     [0x00, 0x00, 0xFC, 0x66, 0x66, 0x66, 0x7C, 0x66, 0x66, 0x66, 0x66, 0xFC, 0x00, 0x00, 0x00, 0x00],
     [0x00, 0x00, 0x3C, 0x66, 0xC2, 0xC0, 0xC0, 0xC0, 0xC0, 0xC2, 0x66, 0x3C, 0x00, 0x00, 0x00, 0x00],
     [0x00, 0x00, 0xF8, 0x6C, 0x66, 0x66, 0x66, 0x66, 0x66, 0x66, 0x6C, 0xF8, 0x00, 0x00, 0x00, 0x00],
     [0x00, 0x00, 0xFE, 0x66, 0x62, 0x68, 0x78, 0x68, 0x60, 0x62, 0x66, 0xFE, 0x00, 0x00, 0x00, 0x00],
     [0x00, 0x00, 0xFE, 0x66, 0x62, 0x68, 0x78, 0x68, 0x60, 0x60, 0x60, 0xF0, 0x00, 0x00, 0x00, 0x00],
     [0x00, 0x00, 0x3C, 0x66, 0xC2, 0xC0, 0xC0, 0xDE, 0xC6, 0xC6, 0x66, 0x3A, 0x00, 0x00, 0x00, 0x00],
     [0x00, 0x00, 0xC6, 0xC6, 0xC6, 0xC6, 0xFE, 0xC6, 0xC6, 0xC6, 0xC6, 0xC6, 0x00, 0x00, 0x00, 0x00],
     [0x00, 0x00, 0x3C, 0x18, 0x18, 0x18, 0x18, 0x18, 0x18, 0x18, 0x18, 0x3C, 0x00, 0x00, 0x00, 0x00],
     [0x00, 0x00, 0x1E, 0x0C, 0x0C, 0x0C, 0x0C, 0x0C, 0xCC, 0xCC, 0xCC, 0x78, 0x00, 0x00, 0x00, 0x00],
     [0x00, 0x00, 0xE6, 0x66, 0x66, 0x6C, 0x78, 0x78, 0x6C, 0x66, 0x66, 0xE6, 0x00, 0x00, 0x00, 0x00],
     [0x00, 0x00, 0xF0, 0x60, 0x60, 0x60, 0x60, 0x60, 0x60, 0x62, 0x66, 0xFE, 0x00, 0x00, 0x00, 0x00],
     [0x00, 0x00, 0xC6, 0xEE, 0xFE, 0xFE, 0xD6, 0xC6, 0xC6, 0xC6, 0xC6, 0xC6, 0x00, 0x00, 0x00, 0x00],
     [0x00, 0x00, 0xC6, 0xE6, 0xF6, 0xFE, 0xDE, 0xCE, 0xC6, 0xC6, 0xC6, 0xC6, 0x00, 0x00, 0x00, 0x00],
     [0x00, 0x00, 0x7C, 0xC6, 0xC6, 0xC6, 0xC6, 0xC6, 0xC6, 0xC6, 0xC6, 0x7C, 0x00, 0x00, 0x00, 0x00],
     [0x00, 0x00, 0xFC, 0x66, 0x66, 0x66, 0x7C, 0x60, 0x60, 0x60, 0x60, 0xF0, 0x00, 0x00, 0x00, 0x00],
     [0x00, 0x00, 0x7C, 0xC6, 0xC6, 0xC6, 0xC6, 0xC6, 0xC6, 0xD6, 0xDE, 0x7C, 0x0C, 0x0E, 0x00, 0x00],
     [0x00, 0x00, 0xFC, 0x66, 0x66, 0x66, 0x7C, 0x6C, 0x66, 0x66, 0x66, 0xE6, 0x00, 0x00, 0x00, 0x00],
     [0x00, 0x00, 0x7C, 0xC6, 0xC6, 0x60, 0x38, 0x0C, 0x06, 0xC6, 0xC6, 0x7C, 0x00, 0x00, 0x00, 0x00],
     [0x00, 0x00, 0x7E, 0x7E, 0x5A, 0x18, 0x18, 0x18, 0x18, 0x18, 0x18, 0x3C, 0x00, 0x00, 0x00, 0x00],
     [0x00, 0x00, 0xC6, 0xC6, 0xC6, 0xC6, 0xC6, 0xC6, 0xC6, 0xC6, 0xC6, 0x7C, 0x00, 0x00, 0x00, 0x00],
     [0x00, 0x00, 0xC6, 0xC6, 0xC6, 0xC6, 0xC6, 0xC6, 0xC6, 0x6C, 0x38, 0x10, 0x00, 0x00, 0x00, 0x00],
     [0x00, 0x00, 0xC6, 0xC6, 0xC6, 0xC6, 0xD6, 0xD6, 0xD6, 0xFE, 0xEE, 0x6C, 0x00, 0x00, 0x00, 0x00],
     [0x00, 0x00, 0xC6, 0xC6, 0x6C, 0x7C, 0x38, 0x38, 0x7C, 0x6C, 0xC6, 0xC6, 0x00, 0x00, 0x00, 0x00],
     [0x00, 0x00, 0x66, 0x66, 0x66, 0x66, 0x3C, 0x18, 0x18, 0x18, 0x18, 0x3C, 0x00, 0x00, 0x00, 0x00],
     [0x00, 0x00, 0xFE, 0xC6, 0x86, 0x0C, 0x18, 0x30, 0x60, 0xC2, 0xC6, 0xFE, 0x00, 0x00, 0x00, 0x00],
     [0x00, 0x00, 0x3C, 0x30, 0x30, 0x30, 0x30, 0x30, 0x30, 0x30, 0x30, 0x3C, 0x00, 0x00, 0x00, 0x00],
     [0x00, 0x00, 0x00, 0x80, 0xC0, 0xE0, 0x70, 0x38, 0x1C, 0x0E, 0x06, 0x02, 0x00, 0x00, 0x00, 0x00],
     [0x00, 0x00, 0x3C, 0x0C, 0x0C, 0x0C, 0x0C, 0x0C, 0x0C, 0x0C, 0x0C, 0x3C, 0x00, 0x00, 0x00, 0x00],
     [0x10, 0x38, 0x6C, 0xC6, 0x00, 0x00, 0x00, 0x00, 0x00, 0x00, 0x00, 0x00, 0x00, 0x00, 0x00, 0x00],
     [0x00, 0x00, 0x00, 0x00, 0x00, 0x00, 0x00, 0x00, 0x00, 0x00, 0x00, 0x00, 0x00, 0xFF, 0x00, 0x00],
     [0x30, 0x30, 0x18, 0x00, 0x00, 0x00, 0x00, 0x00, 0x00, 0x00, 0x00, 0x00, 0x00, 0x00, 0x00, 0x00],
     [0x00, 0x00, 0x00, 0x00, 0x00, 0x78, 0x0C, 0x7C, 0xCC, 0xCC, 0xCC, 0x76, 0x00, 0x00, 0x00, 0x00],
     [0x00, 0x00, 0xE0, 0x60, 0x60, 0x78, 0x6C, 0x66, 0x66, 0x66, 0x66, 0x7C, 0x00, 0x00, 0x00, 0x00],
     [0x00, 0x00, 0x00, 0x00, 0x00, 0x7C, 0xC6, 0xC0, 0xC0, 0xC0, 0xC6, 0x7C, 0x00, 0x00, 0x00, 0x00],
     [0x00, 0x00, 0x1C, 0x0C, 0x0C, 0x3C, 0x6C, 0xCC, 0xCC, 0xCC, 0xCC, 0x76, 0x00, 0x00, 0x00, 0x00],
     [0x00, 0x00, 0x00, 0x00, 0x00, 0x7C, 0xC6, 0xFE, 0xC0, 0xC0, 0xC6, 0x7C, 0x00, 0x00, 0x00, 0x00],
     [0x00, 0x00, 0x38, 0x6C, 0x64, 0x60, 0xF0, 0x60, 0x60, 0x60, 0x60, 0xF0, 0x00, 0x00, 0x00, 0x00],
     [0x00, 0x00, 0x00, 0x00, 0x00, 0x76, 0xCC, 0xCC, 0xCC, 0xCC, 0xCC, 0x7C, 0x0C, 0xCC, 0x78, 0x00],
     [0x00, 0x00, 0xE0, 0x60, 0x60, 0x6C, 0x76, 0x66, 0x66, 0x66, 0x66, 0xE6, 0x00, 0x00, 0x00, 0x00],
     [0x00, 0x00, 0x18, 0x18, 0x00, 0x38, 0x18, 0x18, 0x18, 0x18, 0x18, 0x3C, 0x00, 0x00, 0x00, 0x00],
     [0x00, 0x00, 0x06, 0x06, 0x00, 0x0E, 0x06, 0x06, 0x06, 0x06, 0x06, 0x06, 0x66, 0x66, 0x3C, 0x00],
     [0x00, 0x00, 0xE0, 0x60, 0x60, 0x66, 0x6C, 0x78, 0x78, 0x6C, 0x66, 0xE6, 0x00, 0x00, 0x00, 0x00],
     [0x00, 0x00, 0x38, 0x18, 0x18, 0x18, 0x18, 0x18, 0x18, 0x18, 0x18, 0x3C, 0x00, 0x00, 0x00, 0x00],
     [0x00, 0x00, 0x00, 0x00, 0x00, 0xEC, 0xFE, 0xD6, 0xD6, 0xD6, 0xD6, 0xC6, 0x00, 0x00, 0x00, 0x00],
     [0x00, 0x00, 0x00, 0x00, 0x00, 0xDC, 0x66, 0x66, 0x66, 0x66, 0x66, 0x66, 0x00, 0x00, 0x00, 0x00],
     [0x00, 0x00, 0x00, 0x00, 0x00, 0x7C, 0xC6, 0xC6, 0xC6, 0xC6, 0xC6, 0x7C, 0x00, 0x00, 0x00, 0x00],
     [0x00, 0x00, 0x00, 0x00, 0x00, 0xDC, 0x66, 0x66, 0x66, 0x66, 0x66, 0x7C, 0x60, 0x60, 0xF0, 0x00],
     [0x00, 0x00, 0x00, 0x00, 0x00, 0x76, 0xCC, 0xCC, 0xCC, 0xCC, 0xCC, 0x7C, 0x0C, 0x0C, 0x1E, 0x00],
     [0x00, 0x00, 0x00, 0x00, 0x00, 0xDC, 0x76, 0x66, 0x60, 0x60, 0x60, 0xF0, 0x00, 0x00, 0x00, 0x00],
     [0x00, 0x00, 0x00, 0x00, 0x00, 0x7C, 0xC6, 0x60, 0x38, 0x0C, 0xC6, 0x7C, 0x00, 0x00, 0x00, 0x00],
     [0x00, 0x00, 0x10, 0x30, 0x30, 0xFC, 0x30, 0x30, 0x30, 0x30, 0x36, 0x1C, 0x00, 0x00, 0x00, 0x00],
     [0x00, 0x00, 0x00, 0x00, 0x00, 0xCC, 0xCC, 0xCC, 0xCC, 0xCC, 0xCC, 0x76, 0x00, 0x00, 0x00, 0x00],
     [0x00, 0x00, 0x00, 0x00, 0x00, 0x66, 0x66, 0x66, 0x66, 0x66, 0x3C, 0x18, 0x00, 0x00, 0x00, 0x00],
     [0x00, 0x00, 0x00, 0x00, 0x00, 0xC6, 0xC6, 0xD6, 0xD6, 0xD6, 0xFE, 0x6C, 0x00, 0x00, 0x00, 0x00],
     [0x00, 0x00, 0x00, 0x00, 0x00, 0xC6, 0x6C, 0x38, 0x38, 0x38, 0x6C, 0xC6, 0x00, 0x00, 0x00, 0x00],
     [0x00, 0x00, 0x00, 0x00, 0x00, 0xC6, 0xC6, 0xC6, 0xC6, 0xC6, 0xC6, 0x7E, 0x06, 0x0C, 0xF8, 0x00],
     [0x00, 0x00, 0x00, 0x00, 0x00, 0xFE, 0xCC, 0x18, 0x30, 0x60, 0xC6, 0xFE, 0x00, 0x00, 0x00, 0x00],
     [0x00, 0x00, 0x0E, 0x18, 0x18, 0x18, 0x70, 0x18, 0x18, 0x18, 0x18, 0x0E, 0x00, 0x00, 0x00, 0x00],
     [0x00, 0x00, 0x18, 0x18, 0x18, 0x18, 0x00, 0x18, 0x18, 0x18, 0x18, 0x18, 0x00, 0x00, 0x00, 0x00],
     [0x00, 0x00, 0x70, 0x18, 0x18, 0x18, 0x0E, 0x18, 0x18, 0x18, 0x18, 0x70, 0x00, 0x00, 0x00, 0x00],
     [0x00, 0x00, 0x76, 0xDC, 0x00, 0x00, 0x00, 0x00, 0x00, 0x00, 0x00, 0x00, 0x00, 0x00, 0x00, 0x00],
     [0x00, 0x00, 0x00, 0x00, 0x10, 0x38, 0x6C, 0xC6, 0xC6, 0xC6, 0xFE, 0x00, 0x00, 0x00, 0x00, 0x00]]"

definition font_data_2 :: "u8 list list" where
  "font_data_2 = [
     [0x00, 0x00, 0x3C, 0x66, 0xC2, 0xC0, 0xC0, 0xC0, 0xC2, 0x66, 0x3C, 0x0C, 0x06, 0x7C, 0x00, 0x00],
     [0x00, 0x00, 0xCC, 0x00, 0x00, 0xCC, 0xCC, 0xCC, 0xCC, 0xCC, 0xCC, 0x76, 0x00, 0x00, 0x00, 0x00],
     [0x00, 0x0C, 0x18, 0x30, 0x00, 0x7C, 0xC6, 0xFE, 0xC0, 0xC0, 0xC6, 0x7C, 0x00, 0x00, 0x00, 0x00],
     [0x00, 0x10, 0x38, 0x6C, 0x00, 0x78, 0x0C, 0x7C, 0xCC, 0xCC, 0xCC, 0x76, 0x00, 0x00, 0x00, 0x00],
     [0x00, 0x00, 0xCC, 0x00, 0x00, 0x78, 0x0C, 0x7C, 0xCC, 0xCC, 0xCC, 0x76, 0x00, 0x00, 0x00, 0x00],
     [0x00, 0x60, 0x30, 0x18, 0x00, 0x78, 0x0C, 0x7C, 0xCC, 0xCC, 0xCC, 0x76, 0x00, 0x00, 0x00, 0x00],
     [0x00, 0x38, 0x6C, 0x38, 0x00, 0x78, 0x0C, 0x7C, 0xCC, 0xCC, 0xCC, 0x76, 0x00, 0x00, 0x00, 0x00],
     [0x00, 0x00, 0x00, 0x00, 0x3C, 0x66, 0x60, 0x60, 0x66, 0x3C, 0x0C, 0x06, 0x3C, 0x00, 0x00, 0x00],
     [0x00, 0x10, 0x38, 0x6C, 0x00, 0x7C, 0xC6, 0xFE, 0xC0, 0xC0, 0xC6, 0x7C, 0x00, 0x00, 0x00, 0x00],
     [0x00, 0x00, 0xC6, 0x00, 0x00, 0x7C, 0xC6, 0xFE, 0xC0, 0xC0, 0xC6, 0x7C, 0x00, 0x00, 0x00, 0x00],
     [0x00, 0x60, 0x30, 0x18, 0x00, 0x7C, 0xC6, 0xFE, 0xC0, 0xC0, 0xC6, 0x7C, 0x00, 0x00, 0x00, 0x00],
     [0x00, 0x00, 0x66, 0x00, 0x00, 0x38, 0x18, 0x18, 0x18, 0x18, 0x18, 0x3C, 0x00, 0x00, 0x00, 0x00],
     [0x00, 0x18, 0x3C, 0x66, 0x00, 0x38, 0x18, 0x18, 0x18, 0x18, 0x18, 0x3C, 0x00, 0x00, 0x00, 0x00],
     [0x00, 0x60, 0x30, 0x18, 0x00, 0x38, 0x18, 0x18, 0x18, 0x18, 0x18, 0x3C, 0x00, 0x00, 0x00, 0x00],
     [0x00, 0xC6, 0x00, 0x10, 0x38, 0x6C, 0xC6, 0xC6, 0xFE, 0xC6, 0xC6, 0xC6, 0x00, 0x00, 0x00, 0x00],
     [0x38, 0x6C, 0x38, 0x00, 0x38, 0x6C, 0xC6, 0xC6, 0xFE, 0xC6, 0xC6, 0xC6, 0x00, 0x00, 0x00, 0x00],
     [0x18, 0x30, 0x60, 0x00, 0xFE, 0x66, 0x60, 0x7C, 0x60, 0x60, 0x66, 0xFE, 0x00, 0x00, 0x00, 0x00],
     [0x00, 0x00, 0x00, 0x00, 0x00, 0xCC, 0x76, 0x36, 0x7E, 0xD8, 0xD8, 0x6E, 0x00, 0x00, 0x00, 0x00],
     [0x00, 0x00, 0x3E, 0x6C, 0xCC, 0xCC, 0xFE, 0xCC, 0xCC, 0xCC, 0xCC, 0xCE, 0x00, 0x00, 0x00, 0x00],
     [0x00, 0x10, 0x38, 0x6C, 0x00, 0x7C, 0xC6, 0xC6, 0xC6, 0xC6, 0xC6, 0x7C, 0x00, 0x00, 0x00, 0x00],
     [0x00, 0x00, 0xC6, 0x00, 0x00, 0x7C, 0xC6, 0xC6, 0xC6, 0xC6, 0xC6, 0x7C, 0x00, 0x00, 0x00, 0x00],
     [0x00, 0x60, 0x30, 0x18, 0x00, 0x7C, 0xC6, 0xC6, 0xC6, 0xC6, 0xC6, 0x7C, 0x00, 0x00, 0x00, 0x00],
     [0x00, 0x30, 0x78, 0xCC, 0x00, 0xCC, 0xCC, 0xCC, 0xCC, 0xCC, 0xCC, 0x76, 0x00, 0x00, 0x00, 0x00],
     [0x00, 0x60, 0x30, 0x18, 0x00, 0xCC, 0xCC, 0xCC, 0xCC, 0xCC, 0xCC, 0x76, 0x00, 0x00, 0x00, 0x00],
     [0x00, 0x00, 0xC6, 0x00, 0x00, 0xC6, 0xC6, 0xC6, 0xC6, 0xC6, 0xC6, 0x7E, 0x06, 0x0C, 0x78, 0x00],
     [0x00, 0xC6, 0x00, 0x7C, 0xC6, 0xC6, 0xC6, 0xC6, 0xC6, 0xC6, 0xC6, 0x7C, 0x00, 0x00, 0x00, 0x00],
     [0x00, 0xC6, 0x00, 0xC6, 0xC6, 0xC6, 0xC6, 0xC6, 0xC6, 0xC6, 0xC6, 0x7C, 0x00, 0x00, 0x00, 0x00],
     [0x00, 0x18, 0x18, 0x3C, 0x66, 0x60, 0x60, 0x60, 0x66, 0x3C, 0x18, 0x18, 0x00, 0x00, 0x00, 0x00],
     [0x00, 0x38, 0x6C, 0x64, 0x60, 0xF0, 0x60, 0x60, 0x60, 0x60, 0xE6, 0xFC, 0x00, 0x00, 0x00, 0x00],
     [0x00, 0x00, 0x66, 0x66, 0x3C, 0x18, 0x7E, 0x18, 0x7E, 0x18, 0x18, 0x18, 0x00, 0x00, 0x00, 0x00],
     [0x00, 0xF8, 0xCC, 0xCC, 0xF8, 0xC4, 0xCC, 0xDE, 0xCC, 0xCC, 0xCC, 0xC6, 0x00, 0x00, 0x00, 0x00],
     [0x00, 0x0E, 0x1B, 0x18, 0x18, 0x18, 0x7E, 0x18, 0x18, 0x18, 0x18, 0x18, 0xD8, 0x70, 0x00, 0x00],
     [0x00, 0x18, 0x30, 0x60, 0x00, 0x78, 0x0C, 0x7C, 0xCC, 0xCC, 0xCC, 0x76, 0x00, 0x00, 0x00, 0x00],
     [0x00, 0x0C, 0x18, 0x30, 0x00, 0x38, 0x18, 0x18, 0x18, 0x18, 0x18, 0x3C, 0x00, 0x00, 0x00, 0x00],
     [0x00, 0x18, 0x30, 0x60, 0x00, 0x7C, 0xC6, 0xC6, 0xC6, 0xC6, 0xC6, 0x7C, 0x00, 0x00, 0x00, 0x00],
     [0x00, 0x18, 0x30, 0x60, 0x00, 0xCC, 0xCC, 0xCC, 0xCC, 0xCC, 0xCC, 0x76, 0x00, 0x00, 0x00, 0x00],
     [0x00, 0x00, 0x76, 0xDC, 0x00, 0xDC, 0x66, 0x66, 0x66, 0x66, 0x66, 0x66, 0x00, 0x00, 0x00, 0x00],
     [0x76, 0xDC, 0x00, 0xC6, 0xE6, 0xF6, 0xFE, 0xDE, 0xCE, 0xC6, 0xC6, 0xC6, 0x00, 0x00, 0x00, 0x00],
     [0x00, 0x3C, 0x6C, 0x6C, 0x3E, 0x00, 0x7E, 0x00, 0x00, 0x00, 0x00, 0x00, 0x00, 0x00, 0x00, 0x00],
     [0x00, 0x38, 0x6C, 0x6C, 0x38, 0x00, 0x7C, 0x00, 0x00, 0x00, 0x00, 0x00, 0x00, 0x00, 0x00, 0x00],
     [0x00, 0x00, 0x30, 0x30, 0x00, 0x30, 0x30, 0x60, 0xC0, 0xC6, 0xC6, 0x7C, 0x00, 0x00, 0x00, 0x00],
     [0x00, 0x00, 0x00, 0x00, 0x00, 0x00, 0xFE, 0xC0, 0xC0, 0xC0, 0xC0, 0x00, 0x00, 0x00, 0x00, 0x00],
     [0x00, 0x00, 0x00, 0x00, 0x00, 0x00, 0xFE, 0x06, 0x06, 0x06, 0x06, 0x00, 0x00, 0x00, 0x00, 0x00],
     [0x00, 0xC0, 0xC0, 0xC2, 0xC6, 0xCC, 0x18, 0x30, 0x60, 0xDC, 0x86, 0x0C, 0x18, 0x3E, 0x00, 0x00],
     [0x00, 0xC0, 0xC0, 0xC2, 0xC6, 0xCC, 0x18, 0x30, 0x66, 0xCE, 0x9E, 0x3E, 0x06, 0x06, 0x00, 0x00],
     [0x00, 0x00, 0x18, 0x18, 0x00, 0x18, 0x18, 0x18, 0x3C, 0x3C, 0x3C, 0x18, 0x00, 0x00, 0x00, 0x00],
     [0x00, 0x00, 0x00, 0x00, 0x00, 0x36, 0x6C, 0xD8, 0x6C, 0x36, 0x00, 0x00, 0x00, 0x00, 0x00, 0x00],
     [0x00, 0x00, 0x00, 0x00, 0x00, 0xD8, 0x6C, 0x36, 0x6C, 0xD8, 0x00, 0x00, 0x00, 0x00, 0x00, 0x00],
     [0x11, 0x44, 0x11, 0x44, 0x11, 0x44, 0x11, 0x44, 0x11, 0x44, 0x11, 0x44, 0x11, 0x44, 0x11, 0x44],
     [0x55, 0xAA, 0x55, 0xAA, 0x55, 0xAA, 0x55, 0xAA, 0x55, 0xAA, 0x55, 0xAA, 0x55, 0xAA, 0x55, 0xAA],
     [0xDD, 0x77, 0xDD, 0x77, 0xDD, 0x77, 0xDD, 0x77, 0xDD, 0x77, 0xDD, 0x77, 0xDD, 0x77, 0xDD, 0x77],
     [0x18, 0x18, 0x18, 0x18, 0x18, 0x18, 0x18, 0x18, 0x18, 0x18, 0x18, 0x18, 0x18, 0x18, 0x18, 0x18],
     [0x18, 0x18, 0x18, 0x18, 0x18, 0x18, 0x18, 0xF8, 0x18, 0x18, 0x18, 0x18, 0x18, 0x18, 0x18, 0x18],
     [0x18, 0x18, 0x18, 0x18, 0x18, 0xF8, 0x18, 0xF8, 0x18, 0x18, 0x18, 0x18, 0x18, 0x18, 0x18, 0x18],
     [0x36, 0x36, 0x36, 0x36, 0x36, 0x36, 0x36, 0xF6, 0x36, 0x36, 0x36, 0x36, 0x36, 0x36, 0x36, 0x36],
     [0x00, 0x00, 0x00, 0x00, 0x00, 0x00, 0x00, 0xFE, 0x36, 0x36, 0x36, 0x36, 0x36, 0x36, 0x36, 0x36],
     [0x00, 0x00, 0x00, 0x00, 0x00, 0xF8, 0x18, 0xF8, 0x18, 0x18, 0x18, 0x18, 0x18, 0x18, 0x18, 0x18],
     [0x36, 0x36, 0x36, 0x36, 0x36, 0xF6, 0x06, 0xF6, 0x36, 0x36, 0x36, 0x36, 0x36, 0x36, 0x36, 0x36],
     [0x36, 0x36, 0x36, 0x36, 0x36, 0x36, 0x36, 0x36, 0x36, 0x36, 0x36, 0x36, 0x36, 0x36, 0x36, 0x36],
     [0x00, 0x00, 0x00, 0x00, 0x00, 0xFE, 0x06, 0xF6, 0x36, 0x36, 0x36, 0x36, 0x36, 0x36, 0x36, 0x36],
     [0x36, 0x36, 0x36, 0x36, 0x36, 0xF6, 0x06, 0xFE, 0x00, 0x00, 0x00, 0x00, 0x00, 0x00, 0x00, 0x00],
     [0x36, 0x36, 0x36, 0x36, 0x36, 0x36, 0x36, 0xFE, 0x00, 0x00, 0x00, 0x00, 0x00, 0x00, 0x00, 0x00],
     [0x18, 0x18, 0x18, 0x18, 0x18, 0xF8, 0x18, 0xF8, 0x00, 0x00, 0x00, 0x00, 0x00, 0x00, 0x00, 0x00],
     [0x00, 0x00, 0x00, 0x00, 0x00, 0x00, 0x00, 0xF8, 0x18, 0x18, 0x18, 0x18, 0x18, 0x18, 0x18, 0x18]]"

definition font_data_3 :: "u8 list list" where
  "font_data_3 = [
     [0x18, 0x18, 0x18, 0x18, 0x18, 0x18, 0x18, 0x1F, 0x00, 0x00, 0x00, 0x00, 0x00, 0x00, 0x00, 0x00],
     [0x18, 0x18, 0x18, 0x18, 0x18, 0x18, 0x18, 0xFF, 0x00, 0x00, 0x00, 0x00, 0x00, 0x00, 0x00, 0x00],
     [0x00, 0x00, 0x00, 0x00, 0x00, 0x00, 0x00, 0xFF, 0x18, 0x18, 0x18, 0x18, 0x18, 0x18, 0x18, 0x18],
     [0x18, 0x18, 0x18, 0x18, 0x18, 0x18, 0x18, 0x1F, 0x18, 0x18, 0x18, 0x18, 0x18, 0x18, 0x18, 0x18],
     [0x00, 0x00, 0x00, 0x00, 0x00, 0x00, 0x00, 0xFF, 0x00, 0x00, 0x00, 0x00, 0x00, 0x00, 0x00, 0x00],
     [0x18, 0x18, 0x18, 0x18, 0x18, 0x18, 0x18, 0xFF, 0x18, 0x18, 0x18, 0x18, 0x18, 0x18, 0x18, 0x18],
     [0x18, 0x18, 0x18, 0x18, 0x18, 0x1F, 0x18, 0x1F, 0x18, 0x18, 0x18, 0x18, 0x18, 0x18, 0x18, 0x18],
     [0x36, 0x36, 0x36, 0x36, 0x36, 0x36, 0x36, 0x37, 0x36, 0x36, 0x36, 0x36, 0x36, 0x36, 0x36, 0x36],
     [0x36, 0x36, 0x36, 0x36, 0x36, 0x37, 0x30, 0x3F, 0x00, 0x00, 0x00, 0x00, 0x00, 0x00, 0x00, 0x00],
     [0x00, 0x00, 0x00, 0x00, 0x00, 0x3F, 0x30, 0x37, 0x36, 0x36, 0x36, 0x36, 0x36, 0x36, 0x36, 0x36],
     [0x36, 0x36, 0x36, 0x36, 0x36, 0xF7, 0x00, 0xFF, 0x00, 0x00, 0x00, 0x00, 0x00, 0x00, 0x00, 0x00],
     [0x00, 0x00, 0x00, 0x00, 0x00, 0xFF, 0x00, 0xF7, 0x36, 0x36, 0x36, 0x36, 0x36, 0x36, 0x36, 0x36],
     [0x36, 0x36, 0x36, 0x36, 0x36, 0x37, 0x30, 0x37, 0x36, 0x36, 0x36, 0x36, 0x36, 0x36, 0x36, 0x36],
     [0x00, 0x00, 0x00, 0x00, 0x00, 0xFF, 0x00, 0xFF, 0x00, 0x00, 0x00, 0x00, 0x00, 0x00, 0x00, 0x00],
     [0x36, 0x36, 0x36, 0x36, 0x36, 0xF7, 0x00, 0xF7, 0x36, 0x36, 0x36, 0x36, 0x36, 0x36, 0x36, 0x36],
     [0x18, 0x18, 0x18, 0x18, 0x18, 0xFF, 0x00, 0xFF, 0x00, 0x00, 0x00, 0x00, 0x00, 0x00, 0x00, 0x00],
     [0x36, 0x36, 0x36, 0x36, 0x36, 0x36, 0x36, 0xFF, 0x00, 0x00, 0x00, 0x00, 0x00, 0x00, 0x00, 0x00],
     [0x00, 0x00, 0x00, 0x00, 0x00, 0xFF, 0x00, 0xFF, 0x18, 0x18, 0x18, 0x18, 0x18, 0x18, 0x18, 0x18],
     [0x00, 0x00, 0x00, 0x00, 0x00, 0x00, 0x00, 0xFF, 0x36, 0x36, 0x36, 0x36, 0x36, 0x36, 0x36, 0x36],
     [0x36, 0x36, 0x36, 0x36, 0x36, 0x36, 0x36, 0x3F, 0x00, 0x00, 0x00, 0x00, 0x00, 0x00, 0x00, 0x00],
     [0x18, 0x18, 0x18, 0x18, 0x18, 0x1F, 0x18, 0x1F, 0x00, 0x00, 0x00, 0x00, 0x00, 0x00, 0x00, 0x00],
     [0x00, 0x00, 0x00, 0x00, 0x00, 0x1F, 0x18, 0x1F, 0x18, 0x18, 0x18, 0x18, 0x18, 0x18, 0x18, 0x18],
     [0x00, 0x00, 0x00, 0x00, 0x00, 0x00, 0x00, 0x3F, 0x36, 0x36, 0x36, 0x36, 0x36, 0x36, 0x36, 0x36],
     [0x36, 0x36, 0x36, 0x36, 0x36, 0x36, 0x36, 0xFF, 0x36, 0x36, 0x36, 0x36, 0x36, 0x36, 0x36, 0x36],
     [0x18, 0x18, 0x18, 0x18, 0x18, 0xFF, 0x18, 0xFF, 0x18, 0x18, 0x18, 0x18, 0x18, 0x18, 0x18, 0x18],
     [0x18, 0x18, 0x18, 0x18, 0x18, 0x18, 0x18, 0xF8, 0x00, 0x00, 0x00, 0x00, 0x00, 0x00, 0x00, 0x00],
     [0x00, 0x00, 0x00, 0x00, 0x00, 0x00, 0x00, 0x1F, 0x18, 0x18, 0x18, 0x18, 0x18, 0x18, 0x18, 0x18],
     [0xFF, 0xFF, 0xFF, 0xFF, 0xFF, 0xFF, 0xFF, 0xFF, 0xFF, 0xFF, 0xFF, 0xFF, 0xFF, 0xFF, 0xFF, 0xFF],
     [0x00, 0x00, 0x00, 0x00, 0x00, 0x00, 0x00, 0xFF, 0xFF, 0xFF, 0xFF, 0xFF, 0xFF, 0xFF, 0xFF, 0xFF],
     [0xF0, 0xF0, 0xF0, 0xF0, 0xF0, 0xF0, 0xF0, 0xF0, 0xF0, 0xF0, 0xF0, 0xF0, 0xF0, 0xF0, 0xF0, 0xF0],
     [0x0F, 0x0F, 0x0F, 0x0F, 0x0F, 0x0F, 0x0F, 0x0F, 0x0F, 0x0F, 0x0F, 0x0F, 0x0F, 0x0F, 0x0F, 0x0F],
     [0xFF, 0xFF, 0xFF, 0xFF, 0xFF, 0xFF, 0xFF, 0x00, 0x00, 0x00, 0x00, 0x00, 0x00, 0x00, 0x00, 0x00],
     [0x00, 0x00, 0x00, 0x00, 0x00, 0x76, 0xDC, 0xD8, 0xD8, 0xD8, 0xDC, 0x76, 0x00, 0x00, 0x00, 0x00],
     [0x00, 0x00, 0x78, 0xCC, 0xCC, 0xCC, 0xD8, 0xCC, 0xC6, 0xC6, 0xC6, 0xCC, 0x00, 0x00, 0x00, 0x00],
     [0x00, 0x00, 0xFE, 0xC6, 0xC6, 0xC0, 0xC0, 0xC0, 0xC0, 0xC0, 0xC0, 0xC0, 0x00, 0x00, 0x00, 0x00],
     [0x00, 0x00, 0x00, 0x00, 0xFE, 0x6C, 0x6C, 0x6C, 0x6C, 0x6C, 0x6C, 0x6C, 0x00, 0x00, 0x00, 0x00],
     [0x00, 0x00, 0x00, 0xFE, 0xC6, 0x60, 0x30, 0x18, 0x30, 0x60, 0xC6, 0xFE, 0x00, 0x00, 0x00, 0x00],
     [0x00, 0x00, 0x00, 0x00, 0x00, 0x7E, 0xD8, 0xD8, 0xD8, 0xD8, 0xD8, 0x70, 0x00, 0x00, 0x00, 0x00],
     [0x00, 0x00, 0x00, 0x00, 0x66, 0x66, 0x66, 0x66, 0x66, 0x7C, 0x60, 0x60, 0xC0, 0x00, 0x00, 0x00],
     [0x00, 0x00, 0x00, 0x00, 0x76, 0xDC, 0x18, 0x18, 0x18, 0x18, 0x18, 0x18, 0x00, 0x00, 0x00, 0x00],
     [0x00, 0x00, 0x00, 0x7E, 0x18, 0x3C, 0x66, 0x66, 0x66, 0x3C, 0x18, 0x7E, 0x00, 0x00, 0x00, 0x00],
     [0x00, 0x00, 0x00, 0x38, 0x6C, 0xC6, 0xC6, 0xFE, 0xC6, 0xC6, 0x6C, 0x38, 0x00, 0x00, 0x00, 0x00],
     [0x00, 0x00, 0x38, 0x6C, 0xC6, 0xC6, 0xC6, 0x6C, 0x6C, 0x6C, 0x6C, 0xEE, 0x00, 0x00, 0x00, 0x00],
     [0x00, 0x00, 0x1E, 0x30, 0x18, 0x0C, 0x3E, 0x66, 0x66, 0x66, 0x66, 0x3C, 0x00, 0x00, 0x00, 0x00],
     [0x00, 0x00, 0x00, 0x00, 0x00, 0x7E, 0xDB, 0xDB, 0xDB, 0x7E, 0x00, 0x00, 0x00, 0x00, 0x00, 0x00],
     [0x00, 0x00, 0x00, 0x03, 0x06, 0x7E, 0xDB, 0xDB, 0xF3, 0x7E, 0x60, 0xC0, 0x00, 0x00, 0x00, 0x00],
     [0x00, 0x00, 0x1C, 0x30, 0x60, 0x60, 0x7C, 0x60, 0x60, 0x60, 0x30, 0x1C, 0x00, 0x00, 0x00, 0x00],
     [0x00, 0x00, 0x00, 0x7C, 0xC6, 0xC6, 0xC6, 0xC6, 0xC6, 0xC6, 0xC6, 0xC6, 0x00, 0x00, 0x00, 0x00],
     [0x00, 0x00, 0x00, 0x00, 0xFE, 0x00, 0x00, 0xFE, 0x00, 0x00, 0xFE, 0x00, 0x00, 0x00, 0x00, 0x00],
     [0x00, 0x00, 0x00, 0x00, 0x18, 0x18, 0x7E, 0x18, 0x18, 0x00, 0x00, 0xFF, 0x00, 0x00, 0x00, 0x00],
     [0x00, 0x00, 0x00, 0x30, 0x18, 0x0C, 0x06, 0x0C, 0x18, 0x30, 0x00, 0x7E, 0x00, 0x00, 0x00, 0x00],
     [0x00, 0x00, 0x00, 0x0C, 0x18, 0x30, 0x60, 0x30, 0x18, 0x0C, 0x00, 0x7E, 0x00, 0x00, 0x00, 0x00],
     [0x00, 0x00, 0x0E, 0x1B, 0x1B, 0x18, 0x18, 0x18, 0x18, 0x18, 0x18, 0x18, 0x18, 0x18, 0x18, 0x18],
     [0x18, 0x18, 0x18, 0x18, 0x18, 0x18, 0x18, 0x18, 0xD8, 0xD8, 0xD8, 0x70, 0x00, 0x00, 0x00, 0x00],
     [0x00, 0x00, 0x00, 0x00, 0x18, 0x18, 0x00, 0x7E, 0x00, 0x18, 0x18, 0x00, 0x00, 0x00, 0x00, 0x00],
     [0x00, 0x00, 0x00, 0x00, 0x00, 0x76, 0xDC, 0x00, 0x76, 0xDC, 0x00, 0x00, 0x00, 0x00, 0x00, 0x00],
     [0x00, 0x38, 0x6C, 0x6C, 0x38, 0x00, 0x00, 0x00, 0x00, 0x00, 0x00, 0x00, 0x00, 0x00, 0x00, 0x00],
     [0x00, 0x00, 0x00, 0x00, 0x00, 0x00, 0x00, 0x18, 0x18, 0x00, 0x00, 0x00, 0x00, 0x00, 0x00, 0x00],
     [0x00, 0x00, 0x00, 0x00, 0x00, 0x00, 0x00, 0x00, 0x18, 0x00, 0x00, 0x00, 0x00, 0x00, 0x00, 0x00],
     [0x00, 0x0F, 0x0C, 0x0C, 0x0C, 0x0C, 0x0C, 0xEC, 0x6C, 0x6C, 0x3C, 0x1C, 0x00, 0x00, 0x00, 0x00],
     [0x00, 0xD8, 0x6C, 0x6C, 0x6C, 0x6C, 0x6C, 0x00, 0x00, 0x00, 0x00, 0x00, 0x00, 0x00, 0x00, 0x00],
     [0x00, 0x70, 0xD8, 0x30, 0x60, 0xC8, 0xF8, 0x00, 0x00, 0x00, 0x00, 0x00, 0x00, 0x00, 0x00, 0x00],
     [0x00, 0x00, 0x00, 0x00, 0x7C, 0x7C, 0x7C, 0x7C, 0x7C, 0x7C, 0x7C, 0x00, 0x00, 0x00, 0x00, 0x00],
     [0x00, 0x00, 0x00, 0x00, 0x00, 0x00, 0x00, 0x00, 0x00, 0x00, 0x00, 0x00, 0x00, 0x00, 0x00, 0x00]]"

definition font_data :: "u8 list list" where
  "font_data = font_data_0 @ font_data_1 @ font_data_2 @ font_data_3"

section \<open>Code\<close>

definition FONT_WIDTH :: nat where "FONT_WIDTH = 8"
definition FONT_HEIGHT :: nat where "FONT_HEIGHT = 16"
definition MAX_NUMBER_TEXT :: nat where "MAX_NUMBER_TEXT = 40"
definition STATUS_BAR_SIZE :: nat where "STATUS_BAR_SIZE = 1440"
definition NUM_PLANES :: nat where "NUM_PLANES = 4"
definition PLANE_WIDTH :: nat where "PLANE_WIDTH = 80"
definition PADDING :: nat where "PADDING = 80"

text \<open>The colours as stored, a byte of the constant each.\<close>

definition STATUS_BAR_COLOR :: u8 where "STATUS_BAR_COLOR = 0x13294b"
definition STATUS_BAR_FONT_COLOR :: u8 where "STATUS_BAR_FONT_COLOR = 0x284A27"

definition put_char :: "int \<Rightarrow> char \<Rightarrow> string \<Rightarrow> string option" where
  "put_char i c t = (if 0 \<le> i then store t (nat i) c else None)"

text \<open>The loops that store characters at rising and at falling indices.\<close>

fun put_up :: "int \<Rightarrow> string \<Rightarrow> string \<Rightarrow> string option" where
  "put_up i [] t = Some t"
| "put_up i (c # cs) t = (case put_char i c t of None \<Rightarrow> None | Some t \<Rightarrow> put_up (i + 1) cs t)"

fun put_down :: "int \<Rightarrow> string \<Rightarrow> string \<Rightarrow> string option" where
  "put_down i [] t = Some t"
| "put_down i (c # cs) t = (case put_char i c t of None \<Rightarrow> None | Some t \<Rightarrow> put_down (i - 1) cs t)"

text \<open>Division by two as in C, towards zero.\<close>

definition half :: "int \<Rightarrow> int" where "half n = (if 0 \<le> n then n div 2 else - (- n div 2))"

definition temp_text :: "string \<Rightarrow> string \<Rightarrow> string \<Rightarrow> string option" where
  "temp_text message cmd location =
     (let t = replicate MAX_NUMBER_TEXT CHR '' '' @ [CHR 0x00] in
      if length message \<noteq> 0 then put_up (half (int MAX_NUMBER_TEXT - int (length message))) message t
      else case put_up 0 (take (min (length location) 20) location) t of
        None \<Rightarrow> None
      | Some t \<Rightarrow>
          if length cmd < 20
          then (case put_down (int MAX_NUMBER_TEXT - 2) (rev cmd) t of
                  None \<Rightarrow> None
                | Some t \<Rightarrow> put_char (int MAX_NUMBER_TEXT - 1) CHR ''_'' t)
          else put_up (int MAX_NUMBER_TEXT - 21) (take 20 cmd) t)"

definition draw_dot :: "nat \<Rightarrow> nat \<Rightarrow> u8 \<Rightarrow> nat \<Rightarrow> u8 list \<Rightarrow> u8 list option" where
  "draw_dot i y_offset row x_offset buffer =
     (if ucast (drop_bit (Suc x_offset) (0x100 :: u16)) AND row \<noteq> 0
      then let plane_no = x_offset mod 4; plane_idx = x_offset div 4
           in store buffer (y_offset * PLANE_WIDTH + PADDING + i * 2 + STATUS_BAR_SIZE * plane_no + plane_idx) STATUS_BAR_FONT_COLOR
      else Some buffer)"

definition draw_char :: "string \<Rightarrow> nat \<Rightarrow> u8 list \<Rightarrow> u8 list option" where
  "draw_char t i buffer =
     (let c = of_char (t ! i) :: nat in
      if c \<ge> 128 then None
      else for_each (\<lambda>y_offset. for_each (draw_dot i y_offset (font_data ! c ! y_offset)) [0..<FONT_WIDTH]) [0..<FONT_HEIGHT] buffer)"

definition text_to_graphics :: "string \<Rightarrow> string \<Rightarrow> string \<Rightarrow> u8 list option" where
  "text_to_graphics message cmd location =
     (case temp_text message cmd location of
        None \<Rightarrow> None
      | Some t \<Rightarrow> for_each (draw_char t) [0..<MAX_NUMBER_TEXT] (replicate (STATUS_BAR_SIZE * NUM_PLANES) STATUS_BAR_COLOR))"

section \<open>Layout\<close>

lemma put_up_eq:
  assumes "length xs + length cs \<le> length t" "take (length xs) t = xs"
  shows "put_up (int (length xs)) cs t = Some (xs @ cs @ drop (length xs + length cs) t)"
  using assms
proof (induction cs arbitrary: xs t)
  case Nil
  then show ?case by (metis append_Nil append_take_drop_id list.size(3) add_0_right put_up.simps(1))
next
  case (Cons c cs)
  let ?t = "t[length xs := c]"
  have "put_up (int (length (xs @ [c]))) cs ?t = Some ((xs @ [c]) @ cs @ drop (length (xs @ [c]) + length cs) ?t)"
    using Cons.prems by (intro Cons.IH) (auto simp: take_Suc_conv_app_nth)
  then show ?case using Cons.prems by (simp add: put_char_def store_def add.commute)
qed

lemma put_down_eq:
  assumes "length cs \<le> Suc i" "i < length t"
  shows "put_down (int i) cs t = Some (take (Suc i - length cs) t @ rev cs @ drop (Suc i) t)"
  using assms
proof (induction cs arbitrary: i t)
  case (Cons c cs)
  show ?case
  proof (cases i)
    case 0
    then have "cs = []" using Cons.prems by simp
    then show ?thesis using 0 Cons.prems by (cases t) (simp_all add: put_char_def store_def)
  next
    case (Suc j)
    have "put_down (int j) cs (t[i := c]) = Some (take (Suc j - length cs) (t[i := c]) @ rev cs @ drop (Suc j) (t[i := c]))"
      using Cons.prems Suc by (intro Cons.IH) auto
    moreover have "drop i (t[i := c]) = c # drop (Suc i) t" using Cons.prems(2) by (simp add: Cons_nth_drop_Suc [symmetric] drop_update_swap)
    moreover have "nat (1 + int j) = Suc j" by simp
    ultimately show ?thesis using Cons.prems Suc by (simp add: put_char_def store_def)
  qed
qed simp

text \<open>What the line says: the message in the middle, or the place on the left and the command on the right.\<close>

definition spaces :: "nat \<Rightarrow> string" where "spaces n = replicate n CHR '' ''"

definition status_line :: "string \<Rightarrow> string \<Rightarrow> string \<Rightarrow> string" where
  "status_line message cmd location =
     (if message \<noteq> [] then
        let k = (40 - length message) div 2 in spaces k @ message @ spaces (40 - length message - k)
      else let loc = take 20 location in
        if length cmd < 20 then loc @ spaces (39 - length loc - length cmd) @ cmd @ ''_''
        else take 19 (loc @ spaces 20) @ take 20 cmd @ spaces 1)"

lemma length_spaces [simp]: "length (spaces n) = n"
  by (simp add: spaces_def)

lemma take_spaces [simp]: "take k (spaces n) = spaces (min k n)"
  by (simp add: spaces_def)

lemma drop_spaces [simp]: "drop k (spaces n) = spaces (n - k)"
  by (simp add: spaces_def)

lemma length_status_line: "length message \<le> 40 \<Longrightarrow> length (status_line message cmd location) = 40"
  by (auto simp: status_line_def Let_def)

lemma temp_text_line:
  assumes "length message \<le> 40"
  shows "temp_text message cmd location = Some (status_line message cmd location @ [CHR 0x00])"
proof -
  define loc where "loc = take 20 location"
  define t where "t = loc @ spaces (40 - length loc) @ [CHR 0x00]"
  have loc: "length loc \<le> 20" "take (min (length location) 20) location = loc" by (auto simp: loc_def min_def)
  have up: "put_up 0 loc (spaces 40 @ [CHR 0x00]) = Some t"
    using put_up_eq [of "[]" loc "spaces 40 @ [CHR 0x00]"] loc(1) by (simp add: t_def)
  have len: "length t = 41" and d39: "drop 39 t = [CHR '' '', CHR 0x00]" using loc(1) by (simp_all add: t_def spaces_def)
  consider "message \<noteq> []" | "message = []" "length cmd < 20" | "message = []" "20 \<le> length cmd" by force
  then show ?thesis
  proof cases
    case 1
    define k where "k = (40 - length message) div 2"
    have k: "half (40 - int (length message)) = int k" using assms by (simp add: half_def k_def zdiv_int of_nat_diff)
    have "put_up (int (length (spaces k))) message (spaces 40 @ [CHR 0x00]) =
        Some (spaces k @ message @ drop (length (spaces k) + length message) (spaces 40 @ [CHR 0x00]))"
      using assms by (intro put_up_eq) (auto simp: k_def)
    moreover have "k + length message \<le> 40" using assms by (simp add: k_def)
    ultimately show ?thesis using 1 k
      by (simp add: temp_text_def status_line_def Let_def MAX_NUMBER_TEXT_def spaces_def [symmetric] k_def [symmetric] add.commute)
  next
    case 2
    have "put_down (int 38) (rev cmd) t = Some (take (39 - length cmd) t @ cmd @ drop 39 t)"
      using 2 len put_down_eq [of "rev cmd" 38 t] by simp
    moreover have "take (39 - length cmd) t = loc @ spaces (39 - length loc - length cmd)" using 2 loc(1) by (simp add: t_def min_def add.commute)
    ultimately have "put_down 38 (rev cmd) t = Some (loc @ spaces (39 - length loc - length cmd) @ cmd @ [CHR '' '', CHR 0x00])"
      using d39 by simp
    then show ?thesis using 2 up loc
      by (simp add: temp_text_def status_line_def Let_def MAX_NUMBER_TEXT_def spaces_def [symmetric] loc_def [symmetric] put_char_def store_def
          list_update_append nth_append)
  next
    case 3
    have n: "length (take 19 t) = 19" "length (take 20 cmd) = 20" using len 3 by simp_all
    have "put_up (int (length (take 19 t))) (take 20 cmd) t = Some (take 19 t @ take 20 cmd @ drop (length (take 19 t) + length (take 20 cmd)) t)"
      using 3 len by (intro put_up_eq) auto
    then have "put_up 19 (take 20 cmd) t = Some (take 19 t @ take 20 cmd @ [CHR '' '', CHR 0x00])" unfolding n using d39 by simp
    moreover have "min (19 - length loc) (40 - length loc) = 19 - length loc" "min (19 - length loc) 20 = 19 - length loc" by auto
    then have "take 19 t = take 19 (loc @ spaces 20)" using loc(1) by (simp add: t_def)
    ultimately have "put_up 19 (take 20 cmd) t = Some (take 19 (loc @ spaces 20) @ take 20 cmd @ [CHR '' '', CHR 0x00])" by simp
    then show ?thesis using 3 up loc
      by (simp add: temp_text_def status_line_def Let_def MAX_NUMBER_TEXT_def spaces_def [symmetric] loc_def [symmetric]) (simp add: spaces_def)
  qed
qed

section \<open>Drawing\<close>

text \<open>\<open>f\<close> colours the pixels of \<open>S\<close> and no others.\<close>

definition paints :: "(u8 list \<Rightarrow> u8 list option) \<Rightarrow> nat set \<Rightarrow> bool" where
  "paints f S \<longleftrightarrow>
     (\<forall>b. length b = 5760 \<longrightarrow>
        (\<exists>b'. f b = Some b' \<and> length b' = 5760 \<and> (\<forall>k < 5760. b' ! k = (if k \<in> S then STATUS_BAR_FONT_COLOR else b ! k))))"

lemma paintsD:
  "paints f S \<Longrightarrow> length b = 5760 \<Longrightarrow> \<exists>b'. f b = Some b' \<and> length b' = 5760 \<and> (\<forall>k < 5760. b' ! k = (if k \<in> S then STATUS_BAR_FONT_COLOR else b ! k))"
  by (simp add: paints_def)

lemma paints_for_each:
  assumes "\<And>x. x \<in> set xs \<Longrightarrow> paints (f x) (S x)"
  shows "paints (for_each f xs) (\<Union>x \<in> set xs. S x)"
proof (unfold paints_def, intro allI impI)
  fix b :: "u8 list"
  assume "length b = 5760"
  then show "\<exists>b'. for_each f xs b = Some b' \<and> length b' = 5760
      \<and> (\<forall>k < 5760. b' ! k = (if k \<in> (\<Union>x \<in> set xs. S x) then STATUS_BAR_FONT_COLOR else b ! k))"
    using assms
  proof (induction xs arbitrary: b)
    case (Cons x xs)
    obtain b1 where b1: "f x b = Some b1" "length b1 = 5760" "\<And>k. k < 5760 \<Longrightarrow> b1 ! k = (if k \<in> S x then STATUS_BAR_FONT_COLOR else b ! k)"
      using Cons.prems(1) Cons.prems(2) [of x] unfolding paints_def by auto
    obtain b2 where "for_each f xs b1 = Some b2" "length b2 = 5760"
      "\<And>k. k < 5760 \<Longrightarrow> b2 ! k = (if k \<in> (\<Union>x \<in> set xs. S x) then STATUS_BAR_FONT_COLOR else b1 ! k)"
      using Cons.IH [OF b1(2)] Cons.prems(2) by auto
    then show ?case using b1 by auto
  qed simp
qed

text \<open>The pixel of row \<open>y\<close> and column \<open>x\<close> of the bar, and whether the text \<open>t\<close> covers it.\<close>

definition bar_index :: "nat \<Rightarrow> nat \<Rightarrow> nat" where
  "bar_index x y = (x mod 4) * 1440 + y * 80 + x div 4"

definition inked :: "string \<Rightarrow> nat \<Rightarrow> nat \<Rightarrow> bool" where
  "inked t x y \<longleftrightarrow> 1 \<le> y \<and> y \<le> 16 \<and> bit (font_data ! of_char (t ! (x div 8)) ! (y - 1)) (7 - x mod 8)"

lemma digits_unique:
  assumes "a * n + r = a' * n + r'" "r < n" "r' < (n :: nat)"
  shows "a = a'" "r = r'"
proof -
  have "(a * n + r) div n = a" "(a' * n + r') div n = a'" "(a * n + r) mod n = r" "(a' * n + r') mod n = r'" using assms(2,3) by simp_all
  then show "a = a'" "r = r'" using assms(1) by simp_all
qed

lemma bar_index_inj:
  assumes "x < 320" "y < 18" "x' < 320" "y' < 18" "bar_index x y = bar_index x' y'"
  shows "x = x' \<and> y = y'"
proof -
  have r: "x div 4 < 80" "x' div 4 < 80" using assms by auto
  then have "y * 80 + x div 4 < 1440" "y' * 80 + x' div 4 < 1440" using assms(2,4) by auto
  then have m: "x mod 4 = x' mod 4" "y * 80 + x div 4 = y' * 80 + x' div 4"
    using digits_unique [of "x mod 4" 1440 "y * 80 + x div 4" "x' mod 4" "y' * 80 + x' div 4"] assms(5) by (simp_all add: bar_index_def)
  then show ?thesis using digits_unique [OF m(2) r] by (metis div_mult_mod_eq)
qed

lemma mask_bit:
  assumes "x < 8"
  shows "(ucast (drop_bit (Suc x) (0x100 :: u16)) AND (row :: u8) \<noteq> 0) = bit row (7 - x)"
proof -
  have "x \<in> {0, 1, 2, 3, 4, 5, 6, 7}" using assms by auto
  then have "ucast (drop_bit (Suc x) (0x100 :: u16)) = (2 ^ (7 - x) :: u8)" by (auto simp: drop_bit_Suc)
  then show ?thesis by (simp only: and.commute [of _ row] and_exp_eq_0_iff_not_bit not_not)
qed

lemma paints_dot:
  assumes "i < 40" "y < 16" "x < 8"
  shows "paints (draw_dot i y row x) {k. k = bar_index (8 * i + x) (Suc y) \<and> bit row (7 - x)}"
proof -
  have "x div 4 \<le> 1" "x mod 4 \<le> 3" using assms by auto
  then have "y * 80 + 80 + i * 2 + 1440 * (x mod 4) + x div 4 < 5760" using assms by linarith
  moreover have "y * 80 + 80 + i * 2 + 1440 * (x mod 4) + x div 4 = bar_index (8 * i + x) (Suc y)"
    by (simp add: bar_index_def mod_add_eq [symmetric])
  ultimately show ?thesis
    unfolding paints_def draw_dot_def mask_bit [OF assms(3)]
    by (auto simp: store_def Let_def nth_list_update STATUS_BAR_SIZE_def PLANE_WIDTH_def PADDING_def)
qed

lemma paints_char:
  assumes "i < 40" "of_char (t ! i) < (128 :: nat)"
  shows "paints (draw_char t i) {bar_index (8 * i + x) y |x y. x < 8 \<and> inked t (8 * i + x) y}"
proof -
  let ?g = "font_data ! of_char (t ! i)"
  have "paints (\<lambda>b. for_each (\<lambda>y. for_each (draw_dot i y (?g ! y)) [0..<8]) [0..<16] b)
      (\<Union>y \<in> set [0..<16]. \<Union>x \<in> set [0..<8]. {k. k = bar_index (8 * i + x) (Suc y) \<and> bit (?g ! y) (7 - x)})"
    using assms by (intro paints_for_each paints_dot) auto
  also have "(\<Union>y \<in> set [0..<16]. \<Union>x \<in> set [0..<8]. {k. k = bar_index (8 * i + x) (Suc y) \<and> bit (?g ! y) (7 - x)}) =
      {bar_index (8 * i + x) y |x y. x < 8 \<and> inked t (8 * i + x) y}" (is "?A = ?B")
  proof -
    have "inked t (8 * i + x) (Suc y) \<longleftrightarrow> y < 16 \<and> bit (?g ! y) (7 - x)" "\<not> inked t (8 * i + x) 0" if "x < 8" for x y
      using that by (auto simp: inked_def)
    then have *: "(\<exists>y. k = bar_index (8 * i + x) y \<and> inked t (8 * i + x) y) \<longleftrightarrow> (\<exists>y < 16. k = bar_index (8 * i + x) (Suc y) \<and> bit (?g ! y) (7 - x))"
      if "x < 8" for x k
      using that by (metis not0_implies_Suc)
    have A: "k \<in> ?A \<longleftrightarrow> (\<exists>x < 8. \<exists>y < 16. k = bar_index (8 * i + x) (Suc y) \<and> bit (?g ! y) (7 - x))" for k
      by (simp only: UN_iff set_upt atLeastLessThan_iff mem_Collect_eq Bex_def zero_le simp_thms) blast
    have B: "k \<in> ?B \<longleftrightarrow> (\<exists>x < 8. \<exists>y. k = bar_index (8 * i + x) y \<and> inked t (8 * i + x) y)" for k by auto
    have "k \<in> ?A \<longleftrightarrow> k \<in> ?B" for k by (simp only: A B * cong: conj_cong)
    then show ?thesis by blast
  qed
  finally show ?thesis
    using assms by (simp add: paints_def draw_char_def Let_def FONT_HEIGHT_def FONT_WIDTH_def)
qed

text \<open>
  The picture of the line: a pixel has the colour of the font exactly when the glyph of
  the character in its column has that dot, one row below the upper edge; and no store misses the
  buffers, for every message of at most 40 characters and any place and command.
\<close>

lemma text_to_graphics_line:
  assumes "length message \<le> 40" "\<forall>c \<in> set (status_line message cmd location). of_char c < (128 :: nat)"
  shows "\<exists>buf. text_to_graphics message cmd location = Some buf \<and> length buf = 5760 \<and>
    (\<forall>x y. x < 320 \<longrightarrow> y < 18 \<longrightarrow>
       buf ! bar_index x y = (if inked (status_line message cmd location) x y then STATUS_BAR_FONT_COLOR else STATUS_BAR_COLOR))"
proof -
  let ?l = "status_line message cmd location" and ?b = "replicate 5760 STATUS_BAR_COLOR"
  have len: "length ?l = 40" by (rule length_status_line [OF assms(1)])
  have ascii: "of_char ((?l @ [CHR 0x00]) ! i) < (128 :: nat)" if "i < 40" for i
    using that len assms(2) by (simp add: nth_append)
  have same: "inked (?l @ [CHR 0x00]) x y = inked ?l x y" if "x < 320" for x y
  proof -
    have "x div 8 < 40" using that by simp
    then show ?thesis using len by (simp add: inked_def nth_append)
  qed
  have "paints (for_each (draw_char (?l @ [CHR 0x00])) [0..<40])
      (\<Union>i \<in> set [0..<40]. {bar_index (8 * i + x) y |x y. x < 8 \<and> inked (?l @ [CHR 0x00]) (8 * i + x) y})"
    using ascii by (intro paints_for_each paints_char) auto
  also have "(\<Union>i \<in> set [0..<40]. {bar_index (8 * i + x) y |x y. x < 8 \<and> inked (?l @ [CHR 0x00]) (8 * i + x) y}) =
      {bar_index x y |x y. x < 320 \<and> inked ?l x y}" (is "?A = ?B")
  proof -
    have "k \<in> ?A" if "k \<in> ?B" for k
    proof -
      obtain x y where xy: "k = bar_index x y" "x < 320" "inked ?l x y" using \<open>k \<in> ?B\<close> by blast
      then have "k = bar_index (8 * (x div 8) + x mod 8) y" "x div 8 < 40" "x mod 8 < 8" "inked (?l @ [CHR 0x00]) (8 * (x div 8) + x mod 8) y"
        by (simp_all add: same)
      then show ?thesis by fastforce
    qed
    moreover have "k \<in> ?B" if "k \<in> ?A" for k using that same by fastforce
    ultimately show ?thesis by blast
  qed
  finally have "paints (for_each (draw_char (?l @ [CHR 0x00])) [0..<40]) {bar_index x y |x y. x < 320 \<and> inked ?l x y}" .
  from paintsD [OF this length_replicate] obtain buf where buf: "for_each (draw_char (?l @ [CHR 0x00])) [0..<40] ?b = Some buf" "length buf = 5760"
      "\<And>k. k < 5760 \<Longrightarrow> buf ! k = (if k \<in> {bar_index x y |x y. x < 320 \<and> inked ?l x y} then STATUS_BAR_FONT_COLOR else ?b ! k)"
    by blast
  have "buf ! bar_index x y = (if inked ?l x y then STATUS_BAR_FONT_COLOR else STATUS_BAR_COLOR)" if xy: "x < 320" "y < 18" for x y
  proof -
    have "x div 4 < 80" "x mod 4 < 4" using xy by auto
    then have k: "bar_index x y < 5760" using xy by (simp add: bar_index_def)
    have "bar_index x y \<in> {bar_index x y |x y. x < 320 \<and> inked ?l x y} \<longleftrightarrow> inked ?l x y"
    proof
      assume "bar_index x y \<in> {bar_index x y |x y. x < 320 \<and> inked ?l x y}"
      then obtain x' y' where o': "bar_index x y = bar_index x' y'" "x' < 320" "inked ?l x' y'" by blast
      moreover have "y' < 18" using o'(3) by (simp add: inked_def)
      ultimately show "inked ?l x y" using bar_index_inj [OF xy, of x' y'] by simp
    qed (use xy in blast)
    then show ?thesis using buf(3) [OF k] k by simp
  qed
  then show ?thesis using buf(1,2) temp_text_line [OF assms(1)]
    by (simp add: text_to_graphics_def MAX_NUMBER_TEXT_def STATUS_BAR_SIZE_def NUM_PLANES_def)
qed

end
