(* ===== verification/ModeX.thy ===== *)
theory ModeX
  imports TextGfx RoomView
begin

text \<open>
  The mode X driver of \<open>mp2/modex.c\<close>. Pictures are built in a buffer in memory whose four planes
  follow each other (3, 2, 1, 0), in which the window that is shown moves about; a screen is
  copied to one of two places of the video memory, plane by plane, and then made visible.

  The VGA card is modelled as far as the code uses it: indexed registers, the protection of the
  first CRTC registers, the palette, the flip-flop of the attribute port, and writes to the
  video memory under the map mask, in sequential and in odd/even addressing and with the three
  memory windows. Buffer and video memory are maps from offsets; an access outside the build
  buffer with its fences is \<open>None\<close>. The callbacks take the state \<open>'w\<close> of the program that
  draws.
\<close>

section \<open>The VGA card\<close>

record vga_card =
  seq_index :: u8
  seq_regs :: "u8 \<Rightarrow> u8"
  crt_index :: u8
  crt_regs :: "u8 \<Rightarrow> u8"
  gfx_index :: u8
  gfx_regs :: "u8 \<Rightarrow> u8"
  attr_index :: u8
  attr_data :: bool
  attr_regs :: "u8 \<Rightarrow> u8"
  misc_out :: u8
  dac_pos :: nat
  dac :: "nat \<Rightarrow> u8"
  planes :: "nat \<Rightarrow> nat \<Rightarrow> u8"

text \<open>CRTC registers 0 to 7 are write-protected by bit 7 of register 17.\<close>

definition crt_write :: "u8 \<Rightarrow> vga_card \<Rightarrow> vga_card" where
  "crt_write v c =
     (if crt_index c \<le> 7 \<and> bit (crt_regs c 0x11) 7 then c else c\<lparr>crt_regs := (crt_regs c)(crt_index c := v)\<rparr>)"

definition OUTB :: "u16 \<Rightarrow> u8 \<Rightarrow> vga_card \<Rightarrow> vga_card" where
  "OUTB port v c =
     (if port = 0x3C0 then
        (if attr_data c then c\<lparr>attr_regs := (attr_regs c)(attr_index c := v), attr_data := False\<rparr>
         else c\<lparr>attr_index := v, attr_data := True\<rparr>)
      else if port = 0x3C2 then c\<lparr>misc_out := v\<rparr>
      else if port = 0x3C4 then c\<lparr>seq_index := v\<rparr>
      else if port = 0x3C5 then c\<lparr>seq_regs := (seq_regs c)(seq_index c := v)\<rparr>
      else if port = 0x3C8 then c\<lparr>dac_pos := 3 * unat v\<rparr>
      else if port = 0x3C9 then c\<lparr>dac := (dac c)(dac_pos c := v), dac_pos := (dac_pos c + 1) mod 768\<rparr>
      else if port = 0x3CE then c\<lparr>gfx_index := v\<rparr>
      else if port = 0x3CF then c\<lparr>gfx_regs := (gfx_regs c)(gfx_index c := v)\<rparr>
      else if port = 0x3D4 then c\<lparr>crt_index := v\<rparr>
      else if port = 0x3D5 then crt_write v c
      else c)"

definition OUTW :: "u16 \<Rightarrow> u16 \<Rightarrow> vga_card \<Rightarrow> vga_card" where
  "OUTW port v c = OUTB (port + 1) (ucast (drop_bit 8 v)) (OUTB port (ucast v) c)"

definition REP_OUTSW :: "u16 \<Rightarrow> u16 list \<Rightarrow> vga_card \<Rightarrow> vga_card" where
  "REP_OUTSW port src c = fold (OUTW port) src c"

definition REP_OUTSB :: "u16 \<Rightarrow> u8 list \<Rightarrow> vga_card \<Rightarrow> vga_card" where
  "REP_OUTSB port src c = fold (OUTB port) src c"

text \<open>Reading the status port makes the next write to the attribute port an index.\<close>

definition status_in :: "vga_card \<Rightarrow> vga_card" where
  "status_in c = c\<lparr>attr_data := False\<rparr>"

definition SET_WRITE_MASK :: "u16 \<Rightarrow> vga_card \<Rightarrow> vga_card" where
  "SET_WRITE_MASK mask_hi_bits c = OUTW 0x3C4 ((mask_hi_bits AND 0xFF00) OR 2) c"

text \<open>The part of the 128 kB at A0000 that the card answers to.\<close>

definition mem_window :: "vga_card \<Rightarrow> nat \<times> nat" where
  "mem_window c =
     (let m = drop_bit 2 (gfx_regs c 6) AND 3 in
      if m = 0 then (0, 131072) else if m = 1 then (0, 65536) else if m = 2 then (65536, 32768) else (98304, 32768))"

text \<open>
  A byte written by the processor, with write mode 0 and a full bit mask: it goes to the planes of
  the map mask, in odd/even addressing to those of the address's parity.
\<close>

definition poke :: "nat \<Rightarrow> u8 \<Rightarrow> vga_card \<Rightarrow> vga_card" where
  "poke a v c =
     (let (base, size) = mem_window c; off = a - base; seqt = bit (seq_regs c 4) 2;
          hit = (\<lambda>p. bit (seq_regs c 2) p \<and> (seqt \<or> p mod 2 = off mod 2));
          adr = (if seqt then off else off - off mod 2)
      in if base \<le> a \<and> a < base + size
         then c\<lparr>planes := \<lambda>p. if p < 4 \<and> hit p then (planes c p)(adr := v) else planes c p\<rparr> else c)"

section \<open>Registers\<close>

definition mode_X_seq :: "u16 list" where
  "mode_X_seq = [0x0100, 0x2101, 0x0F02, 0x0003, 0x0604]"

definition mode_X_CRTC :: "u16 list" where
  "mode_X_CRTC = [
     0x5F00, 0x4F01, 0x5002, 0x8203, 0x5404, 0x8005, 0xBF06, 0x1F07,
     0x0008, 0x4109, 0x000A, 0x000B, 0x000C, 0x000D, 0x000E, 0x000F,
     0x9C10, 0x8E11, 0x8F12, 0x2813, 0x0014, 0x9615, 0xB916, 0xE317,
     0x6B18]"

definition mode_X_attr :: "u8 list" where
  "mode_X_attr = [
     0x00, 0x00, 0x01, 0x01, 0x02, 0x02, 0x03, 0x03,
     0x04, 0x04, 0x05, 0x05, 0x06, 0x06, 0x07, 0x07,
     0x08, 0x08, 0x09, 0x09, 0x0A, 0x0A, 0x0B, 0x0B,
     0x0C, 0x0C, 0x0D, 0x0D, 0x0E, 0x0E, 0x0F, 0x0F,
     0x10, 0x41, 0x11, 0x00, 0x12, 0x0F, 0x13, 0x00,
     0x14, 0x00, 0x15, 0x00]"

definition mode_X_graphics :: "u16 list" where
  "mode_X_graphics = [0x0000, 0x0001, 0x0002, 0x0003, 0x0004, 0x4005, 0x0506, 0x0F07, 0xFF08]"

definition text_seq :: "u16 list" where
  "text_seq = [0x0100, 0x2001, 0x0302, 0x0003, 0x0204]"

definition text_CRTC :: "u16 list" where
  "text_CRTC = [
     0x5F00, 0x4F01, 0x5002, 0x8203, 0x5504, 0x8105, 0xBF06, 0x1F07,
     0x0008, 0x4F09, 0x0D0A, 0x0E0B, 0x000C, 0x000D, 0x000E, 0x000F,
     0x9C10, 0x8E11, 0x8F12, 0x2813, 0x1F14, 0x9615, 0xB916, 0xA317,
     0xFF18]"

definition text_attr :: "u8 list" where
  "text_attr = [
     0x00, 0x00, 0x01, 0x01, 0x02, 0x02, 0x03, 0x03,
     0x04, 0x04, 0x05, 0x05, 0x06, 0x06, 0x07, 0x07,
     0x08, 0x08, 0x09, 0x09, 0x0A, 0x0A, 0x0B, 0x0B,
     0x0C, 0x0C, 0x0D, 0x0D, 0x0E, 0x0E, 0x0F, 0x0F,
     0x10, 0x0C, 0x11, 0x00, 0x12, 0x0F, 0x13, 0x08,
     0x14, 0x00, 0x15, 0x00]"

definition text_graphics :: "u16 list" where
  "text_graphics = [0x0000, 0x0001, 0x0002, 0x0003, 0x0004, 0x1005, 0x0E06, 0x0007, 0xFF08]"

definition VGA_blank :: "u8 \<Rightarrow> vga_card \<Rightarrow> vga_card" where
  "VGA_blank blank_bit c =
     (let b = push_bit 5 (blank_bit AND 1);
          c = OUTB 0x3C4 0x01 c;
          al = seq_regs c (seq_index c);
          c = OUTB 0x3C5 ((al AND 0xDF) OR b) c
      in OUTB 0x3C0 0x20 (status_in c))"

definition set_seq_regs_and_reset :: "u16 list \<Rightarrow> u8 \<Rightarrow> vga_card \<Rightarrow> vga_card" where
  "set_seq_regs_and_reset tbl val c = OUTW 0x3C4 0x0300 (OUTB 0x3C2 val (REP_OUTSW 0x3C4 tbl c))"

definition set_CRTC_registers :: "u16 list \<Rightarrow> vga_card \<Rightarrow> vga_card" where
  "set_CRTC_registers tbl c = REP_OUTSW 0x3D4 tbl (OUTW 0x3D4 0x0011 c)"

definition set_attr_registers :: "u8 list \<Rightarrow> vga_card \<Rightarrow> vga_card" where
  "set_attr_registers tbl c = REP_OUTSB 0x3C0 tbl (status_in c)"

definition set_graphics_registers :: "u16 list \<Rightarrow> vga_card \<Rightarrow> vga_card" where
  "set_graphics_registers tbl c = REP_OUTSW 0x3CE tbl c"

text \<open>6-bit red, green and blue of the colours.\<close>

definition palette_mode_x :: "u8 list list" where
  "palette_mode_x = [
     [0x00, 0x00, 0x00], [0x00, 0x00, 0x15], [0x00, 0x00, 0x2A], [0x00, 0x00, 0x3F],
     [0x00, 0x15, 0x00], [0x00, 0x15, 0x15], [0x00, 0x15, 0x2A], [0x00, 0x15, 0x3F],
     [0x00, 0x2A, 0x00], [0x00, 0x2A, 0x15], [0x00, 0x2A, 0x2A], [0x00, 0x2A, 0x3F],
     [0x00, 0x3F, 0x00], [0x00, 0x3F, 0x15], [0x00, 0x3F, 0x2A], [0x00, 0x3F, 0x3F],
     [0x15, 0x00, 0x00], [0x15, 0x00, 0x15], [0x15, 0x00, 0x2A], [0x15, 0x00, 0x3F],
     [0x15, 0x15, 0x00], [0x15, 0x15, 0x15], [0x15, 0x15, 0x2A], [0x15, 0x15, 0x3F],
     [0x15, 0x2A, 0x00], [0x15, 0x2A, 0x15], [0x15, 0x2A, 0x2A], [0x15, 0x2A, 0x3F],
     [0x15, 0x3F, 0x00], [0x15, 0x3F, 0x15], [0x15, 0x3F, 0x2A], [0x15, 0x3F, 0x3F],
     [0x2A, 0x00, 0x00], [0x2A, 0x00, 0x15], [0x2A, 0x00, 0x2A], [0x2A, 0x00, 0x3F],
     [0x2A, 0x15, 0x00], [0x2A, 0x15, 0x15], [0x2A, 0x15, 0x2A], [0x2A, 0x15, 0x3F],
     [0x2A, 0x2A, 0x00], [0x2A, 0x2A, 0x15], [0x2A, 0x2A, 0x2A], [0x2A, 0x2A, 0x3F],
     [0x2A, 0x3F, 0x00], [0x2A, 0x3F, 0x15], [0x2A, 0x3F, 0x2A], [0x2A, 0x3F, 0x3F],
     [0x3F, 0x00, 0x00], [0x3F, 0x00, 0x15], [0x3F, 0x00, 0x2A], [0x3F, 0x00, 0x3F],
     [0x3F, 0x15, 0x00], [0x3F, 0x15, 0x15], [0x3F, 0x15, 0x2A], [0x3F, 0x15, 0x3F],
     [0x3F, 0x2A, 0x00], [0x3F, 0x2A, 0x15], [0x3F, 0x2A, 0x2A], [0x3F, 0x2A, 0x3F],
     [0x3F, 0x3F, 0x00], [0x3F, 0x3F, 0x15], [0x3F, 0x3F, 0x2A], [0x3F, 0x3F, 0x3F]]"

definition fill_palette_mode_x :: "vga_card \<Rightarrow> vga_card" where
  "fill_palette_mode_x c = REP_OUTSB 0x3C9 (concat palette_mode_x) (OUTB 0x3C8 0x00 c)"

definition palette_text :: "u8 list list" where
  "palette_text = [
     [0x00, 0x00, 0x00], [0x00, 0x00, 0x2A], [0x00, 0x2A, 0x00], [0x00, 0x2A, 0x2A],
     [0x2A, 0x00, 0x00], [0x2A, 0x00, 0x2A], [0x2A, 0x15, 0x00], [0x2A, 0x2A, 0x2A],
     [0x15, 0x15, 0x15], [0x15, 0x15, 0x3F], [0x15, 0x3F, 0x15], [0x15, 0x3F, 0x3F],
     [0x3F, 0x15, 0x15], [0x3F, 0x15, 0x3F], [0x3F, 0x3F, 0x15], [0x3F, 0x3F, 0x3F],
     [0x00, 0x00, 0x00], [0x05, 0x05, 0x05], [0x08, 0x08, 0x08], [0x0B, 0x0B, 0x0B],
     [0x0E, 0x0E, 0x0E], [0x11, 0x11, 0x11], [0x14, 0x14, 0x14], [0x18, 0x18, 0x18],
     [0x1C, 0x1C, 0x1C], [0x20, 0x20, 0x20], [0x24, 0x24, 0x24], [0x28, 0x28, 0x28],
     [0x2D, 0x2D, 0x2D], [0x32, 0x32, 0x32], [0x38, 0x38, 0x38], [0x3F, 0x3F, 0x3F]]"

definition fill_palette_text :: "vga_card \<Rightarrow> vga_card" where
  "fill_palette_text c = REP_OUTSB 0x3C9 (concat palette_text) (OUTB 0x3C8 0x00 c)"

definition write_font_data :: "vga_card \<Rightarrow> vga_card" where
  "write_font_data c =
     (let c = fold (\<lambda>(port, v). OUTW port v) [(0x3C4, 0x0402), (0x3C4, 0x0704), (0x3CE, 0x0005), (0x3CE, 0x0406), (0x3CE, 0x0204)] c;
          c = fold (\<lambda>i. fold (\<lambda>j. poke (32 * i + j) (font_data ! i ! j)) [0..<16]) [0..<256] c
      in fold (\<lambda>(port, v). OUTW port v) [(0x3C4, 0x0302), (0x3C4, 0x0304), (0x3CE, 0x1005), (0x3CE, 0x0E06), (0x3CE, 0x0004)] c)"

definition clear_text :: "vga_card \<Rightarrow> vga_card" where
  "clear_text c = fold (\<lambda>i. fold (\<lambda>j. poke (0x18000 + 4 * i + j) ([0x20, 0x07, 0x20, 0x07] ! j)) [0..<4]) [0..<8192] c"

definition set_text_mode_3 :: "bool \<Rightarrow> vga_card \<Rightarrow> vga_card" where
  "set_text_mode_3 clear_scr c =
     (let c = VGA_blank 1 c;
          c = set_seq_regs_and_reset text_seq 0x67 c;
          c = set_CRTC_registers text_CRTC c;
          c = set_attr_registers text_attr c;
          c = set_graphics_registers text_graphics c;
          c = fill_palette_text c;
          c = (if clear_scr then clear_text c else c);
          c = write_font_data c
      in VGA_blank 0 c)"

definition clear_screens :: "vga_card \<Rightarrow> vga_card" where
  "clear_screens c = fold (\<lambda>a. poke a 0) [0..<65536] (SET_WRITE_MASK 0x0F00 c)"

section \<open>The build buffer\<close>

definition SCROLL_X_WIDTH :: int where "SCROLL_X_WIDTH = 80"
definition SCROLL_SIZE :: int where "SCROLL_SIZE = SCROLL_X_WIDTH * SCROLL_Y_DIM"
definition SCREEN_SIZE :: int where "SCREEN_SIZE = SCROLL_SIZE * 4 + 1"
definition BUILD_BUF_SIZE :: int where "BUILD_BUF_SIZE = SCREEN_SIZE + 20000"
definition BUILD_BASE_INIT :: int where "BUILD_BASE_INIT = (BUILD_BUF_SIZE - SCREEN_SIZE) div 2"
definition MEM_FENCE_WIDTH :: int where "MEM_FENCE_WIDTH = 256"
definition MEM_FENCE_MAGIC :: u8 where "MEM_FENCE_MAGIC = 0xF3"

record 'w modex =
  build :: "int \<Rightarrow> u8"
  img3_off :: int
  show_x :: int
  show_y :: int
  target_img :: u16
  horiz_line_fn :: "('w \<Rightarrow> int \<Rightarrow> int \<Rightarrow> u8 list option) option"
  vert_line_fn :: "('w \<Rightarrow> int \<Rightarrow> int \<Rightarrow> u8 list option) option"
  vcard :: vga_card

definition img3 :: "'w modex \<Rightarrow> int" where "img3 s = img3_off s + MEM_FENCE_WIDTH"

definition in_build :: "int \<Rightarrow> bool" where "in_build a \<longleftrightarrow> 0 \<le> a \<and> a < BUILD_BUF_SIZE + 2 * MEM_FENCE_WIDTH"

definition load_build :: "int \<Rightarrow> 'w modex \<Rightarrow> u8 option" where
  "load_build a s = (if in_build a then Some (build s a) else None)"

definition store_build :: "int \<Rightarrow> u8 \<Rightarrow> 'w modex \<Rightarrow> 'w modex option" where
  "store_build a v s = (if in_build a then Some (s\<lparr>build := (build s)(a := v)\<rparr>) else None)"

text \<open>\<open>ioperm\<close>, \<open>open\<close> and \<open>mmap\<close> succeed or not.\<close>

definition open_memory_and_ports :: "bool \<Rightarrow> bool \<Rightarrow> bool \<Rightarrow> int" where
  "open_memory_and_ports ioperm_ok open_ok mmap_ok = (if \<not> ioperm_ok then -1 else if \<not> open_ok then -1 else if \<not> mmap_ok then -1 else 0)"

definition set_mode_X ::
  "bool \<Rightarrow> bool \<Rightarrow> bool \<Rightarrow> ('w \<Rightarrow> int \<Rightarrow> int \<Rightarrow> u8 list option) option \<Rightarrow> ('w \<Rightarrow> int \<Rightarrow> int \<Rightarrow> u8 list option) option \<Rightarrow>
   'w modex \<Rightarrow> int \<times> 'w modex" where
  "set_mode_X ioperm_ok open_ok mmap_ok horiz_fill_fn vert_fill_fn s =
     (if horiz_fill_fn = None \<or> vert_fill_fn = None then (-1, s)
      else let s = s\<lparr>horiz_line_fn := horiz_fill_fn, vert_line_fn := vert_fill_fn, show_x := 0, show_y := 0, img3_off := BUILD_BASE_INIT\<rparr>;
               s = s\<lparr>build := fold (\<lambda>i b. b(i := MEM_FENCE_MAGIC, BUILD_BUF_SIZE + MEM_FENCE_WIDTH + i := MEM_FENCE_MAGIC))
                               [0..MEM_FENCE_WIDTH - 1] (build s)\<rparr>;
               s = s\<lparr>target_img := 0x0000\<rparr>
           in if open_memory_and_ports ioperm_ok open_ok mmap_ok = -1 then (-1, s)
              else let c = VGA_blank 1 (vcard s);
                       c = set_seq_regs_and_reset mode_X_seq 0x63 c;
                       c = set_CRTC_registers mode_X_CRTC c;
                       c = set_attr_registers mode_X_attr c;
                       c = set_graphics_registers mode_X_graphics c;
                       c = fill_palette_mode_x c;
                       c = clear_screens c;
                       c = VGA_blank 0 c
                   in (0, s\<lparr>vcard := c\<rparr>))"

text \<open>The messages about broken fences.\<close>

definition clear_mode_X :: "'w modex \<Rightarrow> string list \<times> 'w modex" where
  "clear_mode_X s =
     (let s = s\<lparr>vcard := set_text_mode_3 True (vcard s)\<rparr>
      in ((if list_ex (\<lambda>i. build s i \<noteq> MEM_FENCE_MAGIC) [0..MEM_FENCE_WIDTH - 1] then [''lower build fence was broken''] else [])
          @ (if list_ex (\<lambda>i. build s (BUILD_BUF_SIZE + MEM_FENCE_WIDTH + i) \<noteq> MEM_FENCE_MAGIC) [0..MEM_FENCE_WIDTH - 1]
             then [''upper build fence was broken''] else []), s))"

definition copy_build :: "int \<Rightarrow> int \<Rightarrow> int \<Rightarrow> 'w modex \<Rightarrow> 'w modex option" where
  "copy_build target_addr start_addr i s =
     (case load_build (start_addr + i) s of None \<Rightarrow> None | Some v \<Rightarrow> store_build (target_addr + i) v s)"

definition set_view_window :: "int \<Rightarrow> int \<Rightarrow> 'w modex \<Rightarrow> 'w modex option" where
  "set_view_window scr_x scr_y s =
     (let old_x = show_x s; old_y = show_y s;
          s = s\<lparr>show_x := scr_x, show_y := scr_y\<rparr>
      in if img3_off s + drop_bit 2 scr_x + scr_y * SCROLL_X_WIDTH \<ge> 0 \<and>
            img3_off s + 3 * SCROLL_SIZE + drop_bit 2 (scr_x + SCROLL_X_DIM - 1) + (scr_y + SCROLL_Y_DIM - 1) * SCROLL_X_WIDTH < BUILD_BUF_SIZE
         then Some s
         else if scr_x \<le> old_x - SCROLL_X_DIM \<or> scr_x \<ge> old_x + SCROLL_X_DIM \<or> scr_y \<le> old_y - SCROLL_Y_DIM \<or> scr_y \<ge> old_y + SCROLL_Y_DIM
         then Some (s\<lparr>img3_off := BUILD_BASE_INIT - drop_bit 2 scr_x - scr_y * SCROLL_X_WIDTH\<rparr>)
         else let (start_x, end_x) = (if scr_x > old_x then (scr_x, old_x) else (old_x, scr_x));
                  end_x = end_x + SCROLL_X_DIM - 1;
                  (start_y, end_y) = (if scr_y > old_y then (scr_y, old_y) else (old_y, scr_y));
                  end_y = end_y + SCROLL_Y_DIM - 1;
                  start_off = drop_bit 2 start_x + start_y * SCROLL_X_WIDTH;
                  start_addr = img3 s + start_off;
                  len = drop_bit 2 end_x + end_y * SCROLL_X_WIDTH + 1 - start_off + 3 * SCROLL_SIZE;
                  s = s\<lparr>img3_off := BUILD_BASE_INIT - drop_bit 2 (show_x s) - show_y s * SCROLL_X_WIDTH\<rparr>;
                  target_addr = img3 s + start_off
              in for_each (copy_build target_addr start_addr)
                   (if start_addr < target_addr then rev [0..len - 1] else [0..len - 1]) s)"

text \<open>\<open>rep movsb\<close> from the build buffer, and from another buffer, to the video memory.\<close>

definition copy_image :: "int \<Rightarrow> u16 \<Rightarrow> 'w modex \<Rightarrow> 'w modex option" where
  "copy_image im scr_addr s =
     for_each (\<lambda>k s. map_option (\<lambda>v. s\<lparr>vcard := poke (unat scr_addr + k) v (vcard s)\<rparr>) (load_build (im + int k) s)) [0..<14560] s"

definition show_screen :: "'w modex \<Rightarrow> 'w modex option" where
  "show_screen s =
     (let p_off = 3 - (show_x s AND 3);
          s = s\<lparr>target_img := target_img s XOR 0x4000\<rparr>;
          addr = img3 s + drop_bit 2 (show_x s) + show_y s * SCROLL_X_WIDTH
      in case for_each (\<lambda>i s. copy_image (addr + ((p_off - i + 4) AND 3) * SCROLL_SIZE + (if p_off < i then 1 else 0)) (target_img s)
                                (s\<lparr>vcard := SET_WRITE_MASK (push_bit (nat (i + 8)) 1) (vcard s)\<rparr>)) [0..3] s of
           None \<Rightarrow> None
         | Some s \<Rightarrow>
             Some (s\<lparr>vcard := OUTW 0x3D4 (push_bit 8 (target_img s AND 0x00FF) OR 0x0D)
                                (OUTW 0x3D4 ((target_img s AND 0xFF00) OR 0x0C) (vcard s))\<rparr>))"

definition copy_status_bar :: "u8 list \<Rightarrow> nat \<Rightarrow> u16 \<Rightarrow> vga_card \<Rightarrow> vga_card option" where
  "copy_status_bar buf off scr_addr c =
     for_each (\<lambda>k c. if off + k < length buf then Some (poke (unat scr_addr + k) (buf ! (off + k)) c) else None) [0..<1440] c"

definition show_status_bar :: "u8 list \<Rightarrow> 'w modex \<Rightarrow> 'w modex option" where
  "show_status_bar status_bar_buf s =
     map_option (\<lambda>c. s\<lparr>vcard := c\<rparr>)
       (for_each (\<lambda>i c. copy_status_bar status_bar_buf (STATUS_BAR_SIZE * i) 0x0000 (SET_WRITE_MASK (push_bit (i + 8) 1) c)) [0..<4] (vcard s))"

section \<open>Drawing lines\<close>

definition draw_vert_line :: "'w \<Rightarrow> int \<Rightarrow> 'w modex \<Rightarrow> (int \<times> 'w modex) option" where
  "draw_vert_line w x s =
     (if x < 0 \<or> x \<ge> SCROLL_X_DIM then Some (-1, s)
      else let x = x + show_x s in
        do { f \<leftarrow> vert_line_fn s;
             buf \<leftarrow> f w x (show_y s);
             let addr = img3 s + drop_bit 2 x + show_y s * SCROLL_X_WIDTH;
             let p_off = 3 - (x AND 3);
             s \<leftarrow> for_each (\<lambda>i s. do { v \<leftarrow> at buf i; store_build (addr + i * SCROLL_X_WIDTH + p_off * SCROLL_SIZE) v s }) [0..SCROLL_Y_DIM - 1] s;
             Some (0, s) })"

text \<open>The loop of \<open>draw_horiz_line\<close> counts the plane down and goes to the next address after plane 3.\<close>

fun put_row :: "u8 list \<Rightarrow> int \<Rightarrow> int \<Rightarrow> 'w modex \<Rightarrow> 'w modex option" where
  "put_row [] addr p_off s = Some s"
| "put_row (v # buf) addr p_off s =
     do { s \<leftarrow> store_build (addr + p_off * SCROLL_SIZE) v s;
          if p_off - 1 < 0 then put_row buf (addr + 1) 3 s else put_row buf addr (p_off - 1) s }"

definition draw_horiz_line :: "'w \<Rightarrow> int \<Rightarrow> 'w modex \<Rightarrow> (int \<times> 'w modex) option" where
  "draw_horiz_line w y s =
     (if y < 0 \<or> y \<ge> SCROLL_Y_DIM then Some (-1, s)
      else let y = y + show_y s in
        do { f \<leftarrow> horiz_line_fn s;
             buf \<leftarrow> f w (show_x s) y;
             s \<leftarrow> put_row buf (img3 s + drop_bit 2 (show_x s) + y * SCROLL_X_WIDTH) (3 - (show_x s AND 3)) s;
             Some (0, s) })"

end
