(* ===== verification/Picture.thy ===== *)
theory Picture
  imports ModeX
begin

text \<open>
  The picture in the build buffer of \<open>mp2/modex.c\<close>. \<open>pix s X Y\<close> is the place of pixel \<open>(X, Y)\<close> of
  the drawing in the buffer; for the pixels of the window these places are different and inside
  the buffer (\<open>fits\<close>). Moving the window keeps the pixels that stay visible, drawing a line sets
  its pixels and no other visible one, and showing the screen puts the picture on the display.

  Locale \<open>line_source\<close> is the interface between the driver and the program that draws: rows and
  columns are cuts through one picture.
\<close>

section \<open>Places of pixels\<close>

lemmas screen_consts = SCROLL_X_DIM_def SCROLL_Y_DIM_def SCROLL_X_WIDTH_def SCROLL_SIZE_def SCREEN_SIZE_def BUILD_BUF_SIZE_def
  BUILD_BASE_INIT_def MEM_FENCE_WIDTH_def

lemma int_shift_mask: "drop_bit 2 (x :: int) = x div 4" "(x :: int) AND 3 = x mod 4"
  using take_bit_eq_mask [of 2 x] by (simp_all add: drop_bit_eq_div take_bit_eq_mod mask_eq_exp_minus_1)

definition pix :: "'w modex \<Rightarrow> int \<Rightarrow> int \<Rightarrow> int" where
  "pix s X Y = img3 s + X div 4 + Y * 80 + (3 - X mod 4) * 16000"

definition fits :: "'w modex \<Rightarrow> bool" where
  "fits s \<longleftrightarrow> 0 \<le> img3_off s + show_x s div 4 + show_y s * 80 \<and>
     img3_off s + (show_x s + 319) div 4 + show_y s * 80 + 63920 < 84001"

definition visible :: "'w modex \<Rightarrow> int \<Rightarrow> int \<Rightarrow> bool" where
  "visible s X Y \<longleftrightarrow> show_x s \<le> X \<and> X < show_x s + 320 \<and> show_y s \<le> Y \<and> Y < show_y s + 200"

definition inner :: "int \<Rightarrow> bool" where "inner a \<longleftrightarrow> 256 \<le> a \<and> a < 84257"

lemma inner_in_build: "inner a \<Longrightarrow> in_build a"
  by (simp add: inner_def in_build_def screen_consts)

lemma pix_inner:
  assumes "fits s" "visible s X Y"
  shows "inner (pix s X Y)"
proof -
  have "show_x s div 4 \<le> X div 4" "X div 4 \<le> (show_x s + 319) div 4" using assms(2) by (auto simp: visible_def intro: zdiv_mono1)
  moreover define z where "z = (3 - X mod 4) * 16000"
  moreover have "0 \<le> X mod 4" "X mod 4 < 4" by simp_all
  then have "0 \<le> z" "z \<le> 48000" unfolding z_def by simp_all
  ultimately show ?thesis using assms unfolding fits_def visible_def inner_def pix_def img3_def MEM_FENCE_WIDTH_def z_def [symmetric]
    by (intro conjI; linarith)
qed

lemma pix_inj:
  assumes "visible s X Y" "visible s X' Y'" "pix s X Y = pix s X' Y'"
  shows "X = X'" "Y = Y'"
proof -
  define c q where "c = show_x s div 4" "q = show_x s mod 4"
  define a p a' p' where "a = X div 4" "p = X mod 4" "a' = X' div 4" "p' = X' mod 4"
  note d = c_q_def a_p_a'_p'_def
  have x: "show_x s = 4 * c + q" "X = 4 * a + p" "X' = 4 * a' + p'" by (simp_all add: d)
  have r: "0 \<le> q" "q < 4" "0 \<le> p" "p < 4" "0 \<le> p'" "p' < 4" by (simp_all add: d)
  define u u' where "u = Y - show_y s" "u' = Y' - show_y s"
  have b: "4 * c + q \<le> 4 * a + p" "4 * a + p < 4 * c + q + 320" "4 * c + q \<le> 4 * a' + p'" "4 * a' + p' < 4 * c + q + 320"
    "0 \<le> u" "u < 200" "0 \<le> u'" "u' < 200"
    using assms(1,2) x by (auto simp: visible_def u_u'_def)
  have e: "a - a' + 80 * u - 80 * u' + 16000 * p' - 16000 * p = 0"
    using assms(3) by (simp add: pix_def d u_u'_def algebra_simps)
  have pp: "p = p'"
  proof (cases p p' rule: linorder_cases)
    case less
    then have "1 \<le> p' - p" by simp
    then have "- 79 \<le> a - a'" "- 199 \<le> u - u'" using b by linarith+
    then have "a - a' + 80 * u - 80 * u' + 16000 * p' - 16000 * p > 0" using \<open>1 \<le> p' - p\<close> by linarith
    then show ?thesis using e by simp
  next
    case greater
    then have "1 \<le> p - p'" by simp
    then have "a - a' \<le> 79" "u - u' \<le> 199" using b by linarith+
    then have "a - a' + 80 * u - 80 * u' + 16000 * p' - 16000 * p < 0" using \<open>1 \<le> p - p'\<close> by linarith
    then show ?thesis using e by simp
  qed simp
  then have "a - a' = 80 * u' - 80 * u" "4 * a - 4 * a' < 320" "4 * a' - 4 * a < 320" using b e pp by linarith+
  then have "u = u'" by (cases u u' rule: linorder_cases) linarith+
  then have "a = a' \<and> u = u'" using e pp by simp
  then show "X = X'" "Y = Y'" using x pp by (auto simp: u_u'_def)
qed

section \<open>Moving the window\<close>

text \<open>The copy loop in either direction is a move of the whole block.\<close>

lemma upto_split_at:
  assumes "[0..n - 1] = ys @ x # zs"
  shows "x = int (length ys)" "int (length ys) < n"
proof -
  have "length [0..n - 1] = length ys + Suc (length zs)" unfolding assms by simp
  then show "int (length ys) < n" by simp
  then have "[0..n - 1] ! length ys = int (length ys)" by simp
  then show "x = int (length ys)" unfolding assms by simp
qed

lemma rev_upto_split_at:
  assumes "rev [0..n - 1] = ys @ x # zs"
  shows "x = n - 1 - int (length ys)" "int (length ys) < n"
proof -
  have e: "[0..n - 1] = rev zs @ x # rev ys" using arg_cong [OF assms, of rev] by simp
  have "length [0..n - 1] = length zs + Suc (length ys)" unfolding e by simp
  then have l: "n = int (length zs) + 1 + int (length ys)" by simp
  show "x = n - 1 - int (length ys)" "int (length ys) < n" using upto_split_at(1) [OF e] l by simp_all
qed

definition moved_block :: "int \<Rightarrow> int \<Rightarrow> int \<Rightarrow> int \<Rightarrow> 'w modex \<Rightarrow> 'w modex" where
  "moved_block t a lo hi s = s\<lparr>build := \<lambda>k. if t + lo \<le> k \<and> k < t + hi then build s (a + (k - t)) else build s k\<rparr>"

lemma copy_build_step:
  assumes "in_build (a + i)" "in_build (t + i)" "\<not> (t + lo \<le> a + i \<and> a + i < t + hi)"
  shows "copy_build t a i (moved_block t a lo hi s) = Some (s\<lparr>build := (build (moved_block t a lo hi s))(t + i := build s (a + i))\<rparr>)"
proof -
  have "build (moved_block t a lo hi s) (a + i) = build s (a + i)" using assms(3) by (auto simp: moved_block_def)
  then show ?thesis using assms(1,2) by (simp add: copy_build_def load_build_def store_build_def) (simp add: moved_block_def)
qed

lemma moved_block_eqI: "f = build (moved_block t a lo hi s) \<Longrightarrow> s\<lparr>build := f\<rparr> = moved_block t a lo hi s"
  by (simp add: moved_block_def)

lemma moved_block_empty: "hi \<le> lo \<Longrightarrow> moved_block t a lo hi s = s"
proof -
  assume "hi \<le> lo"
  then have "(\<lambda>k. if t + lo \<le> k \<and> k < t + hi then build s (a + (k - t)) else build s k) = build s" by (intro ext) (simp, linarith)
  then show ?thesis by (simp add: moved_block_def)
qed

lemma copy_up:
  assumes "t \<le> a" "\<And>i. 0 \<le> i \<Longrightarrow> i < n \<Longrightarrow> in_build (a + i) \<and> in_build (t + i)" "0 \<le> n"
  shows "for_each (copy_build t a) [0..n - 1] s = Some (moved_block t a 0 n s)"
proof -
  have "\<exists>s'. for_each (copy_build t a) [0..n - 1] s = Some s' \<and> s' = moved_block t a 0 (int (length [0..n - 1])) s"
  proof (rule for_each_rule [where P = "\<lambda>ys s'. s' = moved_block t a 0 (int (length ys)) s"])
    fix ys x zs s'
    assume xs: "[0..n - 1] = ys @ x # zs" and s': "s' = moved_block t a 0 (int (length ys)) s"
    have x: "x = int (length ys)" "x < n" using upto_split_at [OF xs] by simp_all
    have "copy_build t a x s' = Some (s\<lparr>build := (build (moved_block t a 0 (int (length ys)) s))(t + x := build s (a + x))\<rparr>)"
      unfolding s' using x assms by (intro copy_build_step) auto
    also have "\<dots> = Some (moved_block t a 0 (int (length (ys @ [x]))) s)" using x by (auto simp: moved_block_def fun_eq_iff intro!: moved_block_eqI)
    finally show "\<exists>s''. copy_build t a x s' = Some s'' \<and> s'' = moved_block t a 0 (int (length (ys @ [x]))) s" by blast
  qed (simp add: moved_block_empty)
  then show ?thesis using assms(3) by simp
qed

lemma copy_down:
  assumes "a \<le> t" "\<And>i. 0 \<le> i \<Longrightarrow> i < n \<Longrightarrow> in_build (a + i) \<and> in_build (t + i)" "0 \<le> n"
  shows "for_each (copy_build t a) (rev [0..n - 1]) s = Some (moved_block t a 0 n s)"
proof -
  have "\<exists>s'. for_each (copy_build t a) (rev [0..n - 1]) s = Some s' \<and> s' = moved_block t a (n - int (length (rev [0..n - 1]))) n s"
  proof (rule for_each_rule [where P = "\<lambda>ys s'. s' = moved_block t a (n - int (length ys)) n s"])
    fix ys x zs s'
    assume xs: "rev [0..n - 1] = ys @ x # zs" and s': "s' = moved_block t a (n - int (length ys)) n s"
    have x: "x = n - 1 - int (length ys)" "int (length ys) < n" using rev_upto_split_at [OF xs] by simp_all
    have "copy_build t a x s' = Some (s\<lparr>build := (build (moved_block t a (n - int (length ys)) n s))(t + x := build s (a + x))\<rparr>)"
      unfolding s' using x assms by (intro copy_build_step) auto
    also have "\<dots> = Some (moved_block t a (n - int (length (ys @ [x]))) n s)" using x by (auto simp: moved_block_def fun_eq_iff intro!: moved_block_eqI)
    finally show "\<exists>s''. copy_build t a x s' = Some s'' \<and> s'' = moved_block t a (n - int (length (ys @ [x]))) n s" by blast
  qed (simp add: moved_block_empty)
  then show ?thesis using assms(3) by simp
qed

text \<open>
  Moving the window: nothing but the buffer, its offset and the window changes, the new window
  fits, the fences are kept, and so is the colour of every pixel that stays visible.
\<close>

definition same_view :: "'w modex \<Rightarrow> 'w modex \<Rightarrow> bool" where
  "same_view s s' \<longleftrightarrow>
     target_img s' = target_img s \<and> horiz_line_fn s' = horiz_line_fn s \<and> vert_line_fn s' = vert_line_fn s \<and> vcard s' = vcard s
     \<and> (\<forall>a. \<not> inner a \<longrightarrow> build s' a = build s a)"

lemma same_view_refl: "same_view s s" by (simp add: same_view_def)

lemma same_view_trans: "same_view s s' \<Longrightarrow> same_view s' s'' \<Longrightarrow> same_view s s''" by (simp add: same_view_def)

lemma set_view_window_spec:
  assumes "fits s"
  shows "\<exists>s'. set_view_window x y s = Some s' \<and> fits s' \<and> show_x s' = x \<and> show_y s' = y \<and> same_view s s' \<and>
    (\<forall>X Y. visible s X Y \<longrightarrow> visible s' X Y \<longrightarrow> build s' (pix s' X Y) = build s (pix s X Y))"
proof -
  let ?s = "s\<lparr>show_x := x, show_y := y\<rparr>"
  let ?c = "s\<lparr>show_x := x, show_y := y, img3_off := 10000 - x div 4 - y * 80\<rparr>"
  define far where "far \<longleftrightarrow> x \<le> show_x s - 320 \<or> x \<ge> show_x s + 320 \<or> y \<le> show_y s - 200 \<or> y \<ge> show_y s + 200"
  consider "fits ?s" | "\<not> fits ?s" "far" | "\<not> fits ?s" "\<not> far" by blast
  then show ?thesis
  proof cases
    case 1
    then have "set_view_window x y s = Some ?s" by (simp add: set_view_window_def Let_def screen_consts int_shift_mask fits_def algebra_simps)
    then show ?thesis using 1 by (auto simp: pix_def img3_def same_view_def)
  next
    case 2
    then have "set_view_window x y s = Some ?c"
      by (auto simp: set_view_window_def Let_def screen_consts int_shift_mask fits_def far_def algebra_simps)
    moreover have "fits ?c" by (simp add: fits_def)
    moreover have "\<not> visible ?c X Y" if "visible s X Y" for X Y using that 2(2) by (auto simp: visible_def far_def)
    ultimately show ?thesis by (auto simp: same_view_def)
  next
    case 3
    define sx ex sy ey where "sx = max x (show_x s)" "ex = min x (show_x s) + 319" "sy = max y (show_y s)" "ey = min y (show_y s) + 199"
    note d = sx_ex_sy_ey_def
    define so where "so = sx div 4 + sy * 80"
    define n where "n = ex div 4 + ey * 80 + 1 - so + 48000"
    define a t where "a = img3_off s + 256 + so" "t = 10000 - x div 4 - y * 80 + 256 + so"
    have w: "set_view_window x y s = for_each (copy_build t a) (if a < t then rev [0..n - 1] else [0..n - 1]) ?c"
    proof -
      have A: "\<not> (img3_off ?s + drop_bit 2 x + y * SCROLL_X_WIDTH \<ge> 0 \<and>
          img3_off ?s + 3 * SCROLL_SIZE + drop_bit 2 (x + SCROLL_X_DIM - 1) + (y + SCROLL_Y_DIM - 1) * SCROLL_X_WIDTH < BUILD_BUF_SIZE)"
        using 3(1) by (simp add: screen_consts int_shift_mask fits_def algebra_simps)
      have B: "\<not> (x \<le> show_x s - SCROLL_X_DIM \<or> x \<ge> show_x s + SCROLL_X_DIM \<or> y \<le> show_y s - SCROLL_Y_DIM \<or> y \<ge> show_y s + SCROLL_Y_DIM)"
        using 3(2) by (simp add: screen_consts far_def)
      have C: "(if x > show_x s then (x, show_x s) else (show_x s, x)) = (sx, ex - 319)" "(if y > show_y s then (y, show_y s) else (show_y s, y)) = (sy, ey - 199)"
        by (auto simp: d)
      show ?thesis
        unfolding set_view_window_def Let_def if_not_P [OF A] if_not_P [OF B] C prod.case
        by (simp add: screen_consts int_shift_mask img3_def a_t_def so_def n_def add.commute add.left_commute)
    qed
    have div: "show_x s div 4 \<le> sx div 4" "x div 4 \<le> sx div 4" "ex div 4 \<le> (show_x s + 319) div 4" "ex div 4 \<le> (x + 319) div 4"
      by (auto simp: d intro: zdiv_mono1)
    have y: "show_y s \<le> sy" "y \<le> sy" "ey \<le> show_y s + 199" "ey \<le> y + 199" by (auto simp: d)
    have fc: "(x + 319) div 4 \<le> x div 4 + 80" by simp
    have i: "inner (a + i)" "inner (t + i)" if "0 \<le> i" "i < n" for i
      using that div y fc assms by (auto simp: inner_def a_t_def n_def so_def fits_def)
    have "sx \<le> ex" "sy \<le> ey" using 3(2) by (auto simp: d far_def)
    then have "sx div 4 \<le> ex div 4" "sy * 80 \<le> ey * 80" by (auto intro: zdiv_mono1)
    then have nn: "0 \<le> n" by (simp add: n_def so_def)
    have res: "set_view_window x y s = Some (moved_block t a 0 n ?c)"
      using w i nn copy_up [of t a n ?c] copy_down [of a t n ?c] by (auto simp: inner_in_build)
    have "build (moved_block t a 0 n ?c) (pix (moved_block t a 0 n ?c) X Y) = build s (pix s X Y)"
      if v: "visible s X Y" "visible (moved_block t a 0 n ?c) X Y" for X Y
    proof -
      define k where "k = X div 4 + Y * 80 + (3 - X mod 4) * 16000 - so"
      have "sx div 4 \<le> X div 4" "X div 4 \<le> ex div 4" "sy \<le> Y" "Y \<le> ey"
        using v by (auto simp: visible_def moved_block_def d intro!: zdiv_mono1)
      moreover have "0 \<le> (3 - X mod 4) * 16000" "(3 - X mod 4) * 16000 \<le> 48000" by simp_all
      ultimately have "0 \<le> k" "k < n" by (auto simp: k_def n_def so_def)
      moreover have "pix (moved_block t a 0 n ?c) X Y = t + k" "pix s X Y = a + k"
        by (simp_all add: pix_def img3_def moved_block_def k_def a_t_def MEM_FENCE_WIDTH_def)
      ultimately show ?thesis by (simp add: moved_block_def)
    qed
    moreover have "fits (moved_block t a 0 n ?c)" by (simp add: fits_def moved_block_def)
    moreover have "same_view s (moved_block t a 0 n ?c)" using i(2) [of "_ - t"] by (auto simp: same_view_def moved_block_def)
    ultimately show ?thesis using res by (auto simp: moved_block_def)
  qed
qed

section \<open>Drawing\<close>

text \<open>From \<open>s\<close> to \<open>s'\<close> the visible pixels of \<open>S\<close> got the colours of \<open>c\<close>; the others are as before.\<close>

definition drawn :: "'w modex \<Rightarrow> 'w modex \<Rightarrow> (int \<Rightarrow> int \<Rightarrow> bool) \<Rightarrow> (int \<Rightarrow> int \<Rightarrow> u8) \<Rightarrow> bool" where
  "drawn s s' S c \<longleftrightarrow>
     s' = s\<lparr>build := build s'\<rparr> \<and> same_view s s' \<and>
     (\<forall>X Y. visible s X Y \<longrightarrow> build s' (pix s X Y) = (if S X Y then c X Y else build s (pix s X Y)))"

lemma drawn_same:
  assumes "drawn s s' S c"
  shows "show_x s' = show_x s" "show_y s' = show_y s" "img3_off s' = img3_off s" "img3 s' = img3 s" "horiz_line_fn s' = horiz_line_fn s"
    "vert_line_fn s' = vert_line_fn s" "pix s' = pix s" "visible s' = visible s" "fits s' = fits s" "same_view s s'"
proof -
  obtain b where "s' = s\<lparr>build := b\<rparr>" using assms by (auto simp: drawn_def)
  then show "show_x s' = show_x s" "show_y s' = show_y s" "img3_off s' = img3_off s" "img3 s' = img3 s" "horiz_line_fn s' = horiz_line_fn s"
    "vert_line_fn s' = vert_line_fn s" "pix s' = pix s" "visible s' = visible s" "fits s' = fits s"
    by (simp_all add: fun_eq_iff pix_def visible_def fits_def img3_def)
qed (use assms in \<open>simp add: drawn_def\<close>)

lemma drawn_nothing: "(\<And>X Y. visible s X Y \<Longrightarrow> \<not> S X Y) \<Longrightarrow> drawn s s S c"
  by (simp add: drawn_def same_view_refl)

lemma drawn_trans:
  assumes "drawn s s' S c" "drawn s' s'' T c" "\<And>X Y. visible s X Y \<Longrightarrow> U X Y \<longleftrightarrow> S X Y \<or> T X Y"
  shows "drawn s s'' U c"
proof -
  have "s'' = s\<lparr>build := build s''\<rparr>" using assms(1,2) unfolding drawn_def by (metis modex.update_convs(1) modex.surjective)
  then show ?thesis
    using assms drawn_same [OF assms(1)] same_view_trans [of s s' s''] by (simp add: drawn_def)
qed

lemma drawn_cong: "drawn s s' S c \<Longrightarrow> (\<And>X Y. visible s X Y \<Longrightarrow> T X Y \<longleftrightarrow> S X Y) \<Longrightarrow> drawn s s' T c"
  by (simp add: drawn_def)

lemma store_pixel:
  assumes "fits s" "visible s X Y"
  shows "\<exists>s'. store_build (pix s X Y) (c X Y) s = Some s' \<and> drawn s s' (\<lambda>X' Y'. X' = X \<and> Y' = Y) c"
proof -
  have i: "inner (pix s X Y)" by (rule pix_inner [OF assms])
  have "drawn s (s\<lparr>build := (build s)(pix s X Y := c X Y)\<rparr>) (\<lambda>X' Y'. X' = X \<and> Y' = Y) c"
    using i pix_inj [OF _ assms(2)] by (auto simp: drawn_def same_view_def)
  then show ?thesis using i by (auto simp: store_build_def inner_in_build)
qed

text \<open>A column and a row of pixels.\<close>

lemma put_column:
  assumes "fits s" "visible s X (show_y s)" "n \<le> 200"
  shows "\<exists>s'. for_each (\<lambda>i s'. do { v \<leftarrow> at (map (\<lambda>i. c X (show_y s + i)) [0..n - 1]) i;
                                 store_build (img3 s + X div 4 + show_y s * 80 + i * 80 + (3 - X mod 4) * 16000) v s' }) [0..n - 1] s = Some s' \<and>
    drawn s s' (\<lambda>X' Y'. X' = X \<and> (\<exists>i \<in> set [0..n - 1]. Y' = show_y s + i)) c"
proof (rule for_each_rule [where P = "\<lambda>ys s'. drawn s s' (\<lambda>X' Y'. X' = X \<and> (\<exists>i \<in> set ys. Y' = show_y s + i)) c"])
  show "drawn s s (\<lambda>X' Y'. X' = X \<and> (\<exists>i \<in> set []. Y' = show_y s + i)) c" by (rule drawn_nothing) simp
next
  fix ys x zs s'
  assume xs: "[0..n - 1] = ys @ x # zs" and s': "drawn s s' (\<lambda>X' Y'. X' = X \<and> (\<exists>i \<in> set ys. Y' = show_y s + i)) c"
  have x: "0 \<le> x" "x < n" using upto_split_at [OF xs] by simp_all
  note same = drawn_same [OF s']
  have "visible s X (show_y s + x)" using assms(2,3) x by (simp add: visible_def)
  then obtain s'' where s'': "store_build (pix s X (show_y s + x)) (c X (show_y s + x)) s' = Some s''"
      "drawn s' s'' (\<lambda>X' Y'. X' = X \<and> Y' = show_y s + x) c"
    using store_pixel [of s' X "show_y s + x" c] assms(1) same by auto
  have "pix s X (show_y s + x) = img3 s + X div 4 + show_y s * 80 + x * 80 + (3 - X mod 4) * 16000" by (simp add: pix_def algebra_simps)
  moreover have "at (map (\<lambda>i. c X (show_y s + i)) [0..n - 1]) x = Some (c X (show_y s + x))" using x by (simp add: at_def nth_map)
  moreover have "drawn s s'' (\<lambda>X' Y'. X' = X \<and> (\<exists>i \<in> set (ys @ [x]). Y' = show_y s + i)) c"
    by (rule drawn_trans [OF s' s''(2)]) auto
  ultimately show "\<exists>s''. (do { v \<leftarrow> at (map (\<lambda>i. c X (show_y s + i)) [0..n - 1]) x;
                              store_build (img3 s + X div 4 + show_y s * 80 + x * 80 + (3 - X mod 4) * 16000) v s' }) = Some s'' \<and>
      drawn s s'' (\<lambda>X' Y'. X' = X \<and> (\<exists>i \<in> set (ys @ [x]). Y' = show_y s + i)) c"
    using s''(1) by simp
qed

lemma put_row_spec:
  assumes "fits s" "\<And>i. i < n \<Longrightarrow> visible s (X + int i) Y"
  shows "\<exists>s'. put_row (map (\<lambda>i. c (X + int i) Y) [0..<n]) (img3 s + X div 4 + Y * 80) (3 - X mod 4) s = Some s' \<and>
    drawn s s' (\<lambda>X' Y'. Y' = Y \<and> X \<le> X' \<and> X' < X + int n) c"
  using assms
proof (induction n arbitrary: X s)
  case 0
  then show ?case by (auto intro: drawn_nothing)
next
  case (Suc n)
  obtain s1 where s1: "store_build (pix s X Y) (c X Y) s = Some s1" "drawn s s1 (\<lambda>X' Y'. X' = X \<and> Y' = Y) c"
    using store_pixel [of s X Y c] Suc.prems(1) Suc.prems(2) [of 0] by auto
  note same = drawn_same [OF s1(2)]
  have "\<exists>s'. put_row (map (\<lambda>i. c (X + 1 + int i) Y) [0..<n]) (img3 s1 + (X + 1) div 4 + Y * 80) (3 - (X + 1) mod 4) s1 = Some s' \<and>
      drawn s1 s' (\<lambda>X' Y'. Y' = Y \<and> X + 1 \<le> X' \<and> X' < X + 1 + int n) c"
    using Suc.prems(1) Suc.prems(2) [of "Suc _"] same by (intro Suc.IH) (auto simp: add.assoc)
  then obtain s' where s': "put_row (map (\<lambda>i. c (X + 1 + int i) Y) [0..<n]) (img3 s + (X + 1) div 4 + Y * 80) (3 - (X + 1) mod 4) s1 = Some s'"
      "drawn s1 s' (\<lambda>X' Y'. Y' = Y \<and> X + 1 \<le> X' \<and> X' < X + 1 + int n) c"
    using same by auto
  have "drawn s s' (\<lambda>X' Y'. Y' = Y \<and> X \<le> X' \<and> X' < X + int (Suc n)) c" by (rule drawn_trans [OF s1(2) s'(2)]) auto
  moreover have "map (\<lambda>i. c (X + int i) Y) [0..<Suc n] = c X Y # map (\<lambda>i. c (X + 1 + int i) Y) [0..<n]"
    unfolding upt_conv_Cons [OF zero_less_Suc] map_Suc_upt [symmetric] by (simp add: add.assoc)
  moreover have "store_build (img3 s + X div 4 + Y * 80 + (3 - X mod 4) * SCROLL_SIZE) (c X Y) s = Some s1"
    using s1(1) by (simp add: pix_def screen_consts)
  moreover have "put_row (map (\<lambda>i. c (X + 1 + int i) Y) [0..<n]) (if 3 - X mod 4 - 1 < 0 then img3 s + X div 4 + Y * 80 + 1 else img3 s + X div 4 + Y * 80)
      (if 3 - X mod 4 - 1 < 0 then 3 else 3 - X mod 4 - 1) s1 = Some s'"
  proof (cases "X mod 4 = 3")
    case True
    then have "(X + 1) mod 4 = 0" "(X + 1) div 4 = X div 4 + 1" by presburger+
    then have "put_row (map (\<lambda>i. c (X + 1 + int i) Y) [0..<n]) (img3 s + X div 4 + Y * 80 + 1) 3 s1 = Some s'"
      using s'(1) by (simp add: algebra_simps)
    then show ?thesis using True by simp
  next
    case False
    then have "(X + 1) mod 4 = X mod 4 + 1" "(X + 1) div 4 = X div 4" "X mod 4 < 3" by presburger+
    then show ?thesis using s'(1) by simp
  qed
  ultimately show ?case by (auto split: if_splits)
qed

section \<open>A source of lines\<close>

definition holds :: "'w modex \<Rightarrow> (int \<Rightarrow> int \<Rightarrow> u8) \<Rightarrow> bool" where
  "holds s c \<longleftrightarrow> (\<forall>X Y. visible s X Y \<longrightarrow> build s (pix s X Y) = c X Y)"

locale line_source =
  fixes horiz vert :: "'w \<Rightarrow> int \<Rightarrow> int \<Rightarrow> u8 list option"
    and ok :: "'w \<Rightarrow> bool" and pic :: "'w \<Rightarrow> int \<Rightarrow> int \<Rightarrow> u8" and width height :: "'w \<Rightarrow> int"
  assumes row: "ok w \<Longrightarrow> 0 \<le> y \<Longrightarrow> y < height w \<Longrightarrow> horiz w x y = Some (map (\<lambda>i. pic w (x + i) y) [0..SCROLL_X_DIM - 1])"
    and column: "ok w \<Longrightarrow> 0 \<le> x \<Longrightarrow> x < width w \<Longrightarrow> vert w x y = Some (map (\<lambda>i. pic w x (y + i)) [0..SCROLL_Y_DIM - 1])"
begin

definition ready :: "'w \<Rightarrow> 'w modex \<Rightarrow> bool" where
  "ready w s \<longleftrightarrow> ok w \<and> fits s \<and> horiz_line_fn s = Some horiz \<and> vert_line_fn s = Some vert
     \<and> 0 \<le> show_x s \<and> show_x s + 320 \<le> width w \<and> 0 \<le> show_y s \<and> show_y s + 200 \<le> height w"

lemma drawn_ready: "drawn s s' S c \<Longrightarrow> ready w s' = ready w s"
  using drawn_same [of s s' S c] by (simp add: ready_def)

lemma draw_horiz_line_drawn:
  assumes "ready w s" "0 \<le> y" "y < 200"
  shows "\<exists>s'. draw_horiz_line w y s = Some (0, s') \<and> drawn s s' (\<lambda>X Y. Y = show_y s + y) (pic w)"
proof -
  have r: "ok w" "fits s" "horiz_line_fn s = Some horiz" "0 \<le> y + show_y s" "y + show_y s < height w"
    using assms by (auto simp: ready_def)
  have "map (\<lambda>i. pic w (show_x s + i) (y + show_y s)) [0..SCROLL_X_DIM - 1] = map (\<lambda>i. pic w (show_x s + int i) (y + show_y s)) [0..<320]"
    by (rule nth_equalityI) (simp_all add: SCROLL_X_DIM_def del: upto_rec_numeral)
  moreover obtain s' where s': "put_row (map (\<lambda>i. pic w (show_x s + int i) (y + show_y s)) [0..<320]) (img3 s + show_x s div 4 + (y + show_y s) * 80)
        (3 - show_x s mod 4) s = Some s'" "drawn s s' (\<lambda>X' Y'. Y' = y + show_y s \<and> show_x s \<le> X' \<and> X' < show_x s + int 320) (pic w)"
    using put_row_spec [of s 320 "show_x s" "y + show_y s" "pic w"] r(2) assms(2,3) by (auto simp: visible_def)
  moreover have "drawn s s' (\<lambda>X Y. Y = show_y s + y) (pic w)" by (rule drawn_cong [OF s'(2)]) (auto simp: visible_def)
  ultimately show ?thesis
    using r assms(2,3) row [of w "y + show_y s" "show_x s"]
    by (simp add: draw_horiz_line_def Let_def int_shift_mask SCROLL_X_WIDTH_def) (simp add: SCROLL_Y_DIM_def)
qed

lemma draw_vert_line_drawn:
  assumes "ready w s" "0 \<le> x" "x < 320"
  shows "\<exists>s'. draw_vert_line w x s = Some (0, s') \<and> drawn s s' (\<lambda>X Y. X = show_x s + x) (pic w)"
proof -
  have r: "ok w" "fits s" "vert_line_fn s = Some vert" "0 \<le> x + show_x s" "x + show_x s < width w"
    using assms by (auto simp: ready_def)
  have v: "visible s (x + show_x s) (show_y s)" using assms by (simp add: visible_def)
  obtain s' where s': "for_each (\<lambda>i s'. do { v \<leftarrow> at (map (\<lambda>i. pic w (x + show_x s) (show_y s + i)) [0..SCROLL_Y_DIM - 1]) i;
        store_build (img3 s + (x + show_x s) div 4 + show_y s * 80 + i * 80 + (3 - (x + show_x s) mod 4) * 16000) v s' }) [0..SCROLL_Y_DIM - 1] s = Some s'"
      "drawn s s' (\<lambda>X' Y'. X' = x + show_x s \<and> (\<exists>i \<in> set [0..SCROLL_Y_DIM - 1]. Y' = show_y s + i)) (pic w)"
    using put_column [OF r(2) v, of SCROLL_Y_DIM "pic w"] by (auto simp: SCROLL_Y_DIM_def simp del: upto_rec_numeral)
  have "drawn s s' (\<lambda>X Y. X = show_x s + x) (pic w)"
    by (rule drawn_cong [OF s'(2)]) (auto simp: visible_def SCROLL_Y_DIM_def simp del: upto_rec_numeral intro!: bexI [of _ "_ - show_y s"])
  then show ?thesis
    using r assms(2,3) s'(1) column [of w "x + show_x s" "show_y s"]
    by (simp add: draw_vert_line_def Let_def int_shift_mask SCROLL_X_WIDTH_def SCROLL_SIZE_def) (simp add: SCROLL_X_DIM_def SCROLL_Y_DIM_def)
qed

lemma draw_rows:
  assumes "ready w s" "\<And>i. i \<in> set is \<Longrightarrow> 0 \<le> f i \<and> f i < 200"
  shows "\<exists>s'. for_each (\<lambda>i s. map_option snd (draw_horiz_line w (f i) s)) is s = Some s' \<and>
    drawn s s' (\<lambda>X Y. \<exists>i \<in> set is. Y = show_y s + f i) (pic w)"
proof (rule for_each_rule [where P = "\<lambda>ys s'. drawn s s' (\<lambda>X Y. \<exists>i \<in> set ys. Y = show_y s + f i) (pic w)"])
  fix ys x zs s'
  assume xs: "is = ys @ x # zs" and s': "drawn s s' (\<lambda>X Y. \<exists>i \<in> set ys. Y = show_y s + f i) (pic w)"
  obtain s'' where s'': "draw_horiz_line w (f x) s' = Some (0, s'')" "drawn s' s'' (\<lambda>X Y. Y = show_y s' + f x) (pic w)"
    using draw_horiz_line_drawn [of w s' "f x"] assms drawn_ready [OF s'] xs by auto
  have "drawn s s'' (\<lambda>X Y. \<exists>i \<in> set (ys @ [x]). Y = show_y s + f i) (pic w)"
    by (rule drawn_trans [OF s' s''(2)]) (auto simp: drawn_same [OF s'])
  then show "\<exists>s''. map_option snd (draw_horiz_line w (f x) s') = Some s'' \<and> drawn s s'' (\<lambda>X Y. \<exists>i \<in> set (ys @ [x]). Y = show_y s + f i) (pic w)"
    using s''(1) by simp
qed (simp add: drawn_nothing)

lemma draw_columns:
  assumes "ready w s" "\<And>i. i \<in> set is \<Longrightarrow> 0 \<le> f i \<and> f i < 320"
  shows "\<exists>s'. for_each (\<lambda>i s. map_option snd (draw_vert_line w (f i) s)) is s = Some s' \<and>
    drawn s s' (\<lambda>X Y. \<exists>i \<in> set is. X = show_x s + f i) (pic w)"
proof (rule for_each_rule [where P = "\<lambda>ys s'. drawn s s' (\<lambda>X Y. \<exists>i \<in> set ys. X = show_x s + f i) (pic w)"])
  fix ys x zs s'
  assume xs: "is = ys @ x # zs" and s': "drawn s s' (\<lambda>X Y. \<exists>i \<in> set ys. X = show_x s + f i) (pic w)"
  obtain s'' where s'': "draw_vert_line w (f x) s' = Some (0, s'')" "drawn s' s'' (\<lambda>X Y. X = show_x s' + f x) (pic w)"
    using draw_vert_line_drawn [of w s' "f x"] assms drawn_ready [OF s'] xs by auto
  have "drawn s s'' (\<lambda>X Y. \<exists>i \<in> set (ys @ [x]). X = show_x s + f i) (pic w)"
    by (rule drawn_trans [OF s' s''(2)]) (auto simp: drawn_same [OF s'])
  then show "\<exists>s''. map_option snd (draw_vert_line w (f x) s') = Some s'' \<and> drawn s s'' (\<lambda>X Y. \<exists>i \<in> set (ys @ [x]). X = show_x s + f i) (pic w)"
    using s''(1) by simp
qed (simp add: drawn_nothing)

end

lemma drawn_holds:
  assumes "drawn s s' S c" "\<And>X Y. visible s X Y \<Longrightarrow> S X Y"
  shows "holds s' c"
  using assms unfolding holds_def drawn_same(7,8) [OF assms(1)] by (simp add: drawn_def)

lemma scrolled_holds:
  assumes "holds s c" "\<And>X Y. visible s X Y \<Longrightarrow> visible s1 X Y \<Longrightarrow> build s1 (pix s1 X Y) = build s (pix s X Y)"
    "drawn s1 s2 S c" "\<And>X Y. visible s1 X Y \<Longrightarrow> visible s X Y \<or> S X Y"
  shows "holds s2 c"
  unfolding holds_def
proof (intro allI impI)
  fix X Y
  assume "visible s2 X Y"
  then have v: "visible s1 X Y" using drawn_same [OF assms(3)] by simp
  then have "build s2 (pix s1 X Y) = (if S X Y then c X Y else build s1 (pix s1 X Y))" using assms(3) by (simp add: drawn_def)
  moreover have "build s1 (pix s1 X Y) = c X Y" if "\<not> S X Y" using that assms(1) assms(2,4) [of X Y] v by (auto simp: holds_def)
  ultimately show "build s2 (pix s2 X Y) = c X Y" unfolding drawn_same(7) [OF assms(3)] by simp
qed

section \<open>Showing the screen\<close>

text \<open>The pixel that the card displays in column \<open>x\<close> and row \<open>y\<close>, with the CRTC's start address and row offset.\<close>

definition displayed :: "vga_card \<Rightarrow> nat \<Rightarrow> nat \<Rightarrow> u8" where
  "displayed c x y =
     planes c (x mod 4) (256 * unat (crt_regs c 0x0C) + unat (crt_regs c 0x0D) + y * (2 * unat (crt_regs c 0x13)) + x div 4)"

definition mode_x :: "vga_card \<Rightarrow> bool" where
  "mode_x c \<longleftrightarrow> gfx_regs c 6 = 5 \<and> seq_regs c 4 = 6 \<and> crt_regs c 0x13 = 0x28"

lemma poke_plane:
  assumes "gfx_regs c 6 = 5" "seq_regs c 4 = 6" "seq_regs c 2 = 2 ^ p" "p < 4" "a < 65536"
  shows "poke a v c = c\<lparr>planes := (planes c)(p := (planes c p)(a := v))\<rparr>"
proof -
  have "mem_window c = (0, 65536)" using assms(1) by (simp add: mem_window_def)
  moreover have one: "bit (2 ^ p :: u8) q \<longleftrightarrow> q = p" if "q < 4" for q using assms(4) that by (auto simp: bit_exp_iff)
  moreover have "bit (6 :: u8) 2" by (simp add: bit_numeral_rec)
  ultimately have "poke a v c = c\<lparr>planes := \<lambda>q. if q < 4 \<and> bit (2 ^ p :: u8) q then (planes c q)(a := v) else planes c q\<rparr>"
    using assms(2,3,5) by (simp add: poke_def)
  also have "(\<lambda>q. if q < 4 \<and> bit (2 ^ p :: u8) q then (planes c q)(a := v) else planes c q) = (planes c)(p := (planes c p)(a := v))"
    using one assms(4) by (auto simp: fun_eq_iff)
  finally show ?thesis .
qed

lemma write_mask_plane:
  assumes "i \<in> {0, 1, 2, 3}"
  shows "SET_WRITE_MASK (push_bit (nat (i + 8)) 1) c = c\<lparr>seq_index := 2, seq_regs := (seq_regs c)(2 := 2 ^ nat i)\<rparr>"
proof -
  have n: "(258 :: u8) = 2" "(514 :: u8) = 2" "(1026 :: u8) = 2" "(2050 :: u8) = 2" by simp_all
  then show ?thesis using assms by (auto simp: SET_WRITE_MASK_def OUTW_def OUTB_def) (simp_all only: n)
qed

text \<open>One plane is copied to the video memory.\<close>

definition with_plane :: "nat \<Rightarrow> (nat \<Rightarrow> u8) \<Rightarrow> vga_card \<Rightarrow> vga_card" where
  "with_plane p f c = c\<lparr>planes := (planes c)(p := f)\<rparr>"

lemma copy_image_plane:
  assumes "gfx_regs (vcard s) 6 = 5" "seq_regs (vcard s) 4 = 6" "seq_regs (vcard s) 2 = 2 ^ p" "p < 4" "unat dst \<le> 0x4000"
    "\<And>k. k < 14560 \<Longrightarrow> in_build (im + int k)"
  shows "copy_image im dst s = Some (s\<lparr>vcard := with_plane p
    (\<lambda>a. if unat dst \<le> a \<and> a < unat dst + 14560 then build s (im + int (a - unat dst)) else planes (vcard s) p a) (vcard s)\<rparr>)"
proof -
  define f where "f n a = (if unat dst \<le> a \<and> a < unat dst + n then build s (im + int (a - unat dst)) else planes (vcard s) p a)" for n a
  have "\<exists>s'. copy_image im dst s = Some s' \<and> s' = s\<lparr>vcard := with_plane p (f (length [0..<14560])) (vcard s)\<rparr>"
    unfolding copy_image_def
  proof (rule for_each_rule [where P = "\<lambda>ys s'. s' = s\<lparr>vcard := with_plane p (f (length ys)) (vcard s)\<rparr>"])
    have "f 0 = planes (vcard s) p" by (auto simp: f_def fun_eq_iff)
    then show "s = s\<lparr>vcard := with_plane p (f (length [])) (vcard s)\<rparr>" by (simp add: with_plane_def)
  next
    fix ys x zs s'
    assume xs: "[0..<14560] = ys @ x # zs" and s': "s' = s\<lparr>vcard := with_plane p (f (length ys)) (vcard s)\<rparr>"
    have "length [0..<14560] = length ys + Suc (length zs)" "[0..<14560] ! length ys = x" unfolding xs by simp_all
    then have x: "x = length ys" "x < 14560" by auto
    let ?c = "vcard s'"
    have "poke (unat dst + x) (build s (im + int x)) ?c = ?c\<lparr>planes := (planes ?c)(p := (planes ?c p)(unat dst + x := build s (im + int x)))\<rparr>"
      using assms x by (intro poke_plane) (simp_all add: s' with_plane_def)
    also have "\<dots> = with_plane p (f (length (ys @ [x]))) (vcard s)"
    proof -
      have "(f (length ys))(unat dst + x := build s (im + int x)) = f (length (ys @ [x]))" using x by (auto simp: f_def fun_eq_iff)
      then show ?thesis by (simp add: s' with_plane_def)
    qed
    finally show "\<exists>s''. map_option (\<lambda>v. s'\<lparr>vcard := poke (unat dst + x) v (vcard s')\<rparr>) (load_build (im + int x) s') = Some s''
        \<and> s'' = s\<lparr>vcard := with_plane p (f (length (ys @ [x]))) (vcard s)\<rparr>"
      using assms(6) [OF x(2)] by (simp add: s' load_build_def)
  qed
  moreover have "f (length [0..<14560]) = (\<lambda>a. if unat dst \<le> a \<and> a < unat dst + 14560 then build s (im + int (a - unat dst)) else planes (vcard s) p a)"
    by (simp add: f_def fun_eq_iff)
  ultimately show ?thesis by simp
qed

lemma plane_addr:
  assumes "i \<in> {0, 1, 2, 3}" "0 \<le> m" "m < 80"
  shows "img3 s + show_x s div 4 + show_y s * 80 + ((3 - show_x s mod 4 - i + 4) mod 4) * 16000 + (if 3 - show_x s mod 4 < i then 1 else 0) + (80 * j + m)
    = pix s (show_x s + 4 * m + i) (show_y s + j)"
proof -
  define c q where "c = show_x s div 4" "q = show_x s mod 4"
  have x: "show_x s = 4 * c + q" "q \<in> {0, 1, 2, 3}" by (auto simp: c_q_def)
  have "show_x s + 4 * m + i = (q + i) + 4 * (c + m)" using x by simp
  then have d: "(show_x s + 4 * m + i) div 4 = (q + i) div 4 + c + m" "(show_x s + 4 * m + i) mod 4 = (q + i) mod 4"
    by (simp_all only: div_mult_self2 mod_mult_self2)
  show ?thesis
    unfolding pix_def d c_q_def [symmetric] using assms(1) x(2) by (auto simp: algebra_simps)
qed

text \<open>The source address of plane \<open>i\<close> of the display.\<close>

definition plane_src :: "'w modex \<Rightarrow> int \<Rightarrow> int" where
  "plane_src s i = img3 s + show_x s div 4 + show_y s * 80 + ((3 - show_x s mod 4 - i + 4) mod 4) * 16000 + (if 3 - show_x s mod 4 < i then 1 else 0)"

lemma plane_src_pix:
  assumes "i \<in> {0, 1, 2, 3}" "k < 14560"
  shows "plane_src s i + int k = pix s (show_x s + 4 * (int k mod 80) + i) (show_y s + int k div 80)"
    "visible s (show_x s + 4 * (int k mod 80) + i) (show_y s + int k div 80)"
proof -
  have m: "0 \<le> int k mod 80" "int k mod 80 < 80" by simp_all
  have "int k = 80 * (int k div 80) + int k mod 80" by simp
  then show "plane_src s i + int k = pix s (show_x s + 4 * (int k mod 80) + i) (show_y s + int k div 80)"
    using plane_addr [OF assms(1) m, of s "int k div 80"] unfolding plane_src_def by simp
  have "int k div 80 < 200" "0 \<le> int k div 80" using assms(2) by auto
  then show "visible s (show_x s + 4 * (int k mod 80) + i) (show_y s + int k div 80)"
    using assms(1) m by (auto simp: visible_def)
qed

definition screen_card :: "'w modex \<Rightarrow> nat \<Rightarrow> int set \<Rightarrow> u8 \<Rightarrow> (u8 \<Rightarrow> u8) \<Rightarrow> vga_card" where
  "screen_card s dst I si sr = (vcard s)\<lparr>seq_index := si, seq_regs := sr,
     planes := \<lambda>p a. if int p \<in> I \<and> dst \<le> a \<and> a < dst + 14560 then build s (plane_src s (int p) + int (a - dst)) else planes (vcard s) p a\<rparr>"

lemma show_planes:
  assumes "fits s" "gfx_regs (vcard s) 6 = 5" "seq_regs (vcard s) 4 = 6" "unat (target_img s) \<le> 0x4000"
  shows "\<exists>s'. for_each (\<lambda>i s'. copy_image (img3 s + show_x s div 4 + show_y s * 80 + ((3 - show_x s mod 4 - i + 4) mod 4) * 16000
                                        + (if 3 - show_x s mod 4 < i then 1 else 0)) (target_img s')
      (s'\<lparr>vcard := SET_WRITE_MASK (push_bit (nat (i + 8)) 1) (vcard s')\<rparr>)) [0..3] s = Some s' \<and>
    (\<exists>si sr. sr 4 = 6 \<and> s' = s\<lparr>vcard := screen_card s (unat (target_img s)) (set [0..3]) si sr\<rparr>)"
proof (rule for_each_rule [where P = "\<lambda>ys s'. \<exists>si sr. sr 4 = 6 \<and> s' = s\<lparr>vcard := screen_card s (unat (target_img s)) (set ys) si sr\<rparr>"])
  have "s = s\<lparr>vcard := screen_card s (unat (target_img s)) (set []) (seq_index (vcard s)) (seq_regs (vcard s))\<rparr>" by (simp add: screen_card_def)
  then show "\<exists>si sr. sr 4 = 6 \<and> s = s\<lparr>vcard := screen_card s (unat (target_img s)) (set []) si sr\<rparr>" using assms(3) by blast
next
  fix ys x zs s'
  assume xs: "[0..3] = ys @ x # zs" and "\<exists>si sr. sr 4 = 6 \<and> s' = s\<lparr>vcard := screen_card s (unat (target_img s)) (set ys) si sr\<rparr>"
  then obtain si sr where s': "sr 4 = 6" "s' = s\<lparr>vcard := screen_card s (unat (target_img s)) (set ys) si sr\<rparr>" by blast
  have "x \<in> {0..3}" using xs by (metis in_set_conv_decomp set_upto)
  moreover have "x \<notin> set ys" using distinct_upto [of 0 3] unfolding xs by simp
  ultimately have x: "x \<in> {0, 1, 2, 3}" "x \<notin> set ys" by auto
  let ?D = "unat (target_img s)"
  define m where "m = s'\<lparr>vcard := SET_WRITE_MASK (push_bit (nat (x + 8)) 1) (vcard s')\<rparr>"
  have m: "vcard m = screen_card s ?D (set ys) 2 (sr(2 := 2 ^ nat x))"
    unfolding m_def write_mask_plane [OF x(1)] by (simp add: s' screen_card_def)
  have b: "build m = build s" "target_img s' = target_img s" by (simp_all add: m_def s')
  have "in_build (plane_src s x + int k)" if "k < 14560" for k
    unfolding plane_src_pix(1) [OF x(1) that] by (intro inner_in_build pix_inner assms(1) plane_src_pix(2) [OF x(1) that])
  then have "copy_image (plane_src s x) (target_img s) m = Some (m\<lparr>vcard := with_plane (nat x)
      (\<lambda>a. if ?D \<le> a \<and> a < ?D + 14560 then build m (plane_src s x + int (a - ?D)) else planes (vcard m) (nat x) a) (vcard m)\<rparr>)"
    using assms(2,4) x(1) s'(1) by (intro copy_image_plane) (auto simp: m screen_card_def)
  also have "\<dots> = Some (s\<lparr>vcard := screen_card s ?D (set (ys @ [x])) 2 (sr(2 := 2 ^ nat x))\<rparr>)"
  proof -
    have "(planes (vcard m))(nat x := \<lambda>a. if ?D \<le> a \<and> a < ?D + 14560 then build m (plane_src s x + int (a - ?D)) else planes (vcard m) (nat x) a) =
        planes (screen_card s ?D (set (ys @ [x])) 2 (sr(2 := 2 ^ nat x)))"
      using x by (auto simp: m b screen_card_def fun_eq_iff)
    then have "with_plane (nat x) (\<lambda>a. if ?D \<le> a \<and> a < ?D + 14560 then build m (plane_src s x + int (a - ?D)) else planes (vcard m) (nat x) a) (vcard m) =
        screen_card s ?D (set (ys @ [x])) 2 (sr(2 := 2 ^ nat x))" (is "?A = ?B")
      unfolding with_plane_def by (simp add: m) (simp add: screen_card_def)
    moreover have "m\<lparr>vcard := ?A\<rparr> = s\<lparr>vcard := ?A\<rparr>" by (simp add: m_def s'(2))
    ultimately show ?thesis by simp
  qed
  finally have "copy_image (plane_src s x) (target_img s) m = Some (s\<lparr>vcard := screen_card s ?D (set (ys @ [x])) 2 (sr(2 := 2 ^ nat x))\<rparr>)" .
  moreover have "(sr(2 := 2 ^ nat x)) 4 = 6" using s'(1) by simp
  ultimately show "\<exists>s''. copy_image (img3 s + show_x s div 4 + show_y s * 80 + ((3 - show_x s mod 4 - x + 4) mod 4) * 16000
                  + (if 3 - show_x s mod 4 < x then 1 else 0)) (target_img s') (s'\<lparr>vcard := SET_WRITE_MASK (push_bit (nat (x + 8)) 1) (vcard s')\<rparr>) = Some s''
      \<and> (\<exists>si sr. sr 4 = 6 \<and> s'' = s\<lparr>vcard := screen_card s ?D (set (ys @ [x])) si sr\<rparr>)"
    unfolding plane_src_def b(2) m_def by blast
qed

definition page_ok :: "'w modex \<Rightarrow> bool" where
  "page_ok s \<longleftrightarrow> mode_x (vcard s) \<and> target_img s \<in> {0, 0x4000}"

lemma show_start:
  assumes "t \<in> {0, 0x4000 :: u16}"
  shows "\<exists>ci. OUTW 0x3D4 (push_bit 8 (t AND 0x00FF) OR 0x0D) (OUTW 0x3D4 ((t AND 0xFF00) OR 0x0C) c) =
    c\<lparr>crt_index := ci, crt_regs := (crt_regs c)(0x0C := ucast (drop_bit 8 t), 0x0D := 0)\<rparr>"
proof -
  have n: "(0x400C :: u8) = 0x0C" by simp
  show ?thesis using assms by (auto simp: OUTW_def OUTB_def crt_write_def) (simp_all only: n, blast+)
qed

lemma show_screen_spec:
  assumes "fits s" "page_ok s" "holds s c"
  shows "\<exists>s'. show_screen s = Some s' \<and> page_ok s' \<and> s' = s\<lparr>target_img := target_img s XOR 0x4000, vcard := vcard s'\<rparr> \<and>
    (\<forall>x < 320. \<forall>y < 182. displayed (vcard s') x y = c (show_x s + int x) (show_y s + int y))"
proof -
  define t where "t = target_img s XOR 0x4000"
  define s1 where "s1 = s\<lparr>target_img := t\<rparr>"
  have t: "t \<in> {0, 0x4000}" using assms(2) by (auto simp: t_def page_ok_def)
  have m: "gfx_regs (vcard s) 6 = 5" "seq_regs (vcard s) 4 = 6" "crt_regs (vcard s) 0x13 = 0x28" using assms(2) by (auto simp: page_ok_def mode_x_def)
  have f: "fits s1" "unat (target_img s1) \<le> 0x4000" using assms(1) t by (auto simp: fits_def s1_def)
  obtain s2 si sr where s2: "sr 4 = 6" "s2 = s1\<lparr>vcard := screen_card s1 (unat t) (set [0..3]) si sr\<rparr>"
    "for_each (\<lambda>i s'. copy_image (img3 s1 + show_x s1 div 4 + show_y s1 * 80 + ((3 - show_x s1 mod 4 - i + 4) mod 4) * 16000
                                        + (if 3 - show_x s1 mod 4 < i then 1 else 0)) (target_img s')
      (s'\<lparr>vcard := SET_WRITE_MASK (push_bit (nat (i + 8)) 1) (vcard s')\<rparr>)) [0..3] s1 = Some s2"
    using show_planes [of s1] f m by (auto simp: s1_def simp del: upto_rec_numeral)
  obtain ci where ci: "OUTW 0x3D4 (push_bit 8 (t AND 0x00FF) OR 0x0D) (OUTW 0x3D4 ((t AND 0xFF00) OR 0x0C) (vcard s2)) =
      (vcard s2)\<lparr>crt_index := ci, crt_regs := (crt_regs (vcard s2))(0x0C := ucast (drop_bit 8 t), 0x0D := 0)\<rparr>"
    using show_start [OF t, of "vcard s2"] by blast
  define s' where "s' = s2\<lparr>vcard := (vcard s2)\<lparr>crt_index := ci, crt_regs := (crt_regs (vcard s2))(0x0C := ucast (drop_bit 8 t), 0x0D := 0)\<rparr>\<rparr>"
  have "target_img s2 = t" by (simp add: s2(2) s1_def)
  then have "show_screen s = Some s'"
    using s2(3) ci unfolding show_screen_def Let_def int_shift_mask SCROLL_X_WIDTH_def SCROLL_SIZE_def SCROLL_Y_DIM_def s1_def [unfolded t_def, symmetric]
    by (simp add: s'_def s1_def t_def img3_def del: upto_rec_numeral)
  moreover have "displayed (vcard s') x y = c (show_x s + int x) (show_y s + int y)" if xy: "x < 320" "y < 182" for x y
  proof -
    define k where "k = y * 80 + x div 4"
    have x4: "x div 4 < 80" "int (x mod 4) \<in> {0, 1, 2, 3}" using xy by auto
    then have k: "k < 14560" "k mod 80 = x div 4" "k div 80 = y" using xy by (auto simp: k_def)
    have "256 * unat (ucast (drop_bit 8 t) :: u8) = unat t" using t by auto
    then have "displayed (vcard s') x y = build s1 (plane_src s1 (int (x mod 4)) + int k)"
      using m(3) k(1) x4(2) by (auto simp: displayed_def s'_def s2(2) screen_card_def s1_def k_def simp del: upto_rec_numeral)
    also have "\<dots> = build s (pix s (show_x s + 4 * (int k mod 80) + int (x mod 4)) (show_y s + int k div 80))"
      unfolding plane_src_pix(1) [OF x4(2) k(1)] by (simp add: s1_def pix_def img3_def)
    also have "\<dots> = c (show_x s + 4 * (int k mod 80) + int (x mod 4)) (show_y s + int k div 80)"
      using assms(3) plane_src_pix(2) [OF x4(2) k(1), of s] by (simp add: holds_def)
    also have "\<dots> = c (show_x s + int x) (show_y s + int y)"
    proof -
      have "int k mod 80 = int (x div 4)" "int k div 80 = int y" using k(2,3) zmod_int [of k 80] zdiv_int [of k 80] by simp_all
      moreover have "show_x s + 4 * int (x div 4) + int (x mod 4) = show_x s + int x" using mult_div_mod_eq [of 4 x] by linarith
      ultimately show ?thesis by (simp only:)
    qed
    finally show ?thesis .
  qed
  moreover have "page_ok s'" using m s2(1) t by (auto simp: page_ok_def mode_x_def s'_def s2(2) s1_def screen_card_def)
  moreover have "s' = s\<lparr>target_img := target_img s XOR 0x4000, vcard := vcard s'\<rparr>" by (simp add: s'_def s2(2) s1_def t_def)
  ultimately show ?thesis by blast
qed

end
