(* ===== verification/ModeSet.thy ===== *)
theory ModeSet
  imports Picture
begin

text \<open>
  What \<open>set_mode_X\<close> of \<open>mp2/modex.c\<close> leaves: the registers of mode X whatever the card was set to
  before, the palette that gives the 2:2:2 colours of the pictures, empty video memory, the fences
  around the build buffer, and a window at the origin.
\<close>

section \<open>Register tables\<close>

text \<open>The card apart from its registers.\<close>

definition write_table :: "u16 list \<Rightarrow> (u8 \<Rightarrow> u8) \<Rightarrow> u8 \<Rightarrow> u8" where
  "write_table tbl r = fold (\<lambda>v r. r(ucast v := ucast (drop_bit 8 v))) tbl r"

lemma OUTW_seq: "OUTW 0x3C4 v c = c\<lparr>seq_index := ucast v, seq_regs := (seq_regs c)(ucast v := ucast (drop_bit 8 v))\<rparr>"
  by (simp add: OUTW_def OUTB_def)

lemma OUTW_gfx: "OUTW 0x3CE v c = c\<lparr>gfx_index := ucast v, gfx_regs := (gfx_regs c)(ucast v := ucast (drop_bit 8 v))\<rparr>"
  by (simp add: OUTW_def OUTB_def)

lemma rep_outsw_seq: "\<exists>i. REP_OUTSW 0x3C4 tbl c = c\<lparr>seq_index := i, seq_regs := write_table tbl (seq_regs c)\<rparr>"
proof (induction tbl arbitrary: c)
  case Nil
  show ?case by (rule exI [of _ "seq_index c"]) (simp add: REP_OUTSW_def write_table_def)
next
  case (Cons v tbl)
  obtain i where "REP_OUTSW 0x3C4 tbl (OUTW 0x3C4 v c) =
      (OUTW 0x3C4 v c)\<lparr>seq_index := i, seq_regs := write_table tbl (seq_regs (OUTW 0x3C4 v c))\<rparr>"
    using Cons.IH by blast
  then show ?case by (intro exI [of _ i]) (simp add: REP_OUTSW_def write_table_def OUTW_seq)
qed

lemma rep_outsw_gfx: "\<exists>i. REP_OUTSW 0x3CE tbl c = c\<lparr>gfx_index := i, gfx_regs := write_table tbl (gfx_regs c)\<rparr>"
proof (induction tbl arbitrary: c)
  case Nil
  show ?case by (rule exI [of _ "gfx_index c"]) (simp add: REP_OUTSW_def write_table_def)
next
  case (Cons v tbl)
  obtain i where "REP_OUTSW 0x3CE tbl (OUTW 0x3CE v c) =
      (OUTW 0x3CE v c)\<lparr>gfx_index := i, gfx_regs := write_table tbl (gfx_regs (OUTW 0x3CE v c))\<rparr>"
    using Cons.IH by blast
  then show ?case by (intro exI [of _ i]) (simp add: REP_OUTSW_def write_table_def OUTW_gfx)
qed

text \<open>The CRTC table is written as it stands as long as the protection is off.\<close>

fun unprotected :: "u16 list \<Rightarrow> bool" where
  "unprotected [] = True"
| "unprotected (v # tbl) = ((ucast v = (0x11 :: u8) \<longrightarrow> \<not> bit v 15 \<or> list_all (\<lambda>v. 7 < (ucast v :: u8)) tbl) \<and> unprotected tbl)"

lemma OUTW_crt:
  "7 < (ucast v :: u8) \<or> \<not> bit (crt_regs c 0x11) 7 \<Longrightarrow>
   OUTW 0x3D4 v c = c\<lparr>crt_index := ucast v, crt_regs := (crt_regs c)(ucast v := ucast (drop_bit 8 v))\<rparr>"
  by (auto simp: OUTW_def OUTB_def crt_write_def)

lemma rep_outsw_crt:
  assumes "unprotected tbl" "\<not> bit (crt_regs c 0x11) 7 \<or> list_all (\<lambda>v. 7 < (ucast v :: u8)) tbl"
  shows "\<exists>i. REP_OUTSW 0x3D4 tbl c = c\<lparr>crt_index := i, crt_regs := write_table tbl (crt_regs c)\<rparr>"
  using assms
proof (induction tbl arbitrary: c)
  case Nil
  show ?case by (rule exI [of _ "crt_index c"]) (simp add: REP_OUTSW_def write_table_def)
next
  case (Cons v tbl)
  let ?c = "c\<lparr>crt_index := ucast v, crt_regs := (crt_regs c)(ucast v := ucast (drop_bit 8 v))\<rparr>"
  have o: "OUTW 0x3D4 v c = ?c" using Cons.prems(2) by (intro OUTW_crt) auto
  have "bit (ucast (drop_bit 8 v) :: u8) 7 = bit v 15" by (simp add: bit_simps)
  then have "\<not> bit (crt_regs ?c 0x11) 7 \<or> list_all (\<lambda>v. 7 < (ucast v :: u8)) tbl" using Cons.prems by auto
  then obtain i where "REP_OUTSW 0x3D4 tbl ?c = ?c\<lparr>crt_index := i, crt_regs := write_table tbl (crt_regs ?c)\<rparr>"
    using Cons.IH [of ?c] Cons.prems(1) unfolding unprotected.simps by blast
  then show ?case by (intro exI [of _ i]) (simp add: REP_OUTSW_def write_table_def o)
qed

lemma rep_outsb_attr: "\<exists>i d r. REP_OUTSB 0x3C0 xs c = c\<lparr>attr_index := i, attr_data := d, attr_regs := r\<rparr>"
proof (induction xs arbitrary: c)
  case Nil
  have "c = c\<lparr>attr_index := attr_index c, attr_data := attr_data c, attr_regs := attr_regs c\<rparr>" by simp
  then show ?case unfolding REP_OUTSB_def by (metis fold_simps(1))
next
  case (Cons x xs)
  have "OUTB 0x3C0 x c = c\<lparr>attr_index := if attr_data c then attr_index c else x, attr_data := \<not> attr_data c,
      attr_regs := if attr_data c then (attr_regs c)(attr_index c := x) else attr_regs c\<rparr>"
    by (simp add: OUTB_def)
  then obtain i d r where 1: "OUTB 0x3C0 x c = c\<lparr>attr_index := i, attr_data := d, attr_regs := r\<rparr>" by blast
  obtain i' d' r' where "REP_OUTSB 0x3C0 xs (c\<lparr>attr_index := i, attr_data := d, attr_regs := r\<rparr>) = c\<lparr>attr_index := i', attr_data := d', attr_regs := r'\<rparr>"
    using Cons.IH [of "c\<lparr>attr_index := i, attr_data := d, attr_regs := r\<rparr>"] by auto
  then have "REP_OUTSB 0x3C0 (x # xs) c = c\<lparr>attr_index := i', attr_data := d', attr_regs := r'\<rparr>" using 1 by (simp add: REP_OUTSB_def)
  then show ?case by blast
qed

lemma rep_outsb_dac:
  "dac_pos c + length xs < 768 \<Longrightarrow>
   REP_OUTSB 0x3C9 xs c = c\<lparr>dac_pos := dac_pos c + length xs,
     dac := \<lambda>k. if dac_pos c \<le> k \<and> k < dac_pos c + length xs then xs ! (k - dac_pos c) else dac c k\<rparr>"
proof (induction xs arbitrary: c)
  case (Cons x xs)
  let ?c = "c\<lparr>dac_pos := dac_pos c + 1, dac := (dac c)(dac_pos c := x)\<rparr>"
  have "OUTB 0x3C9 x c = ?c" using Cons.prems by (simp add: OUTB_def)
  moreover have "(\<lambda>k. if dac_pos ?c \<le> k \<and> k < dac_pos ?c + length xs then xs ! (k - dac_pos ?c) else dac ?c k) =
      (\<lambda>k. if dac_pos c \<le> k \<and> k < dac_pos c + length (x # xs) then (x # xs) ! (k - dac_pos c) else dac c k)"
    by (auto simp: fun_eq_iff nth_Cons')
  ultimately show ?case using Cons.IH [of ?c] Cons.prems by (simp add: REP_OUTSB_def)
next
  case Nil
  have "(\<lambda>k. if dac_pos c \<le> k \<and> k < dac_pos c then x k else dac c k) = dac c" for x by (rule ext) (simp, linarith)
  then show ?case by (simp add: REP_OUTSB_def)
qed

lemma vga_blank_eq: "\<exists>i d. VGA_blank b c = c\<lparr>seq_index := 1, seq_regs := (seq_regs c)(1 := (seq_regs c 1 AND 0xDF) OR push_bit 5 (b AND 1)),
    attr_index := i, attr_data := d\<rparr>"
  by (auto simp: VGA_blank_def Let_def OUTB_def status_in_def intro!: exI)

section \<open>Mode X\<close>

lemma mode_tables:
  "unprotected mode_X_CRTC" "write_table mode_X_CRTC r 0x13 = 0x28" "write_table mode_X_CRTC r 0x0C = 0" "write_table mode_X_CRTC r 0x0D = 0"
  "write_table mode_X_CRTC r 0x18 = 0x6B" "write_table mode_X_CRTC r 0x07 = 0x1F" "write_table mode_X_CRTC r 0x09 = 0x41"
  "write_table mode_X_seq r 4 = 6" "write_table mode_X_graphics r 6 = 5"
  by (simp_all add: mode_X_CRTC_def mode_X_seq_def mode_X_graphics_def write_table_def)

lemma set_seq_eq: "\<exists>i. set_seq_regs_and_reset tbl val c = c\<lparr>seq_index := i, misc_out := val, seq_regs := (write_table tbl (seq_regs c))(0 := 3)\<rparr>"
proof -
  obtain i where "REP_OUTSW 0x3C4 tbl c = c\<lparr>seq_index := i, seq_regs := write_table tbl (seq_regs c)\<rparr>" using rep_outsw_seq by blast
  moreover have n: "(0x300 :: u8) = 0" by simp
  ultimately have "set_seq_regs_and_reset tbl val c = c\<lparr>seq_index := 0, misc_out := val, seq_regs := (write_table tbl (seq_regs c))(0 := 3)\<rparr>"
    by (simp add: set_seq_regs_and_reset_def OUTW_seq OUTB_def) (simp add: n)
  then show ?thesis by blast
qed

lemma set_crt_eq: "\<exists>i. set_CRTC_registers mode_X_CRTC c = c\<lparr>crt_index := i, crt_regs := write_table mode_X_CRTC ((crt_regs c)(0x11 := 0))\<rparr>"
proof -
  have "OUTW 0x3D4 0x0011 c = c\<lparr>crt_index := 0x11, crt_regs := (crt_regs c)(0x11 := 0)\<rparr>" by (subst OUTW_crt) simp_all
  moreover obtain i where "REP_OUTSW 0x3D4 mode_X_CRTC (c\<lparr>crt_index := 0x11, crt_regs := (crt_regs c)(0x11 := 0)\<rparr>) =
      (c\<lparr>crt_index := 0x11, crt_regs := (crt_regs c)(0x11 := 0)\<rparr>)\<lparr>crt_index := i, crt_regs := write_table mode_X_CRTC ((crt_regs c)(0x11 := 0))\<rparr>"
    using rep_outsw_crt [OF mode_tables(1), of "c\<lparr>crt_index := 0x11, crt_regs := (crt_regs c)(0x11 := 0)\<rparr>"] by auto
  ultimately have "set_CRTC_registers mode_X_CRTC c = c\<lparr>crt_index := i, crt_regs := write_table mode_X_CRTC ((crt_regs c)(0x11 := 0))\<rparr>"
    by (simp add: set_CRTC_registers_def)
  then show ?thesis by blast
qed

lemma set_attr_eq: "\<exists>i d r. set_attr_registers tbl c = c\<lparr>attr_index := i, attr_data := d, attr_regs := r\<rparr>"
  using rep_outsb_attr [of tbl "status_in c"] by (simp add: set_attr_registers_def status_in_def)

text \<open>Every colour of the palette is the one its 2:2:2 code says.\<close>

definition level :: "nat \<Rightarrow> u8" where "level n = 0x15 * of_nat (n mod 4)"

lemma palette_colours:
  "k < 64 \<Longrightarrow> concat palette_mode_x ! (3 * k) = level (k div 16) \<and> concat palette_mode_x ! (3 * k + 1) = level (k div 4)
     \<and> concat palette_mode_x ! (3 * k + 2) = level k"
proof -
  have "list_all (\<lambda>k. concat palette_mode_x ! (3 * k) = level (k div 16) \<and> concat palette_mode_x ! (3 * k + 1) = level (k div 4)
     \<and> concat palette_mode_x ! (3 * k + 2) = level k) [0..<64]" by code_simp
  then show "k < 64 \<Longrightarrow> ?thesis" by (simp add: list_all_iff)
qed

lemma fill_palette_eq:
  "fill_palette_mode_x c = c\<lparr>dac_pos := 192, dac := \<lambda>k. if k < 192 then concat palette_mode_x ! k else dac c k\<rparr>"
proof -
  have "length (concat palette_mode_x) = 192" by (simp add: palette_mode_x_def)
  moreover have "OUTB 0x3C8 0 c = c\<lparr>dac_pos := 0\<rparr>" by (simp add: OUTB_def)
  ultimately show ?thesis using rep_outsb_dac [of "c\<lparr>dac_pos := 0\<rparr>" "concat palette_mode_x"] by (simp add: fill_palette_mode_x_def cong: if_cong)
qed

lemma poke_all:
  assumes "gfx_regs c 6 = 5" "seq_regs c 4 = 6" "seq_regs c 2 = 0x0F" "a < 65536"
  shows "poke a v c = c\<lparr>planes := \<lambda>p. if p < 4 then (planes c p)(a := v) else planes c p\<rparr>"
proof -
  have "mem_window c = (0, 65536)" using assms(1) by (simp add: mem_window_def)
  moreover have "bit (0x0F :: u8) q" if "q < 4" for q
  proof -
    have "q \<in> {0, 1, 2, 3}" using that by auto
    then show ?thesis by (auto simp: bit_numeral_rec)
  qed
  moreover have "bit (6 :: u8) 2" by (simp add: bit_numeral_rec)
  ultimately have "poke a v c = c\<lparr>planes := \<lambda>p. if p < 4 \<and> bit (0x0F :: u8) p then (planes c p)(a := v) else planes c p\<rparr>"
    using assms(2-4) by (simp add: poke_def)
  also have "(\<lambda>p. if p < 4 \<and> bit (0x0F :: u8) p then (planes c p)(a := v) else planes c p) = (\<lambda>p. if p < 4 then (planes c p)(a := v) else planes c p)"
    using \<open>\<And>q. q < 4 \<Longrightarrow> bit (0x0F :: u8) q\<close> by (auto simp: fun_eq_iff)
  finally show ?thesis .
qed

lemma clear_planes:
  assumes "gfx_regs c 6 = 5" "seq_regs c 4 = 6" "seq_regs c 2 = 0x0F" "n \<le> 65536"
  shows "fold (\<lambda>a. poke a 0) [0..<n] c = c\<lparr>planes := \<lambda>p a. if p < 4 \<and> a < n then 0 else planes c p a\<rparr>"
  using assms(4)
proof (induction n)
  case (Suc n)
  define d where "d = c\<lparr>planes := \<lambda>p a. if p < 4 \<and> a < n then 0 else planes c p a\<rparr>"
  have "poke n 0 d = d\<lparr>planes := \<lambda>p. if p < 4 then (planes d p)(n := 0) else planes d p\<rparr>"
    using Suc.prems assms(1-3) by (intro poke_all) (simp_all add: d_def)
  also have "(\<lambda>p. if p < 4 then (planes d p)(n := 0) else planes d p) = (\<lambda>p a. if p < 4 \<and> a < Suc n then 0 else planes c p a)"
    by (auto simp: fun_eq_iff d_def)
  finally show ?case using Suc by (simp add: d_def)
qed simp

lemma clear_screens_eq:
  assumes "gfx_regs c 6 = 5" "seq_regs c 4 = 6"
  shows "clear_screens c = c\<lparr>seq_index := 2, seq_regs := (seq_regs c)(2 := 0x0F), planes := \<lambda>p a. if p < 4 \<and> a < 65536 then 0 else planes c p a\<rparr>"
proof -
  have n: "(0xF02 :: u8) = 2" by simp
  have "SET_WRITE_MASK 0x0F00 c = c\<lparr>seq_index := 2, seq_regs := (seq_regs c)(2 := 0x0F)\<rparr>"
    by (simp add: SET_WRITE_MASK_def OUTW_seq) (simp only: n)
  then show ?thesis using assms clear_planes [of "c\<lparr>seq_index := 2, seq_regs := (seq_regs c)(2 := 0x0F)\<rparr>" 65536] by (simp add: clear_screens_def cong: if_cong)
qed

section \<open>The fences\<close>

definition fences :: "'w modex \<Rightarrow> bool" where
  "fences s \<longleftrightarrow> (\<forall>i. 0 \<le> i \<and> i < 256 \<longrightarrow> build s i = MEM_FENCE_MAGIC \<and> build s (84257 + i) = MEM_FENCE_MAGIC)"

lemma same_view_fences: "same_view s s' \<Longrightarrow> fences s' = fences s"
  by (auto simp: same_view_def fences_def inner_def)

lemma clear_mode_X_silent: "fst (clear_mode_X s) = [] \<longleftrightarrow> fences s"
  by (auto simp: clear_mode_X_def Let_def fences_def list_ex_iff screen_consts simp del: upto_rec_numeral)

lemma write_fences:
  "fold (\<lambda>i b. b(i := M, C + i := M)) xs b k = (if k \<in> set xs \<or> k - C \<in> set xs then M else b (k :: int))"
  by (induction xs arbitrary: b) (auto simp: algebra_simps)

section \<open>The mode\<close>

lemma mode_X_card:
  fixes c :: vga_card
  defines "c' \<equiv> VGA_blank 0 (clear_screens (fill_palette_mode_x (set_graphics_registers mode_X_graphics (set_attr_registers mode_X_attr
      (set_CRTC_registers mode_X_CRTC (set_seq_regs_and_reset mode_X_seq 0x63 (VGA_blank 1 c)))))))"
  shows "mode_x c'" "crt_regs c' = write_table mode_X_CRTC ((crt_regs c)(0x11 := 0))" "p < 4 \<Longrightarrow> a < 65536 \<Longrightarrow> planes c' p a = 0"
    "k < 192 \<Longrightarrow> dac c' k = concat palette_mode_x ! k"
proof -
  define c2 where "c2 = set_seq_regs_and_reset mode_X_seq 0x63 (VGA_blank 1 c)"
  define c3 where "c3 = set_CRTC_registers mode_X_CRTC c2"
  define c4 where "c4 = set_attr_registers mode_X_attr c3"
  define c5 where "c5 = set_graphics_registers mode_X_graphics c4"
  define c6 where "c6 = fill_palette_mode_x c5"
  define c7 where "c7 = clear_screens c6"
  obtain i d where 1: "VGA_blank 1 c = c\<lparr>seq_index := 1, seq_regs := (seq_regs c)(1 := (seq_regs c 1 AND 0xDF) OR push_bit 5 (1 AND 1)), attr_index := i, attr_data := d\<rparr>"
    using vga_blank_eq by blast
  have 2: "seq_regs c2 4 = 6" "crt_regs c2 = crt_regs c" using set_seq_eq [of mode_X_seq "0x63" "VGA_blank 1 c"] 1 by (auto simp: c2_def mode_tables)
  have 3: "seq_regs c3 4 = 6" "crt_regs c3 = write_table mode_X_CRTC ((crt_regs c)(0x11 := 0))" using set_crt_eq [of c2] 2 by (auto simp: c3_def)
  have 4: "seq_regs c4 4 = 6" "crt_regs c4 = crt_regs c3" using set_attr_eq [of mode_X_attr c3] 3 by (auto simp: c4_def)
  have 5: "seq_regs c5 4 = 6" "gfx_regs c5 6 = 5" "crt_regs c5 = crt_regs c3"
    using rep_outsw_gfx [of mode_X_graphics c4] 4 by (auto simp: c5_def set_graphics_registers_def mode_tables)
  have 6: "seq_regs c6 4 = 6" "gfx_regs c6 6 = 5" "crt_regs c6 = crt_regs c3" "\<And>k. k < 192 \<Longrightarrow> dac c6 k = concat palette_mode_x ! k"
    using 5 by (simp_all add: c6_def fill_palette_eq)
  have 7: "seq_regs c7 4 = 6" "gfx_regs c7 6 = 5" "crt_regs c7 = crt_regs c3" "\<And>k. k < 192 \<Longrightarrow> dac c7 k = concat palette_mode_x ! k"
    "\<And>p a. p < 4 \<Longrightarrow> a < 65536 \<Longrightarrow> planes c7 p a = 0"
    using 6 by (simp_all add: c7_def clear_screens_eq)
  have "c' = VGA_blank 0 c7" by (simp add: c'_def c7_def c6_def c5_def c4_def c3_def c2_def)
  then have 8: "seq_regs c' 4 = 6" "gfx_regs c' 6 = 5" "crt_regs c' = crt_regs c3" "dac c' = dac c7" "planes c' = planes c7"
    using vga_blank_eq [of 0 c7] 7 by auto
  show "mode_x c'" using 8 3(2) by (simp add: mode_x_def mode_tables)
  show "crt_regs c' = write_table mode_X_CRTC ((crt_regs c)(0x11 := 0))" using 8 3 by simp
  show "p < 4 \<Longrightarrow> a < 65536 \<Longrightarrow> planes c' p a = 0" using 8 7 by simp
  show "k < 192 \<Longrightarrow> dac c' k = concat palette_mode_x ! k" using 8 7 by simp
qed

lemma set_mode_X_spec:
  assumes "set_mode_X True True True (Some h) (Some v) s = (r, s')"
  shows "r = 0" "fits s'" "page_ok s'" "fences s'" "show_x s' = 0" "show_y s' = 0" "horiz_line_fn s' = Some h" "vert_line_fn s' = Some v"
    "p < 4 \<Longrightarrow> a < 65536 \<Longrightarrow> planes (vcard s') p a = 0" "k < 192 \<Longrightarrow> dac (vcard s') k = concat palette_mode_x ! k"
    "crt_regs (vcard s') = write_table mode_X_CRTC ((crt_regs (vcard s))(0x11 := 0))"
proof -
  have s': "r = 0" "s' = s\<lparr>horiz_line_fn := Some h, vert_line_fn := Some v, show_x := 0, show_y := 0, img3_off := BUILD_BASE_INIT,
      build := fold (\<lambda>i b. b(i := MEM_FENCE_MAGIC, BUILD_BUF_SIZE + MEM_FENCE_WIDTH + i := MEM_FENCE_MAGIC)) [0..MEM_FENCE_WIDTH - 1] (build s),
      target_img := 0, vcard := VGA_blank 0 (clear_screens (fill_palette_mode_x (set_graphics_registers mode_X_graphics (set_attr_registers mode_X_attr
      (set_CRTC_registers mode_X_CRTC (set_seq_regs_and_reset mode_X_seq 0x63 (VGA_blank 1 (vcard s))))))))\<rparr>"
    using assms by (auto simp: set_mode_X_def Let_def open_memory_and_ports_def)
  show "r = 0" by (rule s'(1))
  show "fits s'" "show_x s' = 0" "show_y s' = 0" "horiz_line_fn s' = Some h" "vert_line_fn s' = Some v"
    by (simp_all add: s'(2) fits_def screen_consts)
  show "fences s'" by (simp add: s'(2) fences_def write_fences screen_consts del: upto_rec_numeral)
  show "page_ok s'" "p < 4 \<Longrightarrow> a < 65536 \<Longrightarrow> planes (vcard s') p a = 0" "k < 192 \<Longrightarrow> dac (vcard s') k = concat palette_mode_x ! k"
    "crt_regs (vcard s') = write_table mode_X_CRTC ((crt_regs (vcard s))(0x11 := 0))"
    using mode_X_card [where c = "vcard s"] by (simp_all add: s'(2) page_ok_def)
qed

section \<open>The status bar\<close>

lemma copy_status_bar_plane:
  assumes "gfx_regs c 6 = 5" "seq_regs c 4 = 6" "seq_regs c 2 = 2 ^ p" "p < 4" "length buf = 5760"
  shows "copy_status_bar buf (1440 * p) 0 c = Some (with_plane p (\<lambda>a. if a < 1440 then buf ! (1440 * p + a) else planes c p a) c)"
proof -
  define f where "f n a = (if a < n then buf ! (1440 * p + a) else planes c p a)" for n a
  have "\<exists>c'. copy_status_bar buf (1440 * p) 0 c = Some c' \<and> c' = with_plane p (f (length [0..<1440])) c"
    unfolding copy_status_bar_def
  proof (rule for_each_rule [where P = "\<lambda>ys c'. c' = with_plane p (f (length ys)) c"])
    have "f 0 = planes c p" by (simp add: f_def fun_eq_iff)
    then show "c = with_plane p (f (length [])) c" by (simp add: with_plane_def)
  next
    fix ys x zs c'
    assume xs: "[0..<1440] = ys @ x # zs" and c': "c' = with_plane p (f (length ys)) c"
    have "length [0..<1440] = length ys + Suc (length zs)" "[0..<1440] ! length ys = x" unfolding xs by simp_all
    then have x: "x = length ys" "x < 1440" by auto
    have "poke (unat (0 :: u16) + x) (buf ! (1440 * p + x)) c' = c'\<lparr>planes := (planes c')(p := (planes c' p)(unat (0 :: u16) + x := buf ! (1440 * p + x)))\<rparr>"
      using assms x by (intro poke_plane) (simp_all add: c' with_plane_def)
    also have "\<dots> = with_plane p (f (length (ys @ [x]))) c"
    proof -
      have "(f (length ys))(x := buf ! (1440 * p + x)) = f (length (ys @ [x]))" using x by (auto simp: f_def fun_eq_iff)
      then show ?thesis by (simp add: c' with_plane_def)
    qed
    finally show "\<exists>c''. (if 1440 * p + x < length buf then Some (poke (unat (0 :: u16) + x) (buf ! (1440 * p + x)) c') else None) = Some c''
        \<and> c'' = with_plane p (f (length (ys @ [x]))) c"
      using x assms(4,5) by auto
  qed
  moreover have "f (length [0..<1440]) = (\<lambda>a. if a < 1440 then buf ! (1440 * p + a) else planes c p a)" by (simp add: f_def fun_eq_iff)
  ultimately show ?thesis by simp
qed

definition bar_card :: "u8 list \<Rightarrow> nat set \<Rightarrow> u8 \<Rightarrow> (u8 \<Rightarrow> u8) \<Rightarrow> vga_card \<Rightarrow> vga_card" where
  "bar_card buf I si sr c = c\<lparr>seq_index := si, seq_regs := sr, planes := \<lambda>p a. if p \<in> I \<and> a < 1440 then buf ! (1440 * p + a) else planes c p a\<rparr>"

lemma show_status_bar_spec:
  assumes "gfx_regs (vcard s) 6 = 5" "seq_regs (vcard s) 4 = 6" "length buf = 5760"
  shows "\<exists>si sr. sr 4 = 6 \<and> show_status_bar buf s = Some (s\<lparr>vcard := bar_card buf {0..<4} si sr (vcard s)\<rparr>)"
proof -
  have "\<exists>c'. for_each (\<lambda>i c. copy_status_bar buf (STATUS_BAR_SIZE * i) 0x0000 (SET_WRITE_MASK (push_bit (i + 8) 1) c)) [0..<4] (vcard s) = Some c' \<and>
      (\<exists>si sr. sr 4 = 6 \<and> c' = bar_card buf (set [0..<4]) si sr (vcard s))"
  proof (rule for_each_rule [where P = "\<lambda>ys c'. \<exists>si sr. sr 4 = 6 \<and> c' = bar_card buf (set ys) si sr (vcard s)"])
    have "vcard s = bar_card buf (set []) (seq_index (vcard s)) (seq_regs (vcard s)) (vcard s)" by (simp add: bar_card_def)
    then show "\<exists>si sr. sr 4 = 6 \<and> vcard s = bar_card buf (set []) si sr (vcard s)" using assms(2) by blast
  next
    fix ys x zs c'
    assume xs: "[0..<4] = ys @ x # zs" and "\<exists>si sr. sr 4 = 6 \<and> c' = bar_card buf (set ys) si sr (vcard s)"
    then obtain si sr where c': "sr 4 = 6" "c' = bar_card buf (set ys) si sr (vcard s)" by blast
    have "x \<in> set [0..<4]" unfolding xs by simp
    then have x: "x < 4" "int x \<in> {0, 1, 2, 3}" by auto
    have "x \<notin> set ys" using distinct_upt [of 0 4] unfolding xs by simp
    define m where "m = SET_WRITE_MASK (push_bit (x + 8) 1) c'"
    have m: "m = bar_card buf (set ys) 2 (sr(2 := 2 ^ x)) (vcard s)"
      using write_mask_plane [OF x(2), of c'] by (simp add: m_def c'(2) bar_card_def nat_add_distrib)
    have "copy_status_bar buf (1440 * x) 0 m = Some (with_plane x (\<lambda>a. if a < 1440 then buf ! (1440 * x + a) else planes m x a) m)"
      using assms x(1) c'(1) by (intro copy_status_bar_plane) (simp_all add: m bar_card_def)
    also have "with_plane x (\<lambda>a. if a < 1440 then buf ! (1440 * x + a) else planes m x a) m = bar_card buf (set (ys @ [x])) 2 (sr(2 := 2 ^ x)) (vcard s)"
    proof -
      have "(planes m)(x := \<lambda>a. if a < 1440 then buf ! (1440 * x + a) else planes m x a) =
          (\<lambda>p a. if p \<in> set (ys @ [x]) \<and> a < 1440 then buf ! (1440 * p + a) else planes (vcard s) p a)"
        using \<open>x \<notin> set ys\<close> by (auto simp: m bar_card_def fun_eq_iff)
      then show ?thesis unfolding with_plane_def by (simp add: m bar_card_def)
    qed
    finally have "copy_status_bar buf (STATUS_BAR_SIZE * x) 0x0000 m = Some (bar_card buf (set (ys @ [x])) 2 (sr(2 := 2 ^ x)) (vcard s))"
      by (simp add: STATUS_BAR_SIZE_def)
    moreover have "(sr(2 := 2 ^ x)) 4 = 6" using c'(1) by simp
    ultimately show "\<exists>c''. copy_status_bar buf (STATUS_BAR_SIZE * x) 0x0000 (SET_WRITE_MASK (push_bit (x + 8) 1) c') = Some c'' \<and>
        (\<exists>si sr. sr 4 = 6 \<and> c'' = bar_card buf (set (ys @ [x])) si sr (vcard s))"
      unfolding m_def by blast
  qed
  then obtain si sr where "sr 4 = 6" "for_each (\<lambda>i c. copy_status_bar buf (STATUS_BAR_SIZE * i) 0x0000 (SET_WRITE_MASK (push_bit (i + 8) 1) c)) [0..<4] (vcard s) =
      Some (bar_card buf {0..<4} si sr (vcard s))" unfolding set_upt by blast
  then have "sr 4 = 6 \<and> show_status_bar buf s = Some (s\<lparr>vcard := bar_card buf {0..<4} si sr (vcard s)\<rparr>)" unfolding show_status_bar_def by simp
  then show ?thesis by blast
qed

definition ink :: "string \<Rightarrow> nat \<Rightarrow> nat \<Rightarrow> u8" where
  "ink line x y = (if inked line x y then STATUS_BAR_FONT_COLOR else STATUS_BAR_COLOR)"

definition printable_line :: "string \<Rightarrow> bool" where "printable_line line \<longleftrightarrow> list_all (\<lambda>c. of_char c < (128 :: nat)) line"

lemma show_line:
  assumes "mode_x (vcard s)" "length message \<le> 40" "printable_line (status_line message cmd location)"
  shows "\<exists>buf si sr. text_to_graphics message cmd location = Some buf \<and> sr 4 = 6 \<and>
    show_status_bar buf s = Some (s\<lparr>vcard := bar_card buf {0..<4} si sr (vcard s)\<rparr>) \<and>
    (\<forall>x < 320. \<forall>y < 18. planes (bar_card buf {0..<4} si sr (vcard s)) (x mod 4) (y * 80 + x div 4) = ink (status_line message cmd location) x y)"
proof -
  obtain buf where buf: "text_to_graphics message cmd location = Some buf" "length buf = 5760"
    "\<And>x y. x < 320 \<Longrightarrow> y < 18 \<Longrightarrow> buf ! bar_index x y = ink (status_line message cmd location) x y"
    using text_to_graphics_line [of message cmd location] assms(2,3) unfolding ink_def printable_line_def list_all_iff by blast
  obtain si sr where s: "sr 4 = 6" "show_status_bar buf s = Some (s\<lparr>vcard := bar_card buf {0..<4} si sr (vcard s)\<rparr>)"
    using show_status_bar_spec [of s buf] assms(1) buf(2) by (auto simp: mode_x_def)
  have "planes (bar_card buf {0..<4} si sr (vcard s)) (x mod 4) (y * 80 + x div 4) = ink (status_line message cmd location) x y" if "x < 320" "y < 18" for x y
  proof -
    have "x div 4 < 80" using that by simp
    then have "y * 80 + x div 4 < 1440" using that(2) by linarith
    moreover have "1440 * (x mod 4) + (y * 80 + x div 4) = bar_index x y" by (simp add: bar_index_def)
    ultimately show ?thesis using buf(3) [OF that] by (simp add: bar_card_def)
  qed
  then show ?thesis using buf(1) s by blast
qed

section \<open>Properties\<close>

text \<open>The first scan line at which the display starts again at the top of the video memory.\<close>

definition line_compare :: "vga_card \<Rightarrow> nat" where
  "line_compare c = unat (crt_regs c 0x18) + 256 * of_bool (bit (crt_regs c 0x07) 4) + 512 * of_bool (bit (crt_regs c 0x09) 6)"

definition power_on :: "'w modex" where
  "power_on = \<lparr>build = \<lambda>_. 0, img3_off = 0, show_x = 0, show_y = 0, target_img = 0, horiz_line_fn = None, vert_line_fn = None,
     vcard = \<lparr>seq_index = 0, seq_regs = \<lambda>_. 0, crt_index = 0, crt_regs = \<lambda>_. 0xFF, gfx_index = 0, gfx_regs = \<lambda>_. 0, attr_index = 0,
       attr_data = True, attr_regs = \<lambda>_. 0, misc_out = 0, dac_pos = 0, dac = \<lambda>_. 0, planes = \<lambda>_ _. 7\<rparr>\<rparr>"

text \<open>
  C34: Whatever state the card was in, its write protection included, \<open>set_mode_X\<close> leaves mode X with
  an empty picture on the display, the window at the origin inside the build buffer, intact
  fences, and the palette in which the code \<open>k\<close> of a pixel shows its two bits of red, green and
  blue. The line compare register, however, is set to 875: the 400 scan lines of the mode never
  reach it, so the display is not split for a status bar.
\<close>

theorem set_mode_X_ready:
  assumes "set_mode_X True True True (Some h) (Some v) s = (r, s')"
  shows "r = 0 \<and> fits s' \<and> page_ok s' \<and> fences s' \<and> show_x s' = 0 \<and> show_y s' = 0 \<and>
    horiz_line_fn s' = Some h \<and> vert_line_fn s' = Some v \<and>
    (\<forall>x < 320. \<forall>y < 200. displayed (vcard s') x y = 0) \<and>
    (\<forall>k < 64. dac (vcard s') (3 * k) = level (k div 16) \<and> dac (vcard s') (3 * k + 1) = level (k div 4) \<and> dac (vcard s') (3 * k + 2) = level k) \<and>
    line_compare (vcard s') = 875"
proof -
  note spec = set_mode_X_spec [OF assms]
  have "displayed (vcard s') x y = 0" if "x < 320" "y < 200" for x y
  proof -
    have "x div 4 < 80" using that by simp
    then have "y * 80 + x div 4 < 65536" using that(2) by linarith
    then show ?thesis using spec(9) [of "x mod 4"] by (simp add: displayed_def spec(11) mode_tables)
  qed
  moreover have "dac (vcard s') (3 * k) = level (k div 16) \<and> dac (vcard s') (3 * k + 1) = level (k div 4) \<and> dac (vcard s') (3 * k + 2) = level k" if "k < 64" for k
    using palette_colours [OF that] spec(10) [of "3 * k"] spec(10) [of "3 * k + 1"] spec(10) [of "3 * k + 2"] that by simp
  moreover have "line_compare (vcard s') = 875" by (simp add: line_compare_def spec(11) mode_tables bit_numeral_rec)
  ultimately show ?thesis using spec(1-8) by simp
qed

theorem set_mode_X_ready_witness:
  "\<exists>s'. set_mode_X True True True (Some (\<lambda>_ _ _. None)) (Some (\<lambda>_ _ _. None)) (power_on :: nat modex) = (0, s') \<and> displayed (vcard s') 7 7 = 0"
proof -
  obtain r s' where "set_mode_X True True True (Some (\<lambda>_ _ _. None)) (Some (\<lambda>_ _ _. None)) (power_on :: nat modex) = (r, s')" by (meson prod.exhaust)
  then show ?thesis using set_mode_X_ready by fastforce
qed

text \<open>
  C35: The status bar shows its text: after \<open>text_to_graphics\<close> and \<open>show_status_bar\<close> the first 18 rows of
  the video memory hold the centred message, or the place on the left and the typed command on
  the right, in the dots of the font. Whenever the display starts at address 0 - every other
  screen \<open>show_screen\<close> shows - these rows are also the first ones of the picture.
\<close>

theorem status_bar_shown:
  assumes "mode_x (vcard s)" "length message \<le> 40" "printable_line (status_line message cmd location)"
  shows "\<exists>buf s'. text_to_graphics message cmd location = Some buf \<and> show_status_bar buf s = Some s' \<and> mode_x (vcard s') \<and>
    (\<forall>x < 320. \<forall>y < 18. planes (vcard s') (x mod 4) (y * 80 + x div 4) = ink (status_line message cmd location) x y) \<and>
    (crt_regs (vcard s) 0x0C = 0 \<and> crt_regs (vcard s) 0x0D = 0 \<longrightarrow>
       (\<forall>x < 320. \<forall>y < 18. displayed (vcard s') x y = ink (status_line message cmd location) x y))"
proof -
  obtain buf si sr where b: "text_to_graphics message cmd location = Some buf" "sr 4 = 6"
    "show_status_bar buf s = Some (s\<lparr>vcard := bar_card buf {0..<4} si sr (vcard s)\<rparr>)"
    "\<forall>x < 320. \<forall>y < 18. planes (bar_card buf {0..<4} si sr (vcard s)) (x mod 4) (y * 80 + x div 4) = ink (status_line message cmd location) x y"
    using show_line [OF assms] by blast
  define s' where "s' = s\<lparr>vcard := bar_card buf {0..<4} si sr (vcard s)\<rparr>"
  have "mode_x (vcard s')" "crt_regs (vcard s') = crt_regs (vcard s)" using assms(1) b(2) by (simp_all add: s'_def bar_card_def mode_x_def)
  moreover have "\<forall>x < 320. \<forall>y < 18. planes (vcard s') (x mod 4) (y * 80 + x div 4) = ink (status_line message cmd location) x y"
    using b(4) by (simp add: s'_def)
  ultimately have "mode_x (vcard s')" "\<forall>x < 320. \<forall>y < 18. planes (vcard s') (x mod 4) (y * 80 + x div 4) = ink (status_line message cmd location) x y"
    "crt_regs (vcard s) 0x0C = 0 \<and> crt_regs (vcard s) 0x0D = 0 \<longrightarrow> (\<forall>x < 320. \<forall>y < 18. displayed (vcard s') x y = ink (status_line message cmd location) x y)"
    by (simp_all add: displayed_def mode_x_def)
  then show ?thesis using b(1) b(3) [folded s'_def] by blast
qed

theorem status_bar_shown_witness:
  "\<exists>buf s'. text_to_graphics ''Hello'' [] ''Lab'' = Some buf \<and>
     show_status_bar buf (snd (set_mode_X True True True (Some (\<lambda>_ _ _. None)) (Some (\<lambda>_ _ _. None)) (power_on :: nat modex))) = Some s'"
proof -
  have "mode_x (vcard (snd (set_mode_X True True True (Some (\<lambda>_ _ _. None)) (Some (\<lambda>_ _ _. None)) (power_on :: nat modex))))"
    using set_mode_X_spec(3) [of "\<lambda>_ _ _. None" "\<lambda>_ _ _. None" "power_on :: nat modex"] by (metis page_ok_def prod.collapse)
  moreover have "printable_line (status_line ''Hello'' [] ''Lab'')" by code_simp
  ultimately show ?thesis using status_bar_shown [of _ "''Hello''" "[]" "''Lab''"] by fastforce
qed

end
