(* ===== verification/Input.thy ===== *)
theory Input
  imports Prelude "HOL-Library.Monad_Syntax"
begin

text \<open>
  The keyboard input of \<open>mp2/input.c\<close> (compiled for the keyboard): the line being typed, kept in a
  21 byte array, and \<open>get_command\<close>, which reads every character that is waiting, puts together the
  escape sequences of the arrow and paging keys with a small automaton and edits the line with
  the others. Characters are the bytes 0 to 255 that \<open>getc\<close> delivers.
\<close>

section \<open>Code\<close>

datatype cmd = CMD_NONE | CMD_RIGHT | CMD_LEFT | CMD_UP | CMD_DOWN | CMD_MOVE_LEFT | CMD_ENTER | CMD_MOVE_RIGHT | CMD_TYPED | CMD_QUIT

definition MAX_TYPED_LEN :: nat where "MAX_TYPED_LEN = 20"

record input =
  typing :: string
  fsm :: nat
  command :: cmd

definition get_typed_command :: "input \<Rightarrow> string" where
  "get_typed_command s = takeWhile (\<lambda>c. c \<noteq> CHR 0x00) (typing s)"

definition reset_typed_command :: "input \<Rightarrow> input" where
  "reset_typed_command s = s\<lparr>typing := (typing s)[0 := CHR 0x00]\<rparr>"

definition code :: "char \<Rightarrow> nat" where "code c = of_char c"

definition isalpha :: "char \<Rightarrow> bool" where
  "isalpha c \<longleftrightarrow> 65 \<le> code c \<and> code c \<le> 90 \<or> 97 \<le> code c \<and> code c \<le> 122"

definition isdigit :: "char \<Rightarrow> bool" where "isdigit c \<longleftrightarrow> 48 \<le> code c \<and> code c \<le> 57"

definition valid_typing :: "char \<Rightarrow> bool" where
  "valid_typing c \<longleftrightarrow> isalpha c \<or> isdigit c \<or> c = CHR '' '' \<or> code c = 8 \<or> code c = 127"

definition typed_a_char :: "char \<Rightarrow> input \<Rightarrow> input option" where
  "typed_a_char c s =
     (let len = length (get_typed_command s) in
      if code c = 8 \<or> code c = 127 then
        (if 0 < len then do { t \<leftarrow> store (typing s) (len - 1) CHR 0x00; Some (s\<lparr>typing := t\<rparr>) } else Some s)
      else if MAX_TYPED_LEN > len then
        do { t \<leftarrow> store (typing s) len c; t \<leftarrow> store t (len + 1) CHR 0x00; Some (s\<lparr>typing := t\<rparr>) }
      else Some s)"

text \<open>What every state of the automaton does with a character that is not part of a sequence.\<close>

definition plain_char :: "char \<Rightarrow> input \<times> cmd \<Rightarrow> (input \<times> cmd) option" where
  "plain_char ch = (\<lambda>(s, pushed).
     if valid_typing ch then do { s \<leftarrow> typed_a_char ch s; Some (s, pushed) }
     else if code ch = 10 \<or> code ch = 13 then Some (s, CMD_TYPED) else Some (s, pushed))"

definition fsm_step :: "char \<Rightarrow> input \<times> cmd \<Rightarrow> (input \<times> cmd) option" where
  "fsm_step ch = (\<lambda>(s, pushed).
     if fsm s = 0 then
       (if code ch = 27 then Some (s\<lparr>fsm := 1\<rparr>, pushed) else plain_char ch (s, pushed))
     else if fsm s = 1 then
       (if code ch = 91 then Some (s\<lparr>fsm := 2\<rparr>, pushed) else plain_char ch (s\<lparr>fsm := 0\<rparr>, pushed))
     else if fsm s = 2 then
       (if ch = CHR ''A'' then Some (s\<lparr>fsm := 0\<rparr>, CMD_UP)
        else if ch = CHR ''B'' then Some (s\<lparr>fsm := 0\<rparr>, CMD_DOWN)
        else if ch = CHR ''C'' then Some (s\<lparr>fsm := 0\<rparr>, CMD_RIGHT)
        else if ch = CHR ''D'' then Some (s\<lparr>fsm := 0\<rparr>, CMD_LEFT)
        else if ch = CHR ''2'' then Some (s\<lparr>fsm := 3\<rparr>, CMD_MOVE_LEFT)
        else if ch = CHR ''1'' then Some (s\<lparr>fsm := 3\<rparr>, CMD_ENTER)
        else if ch = CHR ''5'' then Some (s\<lparr>fsm := 3\<rparr>, CMD_MOVE_RIGHT)
        else plain_char ch (s\<lparr>fsm := 0\<rparr>, pushed))
     else if fsm s = 3 then
       (if ch = CHR ''~'' then Some (s\<lparr>fsm := 0\<rparr>, pushed) else plain_char ch (s\<lparr>fsm := 0\<rparr>, pushed))
     else Some (s, pushed))"

text \<open>The loop over the waiting characters; the third component is what is left of them.\<close>

fun read_chars :: "string \<Rightarrow> input \<times> cmd \<Rightarrow> (input \<times> cmd \<times> string) option" where
  "read_chars [] (s, pushed) = Some (if pushed = CMD_NONE then s\<lparr>command := CMD_NONE\<rparr> else s, pushed, [])"
| "read_chars (ch # chs) (s, pushed) =
     (if ch = CHR ''`'' then Some (s, CMD_QUIT, chs)
      else do { x \<leftarrow> fsm_step ch (s, pushed); read_chars chs x })"

definition get_command :: "string \<Rightarrow> input \<Rightarrow> (input \<times> cmd \<times> string) option" where
  "get_command stdin s = read_chars stdin (s, CMD_NONE)"

section \<open>The typed line\<close>

text \<open>The array is a string of at most twenty letters, digits and spaces.\<close>

definition typable :: "char \<Rightarrow> bool" where "typable c \<longleftrightarrow> isalpha c \<or> isdigit c \<or> c = CHR '' ''"

definition input_ok :: "input \<Rightarrow> bool" where
  "input_ok s \<longleftrightarrow> length (typing s) = 21 \<and> length (get_typed_command s) \<le> 20 \<and> list_all typable (get_typed_command s) \<and> fsm s \<le> 3"

definition edit :: "char \<Rightarrow> string \<Rightarrow> string" where
  "edit c line = (if code c = 8 \<or> code c = 127 then butlast line else if length line < 20 then line @ [c] else line)"

lemma typable_not_nul: "typable c \<Longrightarrow> c \<noteq> CHR 0x00"
  by (auto simp: typable_def isalpha_def isdigit_def code_def)

lemma line_of_typed:
  assumes "list_all typable cs"
  shows "takeWhile (\<lambda>c. c \<noteq> CHR 0x00) (cs @ CHR 0x00 # ds) = cs"
  using assms typable_not_nul by (induction cs) auto

lemma typing_split:
  assumes "input_ok s"
  obtains ds where "typing s = get_typed_command s @ CHR 0x00 # ds"
proof -
  let ?l = "get_typed_command s"
  have "length ?l < length (typing s)" using assms by (simp add: input_ok_def)
  then have "dropWhile (\<lambda>c. c \<noteq> CHR 0x00) (typing s) \<noteq> []"
    by (metis get_typed_command_def append_Nil2 less_irrefl takeWhile_dropWhile_id)
  then obtain c ds where d: "dropWhile (\<lambda>c. c \<noteq> CHR 0x00) (typing s) = c # ds" by (cases "dropWhile (\<lambda>c. c \<noteq> CHR 0x00) (typing s)") auto
  then have "c = CHR 0x00" by (metis (mono_tags) hd_dropWhile list.sel(1) list.distinct(1))
  then have "typing s = ?l @ CHR 0x00 # ds" using d takeWhile_dropWhile_id [of "\<lambda>c. c \<noteq> CHR 0x00" "typing s"] by (simp add: get_typed_command_def)
  then show ?thesis by (rule that)
qed

lemma typed_a_char_edit:
  assumes "input_ok s" "valid_typing c"
  shows "\<exists>t. typed_a_char c s = Some (s\<lparr>typing := t\<rparr>) \<and> length t = 21 \<and> get_typed_command (s\<lparr>typing := t\<rparr>) = edit c (get_typed_command s)"
proof -
  let ?l = "get_typed_command s"
  obtain ds where ds: "typing s = ?l @ CHR 0x00 # ds" by (rule typing_split [OF assms(1)])
  have ok: "length (typing s) = 21" "length ?l \<le> 20" "list_all typable ?l" using assms(1) by (auto simp: input_ok_def)
  consider (del) "code c = 8 \<or> code c = 127" "?l \<noteq> []" | (noop) "code c = 8 \<or> code c = 127" "?l = []"
    | (add) "\<not> (code c = 8 \<or> code c = 127)" "length ?l < 20" | (full) "\<not> (code c = 8 \<or> code c = 127)" "length ?l = 20"
    using ok(2) by force
  then show ?thesis
  proof cases
    case del
    define l z where "l = butlast ?l" "z = last ?l"
    have l: "?l = l @ [z]" using del(2) by (simp add: l_z_def)
    let ?t = "l @ CHR 0x00 # CHR 0x00 # ds"
    have "(typing s)[length l := CHR 0x00] = ?t" by (subst ds) (simp add: l)
    then have "typed_a_char c s = Some (s\<lparr>typing := ?t\<rparr>)"
      using del ok(1) ds unfolding typed_a_char_def Let_def l by (simp add: store_def)
    moreover have "get_typed_command (s\<lparr>typing := ?t\<rparr>) = l" using line_of_typed [of l "CHR 0x00 # ds"] ok(3) l by (simp add: get_typed_command_def)
    moreover have "length ?t = 21" using ok(1) ds l by simp
    ultimately show ?thesis using del by (intro exI [of _ ?t]) (simp add: edit_def l_z_def)
  next
    case noop
    then have "typed_a_char c s = Some (s\<lparr>typing := typing s\<rparr>)" by (simp add: typed_a_char_def)
    then show ?thesis using noop ok(1) by (intro exI [of _ "typing s"]) (auto simp: edit_def)
  next
    case add
    obtain d es where es: "ds = d # es" using ok(1) ds add(2) by (cases ds) auto
    let ?t = "?l @ c # CHR 0x00 # es"
    have "typing s = ?l @ CHR 0x00 # d # es" using ds es by simp
    then have "(typing s)[length ?l := c, Suc (length ?l) := CHR 0x00] = ?t" by (metis list_update_append1 list_update_length append_Cons append_Nil append_assoc length_append_singleton)
    then have "typed_a_char c s = Some (s\<lparr>typing := ?t\<rparr>)"
      using add ok(1) by (simp add: typed_a_char_def Let_def store_def MAX_TYPED_LEN_def)
    moreover have "typable c" using assms(2) add(1) by (auto simp: valid_typing_def typable_def)
    then have "get_typed_command (s\<lparr>typing := ?t\<rparr>) = ?l @ [c]" using line_of_typed [of "?l @ [c]" es] ok(3) by (simp add: get_typed_command_def)
    moreover have "length ?t = 21" using ok(1) ds es by (metis length_append length_Cons)
    ultimately show ?thesis using add by (intro exI [of _ ?t]) (simp add: edit_def)
  next
    case full
    then have "typed_a_char c s = Some (s\<lparr>typing := typing s\<rparr>)" by (simp add: typed_a_char_def MAX_TYPED_LEN_def)
    then show ?thesis using full ok(1) by (intro exI [of _ "typing s"]) (simp add: edit_def)
  qed
qed

lemma edit_ok: "length line \<le> 20 \<Longrightarrow> list_all typable line \<Longrightarrow> valid_typing c \<Longrightarrow> length (edit c line) \<le> 20 \<and> list_all typable (edit c line)"
  by (auto simp: edit_def valid_typing_def typable_def list_all_iff dest: in_set_butlastD)

text \<open>A character outside a sequence: the line is edited, or the line is entered, or nothing happens.\<close>

definition press_plain :: "char \<Rightarrow> string \<times> cmd \<Rightarrow> string \<times> cmd" where
  "press_plain ch = (\<lambda>(line, pushed).
     if valid_typing ch then (edit ch line, pushed) else if code ch = 10 \<or> code ch = 13 then (line, CMD_TYPED) else (line, pushed))"

definition in_state :: "nat \<Rightarrow> input \<Rightarrow> string \<Rightarrow> bool" where
  "in_state n s line \<longleftrightarrow> input_ok s \<and> fsm s = n \<and> get_typed_command s = line"

lemma in_state_fsm: "in_state n s line \<Longrightarrow> m \<le> 3 \<Longrightarrow> in_state m (s\<lparr>fsm := m\<rparr>) line"
  by (auto simp: in_state_def input_ok_def get_typed_command_def)

lemma plain_char_press:
  assumes "in_state n s line"
  shows "\<exists>s'. plain_char ch (s, pushed) = Some (s', snd (press_plain ch (line, pushed))) \<and> in_state n s' (fst (press_plain ch (line, pushed)))"
proof (cases "valid_typing ch")
  case True
  then obtain t where t: "typed_a_char ch s = Some (s\<lparr>typing := t\<rparr>)" "length t = 21" "get_typed_command (s\<lparr>typing := t\<rparr>) = edit ch line"
    using typed_a_char_edit [of s ch] assms by (auto simp: in_state_def)
  moreover have "input_ok (s\<lparr>typing := t\<rparr>)" using assms t True edit_ok [of line ch] by (auto simp: in_state_def input_ok_def)
  ultimately show ?thesis using True assms by (auto simp: plain_char_def press_plain_def in_state_def)
qed (use assms in \<open>auto simp: plain_char_def press_plain_def\<close>)

lemma fsm_step_ok:
  assumes "input_ok s"
  shows "\<exists>s' pushed'. fsm_step ch (s, pushed) = Some (s', pushed') \<and> input_ok s'"
proof -
  have st: "in_state (fsm s) s (get_typed_command s)" using assms by (simp add: in_state_def)
  define good where "good x \<longleftrightarrow> (\<exists>s' pushed'. x = Some (s', pushed') \<and> input_ok s')" for x :: "(input \<times> cmd) option"
  have g: "good (plain_char ch (s, pushed))" "good (plain_char ch (s\<lparr>fsm := 0\<rparr>, pushed))"
    using plain_char_press [OF st] plain_char_press [OF in_state_fsm [OF st le0]] unfolding in_state_def good_def by blast+
  have f: "good (Some (s\<lparr>fsm := m\<rparr>, c))" if "m \<le> 3" for m c using in_state_fsm [OF st that] by (simp add: in_state_def good_def)
  have o: "good (Some (s, c))" for c using assms by (simp add: good_def)
  have i: "good x \<Longrightarrow> good y \<Longrightarrow> good (if b then x else y)" for b x y by simp
  have "good (fsm_step ch (s, pushed))" unfolding fsm_step_def prod.case by (intro i g f o) simp_all
  then show ?thesis by (simp add: good_def)
qed

lemma read_chars_ok:
  assumes "input_ok s"
  shows "\<exists>s' pushed' rest. read_chars chs (s, pushed) = Some (s', pushed', rest) \<and> input_ok s'"
  using assms
proof (induction chs arbitrary: s pushed)
  case Nil
  then show ?case by (auto simp: input_ok_def get_typed_command_def)
next
  case (Cons ch chs)
  obtain s1 p1 where "fsm_step ch (s, pushed) = Some (s1, p1)" "input_ok s1" using fsm_step_ok [OF Cons.prems] by blast
  then show ?case using Cons by auto
qed

lemma get_command_ok: "input_ok s \<Longrightarrow> \<exists>s' c rest. get_command chs s = Some (s', c, rest) \<and> input_ok s'"
  unfolding get_command_def by (rule read_chars_ok)

section \<open>Keys\<close>

datatype key = Letter char | Erase | Return | Up | Down | Right | Left | Insert | Home | PageUp

fun key_codes :: "key \<Rightarrow> string" where
  "key_codes (Letter c) = [c]"
| "key_codes Erase = [CHR 0x7F]"
| "key_codes Return = [CHR 0x0A]"
| "key_codes Up = [CHR 0x1B, CHR ''['', CHR ''A'']"
| "key_codes Down = [CHR 0x1B, CHR ''['', CHR ''B'']"
| "key_codes Right = [CHR 0x1B, CHR ''['', CHR ''C'']"
| "key_codes Left = [CHR 0x1B, CHR ''['', CHR ''D'']"
| "key_codes Insert = [CHR 0x1B, CHR ''['', CHR ''2'', CHR ''~'']"
| "key_codes Home = [CHR 0x1B, CHR ''['', CHR ''1'', CHR ''~'']"
| "key_codes PageUp = [CHR 0x1B, CHR ''['', CHR ''5'', CHR ''~'']"

text \<open>What a key means: it edits the line or asks for a command; the last command wins.\<close>

fun press :: "key \<Rightarrow> string \<times> cmd \<Rightarrow> string \<times> cmd" where
  "press (Letter c) (line, pushed) = (if length line < 20 then line @ [c] else line, pushed)"
| "press Erase (line, pushed) = (butlast line, pushed)"
| "press Return (line, pushed) = (line, CMD_TYPED)"
| "press Up (line, pushed) = (line, CMD_UP)"
| "press Down (line, pushed) = (line, CMD_DOWN)"
| "press Right (line, pushed) = (line, CMD_RIGHT)"
| "press Left (line, pushed) = (line, CMD_LEFT)"
| "press Insert (line, pushed) = (line, CMD_MOVE_LEFT)"
| "press Home (line, pushed) = (line, CMD_ENTER)"
| "press PageUp (line, pushed) = (line, CMD_MOVE_RIGHT)"

fun key_ok :: "key \<Rightarrow> bool" where
  "key_ok (Letter c) = typable c"
| "key_ok _ = True"

lemma read_chars_key:
  assumes "in_state 0 s line" "key_ok k"
  shows "\<exists>s'. read_chars (key_codes k @ chs) (s, pushed) = read_chars chs (s', snd (press k (line, pushed))) \<and> in_state 0 s' (fst (press k (line, pushed)))"
proof -
  have plain: "\<exists>s'. read_chars (ch # chs) (s, pushed) = read_chars chs (s', snd (press_plain ch (line, pushed))) \<and> in_state 0 s' (fst (press_plain ch (line, pushed)))"
    if "ch \<noteq> CHR ''`''" "code ch \<noteq> 27" for ch
    using plain_char_press [OF assms(1), of ch pushed] that assms(1) by (auto simp: fsm_step_def in_state_def)
  have seq: "in_state 0 (s\<lparr>fsm := 0\<rparr>) line" using assms(1) by (rule in_state_fsm) simp
  have f: "fsm s = 0" using assms(1) by (simp add: in_state_def)
  show ?thesis
  proof (cases k)
    case (Letter c)
    then have "typable c" using assms(2) by simp
    then have c: "c \<noteq> CHR ''`''" "code c \<noteq> 27" "code c \<noteq> 8" "code c \<noteq> 127" "valid_typing c"
      by (auto simp: typable_def isalpha_def isdigit_def code_def valid_typing_def)
    then show ?thesis using plain [of c] Letter by (simp add: press_plain_def edit_def)
  next
    case Erase
    then show ?thesis using plain [of "CHR 0x7F"] by (simp add: press_plain_def edit_def code_def valid_typing_def)
  next
    case Return
    then show ?thesis using plain [of "CHR 0x0A"] by (simp add: press_plain_def code_def valid_typing_def isalpha_def isdigit_def)
  qed (use seq f in \<open>auto simp: fsm_step_def code_def\<close>)
qed

text \<open>
  C36: The keys are told apart: from the characters that a sequence of keys delivers - letters, erase,
  return, arrows and the three paging keys with their escape sequences - \<open>get_command\<close> recovers the
  edited line, of at most twenty characters and never outside its array, and the last command.
\<close>

theorem get_command_keys:
  assumes "input_ok s" "fsm s = 0" "list_all key_ok ks"
  shows "\<exists>s'. get_command (concat (map key_codes ks)) s = Some (s', snd (fold press ks (get_typed_command s, CMD_NONE)), []) \<and>
    get_typed_command s' = fst (fold press ks (get_typed_command s, CMD_NONE)) \<and> input_ok s' \<and> fsm s' = 0"
proof -
  have "in_state 0 s (get_typed_command s)" using assms(1,2) by (simp add: in_state_def)
  then have "\<exists>s'. read_chars (concat (map key_codes ks)) (s, pushed) = Some (s', snd (fold press ks (get_typed_command s, pushed)), []) \<and>
      in_state 0 s' (fst (fold press ks (get_typed_command s, pushed)))" for pushed
    using assms(3)
  proof (induction ks arbitrary: s pushed)
    case Nil
    then show ?case by (auto simp: in_state_def input_ok_def get_typed_command_def)
  next
    case (Cons k ks)
    obtain s1 where s1: "read_chars (key_codes k @ concat (map key_codes ks)) (s, pushed) =
        read_chars (concat (map key_codes ks)) (s1, snd (press k (get_typed_command s, pushed)))" "in_state 0 s1 (fst (press k (get_typed_command s, pushed)))"
      using read_chars_key [OF Cons.prems(1), of k "concat (map key_codes ks)" pushed] Cons.prems(2) by auto
    have l: "get_typed_command s1 = fst (press k (get_typed_command s, pushed))" using s1(2) by (simp add: in_state_def)
    show ?case using Cons.IH [of s1 "snd (press k (get_typed_command s, pushed))"] s1 Cons.prems(2) by (simp add: l)
  qed
  then show ?thesis unfolding get_command_def in_state_def by blast
qed

definition fresh_input :: input where
  "fresh_input = \<lparr>typing = replicate 21 CHR 0x00, fsm = 0, command = CMD_NONE\<rparr>"

lemma fresh_input_ok: "input_ok fresh_input" "fsm fresh_input = 0" "get_typed_command fresh_input = []"
  by (simp_all add: fresh_input_def input_ok_def get_typed_command_def numeral_eq_Suc)

theorem get_command_keys_witness:
  "\<exists>s'. get_command (concat (map key_codes [Letter CHR ''g'', Letter CHR ''x'', Erase, Letter CHR ''o'', Up, Return])) fresh_input = Some (s', CMD_TYPED, []) \<and>
     get_typed_command s' = ''go''"
proof -
  have "list_all key_ok [Letter CHR ''g'', Letter CHR ''x'', Erase, Letter CHR ''o'', Up, Return]"
    by (simp add: typable_def isalpha_def isdigit_def code_def)
  from get_command_keys [OF fresh_input_ok(1,2) this] show ?thesis by (simp only: fresh_input_ok(3)) auto
qed

end
