(* ===== verification/Redraw.thy ===== *)
theory Redraw
  imports Quest RoomView
begin

text \<open>
  What the actions of the player do to the picture of the room. An action that changes a room's
  photo, the objects in it or the room the player is in says so in its result
  (\<open>TC_REDRAW_ROOM\<close>, \<open>TC_CHANGE_ROOM\<close>), so the main loop knows when to draw; photos change only with
  \<open>TC_CHANGE_ROOM\<close>, after which the window is moved back to the origin; and all of them keep
  the pictures in order: photos that fill the screen, images with all their pixels, printable
  messages and names.
\<close>

section \<open>Pictures in order\<close>

definition wide :: "photo \<Rightarrow> bool" where
  "wide v \<longleftrightarrow> photo_ok v \<and> 320 \<le> view_w v \<and> 200 \<le> view_h v"

primrec ascii :: "string \<Rightarrow> bool" where
  "ascii [] = True"
| "ascii (c # cs) = (\<not> digit7 c \<and> ascii cs)"

lemma ascii_code: "ascii cs \<Longrightarrow> c \<in> set cs \<Longrightarrow> of_char c < (128 :: nat)"
proof (induction cs)
  case (Cons d cs)
  have "of_char c < (128 :: nat)" if "\<not> digit7 c" using that by (cases c) (auto simp: of_char_def)
  then show ?case using Cons by auto
qed simp

lemma ascii_take: "ascii cs \<Longrightarrow> ascii (take n cs)"
  by (induction cs arbitrary: n) (auto simp: take_Cons split: nat.splits)

definition pics :: "game \<Rightarrow> bool" where
  "pics g \<longleftrightarrow>
     (\<forall>r. \<exists>v. view (room g r) = Some v \<and> wide v) \<and> (\<forall>ob. \<exists>im. img (object g ob) = Some im \<and> image_ok im)
     \<and> (\<forall>w. \<exists>v. swap_photo g w = Some v \<and> wide v) \<and> (\<forall>r. \<exists>n. rname (room g r) = Some n \<and> ascii n)
     \<and> ascii (status_msg g) \<and> length (status_msg g) \<le> 40"

lemma pics_base: "pics g \<Longrightarrow> same_base g g' \<Longrightarrow> pics g'"
  by (simp add: pics_def same_base_def)

lemma pics_cong:
  assumes "pics g" "room g' = room g" "object g' = object g" "swap_photo g' = swap_photo g" "status_msg g' = status_msg g"
  shows "pics g'"
  using assms by (simp add: pics_def)

lemma pics_status: "pics g \<Longrightarrow> ascii msg \<Longrightarrow> pics (show_status msg g)"
  by (simp add: pics_def show_status_def STATUS_MSG_LEN_def ascii_take)

lemma pics_flag: "pics g \<Longrightarrow> pics (player_set_flag f g)"
  by (erule pics_cong) (simp_all add: player_set_flag_def Let_def)

lemma pics_rand: "pics g \<Longrightarrow> pics (snd (rand g))"
  by (erule pics_cong) (simp_all add: rand_def)

lemma pics_swap: "pics g \<Longrightarrow> pics (do_photo_swap r w g)"
  by (simp add: pics_def do_photo_swap_def Let_def)

lemma pics_enter: "pics g \<Longrightarrow> pics (upd_room q (\<lambda>x. x\<lparr>enter := e\<rparr>) g)"
  by (simp add: pics_def)

definition views :: "game \<Rightarrow> room_id \<Rightarrow> photo option" where "views g r = view (room g r)"

lemma views_simps [simp]:
  "views (show_status m g) = views g" "views (player_set_flag f g) = views g"
  "views (upd_room q (\<lambda>x. x\<lparr>enter := e\<rparr>) g) = views g"
  by (simp_all add: views_def fun_eq_iff player_set_flag_def Let_def show_status_def)

lemma views_base: "same_base g g' \<Longrightarrow> views g' = views g"
  by (simp add: views_def same_base_def fun_eq_iff)

lemma pics_circle: "pics g \<Longrightarrow> pics (enter_circle r g)"
  using pics_rand pics_swap by (auto simp: enter_circle_def case_prod_unfold Let_def)

lemmas pics_intros = pics_status pics_flag pics_rand pics_swap pics_enter pics_circle

section \<open>The list operations keep them\<close>

lemma unlink_base: "unlink ob l g = Some g' \<Longrightarrow> same_base g g'"
  by (erule unlink.raw_induct [where P = "\<lambda>ob l g g'. same_base g g'", rotated])
    (auto split: option.splits if_splits simp: same_base_set_link)

lemma remove_object_base: "remove_object ob g = Some g' \<Longrightarrow> same_base g g'"
  by (auto simp: remove_object_def same_base_def dest!: unlink_base split: option.splits)

lemma insert_object_at_base: "insert_object_at ob r x y g = Some g' \<Longrightarrow> same_base g g'"
  by (auto simp: insert_object_at_def Let_def same_base_def bind_eq_Some_conv dest!: remove_object_base)

lemma rand_below_base: "same_base g (snd (rand_below k g))"
  by (simp add: same_base_def)

lemma insert_object_base:
  assumes "insert_object ob r g = Some g'"
  shows "same_base g g'"
proof -
  obtain x y k l where "insert_object_at ob r x y (snd (rand_below k (snd (rand_below l g)))) = Some g'"
    using assms by (auto simp: insert_object_def bind_eq_Some_conv case_prod_unfold Let_def split: if_splits)
  then show ?thesis by (rule same_base_trans [OF same_base_trans [OF rand_below_base rand_below_base] insert_object_at_base])
qed

lemma move_to_inventory_base: "move_object_to_inventory ob g = Some g' \<Longrightarrow> same_base g g'"
proof -
  have "place_on_grid ps ob g = Some g' \<Longrightarrow> same_base g g'" for ps
    by (induction ps) (auto simp: bind_eq_Some_conv split: if_splits dest: insert_object_base insert_object_at_base)
  then show "move_object_to_inventory ob g = Some g' \<Longrightarrow> same_base g g'" by (simp add: move_object_to_inventory_def)
qed

section \<open>Results tell what to draw\<close>

text \<open>\<open>told g r out\<close>: with the results that draw nothing the player stays and rooms and objects are as in \<open>g\<close>;
  only a change of the room changes photos.\<close>

definition told :: "game \<Rightarrow> room_id \<Rightarrow> outcome \<Rightarrow> bool" where
  "told g0 r out \<longleftrightarrow>
     (\<forall>act r' g'. out = Some (act, r', g') \<longrightarrow> pics g' \<and> (act = TC_CHANGE_ROOM \<or> r' = Some r \<and> views g' = views g0) \<and>
        (act = TC_CHANGE_ROOM \<or> act = TC_REDRAW_ROOM \<or> room g' = room g0 \<and> object g' = object g0))"

lemma told_quiet:
  "pics g \<Longrightarrow> ascii msg \<Longrightarrow> room g = room g0 \<Longrightarrow> object g = object g0 \<Longrightarrow> told g0 r (say TC_ALLOW_EDIT msg r g)"
  "pics g \<Longrightarrow> ascii msg \<Longrightarrow> room g = room g0 \<Longrightarrow> object g = object g0 \<Longrightarrow> told g0 r (say TC_DISCARD_TEXT msg r g)"
  "pics g \<Longrightarrow> room g = room g0 \<Longrightarrow> object g = object g0 \<Longrightarrow> told g0 r (Some (TC_DISCARD_TEXT, Some r, g))"
  by (simp_all add: told_def say_def pics_status) (simp_all add: views_def fun_eq_iff)

lemma told_redraw:
  "pics g \<Longrightarrow> ascii msg \<Longrightarrow> views g = views g0 \<Longrightarrow> told g0 r (say TC_REDRAW_ROOM msg r g)"
  "pics g \<Longrightarrow> views g = views g0 \<Longrightarrow> told g0 r (Some (TC_REDRAW_ROOM, Some r, g))"
  "pics g \<Longrightarrow> ascii msg \<Longrightarrow> told g0 r (say TC_CHANGE_ROOM msg q g)" "pics g \<Longrightarrow> told g0 r (Some (TC_CHANGE_ROOM, q', g))"
  by (simp_all add: told_def say_def pics_status)

lemma told_step: "(\<And>g'. m = Some g' \<Longrightarrow> told g0 r (f g')) \<Longrightarrow> told g0 r (m \<bind> f)"
  by (cases m) (auto simp: told_def)

lemma told_bind:
  assumes "pics g" "\<And>g'. pics g' \<Longrightarrow> views g' = views g \<Longrightarrow> told g0 r (f g')"
  shows "told g0 r (remove_object ob g \<bind> f)" "told g0 r (insert_object ob q g \<bind> f)" "told g0 r (insert_object_at ob q x y g \<bind> f)"
    "told g0 r (move_object_to_inventory ob g \<bind> f)"
  using assms pics_base remove_object_base insert_object_base insert_object_at_base move_to_inventory_base
  by (metis told_step views_base)+

lemma told_if: "told g0 r x \<Longrightarrow> told g0 r y \<Longrightarrow> told g0 r (if b then x else y)"
  by simp

lemma pics_if: "pics x \<Longrightarrow> pics y \<Longrightarrow> pics (if b then x else y)" "ascii m \<Longrightarrow> ascii n \<Longrightarrow> ascii (if b then m else n)"
  by simp_all

lemma told_case: "told g0 r x \<Longrightarrow> (\<And>q. e = Some q \<Longrightarrow> told g0 r (y q)) \<Longrightarrow> told g0 r (case e of None \<Rightarrow> x | Some q \<Rightarrow> y q)"
  by (cases e) simp_all

lemmas tolds = told_quiet told_redraw told_bind told_if told_case pics_intros pics_if

lemma told_moves:
  assumes "pics g"
  shows "told g r (try_to_move_left r g)" "told g r (try_to_move_right r g)" "told g r (try_to_enter r g)"
proof -
  show "told g r (try_to_move_left r g)" "told g r (try_to_move_right r g)"
    using assms unfolding try_to_move_left_def try_to_move_right_def by (intro tolds; simp)+
  have "ascii (advice ! (v mod 8))" for v
  proof -
    have "\<forall>k < 8. ascii (advice ! k)" by code_simp
    then show ?thesis by simp
  qed
  moreover have "room (snd (rand g)) = room g" "object (snd (rand g)) = object g" by (simp_all add: rand_def)
  ultimately show "told g r (try_to_enter r g)"
    using assms unfolding try_to_enter_def case_prod_unfold Let_def by (intro tolds) simp_all
qed

lemma told_buy: "pics g \<Longrightarrow> told g r (typed_cmd_buy r arg g)"
  unfolding typed_cmd_buy_def Let_def by (intro tolds) simp_all

lemma told_charge: "pics g \<Longrightarrow> told g r (typed_cmd_charge r arg g)"
  unfolding typed_cmd_charge_def by (intro tolds) simp_all

lemma told_do: "pics g \<Longrightarrow> told g r (typed_cmd_do r arg g)"
  unfolding typed_cmd_do_def by (intro tolds) simp_all

lemma told_drink: "pics g \<Longrightarrow> told g r (typed_cmd_drink r arg g)"
  unfolding typed_cmd_drink_def by (intro tolds) simp_all

lemma told_fix: "pics g \<Longrightarrow> told g r (typed_cmd_fix r arg g)"
  unfolding typed_cmd_fix_def by (intro tolds) simp_all

lemma told_flash: "pics g \<Longrightarrow> told g r (typed_cmd_flash r arg g)"
  unfolding typed_cmd_flash_def by (intro tolds) simp_all

lemma told_go: "pics g \<Longrightarrow> told g r (typed_cmd_go r arg g)"
  unfolding typed_cmd_go_def car_state_def by (intro tolds) simp_all

lemma told_install: "pics g \<Longrightarrow> told g r (typed_cmd_install r arg g)"
  unfolding typed_cmd_install_def by (intro tolds) simp_all

lemma told_inventory: "pics g \<Longrightarrow> told g r (typed_cmd_inventory r arg g)"
  unfolding typed_cmd_inventory_def by (intro tolds) simp_all

lemma told_sigh: "pics g \<Longrightarrow> told g r (typed_cmd_sigh r arg g)"
  unfolding typed_cmd_sigh_def by (intro tolds) simp_all

lemma told_use: "pics g \<Longrightarrow> told g r (typed_cmd_use r arg g)"
  unfolding typed_cmd_use_def by (intro tolds) simp_all

lemma told_wear: "pics g \<Longrightarrow> told g r (typed_cmd_wear r arg g)"
  unfolding typed_cmd_wear_def by (intro tolds) simp_all

lemma told_drop: "pics g \<Longrightarrow> told g r (typed_cmd_drop r arg g)"
  unfolding typed_cmd_drop_def Let_def
  by (rule told_step, rule told_case, intro tolds; (simp; fail)?) (rule told_step, intro tolds; simp)

lemma special_get:
  assumes "obj_special_get src arg g = Some (sp, g')" "pics g"
  shows "pics g'" "sp = None \<Longrightarrow> g' = g" "sp \<noteq> Some O_TUX" "views g' = views g"
  using assms pics_base [OF _ remove_object_base] views_base [OF remove_object_base]
  by (auto simp: obj_special_get_def intro!: pics_intros split: if_splits)

lemma told_get: "pics g \<Longrightarrow> told g r (typed_cmd_get r arg g)"
  unfolding typed_cmd_get_def
proof (rule told_step, rule told_step, clarify)
  fix src sp g'
  assume g: "pics g" and sp: "obj_special_get src arg g = Some (sp, g')"
  note spec = special_get [OF sp g]
  show "told g r (do { found \<leftarrow> (case sp of Some ob \<Rightarrow> Some (Some ob) | None \<Rightarrow> find_in_room src arg g');
          case found of
            None \<Rightarrow> say TC_ALLOW_EDIT ''You see no such thing here.'' r g'
          | Some ob \<Rightarrow>
              if ob = O_TUX \<and> \<not> player_flag_is_set FLAG_LURED_TUX g'
              then say TC_DISCARD_TEXT ''Tux must choose you!  Try using a fish.'' r g'
              else do { g \<leftarrow> move_object_to_inventory ob g'; Some (TC_REDRAW_ROOM, Some r, g) } })"
  proof (cases sp)
    case None
    then show ?thesis using spec g by (intro told_step) (intro tolds; simp)
  next
    case (Some ob)
    have "told g r (do { g \<leftarrow> move_object_to_inventory ob g'; Some (TC_REDRAW_ROOM, Some r, g) })" using spec(1,4) by (intro tolds; simp)
    then show ?thesis using Some spec(3) by simp
  qed
qed

text \<open>
  The main loop is told what to draw: an action whose result neither redraws nor changes the room
  leaves the player in place and every room and object as it was, and the photos change only
  when the room does.
\<close>

lemma step_told: "pics g \<Longrightarrow> told g r (step x r g)"
proof (cases x)
  case (Typed c arg)
  assume "pics g"
  then show ?thesis
    using Typed by (cases c) (simp_all only: step.simps run_cmd.simps told_buy told_charge told_do told_drink told_drop told_fix told_flash told_get
        told_go told_install told_inventory told_sigh told_use told_wear)
qed (use told_moves in simp_all)

end
