(* ===== verification/Adventure.thy ===== *)
theory Adventure
  imports Redraw ModeSet Input Play
begin

text \<open>
  The game of \<open>mp2/adventure.c\<close>: the typed commands and their abbreviations, scrolling, the clock and
  one round of the main loop, on top of the world, the display and the keyboard. The variables
  of the file and those of the modules it uses are one state; the callbacks of the display see
  the current room and the world.
\<close>

section \<open>Typed commands\<close>

datatype typed_cmd = TypedCmd (tc_name: string) (tc_min_len: nat) (tc_cmd: cmd_id)

definition cmd_list :: "typed_cmd list" where
  "cmd_list = [
     TypedCmd ''buy'' 3 TC_BUY,
     TypedCmd ''charge'' 2 TC_CHARGE,
     TypedCmd ''do'' 2 TC_DO,
     TypedCmd ''drink'' 3 TC_DRINK,
     TypedCmd ''drop'' 2 TC_DROP,
     TypedCmd ''fix'' 3 TC_FIX,
     TypedCmd ''flash'' 5 TC_FLASH,
     TypedCmd ''get'' 1 TC_GET,
     TypedCmd ''go'' 2 TC_GO,
     TypedCmd ''grab'' 2 TC_GET,
     TypedCmd ''install'' 3 TC_INSTALL,
     TypedCmd ''inventory'' 1 TC_INVENTORY,
     TypedCmd ''sigh'' 4 TC_SIGH,
     TypedCmd ''use'' 3 TC_USE,
     TypedCmd ''wear'' 4 TC_WEAR]"

text \<open>\<open>0 == strncasecmp (name, verb, strlen (verb))\<close> for a verb without NUL.\<close>

definition strncaseeq :: "string \<Rightarrow> string \<Rightarrow> bool" where
  "strncaseeq name verb \<longleftrightarrow> length verb \<le> length name \<and> strcaseeq (take (length verb) name) verb"

definition skip_blanks :: "string \<Rightarrow> string" where "skip_blanks cs = dropWhile (\<lambda>c. c = CHR '' '') cs"

text \<open>The verb and its argument; \<open>None\<close> for an empty line.\<close>

definition split_command :: "string \<Rightarrow> (string \<times> string) option" where
  "split_command typed =
     (let cmd = skip_blanks typed in
      if cmd = [] then None
      else let verb = takeWhile (\<lambda>c. c \<noteq> CHR '' '') cmd in Some (verb, skip_blanks (drop (length verb) cmd)))"

definition find_command :: "string \<Rightarrow> cmd_id option" where
  "find_command verb = map_option tc_cmd (find (\<lambda>t. tc_min_len t \<le> length verb \<and> strncaseeq (tc_name t) verb) cmd_list)"

section \<open>State\<close>

record adventure =
  place :: "room_id option"
  map_x :: u32
  map_y :: u32
  x_speed :: int
  y_speed :: int
  cur_room :: "room_id option"
  world :: game
  screen :: "(room_id option \<times> game) modex"
  inp :: input
  enter_room :: bool

definition MOTION_SPEED :: int where "MOTION_SPEED = 2"

text \<open>The callbacks as the display calls them.\<close>

definition horiz_callback :: "room_id option \<times> game \<Rightarrow> int \<Rightarrow> int \<Rightarrow> u8 list option" where
  "horiz_callback w x y = (case fst w of None \<Rightarrow> None | Some r \<Rightarrow> fill_horiz_buffer r (snd w) x y)"

definition vert_callback :: "room_id option \<times> game \<Rightarrow> int \<Rightarrow> int \<Rightarrow> u8 list option" where
  "vert_callback w x y = (case fst w of None \<Rightarrow> None | Some r \<Rightarrow> fill_vert_buffer r (snd w) x y)"

definition scene_of :: "adventure \<Rightarrow> room_id option \<times> game" where "scene_of s = (cur_room s, world s)"

definition prep_room :: "room_id option \<Rightarrow> adventure \<Rightarrow> adventure" where
  "prep_room r s = s\<lparr>cur_room := r\<rparr>"

definition init_game :: "adventure \<Rightarrow> adventure" where
  "init_game s = s\<lparr>place := Some start_in_room, map_x := 0, map_y := 0, x_speed := MOTION_SPEED, y_speed := MOTION_SPEED\<rparr>"

section \<open>Drawing\<close>

definition draw_row :: "adventure \<Rightarrow> int \<Rightarrow> (room_id option \<times> game) modex \<Rightarrow> (room_id option \<times> game) modex option" where
  "draw_row s y m = map_option snd (draw_horiz_line (scene_of s) y m)"

definition draw_column :: "adventure \<Rightarrow> int \<Rightarrow> (room_id option \<times> game) modex \<Rightarrow> (room_id option \<times> game) modex option" where
  "draw_column s x m = map_option snd (draw_vert_line (scene_of s) x m)"

definition redraw_room :: "adventure \<Rightarrow> adventure option" where
  "redraw_room s = map_option (\<lambda>m. s\<lparr>screen := m\<rparr>) (for_each (draw_row s) [0..SCROLL_Y_DIM - 1] (screen s))"

definition view_at_map :: "adventure \<Rightarrow> adventure option" where
  "view_at_map s = map_option (\<lambda>m. s\<lparr>screen := m\<rparr>) (set_view_window (sint (map_x s)) (sint (map_y s)) (screen s))"

definition move_photo_down :: "adventure \<Rightarrow> adventure option" where
  "move_photo_down s =
     (let delta = (if word_of_int (y_speed s) > map_y s then sint (map_y s) else y_speed s)
      in do { s \<leftarrow> view_at_map (s\<lparr>map_y := map_y s - word_of_int delta\<rparr>);
              m \<leftarrow> for_each (draw_row s) [0..delta - 1] (screen s);
              Some (s\<lparr>screen := m\<rparr>) })"

definition move_photo_left :: "adventure \<Rightarrow> adventure option" where
  "move_photo_left s =
     do { r \<leftarrow> place s;
          w \<leftarrow> room_photo_width r (world s);
          let delta = sint (w - word_of_int SCROLL_X_DIM - map_x s);
          let delta = (if x_speed s > delta then delta else x_speed s);
          s \<leftarrow> view_at_map (s\<lparr>map_x := map_x s + word_of_int delta\<rparr>);
          m \<leftarrow> for_each (\<lambda>idx. draw_column s (SCROLL_X_DIM - idx)) [1..delta] (screen s);
          Some (s\<lparr>screen := m\<rparr>) }"

definition move_photo_right :: "adventure \<Rightarrow> adventure option" where
  "move_photo_right s =
     (let delta = (if word_of_int (x_speed s) > map_x s then sint (map_x s) else x_speed s)
      in do { s \<leftarrow> view_at_map (s\<lparr>map_x := map_x s - word_of_int delta\<rparr>);
              m \<leftarrow> for_each (draw_column s) [0..delta - 1] (screen s);
              Some (s\<lparr>screen := m\<rparr>) })"

definition move_photo_up :: "adventure \<Rightarrow> adventure option" where
  "move_photo_up s =
     do { r \<leftarrow> place s;
          h \<leftarrow> room_photo_height r (world s);
          let delta = sint (h - word_of_int SCROLL_Y_DIM - map_y s);
          let delta = (if y_speed s > delta then delta else y_speed s);
          s \<leftarrow> view_at_map (s\<lparr>map_y := map_y s + word_of_int delta\<rparr>);
          m \<leftarrow> for_each (\<lambda>idx. draw_row s (SCROLL_Y_DIM - idx)) [1..delta] (screen s);
          Some (s\<lparr>screen := m\<rparr>) }"

section \<open>Commands\<close>

text \<open>\<open>drop\<close> and \<open>get\<close> also set the speeds of scrolling.\<close>

definition drop_speed :: "adventure \<Rightarrow> adventure" where
  "drop_speed s =
     (let s = (if \<not> player_has_board (world s) then s\<lparr>x_speed := MOTION_SPEED\<rparr> else s)
      in if \<not> player_has_jetpack (world s) then s\<lparr>y_speed := MOTION_SPEED\<rparr> else s)"

definition get_speed :: "adventure \<Rightarrow> adventure" where
  "get_speed s =
     (let s = (if player_has_board (world s) then s\<lparr>x_speed := MOTION_SPEED * 3\<rparr> else s)
      in if player_has_jetpack (world s) then s\<lparr>y_speed := MOTION_SPEED * 3\<rparr> else s)"

definition adjust_speed :: "cmd_id \<Rightarrow> adventure \<Rightarrow> adventure" where
  "adjust_speed c s = (if c = TC_DROP then drop_speed s else if c = TC_GET then get_speed s else s)"

definition handle_typing :: "adventure \<Rightarrow> (bool \<times> adventure) option" where
  "handle_typing s =
     (case split_command (get_typed_command (inp s)) of
        None \<Rightarrow> Some (False, s)
      | Some (verb, arg) \<Rightarrow>
          (case find_command verb of
             None \<Rightarrow> Some (False, s\<lparr>world := show_status ''What are you babbling about?'' (world s)\<rparr>)
           | Some c \<Rightarrow>
               do { r \<leftarrow> place s;
                    (result, r, g) \<leftarrow> run_cmd c r arg (world s);
                    let s = adjust_speed c (s\<lparr>place := r, world := g\<rparr>);
                    if result = TC_CHANGE_ROOM then Some (True, s)
                    else if result \<noteq> TC_ALLOW_EDIT then
                      (let s = s\<lparr>inp := reset_typed_command (inp s)\<rparr>
                       in if result = TC_REDRAW_ROOM then map_option (Pair False) (redraw_room s) else Some (False, s))
                    else Some (False, s) }))"

section \<open>The main loop\<close>

datatype condition = Playing | GAME_WON | GAME_QUIT

definition try_move :: "(room_id \<Rightarrow> game \<Rightarrow> outcome) \<Rightarrow> adventure \<Rightarrow> adventure option" where
  "try_move move s =
     do { r \<leftarrow> place s;
          (result, r, g) \<leftarrow> move r (world s);
          Some (s\<lparr>place := r, world := g, enter_room := (TC_CHANGE_ROOM = result)\<rparr>) }"

text \<open>The upper half of a round shows the room, drawing it first when the player has just entered.\<close>

definition arrive :: "adventure \<Rightarrow> adventure option" where
  "arrive s =
     (if enter_room s
      then do { s \<leftarrow> view_at_map (s\<lparr>map_x := 0, map_y := 0\<rparr>);
                s \<leftarrow> redraw_room (prep_room (place s) (s\<lparr>inp := reset_typed_command (inp s)\<rparr>));
                Some (s\<lparr>enter_room := False\<rparr>) }
      else Some s)"

definition show_room :: "adventure \<Rightarrow> adventure option" where
  "show_room s =
     do { s \<leftarrow> arrive s;
          m \<leftarrow> show_screen (screen s);
          r \<leftarrow> place s;
          name \<leftarrow> room_name r (world s);
          buf \<leftarrow> text_to_graphics (status_msg (world s)) (get_typed_command (inp s)) name;
          m \<leftarrow> show_status_bar buf m;
          Some (s\<lparr>screen := m\<rparr>) }"

text \<open>The switch over the command; \<open>CMD_QUIT\<close> leaves the loop before.\<close>

definition obey :: "cmd \<Rightarrow> adventure \<Rightarrow> adventure option" where
  "obey cmd s =
     (case cmd of
        CMD_UP \<Rightarrow> move_photo_down s
      | CMD_RIGHT \<Rightarrow> move_photo_left s
      | CMD_DOWN \<Rightarrow> move_photo_up s
      | CMD_LEFT \<Rightarrow> move_photo_right s
      | CMD_MOVE_LEFT \<Rightarrow> try_move try_to_move_left s
      | CMD_ENTER \<Rightarrow> try_move try_to_enter s
      | CMD_MOVE_RIGHT \<Rightarrow> try_move try_to_move_right s
      | CMD_TYPED \<Rightarrow> do { (b, s) \<leftarrow> handle_typing s; Some (if b then s\<lparr>enter_room := True\<rparr> else s) }
      | _ \<Rightarrow> Some s)"

text \<open>The lower half reads a command and carries it out.\<close>

definition do_command :: "string \<Rightarrow> adventure \<Rightarrow> (condition \<times> adventure) option" where
  "do_command stdin s =
     do { (i, cmd, rest) \<leftarrow> get_command stdin (inp s);
          let s = s\<lparr>inp := i\<rparr>;
          if cmd = CMD_QUIT then Some (GAME_QUIT, s)
          else do { s \<leftarrow> obey cmd s; Some (if place s = None then GAME_WON else Playing, s) } }"

text \<open>The helper thread clears the status message when its time is over.\<close>

definition clear_status :: "adventure \<Rightarrow> adventure" where
  "clear_status s = s\<lparr>world := (world s)\<lparr>status_msg := []\<rparr>\<rparr>"

datatype event = Round string | Timeout

fun game_loop :: "event list \<Rightarrow> adventure \<Rightarrow> (condition \<times> adventure) option" where
  "game_loop [] s = Some (Playing, s)"
| "game_loop (Timeout # es) s = game_loop es (clear_status s)"
| "game_loop (Round stdin # es) s =
     do { s \<leftarrow> show_room s;
          (c, s) \<leftarrow> do_command stdin s;
          if c = Playing then game_loop es s else Some (c, s) }"

section \<open>The clock\<close>

record timeval =
  tv_sec :: int
  tv_usec :: int

definition TICK_USEC :: int where "TICK_USEC = 50000"

definition time_is_after :: "timeval \<Rightarrow> timeval \<Rightarrow> bool" where
  "time_is_after t1 t2 =
     (if tv_sec t1 = tv_sec t2 then tv_usec t1 \<ge> tv_usec t2 else tv_sec t1 > tv_sec t2)"

definition next_tick :: "timeval \<Rightarrow> timeval" where
  "next_tick t =
     (let t = t\<lparr>tv_usec := tv_usec t + TICK_USEC\<rparr>
      in if tv_usec t > 1000000 then t\<lparr>tv_sec := tv_sec t + 1, tv_usec := tv_usec t - 1000000\<rparr> else t)"

text \<open>The loop that skips missed ticks.\<close>

partial_function (option) advance_tick :: "timeval \<Rightarrow> timeval \<Rightarrow> timeval option" where
  "advance_tick cur t = (let t = next_tick t in if time_is_after cur t then advance_tick cur t else Some t)"

text \<open>The time at which the helper thread gives up waiting, 1.5 seconds from now, in seconds and nanoseconds.\<close>

definition wake_up :: "int \<times> int \<Rightarrow> int \<times> int" where
  "wake_up = (\<lambda>(sec, nsec). if 500000000 \<le> nsec then (sec + 2, nsec - 500000000) else (sec + 1, nsec + 500000000))"

section \<open>Checks at the start\<close>

definition sanity_check :: int where
  "sanity_check =
     (let ok = (\<lambda>t. \<not> 1 > tc_min_len t \<and> \<not> tc_min_len t > length (tc_name t));
          cnt = (\<lambda>c. length (filter (\<lambda>t. ok t \<and> tc_cmd t = c) cmd_list))
      in if list_all ok cmd_list
            \<and> list_all (\<lambda>c. cnt c \<noteq> 0) [TC_BUY, TC_CHARGE, TC_DO, TC_DRINK, TC_DROP, TC_FIX, TC_FLASH, TC_GET, TC_GO, TC_INSTALL, TC_INVENTORY, TC_SIGH, TC_USE, TC_WEAR]
         then 0 else -1)"

text \<open>\<open>main\<close> up to the main loop; \<open>None\<close> is a call of \<open>PANIC\<close>, or a world that cannot be built.\<close>

definition start_game :: "(nat \<Rightarrow> bool) \<Rightarrow> files \<Rightarrow> adventure \<Rightarrow> adventure option" where
  "start_game malloc fs s =
     do { res \<leftarrow> build_world malloc fs (world s);
          case res of
            Inl e \<Rightarrow> None
          | Inr g \<Rightarrow>
              let s = init_game (s\<lparr>world := g\<rparr>) in
              if sanity_check \<noteq> 0 then None
              else let (ret, m) = set_mode_X True True True (Some horiz_callback) (Some vert_callback) (screen s)
                   in if ret \<noteq> 0 then None else Some (s\<lparr>screen := m, enter_room := True\<rparr>) }"

end
