(* ===== verification/Verbs.thy ===== *)
theory Verbs
  imports Adventure
begin

text \<open>
  The typed verbs and their abbreviations, and the clock of the main loop of \<open>mp2/adventure.c\<close>.
\<close>

section \<open>Verbs\<close>

lemma find_command_case: "strcaseeq verb verb' \<Longrightarrow> find_command verb = find_command verb'"
proof -
  assume "strcaseeq verb verb'"
  then have "length verb = length verb'" "map tolower verb = map tolower verb'"
    unfolding strcaseeq_def by (metis length_map, blast)
  then show ?thesis by (simp add: find_command_def strncaseeq_def strcaseeq_def)
qed

lemma sanity: "sanity_check = 0" by code_simp

text \<open>No entry of the table shadows an abbreviation of another one, although the first match counts.\<close>

lemma abbreviations:
  assumes "t \<in> set cmd_list" "tc_min_len t \<le> n" "n \<le> length (tc_name t)"
  shows "find_command (take n (tc_name t)) = Some (tc_cmd t)"
proof -
  have "\<forall>t \<in> set cmd_list. \<forall>n \<in> set [tc_min_len t..<Suc (length (tc_name t))]. find_command (take n (tc_name t)) = Some (tc_cmd t)"
    by code_simp
  moreover have "n \<in> set [tc_min_len t..<Suc (length (tc_name t))]" using assms(2,3) by (simp del: upt_Suc)
  ultimately show ?thesis using assms(1) by blast
qed

lemma find_command_prefix:
  assumes "find_command verb = Some c"
  shows "\<exists>t \<in> set cmd_list. tc_cmd t = c \<and> tc_min_len t \<le> length verb \<and> length verb \<le> length (tc_name t) \<and> strcaseeq verb (take (length verb) (tc_name t))"
proof -
  obtain t where t: "find (\<lambda>t. tc_min_len t \<le> length verb \<and> strncaseeq (tc_name t) verb) cmd_list = Some t" "c = tc_cmd t"
    using assms by (auto simp: find_command_def)
  then have "t \<in> set cmd_list" "tc_min_len t \<le> length verb \<and> strncaseeq (tc_name t) verb" by (auto simp: find_Some_iff)
  then show ?thesis using t(2) by (intro bexI [of _ t]) (simp_all add: strncaseeq_def strcaseeq_def)
qed

text \<open>Verbs are letters, so a blank ends them.\<close>

lemma verb_letters: "\<forall>t \<in> set cmd_list. tc_min_len t \<ge> 1 \<and> (\<forall>c \<in> set (tc_name t). tolower c \<noteq> CHR '' '')"
  by code_simp

lemma split_command_parts:
  assumes "verb \<noteq> []" "CHR '' '' \<notin> set verb" "arg = [] \<or> hd arg \<noteq> CHR '' ''" "arg = [] \<or> 0 < j"
  shows "split_command (replicate i CHR '' '' @ verb @ replicate j CHR '' '' @ arg) = Some (verb, arg)"
proof -
  have sk: "skip_blanks (replicate k CHR '' '' @ cs) = skip_blanks cs" for k cs by (induction k) (simp_all add: skip_blanks_def)
  have v: "skip_blanks (verb @ cs) = verb @ cs" for cs using assms(1,2) by (cases verb) (auto simp: skip_blanks_def)
  have a: "skip_blanks arg = arg" using assms(3) by (cases arg) (auto simp: skip_blanks_def)
  have "takeWhile (\<lambda>c. c \<noteq> CHR '' '') (verb @ replicate j CHR '' '' @ arg) = verb"
  proof -
    have "takeWhile (\<lambda>c. c \<noteq> CHR '' '') (replicate j CHR '' '' @ arg) = []" using assms(3,4) by (cases j; cases arg) auto
    then show ?thesis using assms(2) by (subst takeWhile_append2) auto
  qed
  then show ?thesis using assms(1) a by (simp add: split_command_def sk v Let_def)
qed

section \<open>The clock\<close>

definition micros :: "timeval \<Rightarrow> int" where "micros t = tv_sec t * 1000000 + tv_usec t"

definition tick_ok :: "timeval \<Rightarrow> bool" where "tick_ok t \<longleftrightarrow> 0 \<le> tv_usec t \<and> tv_usec t \<le> 1000000"

lemma next_tick_micros: "tick_ok t \<Longrightarrow> micros (next_tick t) = micros t + 50000 \<and> tick_ok (next_tick t)"
  by (auto simp: next_tick_def micros_def tick_ok_def TICK_USEC_def Let_def)

text \<open>The microseconds of a tick can be 1000000; comparing times still compares instants.\<close>

lemma time_is_after_micros:
  assumes "0 \<le> tv_usec cur" "tv_usec cur < 1000000" "tick_ok t"
  shows "time_is_after cur t \<longleftrightarrow> micros t \<le> micros cur"
  using assms by (auto simp: time_is_after_def micros_def tick_ok_def)

lemma wake_up_later:
  assumes "0 \<le> nsec" "nsec < 1000000000" "wake_up (sec, nsec) = (sec', nsec')"
  shows "sec' * 1000000000 + nsec' = sec * 1000000000 + nsec + 1500000000" "0 \<le> nsec'" "nsec' < 1000000000"
  using assms by (auto simp: wake_up_def split: if_splits)

section \<open>Properties\<close>

text \<open>
  C37: The table of commands is sane and typed verbs are understood: each verb, in any mixture of
  upper and lower case and abbreviated down to its least length, after any blanks and with any
  argument that starts with another character, runs its own command with exactly that argument;
  and a verb that runs a command is such an abbreviation.
\<close>

theorem verbs_understood:
  assumes "t \<in> set cmd_list" "tc_min_len t \<le> n" "n \<le> length (tc_name t)" "strcaseeq verb (take n (tc_name t))"
    "arg = [] \<or> hd arg \<noteq> CHR '' ''" "arg = [] \<or> 0 < j"
  shows "sanity_check = 0 \<and> find_command verb = Some (tc_cmd t) \<and>
    split_command (replicate i CHR '' '' @ verb @ replicate j CHR '' '' @ arg) = Some (verb, arg) \<and>
    (\<forall>w c. find_command w = Some c \<longrightarrow>
       (\<exists>u \<in> set cmd_list. tc_cmd u = c \<and> tc_min_len u \<le> length w \<and> length w \<le> length (tc_name u) \<and> strcaseeq w (take (length w) (tc_name u))))"
proof -
  have "length verb = length (take n (tc_name t))" using assms(4) unfolding strcaseeq_def by (metis length_map)
  then have "verb \<noteq> []" using assms(1-3) verb_letters by (auto split: if_splits)
  moreover have "CHR '' '' \<notin> set verb"
  proof
    assume "CHR '' '' \<in> set verb"
    then have "CHR '' '' \<in> set (map tolower verb)" by (auto simp: tolower_def intro!: image_eqI [of _ _ "CHR '' ''"])
    then have "CHR '' '' \<in> set (map tolower (take n (tc_name t)))" using assms(4) unfolding strcaseeq_def by (simp only:)
    then have "CHR '' '' \<in> tolower ` set (tc_name t)" by (auto dest: in_set_takeD)
    moreover have "\<forall>c \<in> set (tc_name t). tolower c \<noteq> CHR '' ''" using verb_letters assms(1) by blast
    ultimately show False by (metis imageE)
  qed
  ultimately show ?thesis
    using abbreviations [OF assms(1-3)] find_command_case [OF assms(4)] split_command_parts [OF _ _ assms(5,6)] find_command_prefix
sanity by simp
qed

text \<open>
  C38: The clock catches up: advancing the tick always ends, and gives the first tick after the
  current time - the next one, or the first of those not missed - although the microseconds of
  a tick time may be 1000000.
\<close>

theorem advance_tick_first:
  assumes "tick_ok t" "0 \<le> tv_usec cur" "tv_usec cur < 1000000"
  shows "\<exists>t' k. advance_tick cur t = Some t' \<and> tick_ok t' \<and> micros t' = micros t + 50000 * int (Suc k) \<and>
    \<not> time_is_after cur t' \<and> (k = 0 \<or> micros t' - 50000 \<le> micros cur)"
  using assms(1)
proof (induction "nat (micros cur - micros t)" arbitrary: t rule: less_induct)
  case less
  note n = next_tick_micros [OF less.prems]
  show ?case
  proof (cases "time_is_after cur (next_tick t)")
    case True
    then have "micros t + 50000 \<le> micros cur" using time_is_after_micros [OF assms(2,3)] n by simp
    then obtain t' k where r: "advance_tick cur (next_tick t) = Some t'" "tick_ok t'" "micros t' = micros (next_tick t) + 50000 * int (Suc k)"
        "\<not> time_is_after cur t'" "k = 0 \<or> micros t' - 50000 \<le> micros cur"
      using less.hyps [of "next_tick t"] n by auto
    have "advance_tick cur t = Some t'" using True r(1) by (subst advance_tick.simps) (simp add: Let_def)
    moreover have "micros t' - 50000 \<le> micros cur" using r(3,5) n \<open>micros t + 50000 \<le> micros cur\<close> by auto
    ultimately show ?thesis using r n by (intro exI [of _ t'] exI [of _ "Suc k"]) simp
  next
    case False
    then have "advance_tick cur t = Some (next_tick t)" by (subst advance_tick.simps) (simp add: Let_def)
    then show ?thesis using False n by (intro exI [of _ "next_tick t"] exI [of _ 0]) simp
  qed
qed

theorem advance_tick_first_witness:
  "\<exists>t' k. advance_tick \<lparr>tv_sec = 7, tv_usec = 120000\<rparr> \<lparr>tv_sec = 6, tv_usec = 950000\<rparr> = Some t' \<and> micros t' = 6950000 + 50000 * int (Suc k)"
  using advance_tick_first [of "\<lparr>tv_sec = 6, tv_usec = 950000\<rparr>" "\<lparr>tv_sec = 7, tv_usec = 120000\<rparr>"]
  by (simp add: tick_ok_def micros_def) blast

theorem verbs_understood_witness:
  "find_command ''INS'' = Some TC_INSTALL \<and>
   split_command (replicate 2 CHR '' '' @ ''INS'' @ replicate 1 CHR '' '' @ ''battery'') = Some (''INS'', ''battery'')"
proof -
  have "TypedCmd ''install'' 3 TC_INSTALL \<in> set cmd_list" "strcaseeq ''INS'' (take 3 ''install'')" by code_simp+
  then show ?thesis using verbs_understood [of "TypedCmd ''install'' 3 TC_INSTALL" 3 "''INS''" "''battery''" 1 2] by simp
qed

end
