(* ===== verification/Game.thy ===== *)
theory Game
  imports Adventure
begin

text \<open>
  The game as a whole. The callbacks that draw a room are a source of lines in the sense of
  \<open>line_source\<close>, so what the driver is proved to do with one holds for the rooms of the game:
  in every round the display shows the room the player is in, photo and objects, at the place
  of the view window.
\<close>

section \<open>The picture of a room\<close>

text \<open>The objects of a list, from the first on.\<close>

partial_function (option) walk :: "(obj_id \<Rightarrow> obj_id option) \<Rightarrow> obj_id option \<Rightarrow> obj_id list option" where
  "walk nx p = (case p of None \<Rightarrow> Some [] | Some ob \<Rightarrow> do { obs \<leftarrow> walk nx (nx ob); Some (ob # obs) })"

lemma walk_chain: "chain g p obs \<Longrightarrow> walk (\<lambda>ob. nxt (object g ob)) p = Some obs"
  by (induction obs arbitrary: p) (auto simp: walk.simps [of _ "Some _"] walk.simps [of _ None])

definition room_picture :: "room_id option \<times> game \<Rightarrow> int \<Rightarrow> int \<Rightarrow> u8" where
  "room_picture w =
     (case fst w of
        None \<Rightarrow> \<lambda>_ _. 0
      | Some r \<Rightarrow> scene (snd w) (the (room_photo r (snd w)))
                    (the (walk (\<lambda>ob. nxt (object (snd w) ob)) (room_contents_iterate r (snd w)))))"

definition picture_width :: "room_id option \<times> game \<Rightarrow> int" where
  "picture_width w = (case fst w of None \<Rightarrow> 0 | Some r \<Rightarrow> view_w (the (view (room (snd w) r))))"

definition picture_height :: "room_id option \<times> game \<Rightarrow> int" where
  "picture_height w = (case fst w of None \<Rightarrow> 0 | Some r \<Rightarrow> view_h (the (view (room (snd w) r))))"

definition drawable :: "room_id option \<times> game \<Rightarrow> bool" where
  "drawable w \<longleftrightarrow> (\<exists>r v obs. fst w = Some r \<and> room_ok (snd w) r v obs)"

lemma picture_of_room:
  assumes "room_ok g r v obs"
  shows "room_picture (Some r, g) = scene g v obs" "picture_width (Some r, g) = view_w v" "picture_height (Some r, g) = view_h v"
  using assms walk_chain [of g "room_contents_iterate r g" obs]
  by (auto simp: room_picture_def picture_width_def picture_height_def room_ok_def room_photo_def)

interpretation room_lines: line_source horiz_callback vert_callback drawable room_picture picture_width picture_height
proof
  fix w y x
  assume "drawable w"
  then obtain r g v obs where w: "w = (Some r, g)" "room_ok g r v obs" by (cases w) (auto simp: drawable_def)
  note pic = picture_of_room [OF w(2)]
  show "horiz_callback w x y = Some (map (\<lambda>i. room_picture w (x + i) y) [0..SCROLL_X_DIM - 1])" if "0 \<le> y" "y < picture_height w"
    using that fill_horiz_scene [OF w(2)] unfolding w(1) pic by (simp add: horiz_callback_def)
  show "vert_callback w x y = Some (map (\<lambda>i. room_picture w x (y + i)) [0..SCROLL_Y_DIM - 1])" if "0 \<le> x" "x < picture_width w"
    using that fill_vert_scene [OF w(2)] unfolding w(1) pic by (simp add: vert_callback_def)
qed

text \<open>The picture depends on the rooms and the objects only.\<close>

lemma picture_cong:
  assumes "room g' = room g" "object g' = object g"
  shows "room_picture (r, g') = room_picture (r, g)" "picture_width (r, g') = picture_width (r, g)"
    "picture_height (r, g') = picture_height (r, g)"
proof -
  have "object_over g' = object_over g"
    by (simp add: fun_eq_iff object_over_def obj_get_x_def obj_get_y_def obj_image_def assms)
  then show "room_picture (r, g') = room_picture (r, g)" "picture_width (r, g') = picture_width (r, g)"
      "picture_height (r, g') = picture_height (r, g)"
    by (simp_all add: room_picture_def picture_width_def picture_height_def scene_def [abs_def] room_photo_def
        room_contents_iterate_def assms split: option.splits)
qed

lemma drawable_world:
  assumes "absr g a" "pics g"
  shows "drawable (Some r, g)" "320 \<le> picture_width (Some r, g)" "200 \<le> picture_height (Some r, g)"
    "picture_width (Some r, g) < 65536" "picture_height (Some r, g) < 65536"
proof -
  obtain v where v: "view (room g r) = Some v" "wide v" using assms(2) unfolding pics_def by blast
  have "room_ok g r v (things a r)"
    using v assms(2) reprD [OF absrD(1) [OF assms(1)]]
    by (auto simp: room_ok_def wide_def room_photo_def room_contents_iterate_def obj_image_def pics_def)
  then show "drawable (Some r, g)" "320 \<le> picture_width (Some r, g)" "200 \<le> picture_height (Some r, g)"
      "picture_width (Some r, g) < 65536" "picture_height (Some r, g) < 65536"
    using v(2) uint_lt2p [of "hdr_width (photo_hdr v)"] uint_lt2p [of "hdr_height (photo_hdr v)"]
    by (auto simp: drawable_def picture_of_room wide_def view_w_def view_h_def)
qed

section \<open>Scrolling\<close>

text \<open>The display is set up for the callbacks; \<open>shown\<close> adds that the window lies in the picture and holds it.\<close>

definition screen_ok :: "(room_id option \<times> game) modex \<Rightarrow> bool" where
  "screen_ok m \<longleftrightarrow> fits m \<and> page_ok m \<and> fences m \<and> horiz_line_fn m = Some horiz_callback \<and> vert_line_fn m = Some vert_callback"

definition shown :: "adventure \<Rightarrow> bool" where
  "shown s \<longleftrightarrow> room_lines.ready (scene_of s) (screen s) \<and> screen_ok (screen s) \<and> holds (screen s) (room_picture (scene_of s))
     \<and> picture_width (scene_of s) < 65536 \<and> picture_height (scene_of s) < 65536
     \<and> show_x (screen s) = uint (map_x s) \<and> show_y (screen s) = uint (map_y s)"

lemma sint_small: "uint (x :: u32) < 65536 \<Longrightarrow> sint x = uint x"
proof -
  assume "uint x < 65536"
  moreover have "- (2 ^ 31) \<le> uint x" by (rule order_trans [of _ 0]) simp_all
  ultimately have "signed_take_bit 31 (uint x) = uint x" by (intro signed_take_bit_int_eq_self) simp_all
  then show ?thesis by (simp add: sint_uint)
qed

lemma screen_ok_view: "screen_ok m \<Longrightarrow> same_view m m' \<Longrightarrow> fits m' \<Longrightarrow> screen_ok m'"
  by (simp add: screen_ok_def same_view_fences) (simp add: same_view_def page_ok_def)

text \<open>Moving the window and drawing what was not visible before keeps the picture complete.\<close>

lemma view_moved:
  assumes "shown s" "uint x + 320 \<le> picture_width (scene_of s)" "uint y + 200 \<le> picture_height (scene_of s)"
  obtains m where "view_at_map (s\<lparr>map_x := x, map_y := y\<rparr>) = Some (s\<lparr>map_x := x, map_y := y, screen := m\<rparr>)"
    "room_lines.ready (scene_of s) m" "show_x m = uint x" "show_y m = uint y"
    "\<And>m' S. drawn m m' S (room_picture (scene_of s)) \<Longrightarrow> (\<And>X Y. visible m X Y \<Longrightarrow> visible (screen s) X Y \<or> S X Y) \<Longrightarrow>
       shown (s\<lparr>map_x := x, map_y := y, screen := m'\<rparr>)"
proof -
  let ?w = "scene_of s"
  have s: "room_lines.ready ?w (screen s)" "screen_ok (screen s)" "holds (screen s) (room_picture ?w)"
    "picture_width ?w < 65536" "picture_height ?w < 65536"
    using assms(1) by (auto simp: shown_def)
  have xy: "sint x = uint x" "sint y = uint y" using s assms(2,3) by (auto intro!: sint_small)
  obtain m where m: "set_view_window (uint x) (uint y) (screen s) = Some m" "fits m" "show_x m = uint x" "show_y m = uint y"
    "same_view (screen s) m" "\<And>X Y. visible (screen s) X Y \<Longrightarrow> visible m X Y \<Longrightarrow> build m (pix m X Y) = build (screen s) (pix (screen s) X Y)"
    using set_view_window_spec [of "screen s"] s(2) unfolding screen_ok_def by blast
  have r: "room_lines.ready ?w m" using s(1) m assms(2,3) by (auto simp: room_lines.ready_def same_view_def)
  show ?thesis
  proof (rule that [OF _ r m(3,4)])
    show "view_at_map (s\<lparr>map_x := x, map_y := y\<rparr>) = Some (s\<lparr>map_x := x, map_y := y, screen := m\<rparr>)"
      using m(1) xy by (simp add: view_at_map_def)
  next
    fix m' S
    assume d: "drawn m m' S (room_picture ?w)" "\<And>X Y. visible m X Y \<Longrightarrow> visible (screen s) X Y \<or> S X Y"
    have "holds m' (room_picture ?w)" by (rule scrolled_holds [OF s(3) m(6) d])
    moreover have "screen_ok m'" "room_lines.ready ?w m'"
      using screen_ok_view [OF s(2)] same_view_trans [OF m(5)] drawn_same [OF d(1)] room_lines.drawn_ready [OF d(1)] m(2) r by auto
    moreover have "scene_of (s\<lparr>map_x := x, map_y := y, screen := m'\<rparr>) = ?w" by (simp add: scene_of_def)
    ultimately show "shown (s\<lparr>map_x := x, map_y := y, screen := m'\<rparr>)" using s m drawn_same [OF d(1)] by (simp add: shown_def)
  qed
qed

lemma scroll_rows:
  assumes "shown s" "uint y + 200 \<le> picture_height (scene_of s)" "\<And>i. i \<in> set is \<Longrightarrow> 0 \<le> f i \<and> f i < 200"
    "\<And>Y. uint y \<le> Y \<Longrightarrow> Y < uint y + 200 \<Longrightarrow> (uint (map_y s) \<le> Y \<and> Y < uint (map_y s) + 200) \<or> (\<exists>i \<in> set is. Y = uint y + f i)"
  shows "\<exists>m. (do { s \<leftarrow> view_at_map (s\<lparr>map_y := y\<rparr>);
                  m \<leftarrow> for_each (\<lambda>i. draw_row s (f i)) is (screen s);
                  Some (s\<lparr>screen := m\<rparr>) }) = Some (s\<lparr>map_y := y, screen := m\<rparr>) \<and> shown (s\<lparr>map_y := y, screen := m\<rparr>)"
proof -
  have s: "show_x (screen s) = uint (map_x s)" "show_y (screen s) = uint (map_y s)" "uint (map_x s) + 320 \<le> picture_width (scene_of s)"
    using assms(1) by (auto simp: shown_def room_lines.ready_def)
  have same: "s\<lparr>map_x := map_x s, map_y := y\<rparr> = s\<lparr>map_y := y\<rparr>" by simp
  obtain m where m: "view_at_map (s\<lparr>map_y := y\<rparr>) = Some (s\<lparr>map_y := y, screen := m\<rparr>)" "room_lines.ready (scene_of s) m"
    "show_x m = uint (map_x s)" "show_y m = uint y"
    "\<And>m' S. drawn m m' S (room_picture (scene_of s)) \<Longrightarrow> (\<And>X Y. visible m X Y \<Longrightarrow> visible (screen s) X Y \<or> S X Y) \<Longrightarrow>
       shown (s\<lparr>map_y := y, screen := m'\<rparr>)"
    using view_moved [OF assms(1) s(3) assms(2)] unfolding same by blast
  obtain m' where m': "for_each (\<lambda>i s'. map_option snd (draw_horiz_line (scene_of s) (f i) s')) is m = Some m'"
    "drawn m m' (\<lambda>X Y. \<exists>i \<in> set is. Y = show_y m + f i) (room_picture (scene_of s))"
    using room_lines.draw_rows [OF m(2), of "is" f] assms(3) by blast
  have "shown (s\<lparr>map_y := y, screen := m'\<rparr>)" by (rule m(5) [OF m'(2)]) (use assms(4) s m in \<open>auto simp: visible_def\<close>)
  moreover have "scene_of (s\<lparr>map_y := y, screen := m\<rparr>) = scene_of s" by (simp add: scene_of_def)
  ultimately show ?thesis using m(1) m'(1) by (intro exI [of _ m']) (simp add: draw_row_def [abs_def])
qed

lemma scroll_columns:
  assumes "shown s" "uint x + 320 \<le> picture_width (scene_of s)" "\<And>i. i \<in> set is \<Longrightarrow> 0 \<le> f i \<and> f i < 320"
    "\<And>X. uint x \<le> X \<Longrightarrow> X < uint x + 320 \<Longrightarrow> (uint (map_x s) \<le> X \<and> X < uint (map_x s) + 320) \<or> (\<exists>i \<in> set is. X = uint x + f i)"
  shows "\<exists>m. (do { s \<leftarrow> view_at_map (s\<lparr>map_x := x\<rparr>);
                  m \<leftarrow> for_each (\<lambda>i. draw_column s (f i)) is (screen s);
                  Some (s\<lparr>screen := m\<rparr>) }) = Some (s\<lparr>map_x := x, screen := m\<rparr>) \<and> shown (s\<lparr>map_x := x, screen := m\<rparr>)"
proof -
  have s: "show_x (screen s) = uint (map_x s)" "show_y (screen s) = uint (map_y s)" "uint (map_y s) + 200 \<le> picture_height (scene_of s)"
    using assms(1) by (auto simp: shown_def room_lines.ready_def)
  have same: "s\<lparr>map_x := x, map_y := map_y s\<rparr> = s\<lparr>map_x := x\<rparr>" by simp
  obtain m where m: "view_at_map (s\<lparr>map_x := x\<rparr>) = Some (s\<lparr>map_x := x, screen := m\<rparr>)" "room_lines.ready (scene_of s) m"
    "show_x m = uint x" "show_y m = uint (map_y s)"
    "\<And>m' S. drawn m m' S (room_picture (scene_of s)) \<Longrightarrow> (\<And>X Y. visible m X Y \<Longrightarrow> visible (screen s) X Y \<or> S X Y) \<Longrightarrow>
       shown (s\<lparr>map_x := x, screen := m'\<rparr>)"
    using view_moved [OF assms(1,2) s(3)] unfolding same by blast
  obtain m' where m': "for_each (\<lambda>i s'. map_option snd (draw_vert_line (scene_of s) (f i) s')) is m = Some m'"
    "drawn m m' (\<lambda>X Y. \<exists>i \<in> set is. X = show_x m + f i) (room_picture (scene_of s))"
    using room_lines.draw_columns [OF m(2), of "is" f] assms(3) by blast
  have "shown (s\<lparr>map_x := x, screen := m'\<rparr>)" by (rule m(5) [OF m'(2)]) (use assms(4) s m in \<open>auto simp: visible_def\<close>)
  moreover have "scene_of (s\<lparr>map_x := x, screen := m\<rparr>) = scene_of s" by (simp add: scene_of_def)
  ultimately show ?thesis using m(1) m'(1) by (intro exI [of _ m']) (simp add: draw_column_def [abs_def])
qed

text \<open>Positions of the window after a move: it stops at the edges of the photo.\<close>

definition back_to :: "u32 \<Rightarrow> int \<Rightarrow> int" where "back_to p speed = min speed (uint p)"
definition on_to :: "u32 \<Rightarrow> int \<Rightarrow> int \<Rightarrow> int \<Rightarrow> int" where "on_to p len dim speed = min speed (len - dim - uint p)"

lemma back_delta:
  assumes "0 \<le> speed" "speed < 65536" "uint p < 65536"
  shows "(if word_of_int speed > p then sint p else speed) = back_to p speed" "uint (p - word_of_int (back_to p speed)) = uint p - back_to p speed"
proof -
  have "uint (word_of_int speed :: u32) = speed" using assms by (simp add: uint_word_of_int)
  then show "(if word_of_int speed > p then sint p else speed) = back_to p speed"
    using assms sint_small [of p] by (auto simp: back_to_def word_less_alt)
  have "0 \<le> uint p - back_to p speed" "uint p - back_to p speed < 2 ^ 32" using assms by (auto simp: back_to_def)
  then show "uint (p - word_of_int (back_to p speed)) = uint p - back_to p speed"
    by (simp add: uint_word_ariths uint_word_of_int mod_simps)
qed

lemma on_delta:
  assumes "0 \<le> speed" "speed < 65536" "uint (w :: u32) = len" "len < 65536" "0 \<le> dim" "uint p + dim \<le> len"
  shows "(if speed > sint (w - word_of_int dim - p) then sint (w - word_of_int dim - p) else speed) = on_to p len dim speed"
    "uint (p + word_of_int (on_to p len dim speed)) = uint p + on_to p len dim speed"
proof -
  have "0 \<le> len - dim - uint p" "len - dim - uint p < 4294967296" using assms uint_ge_0 [of p] by linarith+
  then have "uint (w - word_of_int dim - p) = len - dim - uint p"
    using assms(3) by (simp add: uint_word_ariths uint_word_of_int mod_simps)
  moreover have "len - dim - uint p < 65536" using assms uint_ge_0 [of p] by linarith
  ultimately have "sint (w - word_of_int dim - p) = len - dim - uint p" using sint_small by metis
  then show "(if speed > sint (w - word_of_int dim - p) then sint (w - word_of_int dim - p) else speed) = on_to p len dim speed"
    by (auto simp: on_to_def)
  have "0 \<le> uint p + on_to p len dim speed" "uint p + on_to p len dim speed < 2 ^ 32" using assms by (auto simp: on_to_def)
  then show "uint (p + word_of_int (on_to p len dim speed)) = uint p + on_to p len dim speed"
    by (simp add: uint_word_ariths uint_word_of_int mod_simps)
qed

text \<open>The four moves keep the picture complete and change nothing but the window.\<close>

definition speeds_ok :: "adventure \<Rightarrow> bool" where
  "speeds_ok s \<longleftrightarrow> x_speed s \<in> {2, 6} \<and> y_speed s \<in> {2, 6}"

definition moved_view :: "adventure \<Rightarrow> adventure option \<Rightarrow> bool" where
  "moved_view s out \<longleftrightarrow> (\<exists>x y m. out = Some (s\<lparr>map_x := x, map_y := y, screen := m\<rparr>) \<and> shown (s\<lparr>map_x := x, map_y := y, screen := m\<rparr>))"

lemma moved_viewI:
  "\<exists>m. out = Some (s\<lparr>map_y := y, screen := m\<rparr>) \<and> shown (s\<lparr>map_y := y, screen := m\<rparr>) \<Longrightarrow> moved_view s out"
  "\<exists>m. out = Some (s\<lparr>map_x := x, screen := m\<rparr>) \<and> shown (s\<lparr>map_x := x, screen := m\<rparr>) \<Longrightarrow> moved_view s out"
proof -
  have same: "s\<lparr>map_x := map_x s, map_y := y, screen := m\<rparr> = s\<lparr>map_y := y, screen := m\<rparr>"
    "s\<lparr>map_x := x, map_y := map_y s, screen := m\<rparr> = s\<lparr>map_x := x, screen := m\<rparr>" for m by simp_all
  show "\<exists>m. out = Some (s\<lparr>map_y := y, screen := m\<rparr>) \<and> shown (s\<lparr>map_y := y, screen := m\<rparr>) \<Longrightarrow> moved_view s out"
    unfolding moved_view_def same(1) [symmetric] by blast
  show "\<exists>m. out = Some (s\<lparr>map_x := x, screen := m\<rparr>) \<and> shown (s\<lparr>map_x := x, screen := m\<rparr>) \<Longrightarrow> moved_view s out"
    unfolding moved_view_def same(2) [symmetric] by blast
qed

lemma shown_window:
  assumes "shown s"
  shows "uint (map_x s) + 320 \<le> picture_width (scene_of s)" "uint (map_y s) + 200 \<le> picture_height (scene_of s)"
    "picture_width (scene_of s) < 65536" "picture_height (scene_of s) < 65536"
  using assms by (auto simp: shown_def room_lines.ready_def)

lemma cover_back:
  fixes d P X dim :: int
  assumes "0 \<le> d" "P - d \<le> X" "X < P - d + dim"
  shows "(P \<le> X \<and> X < P + dim) \<or> (\<exists>i \<in> set [0..d - 1]. X = P - d + i)"
proof (cases "X < P")
  case True
  then have "X - (P - d) \<in> set [0..d - 1]" using assms by simp
  then show ?thesis by (intro disjI2) (erule bexI [rotated], simp)
qed (use assms in simp)

lemma cover_on:
  fixes d P X dim :: int
  assumes "0 \<le> d" "P + d \<le> X" "X < P + d + dim"
  shows "(P \<le> X \<and> X < P + dim) \<or> (\<exists>i \<in> set [1..d]. X = P + d + (dim - i))"
proof (cases "P + dim \<le> X")
  case True
  then have "P + d + dim - X \<in> set [1..d]" using assms by simp
  then show ?thesis by (intro disjI2) (erule bexI [rotated], simp)
qed (use assms in simp)

lemma move_photo_down_shown:
  assumes "shown s" "speeds_ok s"
  shows "moved_view s (move_photo_down s)"
proof -
  note w = shown_window [OF assms(1)]
  define d where "d = back_to (map_y s) (y_speed s)"
  have "0 \<le> y_speed s" "y_speed s < 65536" "uint (map_y s) < 65536" using assms(2) w by (auto simp: speeds_ok_def)
  note e = back_delta [OF this, folded d_def]
  have d: "0 \<le> d" "d \<le> uint (map_y s)" "d \<le> 6" using assms(2) by (auto simp: d_def back_to_def speeds_ok_def)
  have "\<exists>m. move_photo_down s = Some (s\<lparr>map_y := map_y s - word_of_int d, screen := m\<rparr>)
      \<and> shown (s\<lparr>map_y := map_y s - word_of_int d, screen := m\<rparr>)"
    unfolding move_photo_down_def e(1) Let_def
    by (rule scroll_rows [OF assms(1)], unfold e(2)) (rule_tac [3] cover_back [OF d(1)], use d w in auto)
  then show ?thesis by (rule moved_viewI)
qed

lemma move_photo_right_shown:
  assumes "shown s" "speeds_ok s"
  shows "moved_view s (move_photo_right s)"
proof -
  note w = shown_window [OF assms(1)]
  define d where "d = back_to (map_x s) (x_speed s)"
  have "0 \<le> x_speed s" "x_speed s < 65536" "uint (map_x s) < 65536" using assms(2) w by (auto simp: speeds_ok_def)
  note e = back_delta [OF this, folded d_def]
  have d: "0 \<le> d" "d \<le> uint (map_x s)" "d \<le> 6" using assms(2) by (auto simp: d_def back_to_def speeds_ok_def)
  have "\<exists>m. move_photo_right s = Some (s\<lparr>map_x := map_x s - word_of_int d, screen := m\<rparr>)
      \<and> shown (s\<lparr>map_x := map_x s - word_of_int d, screen := m\<rparr>)"
    unfolding move_photo_right_def e(1) Let_def
    by (rule scroll_columns [OF assms(1)], unfold e(2)) (rule_tac [3] cover_back [OF d(1)], use d w in auto)
  then show ?thesis by (rule moved_viewI)
qed

lemma uint_u16: "uint (ucast (h :: u16) :: u32) = uint h"
  using uint_lt2p [of h] by (simp add: unsigned_ucast_eq take_bit_int_eq_self)

lemma photo_size:
  assumes "place s = cur_room s" "place s = Some r" "view (room (world s) r) = Some v"
  shows "\<exists>w. room_photo_width r (world s) = Some w \<and> uint w = picture_width (scene_of s)"
    "\<exists>h. room_photo_height r (world s) = Some h \<and> uint h = picture_height (scene_of s)"
proof -
  have "scene_of s = (Some r, world s)" using assms(1,2) by (simp add: scene_of_def)
  then show "\<exists>w. room_photo_width r (world s) = Some w \<and> uint w = picture_width (scene_of s)"
      "\<exists>h. room_photo_height r (world s) = Some h \<and> uint h = picture_height (scene_of s)"
    using assms(3) by (simp_all add: room_photo_width_def room_photo_height_def room_photo_def photo_width_def photo_height_def
      picture_width_def picture_height_def view_w_def view_h_def uint_u16)
qed

lemma move_photo_left_shown:
  assumes "shown s" "speeds_ok s" "place s = cur_room s" "place s = Some r" "view (room (world s) r) = Some v"
  shows "moved_view s (move_photo_left s)"
proof -
  note w = shown_window [OF assms(1)]
  obtain pw where pw: "room_photo_width r (world s) = Some pw" "uint pw = picture_width (scene_of s)" using photo_size [OF assms(3-5)] by blast
  define d where "d = on_to (map_x s) (picture_width (scene_of s)) 320 (x_speed s)"
  have "0 \<le> x_speed s" "x_speed s < 65536" "(0 :: int) \<le> 320" using assms(2) by (auto simp: speeds_ok_def)
  note e = on_delta [OF this(1,2) pw(2) w(3) this(3) w(1), folded d_def]
  have d: "0 \<le> d" "d + uint (map_x s) + 320 \<le> picture_width (scene_of s)" "d \<le> 6"
    using assms(2) w by (auto simp: d_def on_to_def speeds_ok_def)
  have "\<exists>m. move_photo_left s = Some (s\<lparr>map_x := map_x s + word_of_int d, screen := m\<rparr>)
      \<and> shown (s\<lparr>map_x := map_x s + word_of_int d, screen := m\<rparr>)"
    unfolding move_photo_left_def assms(4) Option.bind.bind_lunit pw(1) SCROLL_X_DIM_def Let_def e(1)
    by (rule scroll_columns [OF assms(1)], unfold e(2)) (rule_tac [3] cover_on [OF d(1)], use d w in auto)
  then show ?thesis by (rule moved_viewI)
qed

lemma move_photo_up_shown:
  assumes "shown s" "speeds_ok s" "place s = cur_room s" "place s = Some r" "view (room (world s) r) = Some v"
  shows "moved_view s (move_photo_up s)"
proof -
  note w = shown_window [OF assms(1)]
  obtain ph where ph: "room_photo_height r (world s) = Some ph" "uint ph = picture_height (scene_of s)" using photo_size [OF assms(3-5)] by blast
  define d where "d = on_to (map_y s) (picture_height (scene_of s)) 200 (y_speed s)"
  have "0 \<le> y_speed s" "y_speed s < 65536" "(0 :: int) \<le> 200" using assms(2) by (auto simp: speeds_ok_def)
  note e = on_delta [OF this(1,2) ph(2) w(4) this(3) w(2), folded d_def]
  have d: "0 \<le> d" "d + uint (map_y s) + 200 \<le> picture_height (scene_of s)" "d \<le> 6"
    using assms(2) w by (auto simp: d_def on_to_def speeds_ok_def)
  have "\<exists>m. move_photo_up s = Some (s\<lparr>map_y := map_y s + word_of_int d, screen := m\<rparr>)
      \<and> shown (s\<lparr>map_y := map_y s + word_of_int d, screen := m\<rparr>)"
    unfolding move_photo_up_def assms(4) Option.bind.bind_lunit ph(1) SCROLL_Y_DIM_def Let_def e(1)
    by (rule scroll_rows [OF assms(1)], unfold e(2)) (rule_tac [3] cover_on [OF d(1)], use d w in auto)
  then show ?thesis by (rule moved_viewI)
qed

section \<open>Rounds\<close>

text \<open>What holds between two rounds; \<open>(Some r, a)\<close> is the state of the rules after some list of actions.\<close>

definition game_ok :: "adventure \<Rightarrow> room_id \<Rightarrow> agame \<Rightarrow> bool" where
  "game_ok s r a \<longleftrightarrow>
     (\<exists>xs. game_state xs = (Some r, a)) \<and> place s = Some r \<and> absr (world s) a \<and> pics (world s)
     \<and> screen_ok (screen s) \<and> input_ok (inp s) \<and> speeds_ok s \<and> (\<not> enter_room s \<longrightarrow> cur_room s = Some r \<and> shown s)"

lemma game_okD:
  assumes "game_ok s r a"
  shows "\<exists>xs. game_state xs = (Some r, a)" "place s = Some r" "absr (world s) a" "pics (world s)" "screen_ok (screen s)" "input_ok (inp s)"
    "speeds_ok s" "\<not> enter_room s \<Longrightarrow> cur_room s = Some r" "\<not> enter_room s \<Longrightarrow> shown s"
  using assms by (auto simp: game_ok_def)

lemma game_state_snoc: "game_state xs = (Some r, a) \<Longrightarrow> game_state (xs @ [x]) = astep x r a"
proof -
  have "aplay (xs @ [x]) s = (case aplay xs s of (None, a) \<Rightarrow> (None, a) | (Some r, a) \<Rightarrow> astep x r a)" for s
    by (induction xs s rule: aplay.induct) (auto split: option.splits prod.splits)
  then show "game_state xs = (Some r, a) \<Longrightarrow> game_state (xs @ [x]) = astep x r a" by (simp add: game_state_def)
qed

lemma game_state_placed: "game_state xs = (Some r, a) \<Longrightarrow> placed r a"
  using earned_play [OF _ placed_start, of xs] earned_start by (auto simp: game_state_def stand_def)

lemma game_state_won: "game_state xs = (None, a) \<Longrightarrow> all_achieved a"
  using earned_play [OF _ placed_start, of xs] earned_start by (auto simp: game_state_def stand_def)

text \<open>Changes that do not concern the picture.\<close>

lemma shown_cong:
  assumes "shown s" "cur_room s' = cur_room s" "room (world s') = room (world s)" "object (world s') = object (world s)"
    "map_x s' = map_x s" "map_y s' = map_y s" "screen s' = screen s"
  shows "shown s'"
proof -
  have "drawable (scene_of s') = drawable (scene_of s)"
  proof -
    have "chain (world s') p obs = chain (world s) p obs" for p obs by (rule chain_cong) (simp add: assms)
    then show ?thesis using assms(2-4)
      by (simp add: drawable_def scene_of_def room_ok_def room_photo_def room_contents_iterate_def obj_image_def)
  qed
  then show ?thesis
    using assms picture_cong [OF assms(3,4)] by (simp add: shown_def scene_of_def room_lines.ready_def)
qed

lemma redraw_room_shown:
  assumes "room_lines.ready (scene_of s) (screen s)" "screen_ok (screen s)" "picture_width (scene_of s) < 65536"
    "picture_height (scene_of s) < 65536" "show_x (screen s) = uint (map_x s)" "show_y (screen s) = uint (map_y s)"
  shows "\<exists>m. redraw_room s = Some (s\<lparr>screen := m\<rparr>) \<and> shown (s\<lparr>screen := m\<rparr>)"
proof -
  obtain m where m: "for_each (\<lambda>i. draw_row s i) [0..SCROLL_Y_DIM - 1] (screen s) = Some m"
    "drawn (screen s) m (\<lambda>X Y. \<exists>i \<in> set [0..SCROLL_Y_DIM - 1]. Y = show_y (screen s) + i) (room_picture (scene_of s))"
    using room_lines.draw_rows [OF assms(1), of "[0..SCROLL_Y_DIM - 1]" "\<lambda>i. i"]
    by (auto simp: draw_row_def [abs_def] SCROLL_Y_DIM_def simp del: upto_rec_numeral)
  have "holds m (room_picture (scene_of s))"
  proof (rule drawn_holds [OF m(2)])
    fix X Y
    assume "visible (screen s) X Y"
    then have "Y - show_y (screen s) \<in> set [0..SCROLL_Y_DIM - 1]" by (simp add: visible_def SCROLL_Y_DIM_def del: upto_rec_numeral)
    then show "\<exists>i \<in> set [0..SCROLL_Y_DIM - 1]. Y = show_y (screen s) + i" by (rule bexI [rotated]) simp
  qed
  moreover have "screen_ok m" "room_lines.ready (scene_of s) m"
    using screen_ok_view [OF assms(2)] drawn_same [OF m(2)] room_lines.drawn_ready [OF m(2)] assms(1) by (auto simp: room_lines.ready_def)
  moreover have "scene_of (s\<lparr>screen := m\<rparr>) = scene_of s" by (simp add: scene_of_def)
  ultimately have "shown (s\<lparr>screen := m\<rparr>)" using assms drawn_same [OF m(2)] by (simp add: shown_def)
  then show ?thesis using m(1) by (auto simp: redraw_room_def)
qed

text \<open>Entering a room draws it at the origin and discards the typed line.\<close>

lemma reset_input_ok: "input_ok i \<Longrightarrow> input_ok (reset_typed_command i)"
  by (cases "typing i") (auto simp: input_ok_def reset_typed_command_def get_typed_command_def)

lemma arrive_ok:
  assumes "game_ok s r a"
  obtains s' where "arrive s = Some s'" "game_ok s' r a" "\<not> enter_room s'" "world s' = world s"
proof (cases "enter_room s")
  case True
  note ok = game_okD [OF assms]
  obtain m where m: "set_view_window 0 0 (screen s) = Some m" "fits m" "show_x m = 0" "show_y m = 0" "same_view (screen s) m"
    using set_view_window_spec [of "screen s"] ok(5) unfolding screen_ok_def by blast
  define s1 where "s1 = prep_room (place s) (s\<lparr>map_x := 0, map_y := 0, screen := m, inp := reset_typed_command (inp s)\<rparr>)"
  note p = drawable_world [OF ok(3,4), of r]
  have sc: "scene_of s1 = (Some r, world s)" by (simp add: s1_def prep_room_def scene_of_def ok(2))
  have sm: "screen_ok m" by (rule screen_ok_view [OF ok(5) m(5,2)])
  then have "room_lines.ready (scene_of s1) (screen s1)"
    using p m unfolding sc by (simp add: room_lines.ready_def s1_def prep_room_def screen_ok_def)
  then obtain m' where m': "redraw_room s1 = Some (s1\<lparr>screen := m'\<rparr>)" "shown (s1\<lparr>screen := m'\<rparr>)"
    using redraw_room_shown [of s1] sm p m unfolding sc by (auto simp: s1_def prep_room_def)
  let ?s = "s1\<lparr>screen := m', enter_room := False\<rparr>"
  have "shown ?s" by (rule shown_cong [OF m'(2)]) simp_all
  moreover have "screen_ok m'" using m'(2) by (simp add: shown_def)
  ultimately have "game_ok ?s r a"
    using ok by (auto simp: game_ok_def s1_def prep_room_def reset_input_ok speeds_ok_def)
  moreover have "arrive s = Some ?s"
    using True m(1) m'(1) by (simp add: arrive_def view_at_map_def s1_def)
  ultimately show ?thesis by (intro that [of ?s]) (simp_all add: s1_def prep_room_def)
qed (use that assms in \<open>simp add: arrive_def\<close>)

text \<open>The characters of the status line are in the font.\<close>

lemma typable_ascii: "typable c \<Longrightarrow> of_char c < (128 :: nat)"
  by (auto simp: typable_def isalpha_def isdigit_def code_def)

lemma line_printable:
  assumes "ascii message" "list_all typable cmd" "ascii location"
  shows "printable_line (status_line message cmd location)"
proof -
  have "\<forall>c \<in> set message. of_char c < (128 :: nat)" "\<forall>c \<in> set cmd. of_char c < (128 :: nat)" "\<forall>c \<in> set location. of_char c < (128 :: nat)"
    using ascii_code [OF assms(1)] ascii_code [OF assms(3)] assms(2) typable_ascii by (auto simp: list_all_iff)
  then show ?thesis by (auto simp: printable_line_def status_line_def Let_def spaces_def list_all_iff dest!: in_set_takeD)
qed

text \<open>Writing the video memory or changing the page does not touch the picture in the build buffer.\<close>

lemma shown_card:
  assumes "shown s" "m = (screen s)\<lparr>target_img := t, vcard := c\<rparr>" "page_ok m"
  shows "shown (s\<lparr>screen := m\<rparr>)"
proof -
  have "scene_of (s\<lparr>screen := m\<rparr>) = scene_of s" by (simp add: scene_of_def)
  moreover have "fits m = fits (screen s)" "fences m = fences (screen s)" "visible m = visible (screen s)" "pix m = pix (screen s)"
    by (simp_all add: assms(2) fun_eq_iff fits_def fences_def visible_def pix_def img3_def)
  ultimately show ?thesis using assms by (simp add: shown_def room_lines.ready_def screen_ok_def holds_def)
qed

lemma bar_below:
  assumes "mode_x c" "18 \<le> y"
  shows "displayed (bar_card buf I si sr c) x y = displayed c x y"
proof -
  have "crt_regs c 0x13 = 0x28" using assms(1) by (simp add: mode_x_def)
  then show ?thesis using assms(2) by (simp add: displayed_def bar_card_def)
qed

text \<open>What a round puts on the display.\<close>

definition on_display :: "adventure \<Rightarrow> bool" where
  "on_display s \<longleftrightarrow>
     (\<forall>x < 320. \<forall>y. 18 \<le> y \<and> y < 182 \<longrightarrow>
        displayed (vcard (screen s)) x y = room_picture (place s, world s) (uint (map_x s) + int x) (uint (map_y s) + int y))"

lemma show_room_ok:
  assumes "game_ok s r a"
  shows "\<exists>s'. show_room s = Some s' \<and> game_ok s' r a \<and> \<not> enter_room s' \<and> world s' = world s \<and> on_display s'"
proof -
  obtain s1 where s1: "arrive s = Some s1" "game_ok s1 r a" "\<not> enter_room s1" "world s1 = world s" using arrive_ok [OF assms] .
  note ok = game_okD [OF s1(2)]
  note sh = ok(9) [OF s1(3)]
  have sc: "scene_of s1 = (place s1, world s1)" using ok(2) ok(8) [OF s1(3)] by (simp add: scene_of_def)
  have b: "fits (screen s1)" "page_ok (screen s1)" "holds (screen s1) (room_picture (scene_of s1))"
    using sh by (auto simp: shown_def screen_ok_def)
  obtain m where m: "show_screen (screen s1) = Some m" "page_ok m" "m = (screen s1)\<lparr>target_img := target_img (screen s1) XOR 0x4000, vcard := vcard m\<rparr>"
    "\<forall>x < 320. \<forall>y < 182. displayed (vcard m) x y = room_picture (scene_of s1) (show_x (screen s1) + int x) (show_y (screen s1) + int y)"
    using show_screen_spec [OF b] by blast
  have mx: "mode_x (vcard m)" using m(2) by (simp add: page_ok_def)
  obtain name where name: "room_name r (world s1) = Some name" "ascii name" using ok(4) unfolding pics_def room_name_def by blast
  have "printable_line (status_line (status_msg (world s1)) (get_typed_command (inp s1)) name)"
    using ok(4,6) name(2) by (intro line_printable) (auto simp: pics_def input_ok_def)
  moreover have "length (status_msg (world s1)) \<le> 40" using ok(4) by (simp add: pics_def)
  ultimately obtain buf si sr where buf: "text_to_graphics (status_msg (world s1)) (get_typed_command (inp s1)) name = Some buf" "sr 4 = 6"
    "show_status_bar buf m = Some (m\<lparr>vcard := bar_card buf {0..<4} si sr (vcard m)\<rparr>)"
    using show_line [OF mx] by blast
  let ?c = "bar_card buf {0..<4} si sr (vcard m)"
  let ?s = "s1\<lparr>screen := m\<lparr>vcard := ?c\<rparr>\<rparr>"
  have e: "m\<lparr>vcard := ?c\<rparr> = (screen s1)\<lparr>target_img := target_img (screen s1) XOR 0x4000, vcard := ?c\<rparr>"
    by (subst m(3)) simp
  moreover have "page_ok (m\<lparr>vcard := ?c\<rparr>)" using m(2) buf(2) by (simp add: page_ok_def mode_x_def bar_card_def)
  ultimately have sh': "shown ?s" by (rule shown_card [OF sh])
  have "on_display ?s"
    using m(4) bar_below [OF mx] sh sc by (simp add: on_display_def shown_def)
  moreover have "game_ok ?s r a" using ok sh' s1(3) by (auto simp: game_ok_def shown_def speeds_ok_def)
  moreover have "show_room s = Some ?s"
    unfolding show_room_def using s1(1) m(1) name(1) buf(1,3) ok(2) by simp
  ultimately show ?thesis using s1(3,4) by (intro exI [of _ ?s]) simp
qed

section \<open>Commands\<close>

text \<open>What is true after a command.\<close>

definition goes_on :: "condition \<times> adventure \<Rightarrow> bool" where
  "goes_on = (\<lambda>(c, s).
     screen_ok (screen s) \<and> (\<exists>xs a. game_state xs = (place s, a) \<and> absr (world s) a) \<and>
     (c = Playing \<longrightarrow> (\<exists>r a. game_ok s r a)) \<and> (c = GAME_WON \<longrightarrow> place s = None))"

lemma goes_on_playing: "game_ok s r a \<Longrightarrow> goes_on (Playing, s)"
  using game_okD(1-3,5) [of s r a] by (simp add: goes_on_def) blast

lemma goes_on_after:
  assumes "screen_ok (screen s)" "game_state xs = (place s, a)" "absr (world s) a" "\<And>r. place s = Some r \<Longrightarrow> game_ok t r a"
    "place t = place s" "world t = world s" "screen t = screen s"
  shows "goes_on (if place s = None then GAME_WON else Playing, t)"
proof (cases "place s")
  case None
  then show ?thesis using assms by (simp add: goes_on_def) blast
next
  case (Some r)
  then show ?thesis using goes_on_playing assms(4) by simp
qed

lemma step_state:
  assumes "game_ok s r a"
  obtains act r' g' a' xs where "step x r (world s) = Some (act, r', g')" "game_state xs = (r', a')" "absr g' a'" "pics g'"
    "act \<noteq> TC_CHANGE_ROOM \<Longrightarrow> r' = Some r \<and> views g' = views (world s)"
    "act \<noteq> TC_CHANGE_ROOM \<Longrightarrow> act \<noteq> TC_REDRAW_ROOM \<Longrightarrow> room g' = room (world s) \<and> object g' = object (world s)"
proof -
  note ok = game_okD [OF assms]
  obtain xs where xs: "game_state xs = (Some r, a)" using ok(1) by blast
  have "sim (step x r (world s)) (astep x r a)" by (rule step_refines [OF ok(3) game_state_placed [OF xs]])
  then obtain act g' where st: "step x r (world s) = Some (act, fst (astep x r a), g')" "absr g' (snd (astep x r a))" by (auto simp: sim_def)
  show ?thesis
  proof (rule that [OF st(1) _ st(2)])
    show "game_state (xs @ [x]) = (fst (astep x r a), snd (astep x r a))" using game_state_snoc [OF xs] by simp
  qed (use step_told [OF ok(4), of r x] st(1) in \<open>auto simp: told_def\<close>)
qed

lemma moves_do_not_redraw:
  "try_to_move_left r g \<noteq> Some (TC_REDRAW_ROOM, q)" "try_to_move_right r g \<noteq> Some (TC_REDRAW_ROOM, q)" "try_to_enter r g \<noteq> Some (TC_REDRAW_ROOM, q)"
  by (auto simp: try_to_move_left_def try_to_move_right_def try_to_enter_def say_def case_prod_unfold Let_def split: option.splits if_splits)

lemma try_move_ok:
  assumes "game_ok s r a" "\<not> enter_room s" "move = step x" "\<And>q. move r (world s) \<noteq> Some (TC_REDRAW_ROOM, q)"
  shows "\<exists>s'. try_move move s = Some s' \<and> goes_on (if place s' = None then GAME_WON else Playing, s')"
proof -
  note ok = game_okD [OF assms(1)]
  obtain act r' g' a' xs where st: "move r (world s) = Some (act, r', g')" "game_state xs = (r', a')" "absr g' a'" "pics g'"
    "act \<noteq> TC_CHANGE_ROOM \<Longrightarrow> r' = Some r \<and> views g' = views (world s)"
    "act \<noteq> TC_CHANGE_ROOM \<Longrightarrow> act \<noteq> TC_REDRAW_ROOM \<Longrightarrow> room g' = room (world s) \<and> object g' = object (world s)"
    using step_state [OF assms(1), of x] unfolding assms(3) by metis
  let ?s = "s\<lparr>place := r', world := g', enter_room := (TC_CHANGE_ROOM = act)\<rparr>"
  have "act \<noteq> TC_REDRAW_ROOM" using assms(4) st(1) by auto
  then have "shown ?s" if "act \<noteq> TC_CHANGE_ROOM"
    using st(6) [OF that] by (intro shown_cong [OF ok(9) [OF assms(2)]]) auto
  then have "game_ok ?s r1 a'" if "r' = Some r1" for r1
    using that st ok assms(2) by (auto simp: game_ok_def speeds_ok_def)
  then have "goes_on (if place ?s = None then GAME_WON else Playing, ?s)"
    using st(2,3) ok(5) by (intro goes_on_after) simp_all
  moreover have "try_move move s = Some ?s" using st(1) ok(2) by (simp add: try_move_def)
  ultimately show ?thesis by blast
qed

lemma adjust_speed_only:
  assumes "speeds_ok s"
  obtains x y where "adjust_speed c s = s\<lparr>x_speed := x, y_speed := y\<rparr>" "x \<in> {2, 6}" "y \<in> {2, 6}"
proof -
  have "adjust_speed c s = s\<lparr>x_speed := x_speed (adjust_speed c s), y_speed := y_speed (adjust_speed c s)\<rparr>"
    by (simp add: adjust_speed_def drop_speed_def get_speed_def Let_def)
  moreover have "x_speed (adjust_speed c s) \<in> {2, 6}" "y_speed (adjust_speed c s) \<in> {2, 6}"
    using assms by (simp_all add: adjust_speed_def drop_speed_def get_speed_def speeds_ok_def MOTION_SPEED_def Let_def)
  ultimately show ?thesis by (rule that)
qed

lemma typed_command_ok:
  assumes "game_ok s r a" "\<not> enter_room s" "split_command (get_typed_command (inp s)) = Some (verb, arg)" "find_command verb = Some c"
  shows "\<exists>b s'. handle_typing s = Some (b, s') \<and>
    goes_on (if place s' = None then GAME_WON else Playing, if b then s'\<lparr>enter_room := True\<rparr> else s')"
proof -
  note ok = game_okD [OF assms(1)]
  note sh = ok(9) [OF assms(2)]
  obtain act r' g' a' xs where st: "run_cmd c r arg (world s) = Some (act, r', g')" "game_state xs = (r', a')" "absr g' a'" "pics g'"
    "act \<noteq> TC_CHANGE_ROOM \<Longrightarrow> r' = Some r \<and> views g' = views (world s)"
    "act \<noteq> TC_CHANGE_ROOM \<Longrightarrow> act \<noteq> TC_REDRAW_ROOM \<Longrightarrow> room g' = room (world s) \<and> object g' = object (world s)"
    using step_state [OF assms(1), of "Typed c arg"] unfolding step.simps by metis
  have "speeds_ok (s\<lparr>place := r', world := g'\<rparr>)" using ok(7) by (simp add: speeds_ok_def)
  then obtain vx vy where v: "adjust_speed c (s\<lparr>place := r', world := g'\<rparr>) = s\<lparr>place := r', world := g', x_speed := vx, y_speed := vy\<rparr>"
      "vx \<in> {2, 6}" "vy \<in> {2, 6}" by (rule adjust_speed_only)
  define s1 where "s1 = s\<lparr>place := r', world := g', x_speed := vx, y_speed := vy\<rparr>"
  define s2 where "s2 = s1\<lparr>inp := reset_typed_command (inp s)\<rparr>"
  have run: "handle_typing s =
     (if act = TC_CHANGE_ROOM then Some (True, s1)
      else if act = TC_ALLOW_EDIT then Some (False, s1)
      else if act = TC_REDRAW_ROOM then map_option (Pair False) (redraw_room s2) else Some (False, s2))"
    using assms(3,4) ok(2) st(1) v(1) by (simp add: handle_typing_def s1_def s2_def Let_def)
  have i: "input_ok (inp s1)" "input_ok (inp s2)" using reset_input_ok [OF ok(6)] ok(6) by (simp_all add: s2_def s1_def)
  have ok': "game_ok t q a'" if "r' = Some q" "screen_ok (screen t)" "\<not> enter_room t \<Longrightarrow> q = r \<and> shown t" "place t = r'" "world t = g'"
      "cur_room t = cur_room s" "x_speed t = vx" "y_speed t = vy" "input_ok (inp t)" for t q
  proof -
    have "\<exists>xs. game_state xs = (Some q, a')" using st(2) that(1) by blast
    then show ?thesis using that st(3,4) v(2,3) ok(8) [OF assms(2)] by (simp add: game_ok_def speeds_ok_def)
  qed
  show ?thesis
  proof (cases "act = TC_CHANGE_ROOM")
    case True
    have "screen_ok (screen s1)" using ok(5) by (simp add: s1_def)
    then have "game_ok (s1\<lparr>enter_room := True\<rparr>) q a'" if "r' = Some q" for q using that i(1) by (intro ok') (simp_all add: s1_def)
    then have "goes_on (if place s1 = None then GAME_WON else Playing, s1\<lparr>enter_room := True\<rparr>)"
      using st(2,3) ok(5) by (intro goes_on_after [where xs = xs and a = a']) (simp_all add: s1_def)
    then show ?thesis using run True by (intro exI [of _ True] exI [of _ s1]) simp
  next
    case False
    then have r': "r' = Some r" and vw: "views g' = views (world s)" using st(5) by auto
    show ?thesis
    proof (cases "act = TC_REDRAW_ROOM")
      case True
      have sc: "scene_of s2 = (Some r, g')" "scene_of s = (Some r, world s)" using ok(8) [OF assms(2)] by (simp_all add: s2_def s1_def scene_of_def)
      have "picture_width (scene_of s2) = picture_width (scene_of s)" "picture_height (scene_of s2) = picture_height (scene_of s)"
        using vw by (simp_all add: sc picture_width_def picture_height_def views_def fun_eq_iff)
      moreover have "drawable (scene_of s2)" unfolding sc using drawable_world [OF st(3,4)] by blast
      ultimately obtain m where m: "redraw_room s2 = Some (s2\<lparr>screen := m\<rparr>)" "shown (s2\<lparr>screen := m\<rparr>)"
        using redraw_room_shown [of s2] sh by (auto simp: shown_def room_lines.ready_def s2_def s1_def)
      have "game_ok (s2\<lparr>screen := m\<rparr>) r a'" using m(2) i(2) r' by (intro ok') (simp_all add: shown_def s2_def s1_def)
      then show ?thesis using run True m(1) r' by (auto dest!: goes_on_playing simp: s2_def s1_def)
    next
      case same: False
      have "shown s1" "shown s2" using st(6) [OF False same]
        by (auto intro!: shown_cong [OF sh] simp: s2_def s1_def)
      moreover have "screen_ok (screen s1)" "screen_ok (screen s2)" using ok(5) by (simp_all add: s2_def s1_def)
      moreover have "place s1 = r'" "world s1 = g'" "cur_room s1 = cur_room s" "x_speed s1 = vx" "y_speed s1 = vy"
        "place s2 = r'" "world s2 = g'" "cur_room s2 = cur_room s" "x_speed s2 = vx" "y_speed s2 = vy" by (simp_all add: s2_def s1_def)
      ultimately have "game_ok s1 r a'" "game_ok s2 r a'" using ok' [OF r'] i by blast+
      then show ?thesis using run False same r' by (auto dest!: goes_on_playing simp: s2_def s1_def)
    qed
  qed
qed

lemma game_ok_quiet:
  assumes "game_ok s r a" "absr g a" "pics g" "room g = room (world s)" "object g = object (world s)"
  shows "game_ok (s\<lparr>world := g\<rparr>) r a"
proof -
  have "shown (s\<lparr>world := g\<rparr>)" if "shown s" by (rule shown_cong [OF that]) (simp_all add: assms)
  then show ?thesis using assms by (auto simp: game_ok_def speeds_ok_def)
qed

lemma handle_typing_ok:
  assumes "game_ok s r a" "\<not> enter_room s"
  shows "\<exists>b s'. handle_typing s = Some (b, s') \<and>
    goes_on (if place s' = None then GAME_WON else Playing, if b then s'\<lparr>enter_room := True\<rparr> else s')"
proof -
  note ok = game_okD [OF assms(1)]
  consider "split_command (get_typed_command (inp s)) = None"
    | verb arg where "split_command (get_typed_command (inp s)) = Some (verb, arg)" "find_command verb = None"
    | verb arg c where "split_command (get_typed_command (inp s)) = Some (verb, arg)" "find_command verb = Some c"
    by (metis not_Some_eq surj_pair)
  then show ?thesis
  proof cases
    case 1
    then show ?thesis using goes_on_playing [OF assms(1)] ok(2) by (auto simp: handle_typing_def)
  next
    case 2
    let ?g = "show_status ''What are you babbling about?'' (world s)"
    have "game_ok (s\<lparr>world := ?g\<rparr>) r a" using ok by (intro game_ok_quiet [OF assms(1)] absr_status pics_status) simp_all
    then show ?thesis using 2 ok(2) by (auto simp: handle_typing_def dest!: goes_on_playing)
  next
    case 3
    then show ?thesis by (rule typed_command_ok [OF assms])
  qed
qed

lemma moved_view_ok:
  assumes "game_ok s r a" "\<not> enter_room s" "moved_view s out"
  shows "\<exists>s'. out = Some s' \<and> goes_on (if place s' = None then GAME_WON else Playing, s')"
proof -
  obtain x y m where m: "out = Some (s\<lparr>map_x := x, map_y := y, screen := m\<rparr>)" "shown (s\<lparr>map_x := x, map_y := y, screen := m\<rparr>)"
    using assms(3) by (auto simp: moved_view_def)
  then have "game_ok (s\<lparr>map_x := x, map_y := y, screen := m\<rparr>) r a"
    using game_okD [OF assms(1)] assms(2) by (auto simp: game_ok_def speeds_ok_def shown_def)
  then show ?thesis using m(1) game_okD(2) [OF assms(1)] goes_on_playing by auto
qed

lemma do_command_ok:
  assumes "game_ok s r a" "\<not> enter_room s"
  shows "\<exists>c s'. do_command stdin s = Some (c, s') \<and> goes_on (c, s')"
proof -
  note ok = game_okD [OF assms(1)]
  obtain i cmd rest where i: "get_command stdin (inp s) = Some (i, cmd, rest)" "input_ok i" using get_command_ok [OF ok(6)] by blast
  let ?s = "s\<lparr>inp := i\<rparr>"
  have "shown ?s" by (rule shown_cong [OF ok(9) [OF assms(2)]]) simp_all
  then have g: "game_ok ?s r a" "\<not> enter_room ?s" using ok i(2) assms(2) by (auto simp: game_ok_def speeds_ok_def)
  note ok' = game_okD [OF g(1)]
  obtain v where v: "view (room (world ?s) r) = Some v" using ok'(4) unfolding pics_def by blast
  have p: "place ?s = cur_room ?s" using ok'(2) ok'(8) [OF g(2)] by simp
  note moves = move_photo_down_shown [OF ok'(9) [OF g(2)] ok'(7)] move_photo_right_shown [OF ok'(9) [OF g(2)] ok'(7)]
    move_photo_left_shown [OF ok'(9) [OF g(2)] ok'(7) p ok'(2) v] move_photo_up_shown [OF ok'(9) [OF g(2)] ok'(7) p ok'(2) v]
  note scrolls = moves [THEN moved_view_ok [OF g]]
  have walks: "\<exists>s'. try_move try_to_move_left ?s = Some s' \<and> goes_on (if place s' = None then GAME_WON else Playing, s')"
    "\<exists>s'. try_move try_to_move_right ?s = Some s' \<and> goes_on (if place s' = None then GAME_WON else Playing, s')"
    "\<exists>s'. try_move try_to_enter ?s = Some s' \<and> goes_on (if place s' = None then GAME_WON else Playing, s')"
    using try_move_ok [OF g, of try_to_move_left GoLeft] try_move_ok [OF g, of try_to_move_right GoRight] try_move_ok [OF g, of try_to_enter GoIn]
      moves_do_not_redraw by (simp_all add: fun_eq_iff)
  obtain b s' where t: "handle_typing ?s = Some (b, s')"
    "goes_on (if place s' = None then GAME_WON else Playing, if b then s'\<lparr>enter_room := True\<rparr> else s')"
    using handle_typing_ok [OF g] by blast
  have stay: "goes_on (if place ?s = None then GAME_WON else Playing, ?s)" "goes_on (GAME_QUIT, ?s)"
    using goes_on_playing [OF g(1)] ok(2) by (simp_all add: goes_on_def)
  have typed: "\<exists>s'. (do { (b, s) \<leftarrow> handle_typing ?s; Some (if b then s\<lparr>enter_room := True\<rparr> else s) }) = Some s' \<and>
      goes_on (if place s' = None then GAME_WON else Playing, s')"
    using t by (cases b) auto
  have "\<exists>s'. obey cmd ?s = Some s' \<and> goes_on (if place s' = None then GAME_WON else Playing, s')"
    using stay(1) by (cases cmd) (simp_all only: obey_def cmd.case scrolls walks typed, blast+)
  then obtain s' where o: "obey cmd ?s = Some s'" and s': "goes_on (if place s' = None then GAME_WON else Playing, s')" by blast
  then have "do_command stdin s = (if cmd = CMD_QUIT then Some (GAME_QUIT, ?s) else Some (if place s' = None then GAME_WON else Playing, s'))"
    using i(1) by (simp add: do_command_def Let_def)
  then show ?thesis using s' stay(2) by (cases "cmd = CMD_QUIT") simp_all
qed

lemma clear_status_ok: "game_ok s r a \<Longrightarrow> game_ok (clear_status s) r a"
proof -
  assume g: "game_ok s r a"
  have "absr ((world s)\<lparr>status_msg := []\<rparr>) a" using game_okD(3) [OF g] by (rule absr_same) (use game_okD(3) [OF g] in \<open>auto simp: absr_def\<close>)
  moreover have "pics ((world s)\<lparr>status_msg := []\<rparr>)" using game_okD(4) [OF g] by (simp add: pics_def)
  ultimately show ?thesis unfolding clear_status_def by (intro game_ok_quiet [OF g]) simp_all
qed

lemma game_loop_ok: "game_ok s r a \<Longrightarrow> \<exists>c s'. game_loop es s = Some (c, s') \<and> goes_on (c, s')"
proof (induction es s arbitrary: r a rule: game_loop.induct)
  case (2 es s)
  then show ?case using clear_status_ok by (simp, blast)
next
  case (3 stdin es s)
  obtain s1 where s1: "show_room s = Some s1" "game_ok s1 r a" "\<not> enter_room s1" using show_room_ok [OF "3.prems"] by blast
  obtain c s2 where s2: "do_command stdin s1 = Some (c, s2)" "goes_on (c, s2)" using do_command_ok [OF s1(2,3)] by blast
  show ?case
  proof (cases "c = Playing")
    case True
    then obtain r' a' where "game_ok s2 r' a'" using s2(2) by (auto simp: goes_on_def)
    then show ?thesis using "3.IH" [OF s1(1) s2(1) refl True] s1(1) s2(1) True by simp
  qed (use s1 s2 in simp)
qed (use goes_on_playing in auto)

end
