(* ===== verification/GameRun.thy ===== *)
theory GameRun
  imports Game Verbs
begin

text \<open>
  Whole games: from the files of the pictures through \<open>build_world\<close> and \<open>set_mode_X\<close> to any number
  of rounds of the main loop.
\<close>

section \<open>Pictures of a built world\<close>

lemma read_photo_ok: "read_photo malloc fs f = Some v \<Longrightarrow> photo_ok v"
  by (auto simp: read_photo_def read_pixels_spec bind_eq_Some_conv photo_ok_def view_w_def view_h_def dest!: length_take_pixels split: if_splits)

lemma read_obj_image_ok: "read_obj_image malloc fs f = Some im \<Longrightarrow> image_ok im"
  by (auto simp: read_obj_image_def read_pixels_spec bind_eq_Some_conv image_ok_def img_w_def img_h_def dest!: length_take_pixels split: if_splits)

text \<open>Files whose photos fill the screen.\<close>

definition photo_files :: "string list" where
  "photo_files = map rd_filename room_data @ map snd swap_data"

definition big_photos :: "(nat \<Rightarrow> bool) \<Rightarrow> files \<Rightarrow> bool" where
  "big_photos malloc fs \<longleftrightarrow> (\<forall>f \<in> set photo_files. \<forall>v. read_photo malloc fs f = Some v \<longrightarrow> 320 \<le> view_w v \<and> 200 \<le> view_h v)"

text \<open>Pictures in order as far as they are there.\<close>

definition rooms_upto :: "game \<Rightarrow> bool" where
  "rooms_upto g \<longleftrightarrow> (\<forall>r. (\<forall>v. view (room g r) = Some v \<longrightarrow> wide v) \<and> (\<forall>n. rname (room g r) = Some n \<longrightarrow> ascii n))"

definition objects_upto :: "game \<Rightarrow> bool" where
  "objects_upto g \<longleftrightarrow> (\<forall>ob im. img (object g ob) = Some im \<longrightarrow> image_ok im)"

definition swaps_upto :: "game \<Rightarrow> bool" where
  "swaps_upto g \<longleftrightarrow> (\<forall>w v. swap_photo g w = Some v \<longrightarrow> wide v)"

lemmas upto_defs = rooms_upto_def objects_upto_def swaps_upto_def

lemma room_names_ascii: "\<forall>d \<in> set room_data. ascii (rd_name d)"
  by code_simp

lemma build_rooms_pics:
  assumes "build_rooms rp ds g = Inr g'" "rooms_upto g" "\<And>d v. d \<in> set ds \<Longrightarrow> rp (rd_filename d) = Some v \<Longrightarrow> wide v" "\<forall>d \<in> set ds. ascii (rd_name d)"
  shows "rooms_upto g' \<and> status_msg g' = status_msg g"
  using assms
proof (induction ds arbitrary: g)
  case (Cons d ds)
  then obtain p where p: "rp (rd_filename d) = Some p" by (auto split: if_splits option.splits)
  let ?g = "upd_room (rd_id d) (\<lambda>_. \<lparr>rname = Some (rd_name d), view = Some p, contents = None, left = rd_left d, enter = rd_enter d, right = rd_right d\<rparr>) g"
  have "rooms_upto ?g" using Cons.prems(2,4) Cons.prems(3) [OF _ p] by (auto simp: upto_defs)
  then show ?case using Cons.IH [of ?g] Cons.prems p by (auto split: if_splits)
qed simp

lemma place_initially_base: "place_initially d g = Some g' \<Longrightarrow> same_base g g'"
  by (auto simp: place_initially_def dest: insert_object_base insert_object_at_base split: option.splits if_splits)

lemma build_objects_pics:
  assumes "build_objects ri ds g = Some (Inr g')" "objects_upto g" "\<And>f im. ri f = Some im \<Longrightarrow> image_ok im"
  shows "objects_upto g' \<and> status_msg g' = status_msg g \<and> (\<forall>r. rname (room g' r) = rname (room g r) \<and> view (room g' r) = view (room g r))"
  using assms
proof (induction ds arbitrary: g)
  case (Cons d ds)
  then obtain im where im: "ri (od_filename d) = Some im" by (auto split: if_splits option.splits)
  let ?g = "upd_object (od_id d) (\<lambda>_. \<lparr>oname = Some (od_name d), nxt = None, loc = None, pos_x = 0, pos_y = 0, img = Some im\<rparr>) g"
  obtain h where h: "place_initially d ?g = Some h" "build_objects ri ds h = Some (Inr g')"
    using Cons.prems(1) im by (auto split: if_splits simp: bind_eq_Some_conv)
  have "objects_upto ?g" using Cons.prems(2) Cons.prems(3) [OF im] by (auto simp: upto_defs)
  then have "objects_upto h" "same_base ?g h" using place_initially_base [OF h(1)] by (auto simp: upto_defs same_base_def)
  then show ?case using Cons.IH [OF h(2)] Cons.prems(3) by (simp add: same_base_def)
qed simp

lemma build_swaps_pics:
  assumes "build_swaps rp ds g = Inr g'" "swaps_upto g" "\<And>f v. f \<in> snd ` set ds \<Longrightarrow> rp f = Some v \<Longrightarrow> wide v"
  shows "swaps_upto g' \<and> status_msg g' = status_msg g \<and> room g' = room g \<and> object g' = object g"
  using assms
proof (induction rp ds g rule: build_swaps.induct)
  case (2 rp which fname ds g)
  then obtain p where p: "rp fname = Some p" "swap_photo g which = None" by (auto split: if_splits option.splits)
  let ?g = "g\<lparr>swap_photo := (swap_photo g)(which := Some p)\<rparr>"
  have "swaps_upto ?g" using "2.prems"(2) "2.prems"(3) [OF _ p(1)] by (auto simp: upto_defs)
  then show ?case using "2.IH" [OF _ p(1)] "2.prems" p by auto
qed simp

lemma build_pics:
  assumes "build_world malloc fs g0 = Some (Inr g)" "big_photos malloc fs" "status_msg g0 = []"
  shows "pics g" "absr g start"
proof -
  show a: "absr g start" using build_world_start [of malloc fs g0] assms(1) by (auto split: sum.splits)
  let ?g = "g0\<lparr>player_flags := [0], room := \<lambda>_. empty_room\<rparr>"
  obtain g1 where g1: "build_rooms (read_photo malloc fs) room_data ?g = Inr g1"
    using assms(1) by (auto simp: build_world_def Let_def split: sum.splits)
  obtain g2 where g2: "build_objects (read_obj_image malloc fs) obj_data (g1\<lparr>object := \<lambda>_. empty_object\<rparr>) = Some (Inr g2)"
      "build_swaps (read_photo malloc fs) swap_data (g2\<lparr>swap_photo := \<lambda>_. None\<rparr>) = Inr g"
    using assms(1) g1 by (auto simp: build_world_def Let_def bind_eq_Some_conv split: sum.split_asm) (metis sum.exhaust)
  have w: "wide v" if "read_photo malloc fs f = Some v" "f \<in> set photo_files" for f v
    using that assms(2) read_photo_ok by (auto simp: wide_def big_photos_def)
  then have w': "wide v" if "d \<in> set room_data" "read_photo malloc fs (rd_filename d) = Some v" for d v using that by (simp add: photo_files_def)
  have w'': "wide v" if "f \<in> snd ` set swap_data" "read_photo malloc fs f = Some v" for f v using w that by (simp add: photo_files_def)
  have r1: "rname (room g1 r) \<noteq> None" for r
    using build_rooms_spec [OF _ distinct_rooms, of ?g "read_photo malloc fs"] g1 all_rooms [of r] by (auto simp: empty_room_def)
  have "rooms_upto ?g" "objects_upto (g1\<lparr>object := \<lambda>_. empty_object\<rparr>)" "swaps_upto (g2\<lparr>swap_photo := \<lambda>_. None\<rparr>)"
    by (simp_all add: upto_defs empty_room_def empty_object_def)
  note built = build_rooms_pics [OF g1 this(1) w' room_names_ascii] build_objects_pics [OF g2(1) this(2) read_obj_image_ok]
    build_swaps_pics [OF g2(2) this(3) w'']
  then have u: "rooms_upto g" "objects_upto g" "swaps_upto g" "status_msg g = []" "\<And>r. rname (room g r) \<noteq> None"
    using r1 assms(3) by (simp_all add: upto_defs)
  moreover have "\<exists>v. view (room g r) = Some v" "\<exists>im. img (object g ob) = Some im" "\<exists>v. swap_photo g w = Some v" "\<exists>n. rname (room g r) = Some n" for r ob w
    using absrD(5,7,10) [OF a] u(5) by blast+
  ultimately show "pics g" unfolding pics_def upto_defs by (metis ascii.simps(1) list.size(3) zero_le)
qed

lemma start_ok:
  assumes "start_game malloc fs s0 = Some s" "big_photos malloc fs" "status_msg (world s0) = []" "input_ok (inp s0)"
  shows "game_ok s R_EAST_EVRT start"
proof -
  obtain g where g: "build_world malloc fs (world s0) = Some (Inr g)"
    using assms(1) by (auto simp: start_game_def bind_eq_Some_conv split: sum.split_asm) (metis sum.exhaust)
  obtain ret m where m: "set_mode_X True True True (Some horiz_callback) (Some vert_callback) (screen s0) = (ret, m)" by fastforce
  have "s = (init_game (s0\<lparr>world := g\<rparr>))\<lparr>screen := m, enter_room := True\<rparr>"
    using assms(1) g m by (auto simp: start_game_def Let_def init_game_def split: if_splits)
  then have s: "place s = Some R_EAST_EVRT" "world s = g" "screen s = m" "enter_room s" "inp s = inp s0" "x_speed s = 2" "y_speed s = 2"
    by (simp_all add: init_game_def start_in_room_def MOTION_SPEED_def)
  have "screen_ok m" using set_mode_X_spec [OF m] by (simp add: screen_ok_def)
  moreover have "game_state [] = (Some R_EAST_EVRT, start)" by (simp add: game_state_def)
  ultimately show ?thesis using build_pics [OF g assms(2,3)] assms(4) s by (auto simp: game_ok_def speeds_ok_def)
qed

section \<open>A set of pictures\<close>

text \<open>Black photos of the size of the screen and objects of one pixel.\<close>

definition black_files :: files where
  "black_files = (\<lambda>f. if f \<in> set photo_files then Some ([64, 1, 200, 0] @ replicate 128000 0) else Some [1, 0, 1, 0, 0, 0])"

lemma take_black: "take_pixels read_photo_pixel n (replicate (2 * n) 0) = Some (replicate n (pixel_222 (le16 0 0)), [])"
  by (induction n) (simp_all add: read_photo_pixel_def)

lemma black_photo:
  assumes "f \<in> set photo_files"
  shows "\<exists>v. read_photo (\<lambda>_. True) black_files f = Some v \<and> view_w v = 320 \<and> view_h v = 200"
proof -
  have h: "read_header ([64, 1, 200, 0] @ bs) = Some (\<lparr>hdr_width = 320, hdr_height = 200\<rparr>, bs)" for bs
    by (simp add: read_header_def le16_def)
  have e: "320 * 200 = (64000 :: nat)" "2 * 64000 = (128000 :: nat)" by simp_all
  have t: "take_pixels read_photo_pixel (320 * 200) (replicate 128000 0) = Some (replicate 64000 (pixel_222 (le16 0 0)), [])"
    using take_black [of 64000] unfolding e .
  have u: "unat (320 :: u16) = 320" "unat (200 :: u16) = 200" by simp_all
  have "read_pixels read_photo_pixel \<lparr>hdr_width = 320, hdr_height = 200\<rparr> (replicate 128000 0) = Some (flip_rows 320 200 (replicate 64000 (pixel_222 (le16 0 0))))"
    unfolding read_pixels_spec photo_header.select_convs u t by simp
  then have "read_photo (\<lambda>_. True) black_files f = Some \<lparr>photo_hdr = \<lparr>hdr_width = 320, hdr_height = 200\<rparr>,
      photo_img = flip_rows 320 200 (replicate 64000 (pixel_222 (le16 0 0)))\<rparr>"
    using assms h by (simp add: read_photo_def black_files_def MAX_PHOTO_WIDTH_def MAX_PHOTO_HEIGHT_def u)
  then show ?thesis by (simp add: view_w_def view_h_def)
qed

lemma black_big: "big_photos (\<lambda>_. True) black_files"
  using black_photo by (fastforce simp: big_photos_def)

lemma missing_object_image:
  "build_objects ri ds g = Some (Inl (NoObjectImage f)) \<Longrightarrow> f \<in> od_filename ` set ds"
proof (induction ds arbitrary: g)
  case (Cons d ds)
  then show ?case by (cases "ri (od_filename d)") (auto split: if_splits simp: bind_eq_Some_conv)
qed simp

lemma missing_room_photo: "build_rooms rp ds g \<noteq> Inl (NoObjectImage f)"
  by (induction rp ds g rule: build_rooms.induct) (auto split: option.splits)

lemma missing_swap_photo: "build_swaps rp ds g \<noteq> Inl (NoObjectImage f)"
  by (induction rp ds g rule: build_swaps.induct) (auto split: option.splits)

lemma missing_image_of_world:
  assumes "build_world malloc fs g = Some (Inl (NoObjectImage f))"
  shows "f \<in> od_filename ` set obj_data"
proof -
  let ?g = "g\<lparr>player_flags := [0], room := \<lambda>_. empty_room\<rparr>"
  obtain g1 where g1: "build_rooms (read_photo malloc fs) room_data ?g = Inr g1"
    using assms missing_room_photo by (cases "build_rooms (read_photo malloc fs) room_data ?g") (auto simp: build_world_def Let_def)
  obtain res where res: "build_objects (read_obj_image malloc fs) obj_data (g1\<lparr>object := \<lambda>_. empty_object\<rparr>) = Some res"
    using assms g1 by (auto simp: build_world_def Let_def bind_eq_Some_conv)
  then have "res = Inl (NoObjectImage f)" using assms g1 missing_swap_photo by (cases res) (auto simp: build_world_def Let_def)
  then show ?thesis using res missing_object_image by blast
qed

lemma black_files_readable:
  "read_photo (\<lambda>_. True) black_files f \<noteq> None" "f \<in> od_filename ` set obj_data \<Longrightarrow> read_obj_image (\<lambda>_. True) black_files f \<noteq> None"
proof -
  have d: "read_photo (\<lambda>_. True) dots [] \<noteq> None" "read_obj_image (\<lambda>_. True) dots [] \<noteq> None" by code_simp+
  have e: "f \<notin> set photo_files \<Longrightarrow> read_photo (\<lambda>_. True) black_files f = read_photo (\<lambda>_. True) dots []"
    "f \<notin> set photo_files \<Longrightarrow> read_obj_image (\<lambda>_. True) black_files f = read_obj_image (\<lambda>_. True) dots []"
    by (simp_all add: read_photo_def read_obj_image_def black_files_def dots_def)
  show "read_photo (\<lambda>_. True) black_files f \<noteq> None" using d e black_photo [of f] by (cases "f \<in> set photo_files") auto
  have "\<forall>d \<in> set obj_data. od_filename d \<notin> set photo_files" by code_simp
  then show "f \<in> od_filename ` set obj_data \<Longrightarrow> read_obj_image (\<lambda>_. True) black_files f \<noteq> None" using d e by auto
qed

lemma black_game: "\<exists>s. start_game (\<lambda>_. True) black_files s0 = Some s"
proof -
  obtain res where res: "build_world (\<lambda>_. True) black_files (world s0) = Some res"
      "case res of Inl e \<Rightarrow> file_missing (\<lambda>_. True) black_files e | Inr g \<Rightarrow> absr g start"
    using build_world_start by blast
  have "res \<noteq> Inl e" for e
    using res missing_image_of_world black_files_readable by (fastforce simp: file_missing_def)
  then obtain g where g: "res = Inr g" by (cases res) auto
  obtain ret m where m: "set_mode_X True True True (Some horiz_callback) (Some vert_callback) (screen s0) = (ret, m)" by fastforce
  have "start_game (\<lambda>_. True) black_files s0 = Some ((init_game (s0\<lparr>world := g\<rparr>))\<lparr>screen := m, enter_room := True\<rparr>)"
    using res(1) g m set_mode_X_spec(1) [OF m] sanity by (simp add: start_game_def Let_def init_game_def)
  then show ?thesis by blast
qed

definition new_game :: adventure where
  "new_game = \<lparr>place = None, map_x = 0, map_y = 0, x_speed = 0, y_speed = 0, cur_room = None, world = unbuilt, screen = power_on,
     inp = fresh_input, enter_room = False\<rparr>"

lemma new_game_ok: "status_msg (world new_game) = []" "input_ok (inp new_game)"
  using fresh_input_ok by (simp_all add: new_game_def unbuilt_def)

section \<open>Properties\<close>

text \<open>
  C2: A game never gets stuck and never leaves its memory: from the start of a game with photos that
  fill the screen, whatever is typed in whatever rounds and whenever the status message is
  cleared, every round can be carried out, the fences around the build buffer are intact when
  the game ends (so \<open>clear_mode_X\<close> has nothing to report), room and world are those of the rules
  after some list of moves and commands, and a game that is won has all flags set.
\<close>

theorem game_never_stuck:
  assumes "start_game malloc fs s0 = Some s" "big_photos malloc fs" "status_msg (world s0) = []" "input_ok (inp s0)"
  shows "\<exists>c s'. game_loop es s = Some (c, s') \<and> fst (clear_mode_X (screen s')) = [] \<and>
    (\<exists>xs. place s' = fst (game_state xs) \<and> absr (world s') (snd (game_state xs))) \<and>
    (c = GAME_WON \<longrightarrow> place s' = None \<and> (\<forall>f. player_flag_is_set f (world s')))"
proof -
  obtain c s' where run: "game_loop es s = Some (c, s')" "goes_on (c, s')" using game_loop_ok [OF start_ok [OF assms]] by blast
  then obtain xs a where xs: "game_state xs = (place s', a)" "absr (world s') a" by (auto simp: goes_on_def)
  have "player_flag_is_set f (world s')" if "place s' = None" for f
    using game_state_won [of xs a] xs that absrD(8) [OF xs(2)] by (simp add: all_achieved_def)
  then show ?thesis using run xs by (auto simp: goes_on_def screen_ok_def clear_mode_X_silent intro!: exI [of _ xs])
qed

theorem game_never_stuck_witness:
  "\<exists>s c s'. start_game (\<lambda>_. True) black_files new_game = Some s \<and> game_loop [Round ''get fish'', Timeout, Round []] s = Some (c, s') \<and>
     fst (clear_mode_X (screen s')) = []"
  using black_game game_never_stuck [OF _ black_big new_game_ok] by meson

text \<open>
  C3: Every round shows the room the player is in: photo and objects, at the place of the view
  window, in all rows of the display between the 18 that the status bar may cover and the last
  of the image page - after any history of scrolling, walking and commands that move objects or
  change photos, although only the rows and columns that come into view are drawn.
\<close>

theorem room_on_display:
  assumes "start_game malloc fs s0 = Some s" "big_photos malloc fs" "status_msg (world s0) = []" "input_ok (inp s0)"
    "game_loop es s = Some (Playing, s')"
  shows "\<exists>s1. show_room s' = Some s1 \<and> place s1 = place s' \<and> world s1 = world s' \<and>
    (\<forall>x < 320. \<forall>y. 18 \<le> y \<and> y < 182 \<longrightarrow>
       displayed (vcard (screen s1)) x y = room_picture (place s1, world s1) (uint (map_x s1) + int x) (uint (map_y s1) + int y))"
proof -
  obtain c s'' where "game_loop es s = Some (c, s'')" "goes_on (c, s'')" using game_loop_ok [OF start_ok [OF assms(1-4)]] by blast
  then obtain r a where g: "game_ok s' r a" using assms(5) by (auto simp: goes_on_def)
  obtain s1 where s1: "show_room s' = Some s1" "game_ok s1 r a" "world s1 = world s'" "on_display s1" using show_room_ok [OF g] by blast
  then show ?thesis using game_okD(2) [OF g] game_okD(2) [OF s1(2)] unfolding on_display_def by (intro exI [of _ s1]) simp
qed

theorem room_on_display_witness:
  "\<exists>s s1. start_game (\<lambda>_. True) black_files new_game = Some s \<and> show_room s = Some s1 \<and>
     displayed (vcard (screen s1)) 7 100 = room_picture (place s1, world s1) (uint (map_x s1) + 7) (uint (map_y s1) + 100)"
proof -
  obtain s where s: "start_game (\<lambda>_. True) black_files new_game = Some s" using black_game by blast
  have "game_loop [] s = Some (Playing, s)" by simp
  from room_on_display [OF s black_big new_game_ok this] s show ?thesis by fastforce
qed

end
