(* ===== verification/Life.thy ===== *)
theory Life
  imports Prelude "HOL-Library.Monad_Syntax"
begin

unbundle bit_operations_syntax

text \<open>
  The player's side of the game \<open>mp1/life-or-death.c\<close>: the virus' five bases (\<open>code\<close>), the player's guess
  and the hints, vaccination, the keys and a round of the main loop. The calls of \<open>write_string\<close>
  are listed in \<open>drawn\<close>, the arguments of \<open>RTC_VACCINATE\<close> in \<open>vaccines\<close>; random numbers are the sequence
  \<open>randoms\<close>. What the driver answers is the record \<open>driver\<close>.

  The signal \<open>SIGUSR1\<close> comes at any time and its handler reads the state of the game from the driver into \<open>gstat\<close>.
  What the rest of the program sees of it is the value at each place where it reads \<open>gstat\<close>: the sequence
  \<open>signals\<close> says for each such place whether a signal came since the last one and what the driver answered.
\<close>

section \<open>State\<close>

record keystroke_args =
  direction :: u16
  selector :: u16
  guess :: "u8 list"
  hint :: "u8 list"

record game_status =
  pop :: u32
  inf :: u32

record life =
  dna_code :: "u8 list"
  last_guess :: "u8 list"
  kargs :: keystroke_args
  gstat :: game_status
  randoms :: "nat \<Rightarrow> nat"
  signals :: "nat \<Rightarrow> game_status option option"
  vaccines :: "u32 list"
  drawn :: "(string \<times> nat \<times> nat) list"

record driver =
  vaccinate_ok :: "u32 \<Rightarrow> bool"
  keystroke :: "keystroke_args \<Rightarrow> keystroke_args option"
  getstatus :: "game_status option"

definition random :: "life \<Rightarrow> nat \<times> life" where
  "random s = (randoms s 0, s\<lparr>randoms := \<lambda>n. randoms s (Suc n)\<rparr>)"

definition write_string :: "string \<Rightarrow> nat \<Rightarrow> nat \<Rightarrow> life \<Rightarrow> life" where
  "write_string str x y s = s\<lparr>drawn := drawn s @ [(str, x, y)]\<rparr>"

text \<open>The handler of \<open>SIGUSR1\<close>, also called after a key, with the answer of \<open>RTC_GETSTATUS\<close> (\<open>None\<close> when it fails).\<close>

definition sigusr1_handler :: "game_status option \<Rightarrow> life \<Rightarrow> life" where
  "sigusr1_handler answer s =
     (case answer of Some g \<Rightarrow> s\<lparr>gstat := g\<rparr> | None \<Rightarrow> write_string ''GETSTATUS IOCTL FAILED.'' 0 22 s)"

definition deliver :: "life \<Rightarrow> life" where
  "deliver s =
     (let s1 = s\<lparr>signals := \<lambda>n. signals s (Suc n)\<rparr>
      in case signals s 0 of None \<Rightarrow> s1 | Some answer \<Rightarrow> sigusr1_handler answer s1)"

definition set_hint :: "nat \<Rightarrow> u8 \<Rightarrow> life \<Rightarrow> life" where
  "set_hint i h s = s\<lparr>kargs := (kargs s)\<lparr>hint := (hint (kargs s))[i := h]\<rparr>\<rparr>"

definition init_base :: "nat \<Rightarrow> life \<Rightarrow> life" where
  "init_base i s =
     (let (v, s) = random s;
          s = s\<lparr>dna_code := (dna_code s)[i := of_nat (v mod 4)]\<rparr>;
          s = s\<lparr>kargs := (kargs s)\<lparr>guess := (guess (kargs s))[i := 0]\<rparr>\<rparr>;
          s = s\<lparr>last_guess := (last_guess s)[i := 255]\<rparr>
      in set_hint i 0xF s)"

definition init_DNA_fragment :: "life \<Rightarrow> life" where
  "init_DNA_fragment s = fold init_base [0..<5] (s\<lparr>kargs := (kargs s)\<lparr>selector := 0\<rparr>\<rparr>)"

section \<open>Drawing\<close>

definition hint_string :: "u8 \<Rightarrow> string" where
  "hint_string h = ''('' @ map (\<lambda>j. if h AND push_bit j 1 \<noteq> 0 then ''ACGT'' ! j else CHR '' '') [0..<4] @ '')''"

definition draw_hints :: "life \<Rightarrow> life" where
  "draw_hints s = fold (\<lambda>i s. write_string (hint_string (hint (kargs s) ! i)) (i * 10 + 15) 21 s) [0..<5] s"

definition find_quality :: "life \<Rightarrow> nat" where
  "find_quality s = length (filter (\<lambda>i. guess (kargs s) ! i = dna_code s ! i) [0..<5])"

definition quality_name :: "life \<Rightarrow> string" where
  "quality_name s =
     (let idx = find_quality s div 2; idx = (if 3 < idx then 3 else idx)
      in [''Poor    '', ''Moderate'', ''Good    '', ''INVALID ''] ! idx)"

text \<open>\<open>%7d\<close> and \<open>%6d\<close> of the unsigned counts, and \<open>snprintf\<close> into 80 bytes.\<close>

fun digits :: "nat \<Rightarrow> string" where
  "digits n = (if n < 10 then [char_of (48 + n)] else digits (n div 10) @ [char_of (48 + n mod 10)])"

declare digits.simps [simp del]

definition format_d :: "nat \<Rightarrow> u32 \<Rightarrow> string" where
  "format_d w v = (let str = (if sint v < 0 then ''-'' else []) @ digits (nat \<bar>sint v\<bar>)
                   in replicate (w - length str) CHR '' '' @ str)"

definition draw_status_bar :: "life \<Rightarrow> life" where
  "draw_status_bar s =
     (let quality = quality_name s;
          s = deliver s; humans = pop (gstat s);
          s = deliver s; infected = inf (gstat s)
      in write_string (take 79 (''     Humans (1000s): '' @ format_d 7 humans @ ''  Infected: '' @ format_d 6 infected
                            @ ''  Guess quality: '' @ quality)) 0 24 s)"

definition init_status_bar :: "life \<Rightarrow> life" where
  "init_status_bar s =
     (let s = write_string ''(OPTIONS)'' 3 21 s;
          s = write_string ''GUESS'' 5 22 s;
          s = write_string ''SPACE:'' 70 21 s;
          s = write_string ''VACCINATE'' 68 22 s;
          s = fold (\<lambda>i s. write_string [''ACGT'' ! unat (guess (kargs s) ! i)] (i * 10 + 18) 22 s) [0..<5] s
      in write_string ''==>'' (unat (selector (kargs s)) * 10 + 14) 22 s)"

section \<open>Vaccination\<close>

text \<open>\<open>kargs.hint[i] && (1UL << j)\<close> is true when any hint is left.\<close>

definition clear_hint :: "nat \<times> nat \<Rightarrow> life \<Rightarrow> life" where
  "clear_hint = (\<lambda>(i, j) s.
     if dna_code s ! i \<noteq> of_nat j \<and> hint (kargs s) ! i \<noteq> 0
     then let s = deliver s; (v, s) = random s
          in if unat (inf (gstat s)) > v mod 8000 then set_hint i (hint (kargs s) ! i AND NOT (push_bit j 1)) s else s
     else s)"

definition give_hints :: "life \<Rightarrow> life" where
  "give_hints s = fold clear_hint (List.product [0..<5] [0..<4]) s"

text \<open>The \<open>do\<close> loop of the mutation goes on while the base differs from the code.\<close>

partial_function (option) pick_base :: "u8 \<Rightarrow> life \<Rightarrow> (u8 \<times> life) option" where
  "pick_base c s =
     (let (v, s) = random s; pick = of_nat (v mod 4) in if c \<noteq> pick then pick_base c s else Some (pick, s))"

definition mutate :: "nat \<Rightarrow> nat \<Rightarrow> life \<Rightarrow> life option" where
  "mutate acc i s =
     (let (v, s) = random s
      in if acc > v mod 20
         then do { (pick, s) \<leftarrow> pick_base (dna_code s ! i) s;
                   let s = s\<lparr>dna_code := (dna_code s)[i := pick]\<rparr>;
                   let s = set_hint i 0xF s;
                   let (w, s) = random s;
                   Some (set_hint (w mod 5) 0xF s) }
         else Some s)"

definition send_vaccine :: "driver \<Rightarrow> u32 \<Rightarrow> u32 \<Rightarrow> life \<Rightarrow> life" where
  "send_vaccine d aggr_delta purge_chance s =
     (let arg = push_bit 16 aggr_delta OR purge_chance; s = s\<lparr>vaccines := vaccines s @ [arg]\<rparr>
      in if \<not> vaccinate_ok d arg then write_string ''VACCINATE IOCTL FAILED.   '' 0 20 s else s)"

definition vaccinate :: "driver \<Rightarrow> life \<Rightarrow> life option" where
  "vaccinate d s =
     (let repeated = list_all (\<lambda>i. last_guess s ! i = guess (kargs s) ! i) [0..<5];
          s = s\<lparr>last_guess := map (\<lambda>i. guess (kargs s) ! i) [0..<5]\<rparr>
      in if repeated then Some (send_vaccine d 10 0 s)
         else let acc = find_quality s; aggr_delta = of_nat acc * 10; purge_chance = of_nat acc * 20
              in do { s \<leftarrow> (if 100 > acc * 20
                           then map_option draw_hints (for_each (mutate acc) [0..<5] (give_hints s)) else Some s);
                      Some (send_vaccine d aggr_delta purge_chance s) })"

section \<open>Keys\<close>

datatype command_t = NOKEY | QUIT | LEFT | RIGHT | UP | DOWN | SPACE

fun read_key :: "string \<Rightarrow> nat \<Rightarrow> command_t \<times> string" where
  "read_key [] state = (NOKEY, [])"
| "read_key (ch # cs) state =
     (if ch = CHR 0xFF then (NOKEY, cs)
      else if ch = CHR 0x60 then (QUIT, cs)
      else if ch = CHR '' '' then (SPACE, cs)
      else if ch = CHR ''h'' then (LEFT, cs)
      else if ch = CHR ''j'' then (DOWN, cs)
      else if ch = CHR ''k'' then (UP, cs)
      else if ch = CHR ''l'' then (RIGHT, cs)
      else if ch = CHR 0x1B then read_key cs 1
      else if ch = CHR ''['' \<and> state = 1 then read_key cs 2
      else if state = 2 \<and> ch = CHR ''A'' then (UP, cs)
      else if state = 2 \<and> ch = CHR ''B'' then (DOWN, cs)
      else if state = 2 \<and> ch = CHR ''C'' then (RIGHT, cs)
      else if state = 2 \<and> ch = CHR ''D'' then (LEFT, cs)
      else read_key cs 0)"

definition key_command :: "string \<Rightarrow> command_t \<times> string" where
  "key_command stdin = read_key stdin 0"

definition send_keystroke :: "driver \<Rightarrow> u16 \<Rightarrow> life \<Rightarrow> life" where
  "send_keystroke d dir s =
     (let s = s\<lparr>kargs := (kargs s)\<lparr>direction := dir\<rparr>\<rparr>
      in sigusr1_handler (getstatus d) (case keystroke d (kargs s) of
           Some k \<Rightarrow> s\<lparr>kargs := k\<rparr> | None \<Rightarrow> write_string ''KEYSTROKE IOCTL FAILED.   '' 0 23 s))"

definition handle_command :: "driver \<Rightarrow> command_t \<Rightarrow> life \<Rightarrow> life option" where
  "handle_command d cmd s =
     (case cmd of
        LEFT \<Rightarrow> Some (send_keystroke d 0 s)
      | DOWN \<Rightarrow> Some (send_keystroke d 1 s)
      | RIGHT \<Rightarrow> Some (send_keystroke d 2 s)
      | UP \<Rightarrow> Some (send_keystroke d 3 s)
      | SPACE \<Rightarrow> vaccinate d s
      | _ \<Rightarrow> Some s)"

text \<open>
  The main loop over rounds: the driver of each and the characters that came before it, after those
  the last round left (\<open>stdin\<close>). The loop ends when the player quits or when there are no humans or no infected
  left; when the rounds given are used up before that, the game is still running. (\<open>NOKEY\<close> stands for the last
  command when it is not \<open>QUIT\<close>; the C variable is not set when a signal ends the game before the first one.)
\<close>

datatype life_end = Running string life | Over command_t life

fun life_loop :: "(driver \<times> string) list \<Rightarrow> string \<Rightarrow> life \<Rightarrow> life_end option" where
  "life_loop [] stdin s = Some (Running stdin s)"
| "life_loop ((d, new) # es) stdin s =
     (let s = deliver s
      in if \<not> 0 < pop (gstat s) then Some (Over NOKEY s)
         else let s = deliver s
              in if \<not> 0 < inf (gstat s) then Some (Over NOKEY s)
                 else let (cmd, rest) = key_command (stdin @ new)
                      in if cmd = QUIT then Some (Over QUIT s)
                         else do { s \<leftarrow> handle_command d cmd s;
                                   life_loop es rest (draw_hints (draw_status_bar s)) })"

text \<open>
  The game between the start screen and its end: still running after the rounds, or over with a score. (A
  signal between the assignment of 0 for a player who quits and the last read gives the score back.)
\<close>

datatype life_result = Unfinished life | Score u32 life

definition life_main :: "driver \<Rightarrow> (driver \<times> string) list \<Rightarrow> string \<Rightarrow> life \<Rightarrow> life_result option" where
  "life_main d es stdin s =
     (let s = sigusr1_handler (getstatus d) (init_status_bar (init_DNA_fragment s));
          s = deliver (s\<lparr>gstat := (gstat s)\<lparr>inf := 1\<rparr>\<rparr>);
          s = s\<lparr>gstat := (gstat s)\<lparr>pop := 1\<rparr>\<rparr>
      in do { r \<leftarrow> life_loop es stdin s;
              case r of
                Running _ s \<Rightarrow> Some (Unfinished s)
              | Over cmd s \<Rightarrow>
                  (let s = draw_status_bar s;
                       s = (if cmd = QUIT then s\<lparr>gstat := (gstat s)\<lparr>pop := 0\<rparr>\<rparr> else s);
                       s = deliver s
                   in Some (Score (pop (gstat s)) s)) })"

section \<open>The virus\<close>

definition life_ok :: "life \<Rightarrow> bool" where
  "life_ok s \<longleftrightarrow> length (dna_code s) = 5 \<and> length (last_guess s) = 5 \<and> length (guess (kargs s)) = 5 \<and> length (hint (kargs s)) = 5
     \<and> (\<forall>i < 5. dna_code s ! i < 4 \<and> bit (hint (kargs s) ! i) (unat (dna_code s ! i)))"

text \<open>Random numbers in which each base comes up again and again.\<close>

definition fair :: "life \<Rightarrow> bool" where
  "fair s \<longleftrightarrow> (\<forall>b < 4. \<forall>n. \<exists>m \<ge> n. randoms s m mod 4 = b)"

text \<open>What never changes in a round.\<close>

definition kept :: "life \<Rightarrow> life \<Rightarrow> bool" where
  "kept s s' \<longleftrightarrow> life_ok s' \<and> fair s' \<and> dna_code s' = dna_code s \<and> guess (kargs s') = guess (kargs s) \<and> vaccines s' = vaccines s
     \<and> last_guess s' = last_guess s"

lemma keptD: "kept s s' \<Longrightarrow> life_ok s'" "kept s s' \<Longrightarrow> fair s'" by (simp_all add: kept_def)

lemma kept_refl: "life_ok s \<Longrightarrow> fair s \<Longrightarrow> kept s s" by (simp add: kept_def)

lemma kept_trans: "kept s s' \<Longrightarrow> kept s' s'' \<Longrightarrow> kept s s''" by (simp add: kept_def)

lemma kept_random: "life_ok s \<Longrightarrow> fair s \<Longrightarrow> kept s (snd (random s))"
proof -
  assume s: "life_ok s" "fair s"
  have "\<exists>m \<ge> n. randoms s (Suc m) mod 4 = b" if "b < 4" for b n
  proof -
    obtain m where "Suc n \<le> m" "randoms s m mod 4 = b" using s(2) \<open>b < 4\<close> unfolding fair_def by blast
    then show ?thesis by (cases m) auto
  qed
  then show ?thesis using s(1) by (simp add: kept_def random_def fair_def life_ok_def)
qed

lemma kept_deliver: "life_ok s \<Longrightarrow> fair s \<Longrightarrow> kept s (deliver s)"
  by (simp add: kept_def deliver_def sigusr1_handler_def write_string_def life_ok_def fair_def Let_def split: option.split)

lemma kept_hint:
  assumes "life_ok s" "fair s" "i < 5 \<Longrightarrow> bit h (unat (dna_code s ! i))"
  shows "kept s (set_hint i h s)"
proof -
  have "\<forall>k < 5. bit ((hint (kargs s))[i := h] ! k) (unat (dna_code s ! k))"
    using assms by (cases "i < 5") (auto simp: life_ok_def nth_list_update list_update_beyond)
  then show ?thesis using assms(1,2) by (simp add: kept_def life_ok_def fair_def set_hint_def)
qed

lemma small_base: "(c :: u8) < 4 \<Longrightarrow> unat c < 4" by (simp add: word_less_nat_alt)

lemma kept_clear_hint:
  assumes "life_ok s" "fair s" "i < 5" "j < 4"
  shows "kept s (clear_hint (i, j) s)"
proof -
  note k0 = kept_deliver [OF assms(1,2)]
  define s1 where "s1 = snd (random (deliver s))"
  have k: "kept s s1" unfolding s1_def by (rule kept_trans [OF k0 kept_random [OF keptD [OF k0]]])
  have ok: "life_ok s1" "fair s1" by (rule keptD [OF k])+
  have c: "dna_code s1 = dna_code s" using k by (simp add: kept_def)
  have "kept s1 (set_hint i (hint (kargs s1) ! i AND NOT (push_bit j 1)) s1)" if "dna_code s ! i \<noteq> of_nat j"
  proof (rule kept_hint [OF ok])
    have "unat (dna_code s ! i) \<noteq> j" using that assms(4) by (metis of_nat_unat ucast_id)
    moreover have "bit (hint (kargs s1) ! i) (unat (dna_code s ! i))" "unat (dna_code s ! i) < 4"
      using ok(1) assms(3) small_base unfolding life_ok_def c by auto
    ultimately show "bit (hint (kargs s1) ! i AND NOT (push_bit j 1)) (unat (dna_code s1 ! i))"
      unfolding c by (auto simp: bit_and_iff bit_not_iff bit_push_bit_iff bit_exp_iff bit_1_iff)
  qed
  then show ?thesis using k kept_trans [OF k] kept_refl [OF assms(1,2)]
    by (auto simp: clear_hint_def case_prod_unfold Let_def s1_def random_def)
qed

lemma kept_fold:
  assumes "\<And>x s. x \<in> set xs \<Longrightarrow> life_ok s \<Longrightarrow> fair s \<Longrightarrow> kept s (f x s)" "life_ok s" "fair s"
  shows "kept s (fold f xs s)"
  using assms
proof (induction xs arbitrary: s)
  case (Cons x xs)
  have k: "kept s (f x s)" using Cons.prems by simp
  have "kept (f x s) (fold f xs (f x s))" using Cons.prems(1) keptD [OF k] by (intro Cons.IH) auto
  then show ?case using kept_trans [OF k] by simp
qed (simp add: kept_refl)

lemma kept_draw_hints: "life_ok s \<Longrightarrow> fair s \<Longrightarrow> kept s (draw_hints s)"
  unfolding draw_hints_def by (rule kept_fold) (simp_all add: kept_def write_string_def life_ok_def fair_def)

lemma kept_give_hints: "life_ok s \<Longrightarrow> fair s \<Longrightarrow> kept s (give_hints s)"
  unfolding give_hints_def by (rule kept_fold) (auto intro: kept_clear_hint)

lemma pick_base_code:
  assumes "life_ok s" "fair s" "(c :: u8) < 4"
  shows "\<exists>s'. pick_base c s = Some (c, s') \<and> kept s s'"
proof -
  obtain m where "randoms s m mod 4 = unat c" using assms(2) small_base [OF assms(3)] unfolding fair_def by blast
  then show ?thesis using assms(1,2)
  proof (induction m arbitrary: s)
    case 0
    then have "pick_base c s = Some (c, snd (random s))" by (subst pick_base.simps) (simp add: random_def)
    then show ?case using kept_random 0 by blast
  next
    case (Suc m)
    note k = kept_random [OF Suc.prems(2,3)]
    show ?case
    proof (cases "c = of_nat (randoms s 0 mod 4)")
      case True
      then have "pick_base c s = Some (c, snd (random s))" by (subst pick_base.simps) (simp add: random_def)
      then show ?thesis using k by blast
    next
      case False
      have "randoms (snd (random s)) m mod 4 = unat c" using Suc.prems(1) by (simp add: random_def)
      then obtain s' where "pick_base c (snd (random s)) = Some (c, s')" "kept (snd (random s)) s'"
        using Suc.IH keptD [OF k] by blast
      moreover have "pick_base c s = pick_base c (snd (random s))"
        using False by (subst pick_base.simps) (simp add: random_def)
      ultimately show ?thesis using kept_trans [OF k] by auto
    qed
  qed
qed


lemma kept_mutate:
  assumes "life_ok s" "fair s" "i < 5"
  shows "\<exists>s'. mutate acc i s = Some s' \<and> kept s s'"
proof -
  define s1 where "s1 = snd (random s)"
  have k1: "kept s s1" unfolding s1_def by (rule kept_random [OF assms(1,2)])
  note ok1 = keptD [OF k1]
  have c: "dna_code s1 ! i < 4" using ok1(1) assms(3) by (simp add: life_ok_def)
  obtain s2 where s2: "pick_base (dna_code s1 ! i) s1 = Some (dna_code s1 ! i, s2)" "kept s1 s2"
    using pick_base_code [OF ok1 c] by blast
  note ok2 = keptD [OF s2(2)]
  have same: "s2\<lparr>dna_code := (dna_code s2)[i := dna_code s1 ! i]\<rparr> = s2" using s2(2) by (simp add: kept_def)
  have reset: "kept s (set_hint i 0xF s)" if "life_ok s" "fair s" for i s
  proof (rule kept_hint [OF that])
    assume "i < 5"
    then have "unat (dna_code s ! i) < 4" using that(1) small_base by (simp add: life_ok_def)
    then have "unat (dna_code s ! i) \<in> {0, 1, 2, 3}" by auto
    then show "bit (0xF :: u8) (unat (dna_code s ! i))" by (auto simp: bit_simps)
  qed
  note k3 = kept_trans [OF s2(2) reset [OF ok2, of i]]
  note k4 = kept_trans [OF k3 kept_random [OF keptD [OF reset [OF ok2, of i]]]]
  note k5 = kept_trans [OF k4 reset [OF keptD [OF k4]]]
  show ?thesis
    using k1 kept_trans [OF k1 k5] s2(1)
    by (auto simp: mutate_def case_prod_unfold Let_def same s1_def [symmetric])
qed

lemma kept_mutations:
  assumes "life_ok s" "fair s" "\<forall>i \<in> set xs. i < 5"
  shows "\<exists>s'. for_each (mutate acc) xs s = Some s' \<and> kept s s'"
  using for_each_rule [of "\<lambda>ys. kept s" s xs "mutate acc"] kept_mutate keptD kept_trans kept_refl assms
  by (metis in_set_conv_decomp)

lemma send_vaccine_fields:
  "dna_code (send_vaccine d a p s) = dna_code s" "guess (kargs (send_vaccine d a p s)) = guess (kargs s)"
  "hint (kargs (send_vaccine d a p s)) = hint (kargs s)" "randoms (send_vaccine d a p s) = randoms s"
  "last_guess (send_vaccine d a p s) = last_guess s"
  "vaccines (send_vaccine d a p s) = vaccines s @ [push_bit 16 a OR p]"
  by (simp_all add: send_vaccine_def write_string_def Let_def)

lemma vaccinate_sends:
  assumes "life_ok s" "fair s"
  shows "\<exists>s'. vaccinate d s = Some s' \<and> dna_code s' = dna_code s \<and> life_ok s' \<and> fair s' \<and> last_guess s' = guess (kargs s)
    \<and> vaccines s' = vaccines s @ [if last_guess s = guess (kargs s) then push_bit 16 10
                                  else push_bit 16 (of_nat (find_quality s) * 10) OR of_nat (find_quality s) * 20]"
proof -
  define s0 where "s0 = s\<lparr>last_guess := guess (kargs s)\<rparr>"
  have len: "length (last_guess s) = 5" "length (guess (kargs s)) = 5" using assms(1) by (simp_all add: life_ok_def)
  have keep: "map (\<lambda>i. guess (kargs s) ! i) [0..<5] = guess (kargs s)" using len(2) by (metis map_nth)
  have rep: "list_all (\<lambda>i. last_guess s ! i = guess (kargs s) ! i) [0..<5] \<longleftrightarrow> last_guess s = guess (kargs s)"
    using len by (simp add: list_eq_iff_nth_eq list_all_iff Ball_def)
  have ok0: "life_ok s0" "fair s0" using assms by (simp_all add: s0_def life_ok_def fair_def)
  have q: "find_quality s0 = find_quality s" by (simp add: s0_def find_quality_def)
  note k = kept_give_hints [OF ok0]
  obtain s1 where s1: "for_each (mutate (find_quality s)) [0..<5] (give_hints s0) = Some s1" "kept (give_hints s0) s1"
    using kept_mutations [OF keptD [OF k], of "[0..<5]"] by auto
  have k2: "kept s0 (draw_hints s1)" using kept_trans [OF kept_trans [OF k s1(2)] kept_draw_hints [OF keptD [OF s1(2)]]] .
  have sent: "dna_code (send_vaccine d a p t) = dna_code s \<and> life_ok (send_vaccine d a p t) \<and> fair (send_vaccine d a p t) \<and>
    last_guess (send_vaccine d a p t) = guess (kargs s) \<and> vaccines (send_vaccine d a p t) = vaccines s @ [push_bit 16 a OR p]"
    if "kept s0 t" for a p t
    using that unfolding kept_def by (auto simp: s0_def life_ok_def fair_def send_vaccine_fields)
  show ?thesis
    using sent [OF kept_refl [OF ok0]] sent [OF k2] s1(1)
    by (auto simp: vaccinate_def rep keep s0_def [symmetric] q Let_def)
qed


text \<open>
  C40: vaccination comes back, and then the virus has the bases it had - the mutation loop ends on the
  base there is, so it never changes -, its true bases are still among the hints, and the driver is asked
  once: with aggression 10 and no purge for the guess of the last time, otherwise with ten and twenty times
  the number of right bases. (Random numbers that never show some base again could keep the loop going.)
\<close>
theorem vaccinate_keeps_virus:
  assumes "life_ok s" "fair s"
  shows "\<exists>s'. vaccinate d s = Some s' \<and> dna_code s' = dna_code s \<and> life_ok s' \<and> last_guess s' = guess (kargs s)
    \<and> vaccines s' = vaccines s @ [if last_guess s = guess (kargs s) then push_bit 16 10
                                  else push_bit 16 (of_nat (find_quality s) * 10) OR of_nat (find_quality s) * 20]"
  using vaccinate_sends [OF assms] by blast

definition life0 :: life where
  "life0 = \<lparr>dna_code = [0, 1, 2, 3, 0], last_guess = [255, 255, 255, 255, 255],
            kargs = \<lparr>direction = 0, selector = 0, guess = [0, 0, 2, 1, 0], hint = replicate 5 0xF\<rparr>,
            gstat = \<lparr>pop = 100, inf = 50\<rparr>, randoms = (\<lambda>n. n), signals = (\<lambda>_. None), vaccines = [], drawn = []\<rparr>"

lemma life0_ok: "life_ok life0" "fair life0"
proof -
  have "i \<in> {0, 1, 2, 3, 4}" if "i < (5 :: nat)" for i using that by auto
  then show "life_ok life0" by (fastforce simp: life_ok_def life0_def bit_simps)
  have "\<exists>m \<ge> n. m mod 4 = b" if "b < 4" for b n :: nat
    using that by (intro exI [of _ "4 * n + b"]) simp
  then show "fair life0" by (simp add: fair_def life0_def)
qed

theorem vaccinate_keeps_virus_witness:
  "\<exists>s'. vaccinate \<lparr>vaccinate_ok = \<lambda>_. True, keystroke = Some, getstatus = None\<rparr> life0 = Some s'
     \<and> dna_code s' = [0, 1, 2, 3, 0] \<and> vaccines s' = [push_bit 16 30 OR 60]"
proof -
  have "find_quality life0 = 3" by (simp add: find_quality_def life0_def upt_rec)
  moreover have "dna_code life0 = [0, 1, 2, 3, 0]" "vaccines life0 = []" "last_guess life0 \<noteq> guess (kargs life0)"
    by (simp_all add: life0_def)
  ultimately show ?thesis using vaccinate_keeps_virus [OF life0_ok] by fastforce
qed

section \<open>The game\<close>

text \<open>The driver of a key press gives back five bases and leaves the hints alone.\<close>

definition driver_ok :: "driver \<Rightarrow> bool" where
  "driver_ok d \<longleftrightarrow> (\<forall>k k'. keystroke d k = Some k' \<longrightarrow> length (guess k') = length (guess k) \<and> hint k' = hint k)"

definition alive :: "u8 list \<Rightarrow> life \<Rightarrow> bool" where
  "alive c s \<longleftrightarrow> life_ok s \<and> fair s \<and> dna_code s = c"

lemma alive_cong:
  "alive c s \<Longrightarrow> dna_code s' = dna_code s \<Longrightarrow> length (last_guess s') = length (last_guess s) \<Longrightarrow>
   length (guess (kargs s')) = length (guess (kargs s)) \<Longrightarrow> hint (kargs s') = hint (kargs s) \<Longrightarrow>
   randoms s' = randoms s \<Longrightarrow> alive c s'"
  by (auto simp: alive_def life_ok_def fair_def)

lemma alive_write_string: "alive c s \<Longrightarrow> alive c (write_string str x y s)"
  by (erule alive_cong) (simp_all add: write_string_def)

lemma alive_kept: "alive c s \<Longrightarrow> kept s s' \<Longrightarrow> alive c s'" by (simp add: alive_def kept_def)

lemma alive_sigusr1: "alive c s \<Longrightarrow> alive c (sigusr1_handler a s)"
  by (erule alive_cong) (simp_all add: sigusr1_handler_def write_string_def split: option.split)

lemma alive_deliver: "alive c s \<Longrightarrow> alive c (deliver s)"
  by (rule alive_kept, assumption, rule kept_deliver) (simp_all add: alive_def)

lemma alive_status: "alive c s \<Longrightarrow> alive c (draw_status_bar s)"
  unfolding draw_status_bar_def Let_def by (intro alive_write_string alive_deliver)

lemma alive_send_keystroke: "driver_ok d \<Longrightarrow> alive c s \<Longrightarrow> alive c (send_keystroke d dir s)"
  unfolding send_keystroke_def Let_def
  by (intro alive_sigusr1, erule alive_cong) (auto simp: driver_ok_def write_string_def split: option.split)

lemma alive_vaccinate: "alive c s \<Longrightarrow> \<exists>s'. vaccinate d s = Some s' \<and> alive c s'"
  using vaccinate_sends [of s d] by (auto simp: alive_def)

lemma alive_command: "driver_ok d \<Longrightarrow> alive c s \<Longrightarrow> \<exists>s'. handle_command d cmd s = Some s' \<and> alive c s'"
  by (cases cmd) (simp_all add: handle_command_def alive_send_keystroke alive_vaccinate)

lemma alive_show: "alive c s \<Longrightarrow> alive c (draw_hints (draw_status_bar s))"
  by (drule alive_status, rule alive_kept, assumption, rule kept_draw_hints) (simp_all add: alive_def)

fun end_state :: "life_end \<Rightarrow> life" where
  "end_state (Running stdin s) = s"
| "end_state (Over cmd s) = s"

lemma alive_loop:
  "\<forall>(d, new) \<in> set es. driver_ok d \<Longrightarrow> alive c s \<Longrightarrow> \<exists>r. life_loop es stdin s = Some r \<and> alive c (end_state r)"
proof (induction es stdin s rule: life_loop.induct)
  case (2 d new es stdin s)
  let ?s = "deliver (deliver s)"
  have a: "alive c (deliver s)" "alive c ?s" using "2.prems"(2) alive_deliver by auto
  obtain cmd rest where k: "key_command (stdin @ new) = (cmd, rest)" by fastforce
  have d: "driver_ok d" using "2.prems"(1) by simp
  obtain s' where s': "handle_command d cmd ?s = Some s'" "alive c s'"
    using alive_command [OF d a(2)] by blast
  show ?case
    using "2.IH" [OF refl _ refl _ k [symmetric] refl] "2.prems" s' a alive_show [OF s'(2)] by (auto simp: k Let_def)
qed simp

text \<open>The game is over only when the player quits or one of the two counts is 0.\<close>

lemma life_loop_over:
  "life_loop es stdin s = Some (Over cmd s') \<Longrightarrow> cmd = QUIT \<or> pop (gstat s') = 0 \<or> inf (gstat s') = 0"
proof (induction es stdin s rule: life_loop.induct)
  case (2 d new es stdin s)
  obtain c rest where k: "key_command (stdin @ new) = (c, rest)" by fastforce
  show ?case
    using "2.IH" [OF refl _ refl _ k [symmetric] refl] "2.prems"
    by (auto simp: k Let_def word_gt_0 split: if_splits option.splits elim!: Option.bind_eq_Some_conv [THEN iffD1, elim_format])
qed simp

lemma init_upto:
  assumes "n \<le> 5" "length (dna_code s) = 5" "length (last_guess s) = 5" "length (guess (kargs s)) = 5" "length (hint (kargs s)) = 5"
  shows "let s' = fold init_base [0..<n] s in
    dna_code s' = map (\<lambda>i. of_nat (randoms s i mod 4)) [0..<n] @ drop n (dna_code s) \<and>
    length (last_guess s') = 5 \<and> length (guess (kargs s')) = 5 \<and> length (hint (kargs s')) = 5 \<and>
    (\<forall>i < n. hint (kargs s') ! i = 0xF) \<and> randoms s' = (\<lambda>i. randoms s (i + n))"
  using assms(1)
proof (induction n)
  case (Suc n)
  then show ?case using assms(2-)
    by (auto simp: Let_def init_base_def random_def set_hint_def nth_list_update less_Suc_eq list_update_append
        Cons_nth_drop_Suc [symmetric] add.commute)
qed (simp add: assms)

definition blank :: "life \<Rightarrow> bool" where
  "blank s \<longleftrightarrow> length (dna_code s) = 5 \<and> length (last_guess s) = 5 \<and> length (guess (kargs s)) = 5 \<and> length (hint (kargs s)) = 5"

lemma alive_init:
  assumes "blank s" "fair s"
  shows "alive (map (\<lambda>i. of_nat (randoms s i mod 4)) [0..<5]) (init_DNA_fragment s)"
proof -
  let ?s = "s\<lparr>kargs := (kargs s)\<lparr>selector := 0\<rparr>\<rparr>"
  have i: "dna_code (init_DNA_fragment s) = map (\<lambda>i. of_nat (randoms s i mod 4)) [0..<5]"
    "length (last_guess (init_DNA_fragment s)) = 5" "length (guess (kargs (init_DNA_fragment s))) = 5"
    "length (hint (kargs (init_DNA_fragment s))) = 5" "\<forall>i < 5. hint (kargs (init_DNA_fragment s)) ! i = 0xF"
    "randoms (init_DNA_fragment s) = (\<lambda>i. randoms s (i + 5))"
    using init_upto [of 5 ?s] assms(1) unfolding blank_def init_DNA_fragment_def by (simp_all add: Let_def)
  have f: "\<exists>m \<ge> n. randoms s (m + 5) mod 4 = b" if "b < 4" for b n
  proof -
    obtain m where "n + 5 \<le> m" "randoms s m mod 4 = b" using assms(2) \<open>b < 4\<close> unfolding fair_def by blast
    then show ?thesis by (intro exI [of _ "m - 5"]) simp
  qed
  have b: "(of_nat (v mod 4) :: u8) < 4" "bit (0xF :: u8) (unat (of_nat (v mod 4) :: u8))" for v
  proof -
    have "v mod 4 \<in> {0, 1, 2, 3}" by auto
    then show "(of_nat (v mod 4) :: u8) < 4" "bit (0xF :: u8) (unat (of_nat (v mod 4) :: u8))" by (auto simp: bit_simps)
  qed
  have "fair (init_DNA_fragment s)" using f by (simp add: fair_def i(6))
  moreover have "life_ok (init_DNA_fragment s)" unfolding life_ok_def using i(2-5) b by (simp add: i(1))
  ultimately show ?thesis by (simp add: alive_def i(1))
qed

lemma alive_status_bar: "alive c s \<Longrightarrow> alive c (init_status_bar s)"
proof -
  have "alive c (fold (\<lambda>i s. write_string (g i s) (x i) y s) is s)" if "alive c s" for g x y and "is" :: "nat list" and s
    using that by (induction "is" arbitrary: s) (simp_all add: alive_write_string)
  then show "alive c s \<Longrightarrow> alive c (init_status_bar s)" by (simp add: init_status_bar_def Let_def alive_write_string)
qed

fun result_state :: "life_result \<Rightarrow> life" where
  "result_state (Unfinished s) = s"
| "result_state (Score v s) = s"

text \<open>
  C39: no round of the game hangs, whatever keys are typed and whenever signals come: any number of rounds
  can be played, after which the game is running or over. At that time the virus has
  the bases that the first five random numbers gave it - the mutations the screen warns of do not happen -,
  and the hints still name them. (That it is over at some time is up to the player and the driver.)
\<close>
theorem life_main_virus:
  assumes "blank s" "fair s" "\<forall>(d, new) \<in> set es. driver_ok d"
  shows "\<exists>r. life_main d es stdin s = Some r
     \<and> dna_code (result_state r) = map (\<lambda>i. of_nat (randoms s i mod 4)) [0..<5]
     \<and> (\<forall>i < 5. bit (hint (kargs (result_state r)) ! i) (unat (dna_code (result_state r) ! i)))"
proof -
  let ?c = "map (\<lambda>i. of_nat (randoms s i mod 4)) [0..<5]"
  define s1 where "s1 = sigusr1_handler (getstatus d) (init_status_bar (init_DNA_fragment s))"
  define s2 where "s2 = deliver (s1\<lparr>gstat := (gstat s1)\<lparr>inf := 1\<rparr>\<rparr>)"
  define s3 where "s3 = s2\<lparr>gstat := (gstat s2)\<lparr>pop := 1\<rparr>\<rparr>"
  have g: "alive ?c (u\<lparr>gstat := x\<rparr>)" if "alive ?c u" for u x using that by (rule alive_cong) simp_all
  have "alive ?c s1" unfolding s1_def by (intro alive_sigusr1 alive_status_bar alive_init assms)
  then have "alive ?c s3" unfolding s3_def s2_def by (intro g alive_deliver)
  then obtain r where r: "life_loop es stdin s3 = Some r" "alive ?c (end_state r)"
    using alive_loop [OF assms(3)] by blast
  have m: "life_main d es stdin s = Option.bind (life_loop es stdin s3) (\<lambda>r. case r of
      Running _ s \<Rightarrow> Some (Unfinished s)
    | Over cmd s \<Rightarrow> (let s = draw_status_bar s; s = (if cmd = QUIT then s\<lparr>gstat := (gstat s)\<lparr>pop := 0\<rparr>\<rparr> else s); s = deliver s
                   in Some (Score (pop (gstat s)) s)))"
    unfolding life_main_def Let_def s1_def s2_def s3_def by (rule refl)
  have "\<exists>r'. life_main d es stdin s = Some r' \<and> alive ?c (result_state r')"
  proof (cases r)
    case (Running x s')
    then show ?thesis using r m by simp
  next
    case (Over cmd s')
    then have "alive ?c (deliver (if cmd = QUIT then (draw_status_bar s')\<lparr>gstat := (gstat (draw_status_bar s'))\<lparr>pop := 0\<rparr>\<rparr> else draw_status_bar s'))"
      using r(2) alive_status g alive_deliver by simp
    then show ?thesis using r(1) m Over by (auto simp: Let_def)
  qed
  then show ?thesis by (auto simp: alive_def life_ok_def)
qed

theorem life_main_virus_witness:
  "\<exists>r. life_main \<lparr>vaccinate_ok = \<lambda>_. True, keystroke = Some, getstatus = None\<rparr>
     [(\<lparr>vaccinate_ok = \<lambda>_. True, keystroke = Some, getstatus = None\<rparr>, '' '')] [] life0 = Some r
     \<and> dna_code (result_state r) = [0, 1, 2, 3, 0]"
proof -
  have "blank life0" by (simp add: blank_def life0_def)
  moreover have "map (\<lambda>i. of_nat (randoms life0 i mod 4)) [0..<5] = [0, 1, 2, 3, 0 :: u8]"
    by (simp add: life0_def upt_rec)
  ultimately show ?thesis
    using life_main_virus [of life0 "[(\<lparr>vaccinate_ok = \<lambda>_. True, keystroke = Some, getstatus = None\<rparr>, '' '')]"] life0_ok(2)
    by (fastforce simp: driver_ok_def)
qed

end
