(* ===== verification/Spec2Isabelle.thy ===== *)
theory Spec2Isabelle
  imports Prelude KLib FileSys Paging Scheduling Devices Process Kernel Preempt TuxLdisc Vga Console Terminal Keyboard Idt Syscall
    Photo World Commands WorldLists Quest Play RoomView TextGfx ModeX Picture ModeSet Input Redraw Adventure Verbs Game GameRun Life
begin

text \<open>
  Verification of the C programs of the ECE391 course work: the teaching kernel of
  \<open>mp3/student-distrib\<close>, the adventure game of \<open>mp2\<close> with its picture converter, the line discipline of
  \<open>mp2/module\<close>, and the player's side of the game of \<open>mp1\<close>. Every definition follows the C text: a
  struct is a record, an enum a datatype, a machine integer a word (or an integer where the code
  stays far from overflow), an error a value, and an access through NULL, outside an array or to
  storage that is gone is \<open>None\<close>; so a theorem that an operation is \<open>Some\<close> says that it is safe.

  \<^bold>\<open>The kernel.\<close>
  \<^item> \<open>KLib\<close>: \<open>lib.c\<close> - strings, memory blocks, \<open>itoa\<close>, \<open>printf\<close>. The block operations are equal to
    plain copies and fills, the string operations to functions on the text before the NUL.
  \<^item> \<open>FileSys\<close>: \<open>filesys.c\<close> - directory, inodes and data blocks in one memory image, and the descriptors
    of files and directories. \<open>read_data\<close> is the contents of the file over block borders.
  \<^item> \<open>Paging\<close>: \<open>paging.c\<close> - the page tables and the slots of processes; an invariant of all its
    operations keeps user pages apart and off the kernel. Addresses the linker chooses are the
    parameter \<open>layout\<close>.
  \<^item> \<open>Scheduling\<close>: \<open>scheduling.c\<close> - the run queue as an array; \<open>live\<close> is the queue it stands for, the
    interpretation \<open>tq\<close> makes it a bounded queue, and the selection loop is round robin.
  \<^item> \<open>Process\<close>, \<open>Kernel\<close>: \<open>execute\<close>, \<open>halt\<close>, \<open>file_to_mem\<close> and the timer. \<open>Kernel\<close> holds an abstract machine
    (run queue of slots, parents), which each kernel operation refines, and the invariant of all
    states reached by system calls that run to their end and by timer ticks between them. The change
    of stacks in assembly is the return value of the operations.
  \<^item> \<open>Preempt\<close>: the timer in the middle of \<open>execute\<close> and of \<open>halt\<close>, at the places where the code has
    interrupts on (the \<open>sti\<close> at the end of the set-up of a PCB, \<open>filesys.c:379\<close>, and the part of \<open>halt\<close>
    before its \<open>cli\<close>; the gate of the system calls is a trap gate). There \<open>cur_pcb\<close> is already another
    process than the head of the run queue, and the theorems show a tick that breaks the invariant.
  \<^item> \<open>Devices\<close>: \<open>i8259.c\<close>, \<open>rtc.c\<close>; \<open>Vga\<close>: the cursor registers of \<open>vga.c\<close>; \<open>Idt\<close>: \<open>interrupts.c\<close>.
  \<^item> \<open>Console\<close>, \<open>Terminal\<close>: \<open>console.c\<close>. \<open>Console\<close> has the code on terminals, screen, cursor and input
    buffer; \<open>Terminal\<close> an abstract terminal (cells, cursor, wrapping, scrolling) that output
    refines, the isolation of hidden terminals, and input. Functions that call each other are
    given a nesting depth; one level is enough because scrolling switches scrolling off. The
    bytes read behind a terminal's own buffer are the parameter \<open>spill\<close>.
  \<^item> \<open>Keyboard\<close>: \<open>keyboard.c\<close> - from scan codes to the line a read returns.
  \<^item> \<open>Syscall\<close>: \<open>syscall.c\<close> - the system calls on descriptors, processes, terminal and clock, with the
    interrupts that arrive during a read as a list in the record \<open>world\<close>.

  \<^bold>\<open>The adventure game.\<close>
  \<^item> \<open>World\<close>, \<open>Commands\<close>: \<open>world.c\<close> - rooms, objects on linked lists, flags, moves, and typed commands;
    \<open>WorldLists\<close> relates the linked lists to lists. \<open>Quest\<close> states the rules of the game without
    pointers and proves that the code follows them (\<open>step_refines\<close>); \<open>Play\<close> adds \<open>build_world\<close>, a
    winning game and what victory needs.
  \<^item> \<open>Photo\<close>: the readers of \<open>photo.c\<close> and the converter \<open>mp2photo.c\<close>; \<open>RoomView\<close>: the callbacks that draw
    a row or a column of a room, as cuts through one scene.
  \<^item> \<open>TextGfx\<close>: font and status line of \<open>text.c\<close>.
  \<^item> \<open>ModeX\<close>, \<open>Picture\<close>, \<open>ModeSet\<close>: \<open>modex.c\<close> - the register tables and drawing code on a model of the
    card (index and data registers, write mask, four planes, palette, write protection); \<open>Picture\<close>
    shows that scrolling and drawing keep the picture in the build buffer, for any source of lines
    (locale \<open>line_source\<close>); \<open>ModeSet\<close> what the mode switch and the status bar leave.
  \<^item> \<open>Input\<close>: the keyboard part of \<open>input.c\<close>.
  \<^item> \<open>Redraw\<close>: which actions change the picture of a room and how they say so.
  \<^item> \<open>Adventure\<close>: \<open>adventure.c\<close> - verbs, scrolling, the rounds of the main loop, the clock; \<open>Verbs\<close> proves
    the facts about abbreviations and ticks, \<open>Game\<close> that one round keeps the invariant \<open>game_ok\<close>
    (the callbacks interpret \<open>line_source\<close>), \<open>GameRun\<close> that games started from files never get stuck
    and always show the room the player is in.

  \<^bold>\<open>The others.\<close>
  \<^item> \<open>TuxLdisc\<close>: \<open>tuxctl-ld.c\<close> - two ring buffers (interpretations \<open>rx\<close> and \<open>tx\<close> of the bounded queue) and
    the framing of packets.
  \<^item> \<open>Life\<close>: \<open>mp1/life-or-death.c\<close> - guesses, hints, vaccination, keys and rounds; the start and end
    screens are not modelled.

  \<open>Prelude\<close> has the shared loops (\<open>for_each\<close>), ring buffer arithmetic, and the interfaces
  \<open>bounded_fifo\<close> (provided by the run queue and the two ring buffers) and \<open>slot_allocator\<close> (by process
  slots and file descriptors). \<open>pixel_codec\<close> in \<open>Photo\<close> is provided by both picture formats.

  \<^bold>\<open>Loops.\<close> Loops with a bound are recursive functions with a measure. Those that may run for ever are
  partial functions into \<open>option\<close>: the walks along linked lists (they end because the lists are
  chains, an invariant), the selection loop of the scheduler (it ends when a process is runnable),
  the missed ticks, and the choice of a base in \<open>Life\<close> (it ends when the random numbers allow it).
  Random numbers are a sequence in the state, without assumptions where none are stated.

  \<^bold>\<open>Parameters.\<close> \<open>malloc\<close> and the contents of files (\<open>Photo\<close>, \<open>Play\<close>), what \<open>write_room\<close> of the serial
  driver answers (\<open>TuxLdisc\<close>), the addresses of the linker (\<open>Paging\<close>), what lies behind a buffer
  (\<open>Console\<close>), the success of \<open>ioperm\<close>, \<open>open\<close> and \<open>mmap\<close> (\<open>ModeX\<close>), what the driver does with a key
  (\<open>Life\<close>), the unspecified values of local variables.

  \<^bold>\<open>Interrupts and threads.\<close> An interrupt, a signal or the helper thread of the game is an event at the
  places that are named here: a timer tick between two system calls (\<open>Kernel\<close>), device interrupts while
  a read polls (\<open>Console\<close>, \<open>Syscall\<close>), the helper thread of the game between two rounds (\<open>Adventure\<close>),
  \<open>SIGUSR1\<close> before each read of the game status (\<open>Life\<close>). The timer interrupt itself is one step
  because its gate turns interrupts off. \<open>execute\<close> and \<open>halt\<close> are modelled as run without
  interruption although the code lets the timer in: they are composed of the parts before and after
  these places (\<open>exec_begin\<close>, \<open>exec_end\<close>, \<open>halt_begin\<close>, \<open>halt_end\<close>), the properties in \<open>Kernel\<close> are
  about runs without interruption, and \<open>Preempt\<close> shows that they fail otherwise. The methods of
  \<open>TuxLdisc\<close> are modelled one after the other too; the code takes its lock for the buffers only.

  \<^bold>\<open>Hypotheses on the kernel.\<close> The PCB memory is zero at the start (\<open>boot_state\<close>), which the code relies on
  for the descriptors it never sets up. \<open>kernel_invariant\<close> asks for programs that can be read in full
  (\<open>sound_programs\<close>); \<open>failed_execute\<close> shows the slot that is lost for the others.

  \<^bold>\<open>Hypotheses on the game.\<close> Photos fill the screen (\<open>big_photos\<close>; all those in \<open>images/\<close> do): the code
  scrolls to negative positions for smaller ones. The status message is empty and the typed line
  a string at the start, as the initialisers of the C variables say.

  \<^bold>\<open>Not modelled.\<close> The boot code, the exception messages and the tests of the kernel; its user
  programs; the terminal settings in \<open>input.c\<close>; the stack of cleanup functions in \<open>assert.c\<close>; the Tux
  ioctls, whose bodies are empty; the assembly of \<open>mp1\<close>, whose kernel is not in the repository; the
  delays between port writes; and the hardware of ECE411. Waiting for the clock is left out, only
  the computation of the next tick is there.
\<close>

end
